(* ===== verification/Sica_Prelude.thy ===== *)
theory Sica_Prelude
  imports Main "HOL-Library.Signed_Division"
begin

text \<open>
  Shared vocabulary of the development: the parts of Rust's language and standard library
  that the modelled sources use, and the generic lemmas the component theories share.

  \<^item> A Rust \<open>String\<close>/\<open>&str\<close> is a HOL \<open>string\<close> read as its UTF-8 \<^emph>\<open>bytes\<close>:
    \<open>length\<close> is \<open>str::len\<close>, \<open>chars_count\<close> is \<open>chars().count()\<close> (the bytes that are not
    continuation bytes), and \<open>is_char_boundary\<close> is the test of the same name.
  \<^item> \<open>u32\<close> and \<open>u64\<close> values are \<open>nat\<close>, \<open>i64\<close> values are \<open>int\<close>; an operation that can
    leave the range is written with its wrap-around (\<open>wrap_u32\<close>, \<open>wrap_i64\<close>: the release
    profile of the workspace, where overflow checks are off), its saturation or its check.
  \<^item> \<open>Vec\<close> and iterator operations (\<open>position\<close>, \<open>retain\<close>, \<open>insert\<close>, \<open>remove\<close>,
    \<open>find_map\<close>) are list functions; the ones that panic out of range are only ever called
    at an index that a previous \<open>position\<close> returned.
\<close>

named_theorems rust_defs \<open>definitions of the Rust standard-library vocabulary\<close>

section \<open>Machine integers\<close>

abbreviation U32_MAX :: nat where "U32_MAX \<equiv> 4294967295"
abbreviation I64_MAX :: int where "I64_MAX \<equiv> 9223372036854775807"
abbreviation I64_MIN :: int where "I64_MIN \<equiv> - 9223372036854775808"

definition wrap_u32 :: "nat \<Rightarrow> nat" where
  [rust_defs]: "wrap_u32 n = n mod 4294967296"

definition saturating_add_u32 :: "nat \<Rightarrow> nat \<Rightarrow> nat" where
  [rust_defs]: "saturating_add_u32 a b = min U32_MAX (a + b)"

definition in_i64 :: "int \<Rightarrow> bool" where
  [rust_defs]: "in_i64 x \<longleftrightarrow> I64_MIN \<le> x \<and> x \<le> I64_MAX"

definition wrap_i64 :: "int \<Rightarrow> int" where
  [rust_defs]: "wrap_i64 x = (x + 9223372036854775808) mod 18446744073709551616 - 9223372036854775808"

text \<open>\<open>x as i64\<close> for a \<open>u64\<close>, and the checked operations of \<open>i64\<close>.\<close>

definition u64_as_i64 :: "nat \<Rightarrow> int" where
  [rust_defs]: "u64_as_i64 n = wrap_i64 (int n)"

definition checked_add_i64 :: "int \<Rightarrow> int \<Rightarrow> int option" where
  [rust_defs]: "checked_add_i64 a b = (if in_i64 (a + b) then Some (a + b) else None)"

definition checked_mul_i64 :: "int \<Rightarrow> int \<Rightarrow> int option" where
  [rust_defs]: "checked_mul_i64 a b = (if in_i64 (a * b) then Some (a * b) else None)"

lemma wrap_u32_le: "wrap_u32 n \<le> U32_MAX"
  by (simp add: wrap_u32_def)

lemma wrap_u32_id [simp]: "n \<le> U32_MAX \<Longrightarrow> wrap_u32 n = n"
  by (simp add: wrap_u32_def)

lemma saturating_add_le: "saturating_add_u32 a b \<le> a + b"
  by (simp add: saturating_add_u32_def)

lemma saturating_add_bound: "saturating_add_u32 a b \<le> U32_MAX"
  by (simp add: saturating_add_u32_def)

lemma in_i64_wrap: "in_i64 (wrap_i64 x)"
proof -
  have "0 \<le> (x + 9223372036854775808) mod 18446744073709551616"
    and "(x + 9223372036854775808) mod 18446744073709551616 < 18446744073709551616"
    by simp_all
  then show ?thesis by (simp add: in_i64_def wrap_i64_def)
qed

lemma wrap_i64_id [simp]: "in_i64 x \<Longrightarrow> wrap_i64 x = x"
  by (simp add: in_i64_def wrap_i64_def)

section \<open>Vectors and iterators\<close>

fun position :: "('a \<Rightarrow> bool) \<Rightarrow> 'a list \<Rightarrow> nat option" where
  "position P [] = None"
| "position P (x # xs) = (if P x then Some 0 else map_option Suc (position P xs))"

definition rposition :: "('a \<Rightarrow> bool) \<Rightarrow> 'a list \<Rightarrow> nat option" where
  "rposition P xs = map_option (\<lambda>i. length xs - 1 - i) (position P (rev xs))"

definition insert_at :: "nat \<Rightarrow> 'a \<Rightarrow> 'a list \<Rightarrow> 'a list" where
  "insert_at i x xs = take i xs @ x # drop i xs"

definition remove_at :: "nat \<Rightarrow> 'a list \<Rightarrow> 'a list" where
  "remove_at i xs = take i xs @ drop (Suc i) xs"

fun find_map :: "('a \<Rightarrow> 'b option) \<Rightarrow> 'a list \<Rightarrow> 'b option" where
  "find_map f [] = None"
| "find_map f (x # xs) = (case f x of Some y \<Rightarrow> Some y | None \<Rightarrow> find_map f xs)"

text \<open>\<open>last_mut\<close> followed by a write: update the last element, if there is one.\<close>

fun update_last :: "('a \<Rightarrow> 'a) \<Rightarrow> 'a list \<Rightarrow> 'a list" where
  "update_last f [] = []"
| "update_last f [x] = [f x]"
| "update_last f (x # y # ys) = x # update_last f (y # ys)"

text \<open>\<open>iter_mut().rev().find(P)\<close> followed by a write: update the last element satisfying P.\<close>

definition update_rfind :: "('a \<Rightarrow> bool) \<Rightarrow> ('a \<Rightarrow> 'a) \<Rightarrow> 'a list \<Rightarrow> 'a list" where
  "update_rfind P f xs =
     (case rposition P xs of None \<Rightarrow> xs | Some i \<Rightarrow> xs[i := f (xs ! i)])"

lemma position_None: "position P xs = None \<longleftrightarrow> (\<forall>x \<in> set xs. \<not> P x)"
  by (induction xs) auto

lemma position_Some:
  "position P xs = Some i \<longleftrightarrow> i < length xs \<and> P (xs ! i) \<and> (\<forall>j < i. \<not> P (xs ! j))"
proof (induction xs arbitrary: i)
  case Nil
  then show ?case by simp
next
  case (Cons x xs)
  then show ?case
    by (cases i) (auto simp: All_less_Suc2)
qed

lemma position_append:
  "position P (xs @ ys) =
     (case position P xs of Some i \<Rightarrow> Some i
      | None \<Rightarrow> map_option ((+) (length xs)) (position P ys))"
proof (induction xs)
  case Nil
  then show ?case by (cases "position P ys") simp_all
next
  case (Cons x xs)
  then show ?case by (cases "position P xs"; cases "position P ys") simp_all
qed

lemma position_bound: "position P xs = Some i \<Longrightarrow> i < length xs"
  by (simp add: position_Some)

lemma position_sat: "position P xs = Some i \<Longrightarrow> P (xs ! i)"
  by (simp add: position_Some)

lemma rposition_Some:
  assumes "rposition P xs = Some i"
  shows "i < length xs" and "P (xs ! i)"
proof -
  from assms obtain j where j: "position P (rev xs) = Some j" and i: "i = length xs - 1 - j"
    by (auto simp: rposition_def)
  from j have jl: "j < length xs" and Pj: "P (rev xs ! j)"
    by (auto simp: position_Some)
  from i jl show "i < length xs" by linarith
  from Pj jl i show "P (xs ! i)" by (simp add: rev_nth)
qed

lemma length_insert_at [simp]: "length (insert_at i x xs) = Suc (length xs)"
  by (simp add: insert_at_def)

lemma set_insert_at [simp]: "set (insert_at i x xs) = insert x (set xs)"
  by (metis Un_commute append_take_drop_id insert_at_def list.simps(15) set_append Un_insert_left)

lemma set_remove_at_subset: "set (remove_at i xs) \<subseteq> set xs"
  by (auto simp: remove_at_def dest: in_set_takeD in_set_dropD)

lemma length_remove_at: "i < length xs \<Longrightarrow> length (remove_at i xs) = length xs - 1"
  by (simp add: remove_at_def)

lemma distinct_remove_at:
  assumes "distinct xs"
  shows "distinct (remove_at i xs)"
proof -
  have "set (drop (Suc i) xs) \<subseteq> set (drop i xs)"
    by (rule set_drop_subset_set_drop) simp
  moreover have "set (take i xs) \<inter> set (drop i xs) = {}"
    using assms by (rule set_take_disj_set_drop_if_distinct) simp
  ultimately show ?thesis
    using assms by (auto simp: remove_at_def)
qed

lemma map_remove_at: "map f (remove_at i xs) = remove_at i (map f xs)"
  by (simp add: remove_at_def take_map drop_map)

lemma set_remove_at_distinct:
  assumes "distinct xs" and "i < length xs"
  shows "set (remove_at i xs) = set xs - {xs ! i}"
proof -
  have xs: "xs = take i xs @ xs ! i # drop (Suc i) xs"
    using assms(2) by (rule id_take_nth_drop)
  have "distinct (take i xs @ xs ! i # drop (Suc i) xs)"
    using assms(1) xs by simp
  then have "xs ! i \<notin> set (take i xs)" and "xs ! i \<notin> set (drop (Suc i) xs)"
    by (simp_all add: distinct_append)
  moreover have "set xs = set (take i xs) \<union> {xs ! i} \<union> set (drop (Suc i) xs)"
    by (subst xs) simp
  ultimately show ?thesis by (auto simp: remove_at_def)
qed

lemma find_map_append:
  "find_map f (xs @ ys) = (case find_map f xs of Some y \<Rightarrow> Some y | None \<Rightarrow> find_map f ys)"
  by (induction xs) (auto split: option.splits)

lemma length_update_last [simp]: "length (update_last f xs) = length xs"
  by (induction f xs rule: update_last.induct) auto

lemma map_update_last: "(\<And>x. g (f x) = g x) \<Longrightarrow> map g (update_last f xs) = map g xs"
  by (induction f xs rule: update_last.induct) auto

lemma length_update_rfind [simp]: "length (update_rfind P f xs) = length xs"
  by (simp add: update_rfind_def split: option.splits)

lemma map_update_rfind:
  assumes "\<And>x. g (f x) = g x"
  shows "map g (update_rfind P f xs) = map g xs"
proof (cases "rposition P xs")
  case None
  then show ?thesis by (simp add: update_rfind_def)
next
  case (Some i)
  then have "i < length xs" by (rule rposition_Some)
  with Some show ?thesis
    by (simp add: update_rfind_def map_update assms list_update_same_conv)
qed

section \<open>Text\<close>

text \<open>Continuation bytes are those of the form \<open>10xxxxxx\<close>.\<close>

definition is_cont_byte :: "char \<Rightarrow> bool" where
  "is_cont_byte c \<longleftrightarrow> 128 \<le> (of_char c :: nat) \<and> (of_char c :: nat) < 192"

definition is_char_boundary :: "string \<Rightarrow> nat \<Rightarrow> bool" where
  "is_char_boundary s i \<longleftrightarrow>
     i = 0 \<or> i = length s \<or> (i < length s \<and> \<not> is_cont_byte (s ! i))"

definition chars_count :: "string \<Rightarrow> nat" where
  "chars_count s = length (filter (\<lambda>c. \<not> is_cont_byte c) s)"

text \<open>\<open>chars().take(n).collect()\<close>: stop at the \<open>n+1\<close>-st byte that opens a character.\<close>

fun take_chars :: "nat \<Rightarrow> string \<Rightarrow> string" where
  "take_chars n [] = []"
| "take_chars n (c # cs) =
     (if is_cont_byte c then c # take_chars n cs
      else case n of 0 \<Rightarrow> [] | Suc m \<Rightarrow> c # take_chars m cs)"

lemma chars_count_append [simp]: "chars_count (s @ t) = chars_count s + chars_count t"
  by (simp add: chars_count_def)

lemma chars_count_le_length: "chars_count s \<le> length s"
  by (simp add: chars_count_def)

lemma chars_count_take_chars: "chars_count (take_chars n s) = min n (chars_count s)"
  by (induction n s rule: take_chars.induct) (auto simp: chars_count_def split: nat.splits)

text \<open>
  White space in the sense of \<open>char::is_whitespace\<close> (the Unicode \<open>White_Space\<close> property), on
  the UTF-8 encoding of one character.
\<close>

fun is_ws :: "nat list \<Rightarrow> bool" where
  "is_ws [b] = ((9 \<le> b \<and> b \<le> 13) \<or> b = 32)"
| "is_ws [a, b] = (a = 194 \<and> (b = 133 \<or> b = 160))"
| "is_ws [a, b, c] =
     ((a = 225 \<and> b = 154 \<and> c = 128)
    \<or> (a = 226 \<and> b = 128 \<and> ((128 \<le> c \<and> c \<le> 138) \<or> c = 168 \<or> c = 169 \<or> c = 175))
    \<or> (a = 226 \<and> b = 129 \<and> c = 159)
    \<or> (a = 227 \<and> b = 128 \<and> c = 128))"
| "is_ws _ = False"

definition codes :: "string \<Rightarrow> nat list" where
  "codes s = map of_char s"

text \<open>Bytes of the white-space character a text opens (closes) with; 0 when there is none.\<close>

definition ws_head :: "string \<Rightarrow> nat" where
  "ws_head s = (if is_ws (codes (take 1 s)) then 1
                else if is_ws (codes (take 2 s)) then 2
                else if is_ws (codes (take 3 s)) then 3 else 0)"

definition ws_last :: "string \<Rightarrow> nat" where
  "ws_last s = (if is_ws (codes (drop (length s - 1) s)) then 1
                else if is_ws (codes (drop (length s - 2) s)) then 2
                else if is_ws (codes (drop (length s - 3) s)) then 3 else 0)"

lemma ws_head_Nil [simp]: "ws_head [] = 0"
  by (simp add: ws_head_def codes_def)

lemma ws_last_Nil [simp]: "ws_last [] = 0"
  by (simp add: ws_last_def codes_def)

function trim_start :: "string \<Rightarrow> string" where
  "trim_start s = (if ws_head s = 0 then s else trim_start (drop (ws_head s) s))"
  by pat_completeness auto
termination
proof (relation "measure length", goal_cases)
  case (2 s)
  then have "s \<noteq> []" by (cases s) simp_all
  with 2 show ?case by simp
qed simp

function trim_end :: "string \<Rightarrow> string" where
  "trim_end s = (if ws_last s = 0 then s else trim_end (take (length s - ws_last s) s))"
  by pat_completeness auto
termination
proof (relation "measure length", goal_cases)
  case (2 s)
  then have "s \<noteq> []" by (cases s) simp_all
  with 2 show ?case by simp
qed simp

declare trim_start.simps [simp del] trim_end.simps [simp del]

definition trim :: "string \<Rightarrow> string" where
  "trim s = trim_end (trim_start s)"

lemma trim_start_suffix: "\<exists>n. trim_start s = drop n s"
proof (induction s rule: trim_start.induct)
  case (1 s)
  show ?case
  proof (cases "ws_head s = 0")
    case True
    then show ?thesis by (metis drop0 trim_start.simps)
  next
    case False
    with 1 obtain n where "trim_start (drop (ws_head s) s) = drop n (drop (ws_head s) s)"
      by blast
    with False show ?thesis by (metis drop_drop trim_start.simps)
  qed
qed

lemma trim_end_prefix: "\<exists>n. trim_end s = take n s"
proof (induction s rule: trim_end.induct)
  case (1 s)
  show ?case
  proof (cases "ws_last s = 0")
    case True
    then show ?thesis by (metis order_refl take_all trim_end.simps)
  next
    case False
    with 1 obtain n where
      "trim_end (take (length s - ws_last s) s) = take n (take (length s - ws_last s) s)"
      by blast
    with False show ?thesis by (metis take_take trim_end.simps)
  qed
qed

lemma length_trim_end: "length (trim_end s) \<le> length s"
  using trim_end_prefix [of s] by auto

lemma length_trim: "length (trim s) \<le> length s"
proof -
  have "length (trim_start s) \<le> length s"
    using trim_start_suffix [of s] by auto
  with length_trim_end [of "trim_start s"] show ?thesis by (simp add: trim_def)
qed

lemma chars_count_trim_end: "chars_count (trim_end s) \<le> chars_count s"
proof -
  obtain n where n: "trim_end s = take n s" using trim_end_prefix by blast
  have "chars_count s = chars_count (take n s) + chars_count (drop n s)"
    by (metis append_take_drop_id chars_count_append)
  with n show ?thesis by simp
qed

lemma trim_start_id: "ws_head s = 0 \<Longrightarrow> trim_start s = s"
  by (subst trim_start.simps) simp

lemma trim_end_id: "ws_last s = 0 \<Longrightarrow> trim_end s = s"
  by (subst trim_end.simps) simp

lemma ws_head_trim_start: "ws_head (trim_start s) = 0"
proof (induction s rule: trim_start.induct)
  case (1 s)
  then show ?case by (cases "ws_head s = 0") (simp_all add: trim_start_id, subst trim_start.simps, simp)
qed

lemma ws_last_trim_end: "ws_last (trim_end s) = 0"
proof (induction s rule: trim_end.induct)
  case (1 s)
  then show ?case by (cases "ws_last s = 0") (simp_all add: trim_end_id, subst trim_end.simps, simp)
qed

lemma ws_head_0_iff: "ws_head s = 0 \<longleftrightarrow> (\<forall>k \<in> {1, 2, 3}. \<not> is_ws (codes (take k s)))"
  by (simp add: ws_head_def)

lemma ws_head_take:
  assumes "ws_head s = 0"
  shows "ws_head (take n s) = 0"
proof -
  have none: "\<not> is_ws (codes (take j s))" if "j \<le> 3" for j
  proof -
    have "j = 0 \<or> j \<in> {1, 2, 3}" using that by auto
    then show ?thesis using assms by (auto simp: ws_head_0_iff codes_def)
  qed
  then show ?thesis by (simp add: ws_head_0_iff)
qed

lemma trim_idem: "trim (trim s) = trim s"
proof -
  obtain n where n: "trim s = take n (trim_start s)" using trim_end_prefix [of "trim_start s"] by (auto simp: trim_def)
  have "trim_start (trim s) = trim s"
    using ws_head_take [OF ws_head_trim_start [of s], of n] by (simp add: n trim_start_id)
  moreover have "trim_end (trim s) = trim s"
    using ws_last_trim_end [of "trim_start s"] by (simp add: trim_def trim_end_id)
  ultimately show ?thesis by (simp add: trim_def [of "trim s"])
qed

definition ascii_lower :: "char \<Rightarrow> char" where
  "ascii_lower c = (if 65 \<le> (of_char c :: nat) \<and> (of_char c :: nat) \<le> 90
                    then char_of ((of_char c :: nat) + 32) else c)"

definition to_ascii_lowercase :: "string \<Rightarrow> string" where
  "to_ascii_lowercase s = map ascii_lower s"

fun starts_with :: "string \<Rightarrow> string \<Rightarrow> bool" where
  "starts_with s [] = True"
| "starts_with [] (p # ps) = False"
| "starts_with (c # cs) (p # ps) = (c = p \<and> starts_with cs ps)"

text \<open>\<open>str::find\<close> (byte index of the first occurrence) and \<open>str::contains\<close>.\<close>

fun str_find :: "string \<Rightarrow> string \<Rightarrow> nat option" where
  "str_find s pat =
     (if starts_with s pat then Some 0
      else case s of [] \<Rightarrow> None | _ # cs \<Rightarrow> map_option Suc (str_find cs pat))"

declare str_find.simps [simp del]

definition contains :: "string \<Rightarrow> string \<Rightarrow> bool" where
  "contains s pat \<longleftrightarrow> str_find s pat \<noteq> None"

lemma starts_with_iff: "starts_with s p \<longleftrightarrow> (\<exists>t. s = p @ t)"
  by (induction s p rule: starts_with.induct) auto

lemma str_find_Some:
  "str_find s pat = Some i \<Longrightarrow> \<exists>pre post. s = pre @ pat @ post \<and> length pre = i"
proof (induction s arbitrary: i)
  case Nil
  then show ?case by (cases pat) (auto simp: str_find.simps split: if_splits)
next
  case (Cons c cs)
  show ?case
  proof (cases "starts_with (c # cs) pat")
    case True
    with Cons.prems show ?thesis
      by (auto simp: str_find.simps [of "c # cs"] starts_with_iff)
  next
    case False
    with Cons.prems obtain j where j: "str_find cs pat = Some j" and "i = Suc j"
      by (auto simp: str_find.simps [of "c # cs"])
    from Cons.IH [OF j] obtain pre post where "cs = pre @ pat @ post" "length pre = j"
      by blast
    then have "c # cs = (c # pre) @ pat @ post \<and> length (c # pre) = i"
      using \<open>i = Suc j\<close> by simp
    then show ?thesis by blast
  qed
qed

lemma str_find_append: "str_find (pre @ pat @ post) pat \<noteq> None"
proof (induction pre)
  case Nil
  then show ?case by (simp add: str_find.simps starts_with_iff)
next
  case (Cons c pre)
  then show ?case by (simp add: str_find.simps [of "c # pre @ pat @ post"])
qed

lemma contains_iff: "contains s pat \<longleftrightarrow> (\<exists>pre post. s = pre @ pat @ post)"
  unfolding contains_def using str_find_Some str_find_append by blast

text \<open>
  \<open>split\<close> with a predicate (the pieces between the separators, empty ones included), and
  \<open>chars()\<close>: the UTF-8 bytes of each character.
\<close>

fun split_by :: "('a \<Rightarrow> bool) \<Rightarrow> 'a list \<Rightarrow> 'a list list" where
  "split_by P [] = [[]]"
| "split_by P (x # xs) =
     (if P x then [] # split_by P xs
      else (x # hd (split_by P xs)) # tl (split_by P xs))"

function chars :: "string \<Rightarrow> string list" where
  "chars [] = []"
| "chars (c # cs) = (c # takeWhile is_cont_byte cs) # chars (dropWhile is_cont_byte cs)"
  by pat_completeness auto
termination
  by (relation "measure length") (auto simp: le_imp_less_Suc length_dropWhile_le)

lemma split_by_not_Nil [simp]: "split_by P xs \<noteq> []"
  by (cases xs) simp_all

lemma split_by_append:
  "P x \<Longrightarrow> split_by P (xs @ x # ys) = split_by P xs @ split_by P ys"
  by (induction xs) simp_all

lemma split_by_none: "(\<And>x. x \<in> set xs \<Longrightarrow> \<not> P x) \<Longrightarrow> split_by P xs = [xs]"
  by (induction xs) simp_all

lemma split_by_pieces: "\<forall>ys \<in> set (split_by P xs). \<forall>y \<in> set ys. \<not> P y \<and> y \<in> set xs"
proof (induction xs)
  case (Cons x xs)
  then show ?case by (cases "split_by P xs") simp_all
qed simp

text \<open>\<open>str::replace\<close>, \<open>strip_prefix\<close>, \<open>ends_with\<close> and \<open>split_once\<close> at a byte.\<close>

function str_replace :: "string \<Rightarrow> string \<Rightarrow> string \<Rightarrow> string" where
  "str_replace pat rep s =
     (if s = [] \<or> pat = [] then s
      else if starts_with s pat then rep @ str_replace pat rep (drop (length pat) s)
      else hd s # str_replace pat rep (tl s))"
  by pat_completeness auto
termination
  by (relation "measure (\<lambda>(p, r, s). length s)") (auto simp: length_greater_0_conv)

declare str_replace.simps [simp del]

definition strip_prefix :: "string \<Rightarrow> string \<Rightarrow> string option" where
  "strip_prefix pat s = (if starts_with s pat then Some (drop (length pat) s) else None)"

definition ends_with :: "string \<Rightarrow> string \<Rightarrow> bool" where
  "ends_with s pat = starts_with (rev s) (rev pat)"

definition split_once :: "char \<Rightarrow> string \<Rightarrow> (string \<times> string) option" where
  "split_once c s = map_option (\<lambda>i. (take i s, drop (Suc i) s)) (position (\<lambda>x. x = c) s)"

text \<open>An em dash, in UTF-8.\<close>

definition em_dash :: string where
  "em_dash = [CHR 0xE2, CHR 0x80, CHR 0x94]"

text \<open>\<open>str::lines\<close>: split after each newline, drop the newline and one carriage return before it.\<close>

definition strip_cr :: "string \<Rightarrow> string" where
  "strip_cr s = (if s \<noteq> [] \<and> last s = CHR 0x0D then butlast s else s)"

fun lines_from :: "string \<Rightarrow> string \<Rightarrow> string list" where
  "lines_from cur [] = (if cur = [] then [] else [rev cur])"
| "lines_from cur (c # cs) =
     (if c = CHR 0x0A then strip_cr (rev cur) # lines_from [] cs else lines_from (c # cur) cs)"

definition str_lines :: "string \<Rightarrow> string list" where
  "str_lines s = lines_from [] s"

text \<open>Decimal rendering (\<open>{n}\<close> in \<open>format!\<close>) and \<open>str::parse\<close> for unsigned integers.\<close>

definition digit_char :: "nat \<Rightarrow> char" where
  "digit_char d = char_of (48 + d)"

fun dec :: "nat \<Rightarrow> string" where
  "dec n = (if n < 10 then [digit_char n] else dec (n div 10) @ [digit_char (n mod 10)])"

declare dec.simps [simp del]

definition dec_int :: "int \<Rightarrow> string" where
  "dec_int x = (if x < 0 then CHR ''-'' # dec (nat (- x)) else dec (nat x))"

definition is_digit :: "char \<Rightarrow> bool" where
  "is_digit c \<longleftrightarrow> 48 \<le> (of_char c :: nat) \<and> (of_char c :: nat) \<le> 57"

definition digit_val :: "char \<Rightarrow> nat" where
  "digit_val c = of_char c - 48"

definition digits_val :: "string \<Rightarrow> nat" where
  "digits_val s = foldl (\<lambda>n c. n * 10 + digit_val c) 0 s"

text \<open>\<open>parse::<uN>()\<close>: an optional plus sign, at least one digit, and a value in range.\<close>

definition parse_uint :: "nat \<Rightarrow> string \<Rightarrow> nat option" where
  "parse_uint max_val s =
     (let ds = (case s of c # cs \<Rightarrow> if c = CHR ''+'' then cs else s | [] \<Rightarrow> s)
      in if ds \<noteq> [] \<and> list_all is_digit ds \<and> digits_val ds \<le> max_val
         then Some (digits_val ds) else None)"

lemma digit_char_props:
  assumes "d < 10"
  shows "is_digit (digit_char d)" and "digit_val (digit_char d) = d"
    and "\<not> is_cont_byte (digit_char d)" and "digit_char d \<noteq> CHR ''+''"
proof -
  have c: "(of_char (digit_char d) :: nat) = 48 + d"
    using assms by (simp add: digit_char_def)
  show "is_digit (digit_char d)" "digit_val (digit_char d) = d"
    "\<not> is_cont_byte (digit_char d)"
    using c assms by (simp_all add: is_digit_def digit_val_def is_cont_byte_def)
  show "digit_char d \<noteq> CHR ''+''"
    using c by auto
qed

lemma dec_digits: "dec n \<noteq> [] \<and> list_all is_digit (dec n) \<and> digits_val (dec n) = n"
proof (induction n rule: dec.induct)
  case (1 n)
  show ?case
  proof (cases "n < 10")
    case True
    then show ?thesis by (simp add: dec.simps [of n] digits_val_def digit_char_props)
  next
    case False
    have "n mod 10 < 10" by simp
    note d = digit_char_props [OF this]
    have "dec n = dec (n div 10) @ [digit_char (n mod 10)]"
      using False by (simp add: dec.simps [of n])
    with 1 [OF False] d show ?thesis by (simp add: digits_val_def)
  qed
qed

lemma dec_no_plus: "hd (dec n) \<noteq> CHR ''+''"
proof -
  have "hd (dec n) \<in> set (dec n)" using dec_digits by (metis hd_in_set)
  then have "is_digit (hd (dec n))" using dec_digits [of n] by (simp add: list_all_iff)
  then show ?thesis by (auto simp: is_digit_def)
qed

text \<open>Parsing what was printed gives the number back, whenever it is in range.\<close>

lemma parse_dec: "n \<le> m \<Longrightarrow> parse_uint m (dec n) = Some n"
  using dec_digits [of n] dec_no_plus [of n]
  by (cases "dec n") (auto simp: parse_uint_def)

end
