(* ===== verification/Protocol_Types.thy ===== *)
theory Protocol_Types
  imports Sica_Prelude
begin

text \<open>
  The wire types of \<open>src/crates/protocol/src/lib.rs\<close> that the session log and the harness
  controls carry, with their label and parse functions, and the JSON values the tool calls
  arrive as. \<open>json\<close> is the public data type of \<open>serde_json::Value\<close> (an object keeps its
  entries as an association list); the crate's printer and parser are never defined here:
  they are parameters of the definitions that use them.
\<close>

section \<open>JSON values\<close>

datatype json_number = NumU64 nat | NumI64 int | NumF64 string

datatype json =
    JNull
  | JBool bool
  | JNumber json_number
  | JString string
  | JArray "json list"
  | JObject "(string \<times> json) list"

text \<open>\<open>Value::get\<close>, \<open>Value::as_str\<close> and \<open>Number::as_u64\<close>.\<close>

fun json_get :: "string \<Rightarrow> json \<Rightarrow> json option" where
  "json_get k (JObject m) = map_of m k"
| "json_get k _ = None"

fun as_str :: "json \<Rightarrow> string option" where
  "as_str (JString s) = Some s"
| "as_str _ = None"

fun as_u64 :: "json_number \<Rightarrow> nat option" where
  "as_u64 (NumU64 n) = Some n"
| "as_u64 _ = None"

section \<open>Lower-casing\<close>

text \<open>
  \<open>str::to_lowercase\<close> as far as a comparison with an ASCII literal can see it: ASCII letters
  are lowered; the Kelvin sign (U+212A) becomes \<open>k\<close> and the dotted capital I (U+0130) becomes
  \<open>i\<close> and a combining dot. No other character has an ASCII byte in its lower case.
\<close>

fun to_lowercase :: "string \<Rightarrow> string" where
  "to_lowercase [] = []"
| "to_lowercase (a # s) =
     (if codes (take 3 (a # s)) = [226, 132, 170] then CHR ''k'' # to_lowercase (drop 2 s)
      else if codes (take 2 (a # s)) = [196, 176]
      then CHR ''i'' # CHR 0xCC # CHR 0x87 # to_lowercase (drop 1 s)
      else ascii_lower a # to_lowercase s)"

section \<open>Permission modes\<close>

datatype PermissionMode = ReadOnly | WorkspaceWrite | DangerFullAccess

definition default_permission :: PermissionMode where
  "default_permission = WorkspaceWrite"

fun permission_label :: "PermissionMode \<Rightarrow> string" where
  "permission_label ReadOnly = ''read-only''"
| "permission_label WorkspaceWrite = ''workspace-write''"
| "permission_label DangerFullAccess = ''danger-full-access''"

definition permission_parse :: "string \<Rightarrow> PermissionMode option" where
  "permission_parse s =
     (let t = to_lowercase (trim s)
      in if t \<in> {''read-only'', ''readonly'', ''read'', ''ro''} then Some ReadOnly
         else if t \<in> {''workspace-write'', ''workspace'', ''write'', ''ww''} then Some WorkspaceWrite
         else if t \<in> {''danger-full-access'', ''danger'', ''full'', ''full-access''}
              then Some DangerFullAccess
         else None)"

section \<open>Todo items\<close>

datatype TodoStatus = Pending | InProgress | TodoCompleted

record TodoItem =
  todo_content :: string
  todo_status :: TodoStatus

fun todo_label :: "TodoStatus \<Rightarrow> string" where
  "todo_label Pending = ''pending''"
| "todo_label InProgress = ''in_progress''"
| "todo_label TodoCompleted = ''completed''"

definition todo_parse :: "string \<Rightarrow> TodoStatus option" where
  "todo_parse s =
     (let t = map (\<lambda>c. if c = CHR ''-'' then CHR ''_'' else c) (to_lowercase (trim s))
      in if t = ''pending'' then Some Pending
         else if t \<in> {''in_progress'', ''inprogress'', ''active''} then Some InProgress
         else if t \<in> {''completed'', ''complete'', ''done''} then Some TodoCompleted
         else None)"

section \<open>Goal phases\<close>

datatype GoalPhase = Active | Paused | Completed | Blocked

fun phase_label :: "GoalPhase \<Rightarrow> string" where
  "phase_label Active = ''active''"
| "phase_label Paused = ''paused''"
| "phase_label Completed = ''completed''"
| "phase_label Blocked = ''blocked''"

definition phase_parse :: "string \<Rightarrow> GoalPhase option" where
  "phase_parse s =
     (let t = to_ascii_lowercase (trim s)
      in if t = ''active'' then Some Active
         else if t = ''paused'' then Some Paused
         else if t = ''completed'' then Some Completed
         else if t = ''blocked'' then Some Blocked
         else None)"

fun is_terminal :: "GoalPhase \<Rightarrow> bool" where
  "is_terminal Completed = True"
| "is_terminal Blocked = True"
| "is_terminal _ = False"

section \<open>Images and the compaction policy\<close>

record UserImage =
  img_mime :: string
  img_data_base64 :: string
  img_sha :: string
  img_bytes :: nat

definition is_reference :: "UserImage \<Rightarrow> bool" where
  "is_reference i \<longleftrightarrow> img_data_base64 i = [] \<and> img_sha i \<noteq> []"

record CompactPolicy =
  threshold_pct :: nat
  retain_pct :: nat
  max_tokens :: nat
  retries :: nat

definition CONTEXT_CEILING_PCT :: nat where
  "CONTEXT_CEILING_PCT = 95"

section \<open>Properties\<close>

lemma permission_parse_label: "permission_parse (permission_label m) = Some m"
proof -
  have "list_all (\<lambda>q. permission_parse (permission_label q) = Some q) [ReadOnly, WorkspaceWrite, DangerFullAccess]"
    by code_simp
  then show ?thesis by (cases m) simp_all
qed

lemma todo_parse_label: "todo_parse (todo_label t) = Some t"
proof -
  have "list_all (\<lambda>q. todo_parse (todo_label q) = Some q) [Pending, InProgress, TodoCompleted]"
    by code_simp
  then show ?thesis by (cases t) simp_all
qed

lemma phase_parse_label: "phase_parse (phase_label p) = Some p"
proof -
  have "list_all (\<lambda>q. phase_parse (phase_label q) = Some q) [Active, Paused, Completed, Blocked]"
    by code_simp
  then show ?thesis by (cases p) simp_all
qed

text \<open>
  Labels parse back. For each of the three enumerations that cross the wire as a word
  (permission modes, todo statuses, goal phases), parsing the printed label gives the value
  back, so a label written to the log or shown to the model is always readable again.
\<close>

theorem labels_parse_back:
  "permission_parse (permission_label m) = Some m
   \<and> todo_parse (todo_label t) = Some t
   \<and> phase_parse (phase_label p) = Some p"
  by (simp add: permission_parse_label todo_parse_label phase_parse_label)

end
