(* ===== verification/Surface_Theory.thy ===== *)
theory Surface_Theory
  imports Session_Event "HOL-Library.Multiset"
begin

text \<open>
  What the derived surface promises: which events it comes from, what shadowing removes,
  where a replacement lands, and how the derivation composes over the log.
\<close>

section \<open>Events the fold reads\<close>

text \<open>The kinds that matter to the derivation: surface kinds, tool calls and rewinds.\<close>

definition derives :: "SessionEvent \<Rightarrow> bool" where
  "derives ev \<longleftrightarrow> surface (kind ev) \<noteq> None
     \<or> (\<exists>a b c d e. kind ev = ToolCall a b c d e) \<or> (\<exists>a b. kind ev = Rewind a b)"

lemma entry_of_None_iff: "entry_of ser calls ev = None \<longleftrightarrow> surface (kind ev) = None"
  by (cases "kind ev") (simp_all add: entry_of_def surface_def Let_def)

lemma entry_of_surface:
  "entry_of ser calls ev = Some (s, e) \<Longrightarrow> surface (kind ev) = Some s \<and> se_seq e = seq ev"
  by (cases "kind ev") (auto simp: entry_of_def surface_def Let_def)

lemma surface_step_cases:
  "surface_step ser (calls, out) ev =
     (case kind ev of
        ToolCall name args exp cid j \<Rightarrow> (calls(seq ev \<mapsto> (name, args, exp, j)), out)
      | Rewind a b \<Rightarrow> (calls, shadow a b out)
      | _ \<Rightarrow> (calls, case entry_of ser calls ev of Some (s, e) \<Rightarrow> land s e out | None \<Rightarrow> out))"
  by (cases "kind ev") (auto simp: surface_step_def split: option.splits prod.splits)

lemma surface_step_entry:
  "entry_of ser (fst st) ev = Some (s, e) \<Longrightarrow> surface_step ser st ev = (fst st, land s e (snd st))"
  using entry_of_surface [of ser "fst st" ev s e]
  by (cases st; cases "kind ev") (auto simp: surface_step_def surface_def)

lemma surface_step_skip: "\<not> derives ev \<Longrightarrow> surface_step ser st ev = st"
  by (cases st; cases "kind ev")
    (simp_all add: surface_step_def derives_def surface_def entry_of_def Let_def)

lemma derive_state_append:
  "derive_state ser (xs @ ys) = foldl (surface_step ser) (derive_state ser xs) ys"
  by (simp add: derive_state_def)

lemma derive_surface_snoc:
  "derive_surface ser (xs @ [ev]) = snd (surface_step ser (derive_state ser xs) ev)"
  by (simp add: derive_surface_def derive_state_append)

lemma derive_state_Nil [simp]: "derive_state ser [] = (Map.empty, [])"
  by (simp add: derive_state_def)

lemma derive_state_pair: "derive_state ser xs = (fst (derive_state ser xs), derive_surface ser xs)"
  by (simp add: derive_surface_def)

section \<open>The span an event shadows\<close>

definition span_of :: "EventKind \<Rightarrow> (nat \<times> nat) option" where
  "span_of k = (case k of
       Rewind a b \<Rightarrow> Some (a, b)
     | _ \<Rightarrow> (case surface k of Some (Replace a b) \<Rightarrow> Some (a, b) | _ \<Rightarrow> None))"

definition covers :: "SessionEvent \<Rightarrow> nat \<Rightarrow> bool" where
  "covers ev n = (case span_of (kind ev) of Some (a, b) \<Rightarrow> a \<le> n \<and> n \<le> b | None \<Rightarrow> False)"

text \<open>
  The abstract account of the model-visible history: the surface events of the log that no
  later event shadows, in log order.
\<close>

fun visible :: "SessionEvent list \<Rightarrow> SessionEvent list" where
  "visible [] = []"
| "visible (ev # evs) =
     (if surface (kind ev) \<noteq> None \<and> list_all (\<lambda>l. \<not> covers l (seq ev)) evs then [ev] else [])
     @ visible evs"

lemma visible_snoc:
  "visible (evs @ [ev]) =
     filter (\<lambda>x. \<not> covers ev (seq x)) (visible evs) @ (if surface (kind ev) \<noteq> None then [ev] else [])"
  by (induction evs) auto

lemma shadow_covers:
  "span_of (kind ev) = Some (a, b) \<Longrightarrow>
     map se_seq (shadow a b out) = filter (\<lambda>n. \<not> covers ev n) (map se_seq out)"
  by (induction out) (auto simp: shadow_def covers_def)

lemma mset_insert_at: "mset (insert_at i x xs) = add_mset x (mset xs)"
  by (metis append_take_drop_id insert_at_def mset.simps(2) mset_append union_mset_add_mset_right)

lemma mset_land:
  "mset (land s e out) =
     add_mset e (case s of Append \<Rightarrow> mset out | Replace a b \<Rightarrow> mset (shadow a b out))"
  by (cases s) (simp_all add: mset_insert_at Let_def)

lemma surface_step_seqs:
  "mset (map se_seq (snd (surface_step ser st ev))) =
     mset (filter (\<lambda>n. \<not> covers ev n) (map se_seq (snd st)))
     + (if surface (kind ev) \<noteq> None then {#seq ev#} else {#})"
proof (cases "surface (kind ev)")
  case None
  then have "entry_of ser (fst st) ev = None" by (simp add: entry_of_None_iff)
  with None show ?thesis
    by (cases st; cases "kind ev")
      (simp_all add: surface_step_def covers_def span_of_def shadow_def filter_map comp_def
        not_le surface_def)
next
  case (Some s)
  then obtain e where e: "entry_of ser (fst st) ev = Some (s, e)" and se: "se_seq e = seq ev"
    using entry_of_None_iff [of ser "fst st" ev] entry_of_surface [of ser "fst st" ev] by fastforce
  have step: "snd (surface_step ser st ev) = land s e (snd st)"
    using e by (simp add: surface_step_entry)
  have notR: "span_of (kind ev) = (case s of Append \<Rightarrow> None | Replace a b \<Rightarrow> Some (a, b))"
    using Some by (cases "kind ev") (auto simp: span_of_def surface_def split: SurfaceOp.splits)
  show ?thesis
  proof (cases s)
    case Append
    then show ?thesis using step Some se notR by (simp add: covers_def)
  next
    case (Replace a b)
    have "mset (map se_seq (land s e (snd st))) =
            add_mset (seq ev) (mset (map se_seq (shadow a b (snd st))))"
      unfolding mset_map mset_land using Replace se by simp
    then show ?thesis using step Some Replace notR shadow_covers [of ev a b] by simp
  qed
qed

text \<open>
  C1: Model-visible exactly when logged and not shadowed. The sequence numbers on the derived
  surface are, with their multiplicities, those of the log's surface events that no later
  \<open>Replace\<close> or \<open>Rewind\<close> covers: nothing else reaches the model, and nothing is lost.
\<close>

theorem surface_is_visible:
  "mset (map se_seq (derive_surface ser events)) = mset (map seq (visible events))"
proof (induction events rule: rev_induct)
  case Nil
  then show ?case by (simp add: derive_surface_def)
next
  case (snoc ev evs)
  have "mset (filter (\<lambda>n. \<not> covers ev n) (map se_seq (derive_surface ser evs)))
          = mset (filter (\<lambda>n. \<not> covers ev n) (map seq (visible evs)))"
    using snoc by (simp only: mset_filter)
  moreover have "mset (map se_seq (derive_surface ser (evs @ [ev]))) =
      mset (filter (\<lambda>n. \<not> covers ev n) (map se_seq (derive_surface ser evs)))
      + (if surface (kind ev) \<noteq> None then {#seq ev#} else {#})"
    unfolding derive_surface_snoc surface_step_seqs by (simp add: derive_surface_def)
  moreover have "mset (map seq (visible (evs @ [ev]))) =
      mset (filter (\<lambda>n. \<not> covers ev n) (map seq (visible evs)))
      + (if surface (kind ev) \<noteq> None then {#seq ev#} else {#})"
    by (simp add: visible_snoc filter_map comp_def)
  ultimately show ?case by simp
qed

section \<open>Where entries come from\<close>

text \<open>The message an event surfaces as; it does not depend on the calls seen before.\<close>

definition event_message :: "json_printer \<Rightarrow> SessionEvent \<Rightarrow> Message option" where
  "event_message ser ev = map_option (\<lambda>p. se_message (snd p)) (entry_of ser Map.empty ev)"

lemma entry_of_message:
  "entry_of ser calls ev = Some (s, e) \<Longrightarrow> event_message ser ev = Some (se_message e)"
  by (cases "kind ev") (auto simp: entry_of_def event_message_def Let_def)

lemma set_land_subset: "set (land s e out) \<subseteq> insert e (set out)"
  by (cases s) (auto simp: Let_def shadow_def)

lemma surface_step_entries:
  assumes "x \<in> set (snd (surface_step ser st ev))"
  shows "x \<in> set (snd st) \<or> (\<exists>s. entry_of ser (fst st) ev = Some (s, x))"
proof (cases "entry_of ser (fst st) ev")
  case None
  with assms show ?thesis
    by (cases st; cases "kind ev") (auto simp: surface_step_def shadow_def)
next
  case (Some p)
  then have "snd (surface_step ser st ev) = land (fst p) (snd p) (snd st)"
    by (cases p) (simp add: surface_step_entry)
  with assms set_land_subset [of "fst p" "snd p" "snd st"] Some show ?thesis
    by (cases p) auto
qed

text \<open>An invariant of single entries that every \<open>entry_of\<close> establishes holds on the surface.\<close>

lemma surface_entry_invariant:
  assumes "\<And>calls ev s e. ev \<in> set events \<Longrightarrow> entry_of ser calls ev = Some (s, e) \<Longrightarrow> P ev e"
    and "e \<in> set (derive_surface ser events)"
  shows "\<exists>ev \<in> set events. P ev e"
  using assms
proof (induction events arbitrary: e rule: rev_induct)
  case Nil
  then show ?case by (simp add: derive_surface_def)
next
  case (snoc ev evs)
  have "e \<in> set (derive_surface ser evs) \<or> (\<exists>s. entry_of ser (fst (derive_state ser evs)) ev = Some (s, e))"
    using surface_step_entries [of e ser "derive_state ser evs" ev] snoc.prems(2)
    by (simp add: derive_surface_snoc flip: derive_surface_def)
  then show ?case
  proof
    assume "e \<in> set (derive_surface ser evs)"
    moreover have "\<And>calls ev s e. ev \<in> set evs \<Longrightarrow> entry_of ser calls ev = Some (s, e) \<Longrightarrow> P ev e"
      using snoc.prems(1) by simp
    ultimately have "\<exists>ev \<in> set evs. P ev e" by (rule snoc.IH [rotated])
    then show ?thesis by auto
  next
    assume "\<exists>s. entry_of ser (fst (derive_state ser evs)) ev = Some (s, e)"
    then have "P ev e" using snoc.prems(1) by auto
    then show ?thesis by simp
  qed
qed

text \<open>
  Every message the model sees is the message of a logged event. Each entry of the derived
  surface carries the sequence number of an event of the log and exactly the message that
  this event alone determines, whatever was logged around it.
\<close>

theorem surface_provenance:
  assumes "e \<in> set (derive_surface ser events)"
  shows "\<exists>ev \<in> set events. seq ev = se_seq e \<and> event_message ser ev = Some (se_message e)"
  using surface_entry_invariant [where P = "\<lambda>ev e. seq ev = se_seq e
      \<and> event_message ser ev = Some (se_message e)", OF _ assms]
    entry_of_surface entry_of_message by metis

theorem surface_provenance_witness:
  "let log = [\<lparr>seq = 1, ts = 0, kind = UserMessage Append ''hi'' []\<rparr>];
       e = \<lparr>se_seq = 1, se_message = message_user_with_images ''hi'' [], se_tool = None, se_context = None\<rparr>
   in \<exists>ev \<in> set log. seq ev = se_seq e \<and> event_message (\<lambda>_. []) ev = Some (se_message e)"
proof -
  let ?log = "[\<lparr>seq = 1, ts = 0, kind = UserMessage Append ''hi'' []\<rparr>]"
  let ?e = "\<lparr>se_seq = 1, se_message = message_user_with_images ''hi'' [], se_tool = None, se_context = None\<rparr>"
  have "?e \<in> set (derive_surface (\<lambda>_. []) ?log)"
    by (simp add: derive_surface_def derive_state_def surface_step_def entry_of_def)
  from surface_provenance [OF this] show ?thesis by simp
qed

text \<open>
  C24: Fetched data is always framed. Whatever the log holds, an entry whose tool result is not
  trusted reaches the model with the untrusted-data notice in front of it.
\<close>

theorem untrusted_always_framed:
  assumes "e \<in> set (derive_surface ser events)"
    and "se_tool e = Some t" and "\<not> tm_trusted t"
  shows "starts_with (content (se_message e)) UNTRUSTED_NOTICE"
proof -
  have "\<exists>ev \<in> set events. \<forall>t. se_tool e = Some t \<and> \<not> tm_trusted t \<longrightarrow>
          starts_with (content (se_message e)) UNTRUSTED_NOTICE"
  proof (rule surface_entry_invariant [OF _ assms(1)])
    fix calls ev s x
    assume "entry_of ser calls ev = Some (s, x)"
    then show "\<forall>t. se_tool x = Some t \<and> \<not> tm_trusted t \<longrightarrow>
        starts_with (content (se_message x)) UNTRUSTED_NOTICE"
      by (cases "kind ev")
        (auto simp: entry_of_def tool_meta_def tool_result_message_def message_base_def
          starts_with_iff Let_def split: option.splits prod.splits if_splits)
  qed
  with assms(2,3) show ?thesis by blast
qed

theorem untrusted_always_framed_witness:
  "let log = [\<lparr>seq = 1, ts = 0, kind = ToolResult Append 0 ''read-file'' None True ''x'' False False\<rparr>]
   in \<exists>e \<in> set (derive_surface (\<lambda>_. []) log). starts_with (content (se_message e)) UNTRUSTED_NOTICE"
proof -
  let ?log = "[\<lparr>seq = 1, ts = 0, kind = ToolResult Append 0 ''read-file'' None True ''x'' False False\<rparr>]"
  let ?t = "tool_meta Map.empty 0 ''read-file'' True ''x'' False False"
  let ?e = "\<lparr>se_seq = 1, se_message = (message_base Tool (tool_result_message (\<lambda>_. []) ''read-file'' True ''x'' False))
      \<lparr>tool_call_id := None\<rparr>, se_tool = Some ?t, se_context = None\<rparr>"
  have e: "?e \<in> set (derive_surface (\<lambda>_. []) ?log)"
    by (simp add: derive_surface_def derive_state_def surface_step_def entry_of_def)
  have "se_tool ?e = Some ?t" and "\<not> tm_trusted ?t" by (simp_all add: tool_meta_def)
  from untrusted_always_framed [OF e this] e show ?thesis
    unfolding Let_def by blast
qed

section \<open>Bookkeeping\<close>

lemma bookkeeping_invisible_aux:
  "derive_surface ser (filter derives events) = derive_surface ser events"
proof -
  have "foldl (surface_step ser) st (filter derives events) = foldl (surface_step ser) st events" for st
    by (induction events arbitrary: st) (simp_all add: surface_step_skip)
  then show ?thesis by (simp add: derive_surface_def derive_state_def)
qed

text \<open>
  Bookkeeping never reaches the model. Deleting every event that is neither a surface kind,
  a tool call nor a rewind (titles, turn edges, token usage, goals, reminders, approvals,
  unknown kinds \<dots>) from a log leaves the derived history unchanged, wherever they stand.
\<close>

theorem bookkeeping_invisible:
  "derive_surface ser (filter derives events) = derive_surface ser events"
  by (rule bookkeeping_invisible_aux)

section \<open>Order\<close>

abbreviation seq_sorted :: "SurfaceEntry list \<Rightarrow> bool" where
  "seq_sorted out \<equiv> sorted_wrt (<) (map se_seq out)"

lemma shadow_sorted:
  assumes "seq_sorted out" and "a \<le> b"
  shows "shadow a b out =
    takeWhile (\<lambda>x. se_seq x < a) out @ dropWhile (\<lambda>x. se_seq x \<le> b) out"
  using assms(1)
proof (induction out)
  case Nil
  then show ?case by (simp add: shadow_def)
next
  case (Cons x xs)
  have rest: "dropWhile (\<lambda>x. se_seq x \<le> b) xs = xs" "shadow a b xs = xs" if "b < se_seq x"
  proof -
    have gt: "\<forall>y \<in> set xs. b < se_seq y" using Cons.prems that by auto
    then show "shadow a b xs = xs" by (simp add: shadow_def filter_id_conv)
    from gt show "dropWhile (\<lambda>x. se_seq x \<le> b) xs = xs"
      by (cases xs) simp_all
  qed
  have "takeWhile (\<lambda>x. se_seq x < a) xs = []" if "a \<le> se_seq x"
    using Cons.prems that by (cases xs) (auto simp: sorted_wrt_append)
  with Cons rest assms(2) show ?case
    by (cases "se_seq x < a"; cases "se_seq x \<le> b") (auto simp: shadow_def)
qed

text \<open>
  On a surface in sequence order a replacement takes exactly the place of its span. This is
  the contract the comment on \<open>SurfaceOp::Replace\<close> states.
\<close>

lemma land_Replace_sorted:
  assumes "seq_sorted out" and "a \<le> b"
  shows "land (Replace a b) e out =
    takeWhile (\<lambda>x. se_seq x < a) out @ e # dropWhile (\<lambda>x. se_seq x \<le> b) out"
proof -
  let ?A = "takeWhile (\<lambda>x. se_seq x < a) out" and ?C = "dropWhile (\<lambda>x. se_seq x \<le> b) out"
  have A: "position (\<lambda>x. a \<le> se_seq x) ?A = None"
    by (auto simp: position_None dest: set_takeWhileD)
  have "position (\<lambda>x. a \<le> se_seq x) ?C = (if ?C = [] then None else Some 0)"
  proof (cases ?C)
    case Nil
    then show ?thesis by (simp only: position.simps simp_thms if_True)
  next
    case (Cons y ys)
    then have "\<not> se_seq y \<le> b" by (metis hd_dropWhile list.distinct(1) list.sel(1))
    with Cons assms(2) show ?thesis by simp
  qed
  with A have "(case position (\<lambda>x. a \<le> se_seq x) (?A @ ?C) of
      Some i \<Rightarrow> i | None \<Rightarrow> length (?A @ ?C)) = length ?A"
    by (auto simp: position_append)
  then show ?thesis
    by (simp add: shadow_sorted [OF assms] insert_at_def)
qed

lemma seq_sorted_split:
  assumes "seq_sorted out" and "0 < k" and "k \<le> length out"
    and "a = se_seq (out ! 0)" and "b = se_seq (out ! (k - 1))"
  shows "takeWhile (\<lambda>x. se_seq x < a) out = []" and "dropWhile (\<lambda>x. se_seq x \<le> b) out = drop k out"
    and "a \<le> b"
proof -
  have nth: "se_seq (out ! i) < se_seq (out ! j)" if "i < j" "j < length out" for i j
    using assms(1) that by (simp add: sorted_wrt_iff_nth_less)
  show ab: "a \<le> b"
  proof (cases "k = 1")
    case False
    with assms(2,3) have "0 < k - 1" and "k - 1 < length out" by auto
    from nth [OF this] assms(4,5) show ?thesis by simp
  qed (simp add: assms)
  have "out \<noteq> []" using assms by auto
  then show "takeWhile (\<lambda>x. se_seq x < a) out = []"
    using assms(4) by (cases out) simp_all
  have "se_seq (out ! i) \<le> b" if "i < k" for i
  proof (cases "i = k - 1")
    case False
    with that assms(3) have "i < k - 1" and "k - 1 < length out" by auto
    from nth [OF this] assms(5) show ?thesis by simp
  qed (simp add: assms)
  then have "\<forall>x \<in> set (take k out). se_seq x \<le> b"
    by (auto simp: in_set_conv_nth)
  moreover have "dropWhile (\<lambda>x. se_seq x \<le> b) (drop k out) = drop k out"
  proof (cases "k < length out")
    case True
    then have "\<not> se_seq (hd (drop k out)) \<le> b"
      using assms(2,5) nth [of "k - 1" k] by (simp add: hd_drop_conv_nth)
    then show ?thesis by (simp add: dropWhile_eq_self_iff)
  qed simp
  ultimately show "dropWhile (\<lambda>x. se_seq x \<le> b) out = drop k out"
    using dropWhile_append2 [of "take k out" "\<lambda>x. se_seq x \<le> b" "drop k out"] by simp
qed

lemma seq_sorted_at:
  assumes "seq_sorted out" and "i < length out"
  shows "takeWhile (\<lambda>x. se_seq x < se_seq (out ! i)) out = take i out"
    and "dropWhile (\<lambda>x. se_seq x \<le> se_seq (out ! i)) out = drop (Suc i) out"
proof -
  show "takeWhile (\<lambda>x. se_seq x < se_seq (out ! i)) out = take i out"
    using assms by (intro takeWhile_eq_take_P_nth) (auto simp: sorted_wrt_iff_nth_less)
  show "dropWhile (\<lambda>x. se_seq x \<le> se_seq (out ! i)) out = drop (Suc i) out"
    using seq_sorted_split(2) [OF assms(1), of "Suc i" "se_seq (out ! 0)" "se_seq (out ! i)"] assms(2) by simp
qed

text \<open>Replacing one entry of an ordered surface by its own number is an update in place.\<close>

lemma land_Replace_at:
  assumes "seq_sorted out" and "i < length out"
  shows "land (Replace (se_seq (out ! i)) (se_seq (out ! i))) e out = out[i := e]"
  using assms by (simp only: land_Replace_sorted [OF assms(1) order_refl] seq_sorted_at upd_conv_take_nth_drop)

lemma surface_seq_logged: "e \<in> set (derive_surface ser events) \<Longrightarrow> se_seq e \<in> seq ` set events"
  using surface_entry_invariant [where P = "\<lambda>ev e. seq ev = se_seq e"] entry_of_surface
  by (metis image_eqI)

end
