(* ===== verification/Session_Log.thy ===== *)
theory Session_Log
  imports Surface_Theory "HOL-Library.AList"
begin

text \<open>
  The in-memory session log and its file, \<open>src/crates/backend/src/sessions_store.rs\<close>, and the
  on-disk format migrations of \<open>src/crates/sica-core/src/event.rs\<close> (module \<open>migrate\<close>).

  A wall-clock reading (\<open>chrono::Utc::now\<close>) is the argument \<open>now\<close>. The file of a session is
  the list of event rows it holds; \<open>write_outcome\<close> says what the operating system did with one
  write: it went through, or it failed after some complete rows had reached the file. Turning
  an event into its JSON line and back is \<open>serde_json\<close>'s and not modelled.

  The locale \<open>append_log\<close> is the interface the rest of the backend has to the log: append an
  event, read the last sequence number, read the events.
\<close>

record SessionLog =
  log_id :: nat
  events :: "SessionEvent list"
  next_seq :: nat
  flushed :: nat
  rewrite :: bool

definition log_append :: "SessionLog \<Rightarrow> int \<Rightarrow> EventKind \<Rightarrow> SessionLog" where
  "log_append log now k =
     log\<lparr>events := events log @ [\<lparr>seq = next_seq log, ts = now, kind = k\<rparr>],
         next_seq := next_seq log + 1\<rparr>"

definition last_seq :: "SessionLog \<Rightarrow> nat" where
  "last_seq log = next_seq log - 1"

text \<open>Creation reads the clock twice: \<open>secs\<close> for the header field, \<open>now\<close> for the row itself.\<close>

definition new_in :: "nat \<Rightarrow> string \<Rightarrow> string option \<Rightarrow> int \<Rightarrow> int \<Rightarrow> SessionLog" where
  "new_in i t d secs now =
     log_append \<lparr>log_id = i, events = [], next_seq = 1, flushed = 0, rewrite = False\<rparr> now
       (SessionCreated i t secs SESSION_FORMAT d)"

definition latest_envelope :: "SessionLog \<Rightarrow> nat option" where
  "latest_envelope log =
     find_map (\<lambda>e. case kind e of RequestEnvelope fp _ _ _ \<Rightarrow> Some fp | _ \<Rightarrow> None) (rev (events log))"

definition header_cwd :: "SessionEvent list \<Rightarrow> string option" where
  "header_cwd evs =
     find_map (\<lambda>e. case kind e of SessionCreated _ _ _ _ cwd \<Rightarrow> cwd | _ \<Rightarrow> None) evs"

definition log_cwd :: "SessionLog \<Rightarrow> string option" where
  "log_cwd log = header_cwd (events log)"

definition max_seq :: "SessionEvent list \<Rightarrow> nat" where
  "max_seq evs = fold max (map seq evs) 0"

definition fork_keeps :: "SessionEvent \<Rightarrow> bool" where
  "fork_keeps e = (case kind e of
      SessionCreated _ _ _ _ _ \<Rightarrow> False | SessionTitle _ \<Rightarrow> False | SessionArchived \<Rightarrow> False
    | _ \<Rightarrow> True)"

definition fork ::
  "nat \<Rightarrow> string \<Rightarrow> SessionEvent list \<Rightarrow> nat \<Rightarrow> int \<Rightarrow> int \<Rightarrow> SessionLog" where
  "fork i t src n secs now =
     (let evs = \<lparr>seq = 1, ts = now, kind = SessionCreated i t secs SESSION_FORMAT (header_cwd src)\<rparr>
                # filter fork_keeps (take (Suc n) src)
      in \<lparr>log_id = i, events = evs, next_seq = max_seq evs + 1, flushed = 0, rewrite = False\<rparr>)"

definition from_events :: "nat \<Rightarrow> SessionEvent list \<Rightarrow> bool \<Rightarrow> SessionLog" where
  "from_events i evs rw =
     \<lparr>log_id = i, events = evs, next_seq = max_seq evs + 1, flushed = length evs, rewrite = rw\<rparr>"

definition log_title :: "SessionLog \<Rightarrow> string" where
  "log_title log =
     (case find_map (\<lambda>e. case kind e of SessionTitle t \<Rightarrow> Some t
                       | SessionCreated _ t _ _ _ \<Rightarrow> Some t | _ \<Rightarrow> None) (rev (events log)) of
        Some t \<Rightarrow> t | None \<Rightarrow> ''Session '' @ dec (log_id log))"

definition log_format :: "SessionLog \<Rightarrow> nat" where
  "log_format log =
     (case find_map (\<lambda>e. case kind e of SessionCreated _ _ _ f _ \<Rightarrow> Some f | _ \<Rightarrow> None) (events log) of
        Some f \<Rightarrow> f | None \<Rightarrow> 0)"

definition created_at :: "SessionLog \<Rightarrow> int" where
  "created_at log =
     (case find_map (\<lambda>e. case kind e of SessionCreated _ _ c _ _ \<Rightarrow> Some c | _ \<Rightarrow> None) (events log) of
        Some c \<Rightarrow> c | None \<Rightarrow> 0)"

definition archived :: "SessionLog \<Rightarrow> bool" where
  "archived log = list_ex (\<lambda>e. kind e = SessionArchived) (events log)"

definition updated_at :: "SessionLog \<Rightarrow> int" where
  "updated_at log =
     (case find (\<lambda>t. 0 < t) (map (\<lambda>e. ts e sdiv 1000) (rev (events log))) of
        Some t \<Rightarrow> t | None \<Rightarrow> created_at log)"

definition user_message_count :: "SessionLog \<Rightarrow> nat" where
  "user_message_count log =
     length (filter (\<lambda>e. case kind e of UserMessage _ _ _ \<Rightarrow> True
                       | LegacyMessage _ m \<Rightarrow> role m = User | _ \<Rightarrow> False) (events log))"

section \<open>The file\<close>

datatype write_outcome = Written | WriteFailed nat

text \<open>
  \<open>flush_in\<close> and \<open>rewrite_in\<close>: the result says whether the caller saw \<open>Ok\<close>. A failed append
  leaves the rows that were already out in the file and does not advance \<open>flushed\<close>; the
  rewrite goes through a temporary file and a rename, so its failure leaves the file alone.
\<close>

definition flush_in ::
  "write_outcome \<Rightarrow> SessionEvent list \<Rightarrow> SessionLog \<Rightarrow> bool \<times> SessionEvent list \<times> SessionLog" where
  "flush_in w file log =
     (if rewrite log then
        (case w of
           Written \<Rightarrow> (True, events log, log\<lparr>flushed := length (events log), rewrite := False\<rparr>)
         | WriteFailed _ \<Rightarrow> (False, file, log))
      else if flushed log \<ge> length (events log) then (True, file, log)
      else let pending = drop (flushed log) (events log)
           in case w of
                Written \<Rightarrow> (True, file @ pending, log\<lparr>flushed := length (events log)\<rparr>)
              | WriteFailed k \<Rightarrow> (False, file @ take k pending, log))"

section \<open>Format migrations\<close>

datatype Plan = Current | Migrate nat | Future nat

definition is_header_row :: "json \<Rightarrow> bool" where
  "is_header_row r \<longleftrightarrow> Option.bind (json_get ''type'' r) as_str = Some ''session_created''"

definition json_as_u64 :: "json \<Rightarrow> nat option" where
  "json_as_u64 v = (case v of JNumber n \<Rightarrow> as_u64 n | _ \<Rightarrow> None)"

definition format_of :: "json list \<Rightarrow> nat" where
  "format_of rows =
     (case Option.bind (find is_header_row rows) (\<lambda>r. Option.bind (json_get ''format'' r) json_as_u64) of
        Some n \<Rightarrow> n mod 65536 | None \<Rightarrow> 0)"

definition plan :: "json list \<Rightarrow> Plan" where
  "plan rows = (let f = format_of rows in
     if f = SESSION_FORMAT then Current else if f > SESSION_FORMAT then Future f else Migrate f)"

definition stamp :: "json \<Rightarrow> json" where
  "stamp r = (case r of JObject m \<Rightarrow> JObject (AList.update ''format'' (JNumber (NumU64 1)) m) | _ \<Rightarrow> r)"

fun v0_to_v1 :: "json list \<Rightarrow> json list" where
  "v0_to_v1 [] = []"
| "v0_to_v1 (r # rs) = (if is_header_row r then stamp r # rs else r # v0_to_v1 rs)"

definition CHAIN :: "(json list \<Rightarrow> json list) list" where
  "CHAIN = [v0_to_v1]"

definition migrate_apply :: "json list \<Rightarrow> nat option \<times> json list" where
  "migrate_apply rows =
     (case plan rows of
        Migrate from \<Rightarrow> (Some from, fold (\<lambda>step rs. step rs) (drop from CHAIN) rows)
      | _ \<Rightarrow> (None, rows))"

section \<open>Well-formed logs\<close>

definition wf_log :: "SessionLog \<Rightarrow> bool" where
  "wf_log log \<longleftrightarrow> 1 \<le> next_seq log \<and> sorted_wrt (<) (map seq (events log))
     \<and> list_all (\<lambda>e. 1 \<le> seq e \<and> seq e < next_seq log) (events log)
     \<and> flushed log \<le> length (events log)"

lemma wf_append: "wf_log log \<Longrightarrow> wf_log (log_append log now k)"
  by (auto simp: wf_log_def log_append_def sorted_wrt_append list_all_iff)

lemma events_append: "wf_log log \<Longrightarrow>
    events (log_append log now k) = events log @ [\<lparr>seq = Suc (last_seq log), ts = now, kind = k\<rparr>]"
  by (simp add: wf_log_def log_append_def last_seq_def)

lemma last_seq_append: "wf_log log \<Longrightarrow> last_seq (log_append log now k) = Suc (last_seq log)"
  by (simp add: wf_log_def log_append_def last_seq_def)

lemma wf_bounds: "wf_log log \<Longrightarrow> sorted_wrt (<) (map seq (events log))
    \<and> (\<forall>ev \<in> set (events log). seq ev \<le> last_seq log)"
  by (auto simp: wf_log_def last_seq_def list_all_iff)

locale append_log =
  fixes app :: "'l \<Rightarrow> int \<Rightarrow> EventKind \<Rightarrow> 'l"
    and last :: "'l \<Rightarrow> nat"
    and rows :: "'l \<Rightarrow> SessionEvent list"
    and wf :: "'l \<Rightarrow> bool"
  assumes rows_app: "wf l \<Longrightarrow> rows (app l now k) = rows l @ [\<lparr>seq = Suc (last l), ts = now, kind = k\<rparr>]"
    and last_app: "wf l \<Longrightarrow> last (app l now k) = Suc (last l)"
    and wf_app: "wf l \<Longrightarrow> wf (app l now k)"
    and wf_rows: "wf l \<Longrightarrow> sorted_wrt (<) (map seq (rows l)) \<and> (\<forall>ev \<in> set (rows l). seq ev \<le> last l)"
begin

lemma app_all:
  assumes "wf l"
  shows "wf (foldl (\<lambda>l k. app l now k) l ks)"
    and "last (foldl (\<lambda>l k. app l now k) l ks) = last l + length ks"
    and "map kind (rows (foldl (\<lambda>l k. app l now k) l ks)) = map kind (rows l) @ ks"
    and "take (length (rows l)) (rows (foldl (\<lambda>l k. app l now k) l ks)) = rows l"
  using assms
proof (induction ks arbitrary: l)
  case (Cons k ks)
  {
    case 1
    then show ?case using Cons.IH(1) wf_app by simp
  next
    case 2
    then show ?case using Cons.IH(2) [of "app l now k"] wf_app last_app by simp
  next
    case 3
    then show ?case using Cons.IH(3) [of "app l now k"] wf_app rows_app by simp
  next
    case 4
    then have "take (Suc (length (rows l))) (rows (foldl (\<lambda>l k. app l now k) (app l now k) ks))
        = rows (app l now k)"
      using Cons.IH(4) [of "app l now k"] wf_app rows_app by simp
    then have "take (length (rows l)) (rows (foldl (\<lambda>l k. app l now k) (app l now k) ks))
        = take (length (rows l)) (rows (app l now k))"
      by (metis le_Suc_eq min.absorb1 order_refl take_take)
    then show ?case using 4 rows_app by simp
  }
qed simp_all

text \<open>
  The optimistic check \<open>log.last_seq() != last_seq\<close>: a log that grew through the interface
  shows a different last sequence number, so an equal one means an unchanged log.
\<close>

lemma unmoved:
  assumes "wf l" and "last (foldl (\<lambda>l k. app l now k) l ks) = last l"
  shows "foldl (\<lambda>l k. app l now k) l ks = l"
  using app_all(2) [OF assms(1), of now ks] assms(2) by simp

lemma fresh_seq: "wf l \<Longrightarrow> Suc (last l) \<notin> seq ` set (rows l)"
  using wf_rows by fastforce

end

interpretation slog: append_log log_append last_seq events wf_log
  by unfold_locales (simp_all add: events_append last_seq_append wf_append wf_bounds)

section \<open>Properties\<close>

lemma max_seq_ge: "e \<in> set evs \<Longrightarrow> seq e \<le> max_seq evs"
proof -
  have "m \<le> fold max xs m \<and> (\<forall>x \<in> set xs. x \<le> fold max xs m)" for xs and m :: nat
  proof (induction xs arbitrary: m)
    case (Cons a xs)
    from Cons [of "max a m"] show ?case by auto
  qed simp
  then show "e \<in> set evs \<Longrightarrow> seq e \<le> max_seq evs"
    by (simp add: max_seq_def)
qed

lemma wf_new_in: "wf_log (new_in i t d secs now)"
  by (simp add: new_in_def log_append_def wf_log_def)

lemma wf_from_events:
  "sorted_wrt (<) (map seq evs) \<Longrightarrow> list_all (\<lambda>e. 1 \<le> seq e) evs \<Longrightarrow> wf_log (from_events i evs rw)"
  using max_seq_ge by (fastforce simp: wf_log_def from_events_def list_all_iff less_Suc_eq_le)

lemma sorted_wrt_seq_take: "sorted_wrt (<) (map seq xs) \<Longrightarrow> sorted_wrt (<) (map seq (take n xs))"
  by (metis append_take_drop_id map_append sorted_wrt_append)

lemma sorted_wrt_seq_filter: "sorted_wrt (<) (map seq xs) \<Longrightarrow> sorted_wrt (<) (map seq (filter P xs))"
  by (induction xs) auto

text \<open>
  C4: A fork reads exactly as its source did at the cut. Forking a well-formed log whose first
  row is its header yields a well-formed log (its next sequence number is above every copied
  one, so no join is broken by a later append), and the model-visible history of the fork is
  that of the source cut at the same row, tool-call joins included.
\<close>

theorem fork_same_history:
  assumes "wf_log src" and "events src = h # rest" and "\<not> fork_keeps h"
  shows "wf_log (fork i t (events src) n secs now)
    \<and> derive_surface ser (events (fork i t (events src) n secs now))
        = derive_surface ser (take (Suc n) (events src))"
proof
  let ?kept = "filter fork_keeps (take (Suc n) (events src))"
  have kept: "?kept = filter fork_keeps (take n rest)" using assms(2,3) by simp
  have srt: "sorted_wrt (<) (map seq (h # rest))" and "1 \<le> seq h"
    using assms(1,2) by (auto simp: wf_log_def)
  then have gt: "\<forall>e \<in> set ?kept. 1 < seq e"
    unfolding kept by (auto dest!: in_set_takeD)
  have "sorted_wrt (<) (map seq ?kept)"
    using srt unfolding kept by (auto intro!: sorted_wrt_seq_filter sorted_wrt_seq_take)
  with gt show "wf_log (fork i t (events src) n secs now)"
    using max_seq_ge [of _ "events (fork i t (events src) n secs now)"]
    by (auto simp: wf_log_def fork_def list_all_iff less_Suc_eq_le Let_def)
  have "derives e \<Longrightarrow> fork_keeps e" for e
    by (cases "kind e") (simp_all add: fork_keeps_def derives_def surface_def)
  then have "filter derives (filter fork_keeps evs) = filter derives evs" for evs
    by (induction evs) auto
  then have "derive_surface ser ?kept = derive_surface ser (take (Suc n) (events src))"
    by (metis bookkeeping_invisible_aux)
  moreover have "derive_surface ser (events (fork i t (events src) n secs now)) = derive_surface ser ?kept"
    by (simp add: fork_def derive_surface_def derive_state_def Let_def surface_step_def entry_of_def)
  ultimately show "derive_surface ser (events (fork i t (events src) n secs now))
      = derive_surface ser (take (Suc n) (events src))" by simp
qed

theorem fork_same_history_witness:
  "let src = log_append (new_in 1 ''t'' None 5 5000) 6000 (UserMessage Append ''hi'' [])
   in derive_surface (\<lambda>_. []) (events (fork 2 ''t2'' (events src) 1 7 7000))
        = derive_surface (\<lambda>_. []) (take 2 (events src))"
proof -
  let ?src = "log_append (new_in 1 ''t'' None 5 5000) 6000 (UserMessage Append ''hi'' [])"
  have wf: "wf_log ?src" by (intro wf_append wf_new_in)
  have evs: "events ?src = \<lparr>seq = 1, ts = 5000, kind = SessionCreated 1 ''t'' 5 SESSION_FORMAT None\<rparr>
      # [\<lparr>seq = 2, ts = 6000, kind = UserMessage Append ''hi'' []\<rparr>]"
    by (simp add: new_in_def log_append_def)
  have "\<not> fork_keeps \<lparr>seq = 1, ts = 5000, kind = SessionCreated 1 ''t'' 5 SESSION_FORMAT None\<rparr>"
    by (simp add: fork_keeps_def)
  from fork_same_history [OF wf evs this, of 2 "''t2''" 1 7 7000 "\<lambda>_. []"] show ?thesis
    by (simp add: Let_def numeral_2_eq_2)
qed

definition file_agrees :: "SessionEvent list \<Rightarrow> SessionLog \<Rightarrow> bool" where
  "file_agrees file log \<longleftrightarrow> \<not> rewrite log \<and> file = take (flushed log) (events log)"



lemma stamp_header: "is_header_row r \<Longrightarrow> is_header_row (stamp r)"
  by (cases r) (simp_all add: is_header_row_def stamp_def update_conv')

lemma stamp_get: "is_header_row r \<Longrightarrow> json_get k (stamp r) =
    (if k = ''format'' then Some (JNumber (NumU64 1)) else json_get k r)"
  by (cases r) (simp_all add: is_header_row_def stamp_def update_conv')

lemma find_v0_to_v1:
  "find is_header_row (v0_to_v1 rows) = map_option stamp (find is_header_row rows)"
  by (induction rows) (simp_all add: stamp_header)

lemma length_v0_to_v1 [simp]: "length (v0_to_v1 rows) = length rows"
  by (induction rows) simp_all

lemma v0_to_v1_others:
  "filter (\<lambda>r. \<not> is_header_row r) (v0_to_v1 rows) = filter (\<lambda>r. \<not> is_header_row r) rows"
  by (induction rows) (simp_all add: stamp_header)

lemma format_of_v0_to_v1: "find is_header_row rows \<noteq> None \<Longrightarrow> format_of (v0_to_v1 rows) = 1"
proof -
  assume "find is_header_row rows \<noteq> None"
  then obtain r where r: "find is_header_row rows = Some r" by blast
  then have "is_header_row r" by (auto simp: find_Some_iff)
  with r show ?thesis by (simp add: format_of_def find_v0_to_v1 stamp_get json_as_u64_def)
qed

text \<open>
  Migration brings a log to the current format without losing a row. On rows with a header
  that are behind, \<open>apply\<close> reports the generation it started from, keeps the number of rows
  and every row but the header, keeps every other field of the header, and afterwards the log
  is current, so a second run does nothing.
\<close>

theorem migration_reaches_current:
  assumes "find is_header_row rows = Some r" and "plan rows = Migrate from"
    and "migrate_apply rows = (res, rows')"
  shows "res = Some 0 \<and> plan rows' = Current \<and> migrate_apply rows' = (None, rows')
    \<and> length rows' = length rows
    \<and> filter (\<lambda>r. \<not> is_header_row r) rows' = filter (\<lambda>r. \<not> is_header_row r) rows
    \<and> (\<exists>r'. find is_header_row rows' = Some r' \<and> (\<forall>k. k \<noteq> ''format'' \<longrightarrow> json_get k r' = json_get k r))"
proof -
  have "from = 0" using assms(2) by (auto simp: plan_def Let_def SESSION_FORMAT_def split: if_splits)
  with assms(2,3) have rows': "rows' = v0_to_v1 rows" and res: "res = Some 0"
    by (simp_all add: migrate_apply_def CHAIN_def)
  have cur: "plan rows' = Current"
    using format_of_v0_to_v1 [of rows] assms(1) by (simp add: rows' plan_def SESSION_FORMAT_def)
  have "is_header_row r" using assms(1) by (auto simp: find_Some_iff)
  then have "find is_header_row rows' = Some (stamp r)
      \<and> (\<forall>k. k \<noteq> ''format'' \<longrightarrow> json_get k (stamp r) = json_get k r)"
    using assms(1) by (simp add: rows' find_v0_to_v1 stamp_get)
  with cur res show ?thesis
    by (auto simp: rows' v0_to_v1_others migrate_apply_def)
qed

theorem migration_reaches_current_witness:
  "let rows = [JObject [(''type'', JString ''session_created''), (''id'', JNumber (NumU64 7))]]
   in plan rows = Migrate 0 \<and> plan (snd (migrate_apply rows)) = Current"
proof -
  let ?rows = "[JObject [(''type'', JString ''session_created''), (''id'', JNumber (NumU64 7))]]"
  have f: "find is_header_row ?rows = Some (hd ?rows)" by (simp add: is_header_row_def)
  have p: "plan ?rows = Migrate 0"
    by (simp add: plan_def format_of_def is_header_row_def SESSION_FORMAT_def)
  obtain res rows' where m: "migrate_apply ?rows = (res, rows')" by fastforce
  from migration_reaches_current [OF f p m] p m show ?thesis by simp
qed

text \<open>
  The latest title wins. Whatever a log holds, after a \<open>SessionTitle\<close> row is appended it is
  the title, and no other kind of row but a header changes the title.
\<close>

theorem title_latest_wins:
  "log_title (log_append log now (SessionTitle t)) = t
   \<and> ((\<forall>t. k \<noteq> SessionTitle t) \<and> (\<forall>a b c d e. k \<noteq> SessionCreated a b c d e) \<longrightarrow>
        log_title (log_append log now k) = log_title log)"
proof -
  have i: "log_id (log_append log now k) = log_id log" and
    e: "rev (events (log_append log now k)) = \<lparr>seq = next_seq log, ts = now, kind = k\<rparr> # rev (events log)" for k
    by (simp_all add: log_append_def)
  show ?thesis unfolding log_title_def i e by (cases k) simp_all
qed

theorem title_latest_wins_witness:
  "log_title (log_append (new_in 3 ''old'' None 1 1000) 2000 SessionArchived) = ''old''"
  using title_latest_wins [of "new_in 3 ''old'' None 1 1000" 2000 "''x''" SessionArchived]
  by (simp add: log_title_def new_in_def log_append_def)

end
