(* ===== verification/Context_Budget.thy ===== *)
theory Context_Budget
  imports Session_Log
begin

text \<open>
  Pricing a prompt and making it fit: the token heuristic
  (\<open>src/crates/llm/src/tokenize.rs\<close>), the wire form of derived messages and the prompt budget
  (\<open>src/crates/backend/src/chat.rs\<close>), the trimmer (\<open>src/crates/agents/src/context.rs\<close>), the
  usage-anchored meter (\<open>src/crates/agents/src/meter.rs\<close>) and the request check of
  \<open>src/crates/backend/src/invariants.rs\<close>.

  Parameters: \<open>parse\<close> is \<open>serde_json::from_str\<close> on a stored \<open>tool_calls\<close> text, \<open>img\<close> reads the
  bytes of a stored image (the file store, base64). Token counts are \<open>u32\<close>: sums wrap.
\<close>

section \<open>Token heuristic\<close>

definition approx_tokens :: "string \<Rightarrow> nat" where
  "approx_tokens text = wrap_u32 ((chars_count text + 3) div 4)"

definition sum_u32 :: "nat list \<Rightarrow> nat" where
  "sum_u32 xs = foldl (\<lambda>a x. wrap_u32 (a + x)) 0 xs"

section \<open>Wire messages\<close>

datatype ContentPart = TextPart string | ImageUrl string

datatype ChatContent = Text string | Parts "ContentPart list"

record ChatMessage =
  cm_role :: string
  cm_content :: ChatContent
  cm_tool_calls :: "json option"
  cm_tool_call_id :: "string option"

fun join_space :: "string list \<Rightarrow> string" where
  "join_space [] = []"
| "join_space [x] = x"
| "join_space (x # xs) = x @ '' '' @ join_space xs"

fun content_text :: "ChatContent \<Rightarrow> string" where
  "content_text (Text s) = s"
| "content_text (Parts ps) =
     join_space (List.map_filter (\<lambda>p. case p of TextPart t \<Rightarrow> Some t | ImageUrl _ \<Rightarrow> None) ps)"

definition chat_text :: "string \<Rightarrow> string \<Rightarrow> ChatMessage" where
  "chat_text r t = \<lparr>cm_role = r, cm_content = Text t, cm_tool_calls = None, cm_tool_call_id = None\<rparr>"

fun role_to_str :: "Role \<Rightarrow> string" where
  "role_to_str User = ''user''"
| "role_to_str Assistant = ''assistant''"
| "role_to_str System = ''system''"
| "role_to_str Tool = ''tool''"

definition build_chat_content :: "(UserImage \<Rightarrow> string option) \<Rightarrow> string \<Rightarrow> UserImage list \<Rightarrow> ChatContent" where
  "build_chat_content img text imgs =
     (if imgs = [] then Text text
      else Parts ((if text \<noteq> [] then [TextPart text] else [])
             @ List.map_filter
                 (\<lambda>i. map_option (\<lambda>d. ImageUrl (''data:'' @ img_mime i @ '';base64,'' @ d)) (img i)) imgs))"

definition wire_message ::
  "(string \<Rightarrow> json option) \<Rightarrow> (UserImage \<Rightarrow> string option) \<Rightarrow> bool \<Rightarrow> Message \<Rightarrow> ChatMessage" where
  "wire_message parse img native m =
     \<lparr>cm_role = (if role m = Tool \<and> \<not> native then ''user''
                 else if role m = System then ''user''
                 else role_to_str (role m)),
      cm_content = build_chat_content img (content m) (images m),
      cm_tool_calls = (if native then Option.bind (tool_calls m) parse else None),
      cm_tool_call_id = (if native then tool_call_id m else None)\<rparr>"

definition wire_messages ::
  "(string \<Rightarrow> json option) \<Rightarrow> (UserImage \<Rightarrow> string option) \<Rightarrow> bool \<Rightarrow> Message list \<Rightarrow> ChatMessage list" where
  "wire_messages parse img native ms = map (wire_message parse img native) ms"

section \<open>Budget and ceiling\<close>

definition at_ceiling :: "nat \<Rightarrow> nat \<Rightarrow> bool" where
  "at_ceiling tokens window \<longleftrightarrow> tokens * 100 \<ge> window * CONTEXT_CEILING_PCT"

definition prompt_budget :: "nat \<Rightarrow> nat \<Rightarrow> nat \<Rightarrow> nat" where
  "prompt_budget window reserve shrink_pct =
     (let base = window - reserve;
          scaled = base * (100 - min shrink_pct 90) div 100
      in max (if scaled \<le> U32_MAX then scaled else U32_MAX) 1024)"

section \<open>The trimmer\<close>

record TrimReport =
  tr_messages :: "ChatMessage list"
  tr_dropped :: nat

definition CONTEXT_NOTICE_PREFIX :: string where
  "CONTEXT_NOTICE_PREFIX = ''[context notice:''"

definition wire_tokens :: "ChatMessage \<Rightarrow> nat" where
  "wire_tokens m = wrap_u32 (approx_tokens (content_text (cm_content m)) + 4)"

definition wire_total :: "ChatMessage list \<Rightarrow> nat" where
  "wire_total ms = sum_u32 (map wire_tokens ms)"

definition trim_notice :: "nat \<Rightarrow> ChatMessage" where
  "trim_notice dropped = chat_text ''user''
     (CONTEXT_NOTICE_PREFIX @ '' the '' @ dec dropped @
      '' oldest message(s) of this conversation were removed to fit the model's context window. Do not assume their contents.]'')"

text \<open>The \<open>while\<close> loop: drop the message after the system prompt until the rest fits.\<close>

function trim_loop :: "nat \<Rightarrow> nat \<Rightarrow> ChatMessage list \<Rightarrow> nat \<Rightarrow> ChatMessage list \<times> nat" where
  "trim_loop budget sys_count msgs dropped =
     (if wire_total msgs > budget \<and> length msgs > sys_count + 1
      then trim_loop budget sys_count (remove_at sys_count msgs) (dropped + 1)
      else (msgs, dropped))"
  by pat_completeness auto
termination
  by (relation "measure (\<lambda>(b, s, msgs, d). length msgs)") (auto simp: remove_at_def)

declare trim_loop.simps [simp del]

definition trim_to_budget :: "ChatMessage list \<Rightarrow> nat \<Rightarrow> TrimReport" where
  "trim_to_budget messages budget =
     (if wire_total messages \<le> budget then \<lparr>tr_messages = messages, tr_dropped = 0\<rparr>
      else let sys_count = (case messages of m # _ \<Rightarrow> if cm_role m = ''system'' then 1 else 0 | [] \<Rightarrow> 0);
               (msgs, dropped) = trim_loop budget sys_count messages 0
           in \<lparr>tr_messages = (if dropped > 0 then insert_at sys_count (trim_notice dropped) msgs else msgs),
               tr_dropped = dropped\<rparr>)"

section \<open>The meter\<close>

record Anchor =
  an_envelope_hash :: nat
  an_seq :: nat
  an_usage_prompt :: nat

type_synonym TokenMeter = "Anchor option"

definition meter_record :: "TokenMeter \<Rightarrow> nat \<Rightarrow> nat \<Rightarrow> nat \<Rightarrow> TokenMeter" where
  "meter_record m h s usage =
     (if usage = 0 then m
      else Some \<lparr>an_envelope_hash = h, an_seq = s, an_usage_prompt = usage\<rparr>)"

definition meter_invalidate :: "TokenMeter \<Rightarrow> TokenMeter" where
  "meter_invalidate m = None"

definition entry_tokens :: "SurfaceEntry \<Rightarrow> nat" where
  "entry_tokens e = wrap_u32 (approx_tokens (content (se_message e)) + 4)"

definition meter_estimate :: "TokenMeter \<Rightarrow> nat \<Rightarrow> SurfaceEntry list \<Rightarrow> nat option" where
  "meter_estimate m h entries =
     (case m of
        None \<Rightarrow> None
      | Some a \<Rightarrow>
          if an_envelope_hash a \<noteq> h then None
          else let anchored = sum_u32 (map entry_tokens (filter (\<lambda>e. se_seq e \<le> an_seq a) entries))
               in if an_usage_prompt a < anchored then None
                  else let delta = sum_u32 (map entry_tokens (filter (\<lambda>e. se_seq e > an_seq a) entries))
                       in Some (saturating_add_u32 (an_usage_prompt a) delta))"

section \<open>The request-matches-log check\<close>

definition is_trim_notice :: "ChatMessage \<Rightarrow> bool" where
  "is_trim_notice m \<longleftrightarrow> starts_with (content_text (cm_content m)) CONTEXT_NOTICE_PREFIX"

datatype RequestViolation = ExtraMessages nat nat | Mismatch nat

text \<open>The violations reported, by their kind; the sentence of the source is left out.\<close>

definition check_request_matches_log :: "ChatMessage list \<Rightarrow> ChatMessage list \<Rightarrow> RequestViolation list" where
  "check_request_matches_log sent from_log =
     (let s = filter (\<lambda>m. \<not> is_trim_notice m) (filter (\<lambda>m. cm_role m \<noteq> ''system'') sent)
      in if length s > length from_log then [ExtraMessages (length s) (length from_log)]
         else let tail = drop (length from_log - length s) from_log
              in case position (\<lambda>(a, b). cm_role a \<noteq> cm_role b
                      \<or> content_text (cm_content a) \<noteq> content_text (cm_content b)) (zip s tail) of
                   Some i \<Rightarrow> [Mismatch i] | None \<Rightarrow> [])"

section \<open>Lemmas\<close>

lemma sum_u32_eq: "sum_u32 xs = sum_list xs mod 4294967296"
proof -
  have "foldl (\<lambda>a x. wrap_u32 (a + x)) (s mod 4294967296) xs = (s + sum_list xs) mod 4294967296" for s
  proof (induction xs arbitrary: s)
    case (Cons x xs)
    have "wrap_u32 (s mod 4294967296 + x) = (s + x) mod 4294967296"
      by (simp add: wrap_u32_def mod_add_left_eq)
    with Cons [of "s + x"] show ?case by (simp add: add.assoc)
  qed simp
  from this [of 0] show ?thesis by (simp add: sum_u32_def)
qed

lemma sum_u32_exact: "sum_list xs \<le> U32_MAX \<Longrightarrow> sum_u32 xs = sum_list xs"
  by (simp add: sum_u32_eq)

lemma sum_u32_bound: "sum_u32 xs \<le> U32_MAX"
  by (simp add: sum_u32_eq)

text \<open>Dropping right after a fixed prefix: the loop removes a prefix of the rest.\<close>

lemma remove_at_prefix: "y # ys = rest \<Longrightarrow> remove_at (length pre) (pre @ rest) = pre @ ys"
  by (auto simp: remove_at_def)

lemma trim_loop_drops:
  "n = length pre \<Longrightarrow> rest \<noteq> [] \<Longrightarrow>
   \<exists>k < length rest. trim_loop budget n (pre @ rest) d = (pre @ drop k rest, d + k)
     \<and> (wire_total (pre @ drop k rest) \<le> budget \<or> length (drop k rest) = 1)
     \<and> (\<forall>j < k. wire_total (pre @ drop j rest) > budget)"
proof (induction rest arbitrary: d)
  case Nil
  then show ?case by simp
next
  case (Cons y ys)
  show ?case
  proof (cases "wire_total (pre @ y # ys) > budget \<and> ys \<noteq> []")
    case True
    with Cons.IH [of "d + 1"] Cons.prems obtain k where k: "k < length ys"
      "trim_loop budget n (pre @ ys) (d + 1) = (pre @ drop k ys, d + 1 + k)"
      "wire_total (pre @ drop k ys) \<le> budget \<or> length (drop k ys) = 1"
      "\<forall>j < k. wire_total (pre @ drop j ys) > budget" by auto
    have "trim_loop budget n (pre @ y # ys) d = trim_loop budget n (pre @ ys) (d + 1)"
      using True Cons.prems remove_at_prefix [of y ys "y # ys" pre]
      by (subst trim_loop.simps) (simp add: length_greater_0_conv)
    moreover have "\<forall>j < Suc k. wire_total (pre @ drop j (y # ys)) > budget"
      using k(4) True by (auto simp: less_Suc_eq_0_disj)
    ultimately show ?thesis
      using k by (intro exI [of _ "Suc k"]) simp
  next
    case False
    then have "trim_loop budget n (pre @ y # ys) d = (pre @ y # ys, d)"
      using Cons.prems by (subst trim_loop.simps) auto
    with False show ?thesis by (intro exI [of _ 0]) (auto simp: not_less)
  qed
qed

lemma wire_messages_no_system: "m \<in> set (wire_messages parse img native ms) \<Longrightarrow> cm_role m \<noteq> ''system''"
proof -
  have "cm_role (wire_message parse img native x) \<noteq> ''system''" for x
    by (cases "role x") (simp_all add: wire_message_def)
  then show "m \<in> set (wire_messages parse img native ms) \<Longrightarrow> cm_role m \<noteq> ''system''"
    by (auto simp: wire_messages_def)
qed

lemma trim_notice_is_notice [simp]: "is_trim_notice (trim_notice n)"
  by (simp add: is_trim_notice_def trim_notice_def chat_text_def starts_with_iff)

lemma trim_notice_role [simp]: "cm_role (trim_notice n) \<noteq> ''system''"
  by (simp add: trim_notice_def chat_text_def)

lemma check_suffix_ok:
  assumes "filter (\<lambda>m. \<not> is_trim_notice m) (filter (\<lambda>m. cm_role m \<noteq> ''system'') sent)
     = drop k from_log"
  shows "check_request_matches_log sent from_log = []"
proof (cases "k \<le> length from_log")
  case True
  have "position (\<lambda>(a, b). cm_role a \<noteq> cm_role b
      \<or> content_text (cm_content a) \<noteq> content_text (cm_content b)) (zip xs xs) = None" for xs :: "ChatMessage list"
    by (auto simp: position_None zip_same_conv_map)
  then show ?thesis
    unfolding check_request_matches_log_def Let_def assms using True by simp
next
  case False
  with assms show ?thesis by (simp add: check_request_matches_log_def Let_def)
qed

section \<open>Properties\<close>

text \<open>
  C16: What the trimmer keeps. On an over-budget history with a leading system prompt, the result
  is the system prompt, one notice naming the number of removed messages (when there were any),
  and a non-empty suffix of the conversation; exactly as many messages as reported are gone,
  the newest message survives, the suffix fits the budget unless it is the newest message
  alone, and no longer suffix would have fitted.
\<close>

theorem trim_keeps_prompt_and_suffix:
  assumes "cm_role sys = ''system''" and "rest \<noteq> []" and "wire_total (sys # rest) > budget"
  shows "\<exists>k < length rest.
      trim_to_budget (sys # rest) budget =
        \<lparr>tr_messages = (if k > 0 then sys # trim_notice k # drop k rest else sys # rest), tr_dropped = k\<rparr>
      \<and> last (tr_messages (trim_to_budget (sys # rest) budget)) = last rest
      \<and> (wire_total (sys # drop k rest) \<le> budget \<or> length (drop k rest) = 1)
      \<and> (\<forall>j < k. wire_total (sys # drop j rest) > budget)"
proof -
  obtain k where k: "k < length rest"
    "trim_loop budget 1 ([sys] @ rest) 0 = ([sys] @ drop k rest, 0 + k)"
    "wire_total ([sys] @ drop k rest) \<le> budget \<or> length (drop k rest) = 1"
    "\<forall>j < k. wire_total ([sys] @ drop j rest) > budget"
    using trim_loop_drops [of 1 "[sys]" rest budget 0] assms(2) by auto
  have "trim_to_budget (sys # rest) budget =
        \<lparr>tr_messages = (if k > 0 then sys # trim_notice k # drop k rest else sys # rest), tr_dropped = k\<rparr>"
    using assms k(2) by (auto simp: trim_to_budget_def insert_at_def)
  with k show ?thesis by (intro exI [of _ k]) auto
qed

theorem trim_keeps_prompt_and_suffix_witness:
  "let sys = chat_text ''system'' ''s''; rest = [chat_text ''user'' ''a'', chat_text ''user'' ''b''] in
   \<exists>k < 2. tr_dropped (trim_to_budget (sys # rest) 10) = k
     \<and> last (tr_messages (trim_to_budget (sys # rest) 10)) = chat_text ''user'' ''b''"
proof -
  let ?sys = "chat_text ''system'' ''s''" and ?rest = "[chat_text ''user'' ''a'', chat_text ''user'' ''b'']"
  have "cm_role ?sys = ''system''" "?rest \<noteq> []" by (simp_all add: chat_text_def)
  moreover have "wire_total (?sys # ?rest) > 10"
    by (simp add: wire_total_def wire_tokens_def chat_text_def approx_tokens_def chars_count_def
        is_cont_byte_def sum_u32_def)
  ultimately obtain k where "k < length ?rest" "tr_dropped (trim_to_budget (?sys # ?rest) 10) = k"
    "last (tr_messages (trim_to_budget (?sys # ?rest) 10)) = last ?rest"
    using trim_keeps_prompt_and_suffix [of ?sys ?rest 10] by fastforce
  then show ?thesis by (simp add: Let_def)
qed



text \<open>
  Bounds of the prompt budget. Whatever the window, the reserve and the share given up after
  overflows, the budget carries at least 1024 tokens, is a \<open>u32\<close>, exceeds the window only by
  that floor, and giving up a larger share never raises it.
\<close>

theorem prompt_budget_bounds:
  "1024 \<le> prompt_budget w r p
   \<and> prompt_budget w r p \<le> max 1024 U32_MAX
   \<and> prompt_budget w r p \<le> max 1024 (w - r)
   \<and> prompt_budget w r (p + q) \<le> prompt_budget w r p"
proof -
  let ?s = "\<lambda>p. (w - r) * (100 - min p 90) div 100"
  have le: "?s p \<le> w - r"
    by (metis diff_le_self div_le_mono mult_le_mono2 nonzero_mult_div_cancel_right zero_neq_numeral)
  have mono: "?s (p + q) \<le> ?s p"
    by (intro div_le_mono mult_le_mono2 diff_le_mono2) simp
  define a b where "a = ?s p" and "b = ?s (p + q)"
  have "a \<le> w - r" and "b \<le> a" using le mono by (simp_all add: a_def b_def)
  moreover have "prompt_budget w r p = max (if a \<le> U32_MAX then a else U32_MAX) 1024"
    and "prompt_budget w r (p + q) = max (if b \<le> U32_MAX then b else U32_MAX) 1024"
    by (simp_all only: prompt_budget_def Let_def a_def b_def)
  ultimately show ?thesis by (simp add: max_def)
qed

text \<open>
  The meter never prices below the heuristic. When the meter answers, its estimate is at
  least the heuristic price of every entry the request carries (prices being below the \<open>u32\<close>
  limit), however the entries are split by the anchor; and it answers nothing for another
  envelope or after an invalidation.
\<close>

theorem meter_not_below_heuristic:
  assumes "meter_estimate m h entries = Some n"
    and "sum_list (map entry_tokens entries) \<le> U32_MAX"
  shows "sum_list (map entry_tokens entries) \<le> n
    \<and> (\<exists>a. m = Some a \<and> an_envelope_hash a = h) \<and> meter_estimate (meter_invalidate m) h entries = None"
proof -
  from assms(1) obtain a where a: "m = Some a" "an_envelope_hash a = h"
    by (auto simp: meter_estimate_def split: option.splits if_splits)
  let ?old = "sum_list (map entry_tokens (filter (\<lambda>e. se_seq e \<le> an_seq a) entries))"
  let ?new = "sum_list (map entry_tokens (filter (\<lambda>e. se_seq e > an_seq a) entries))"
  have split: "?old + ?new = sum_list (map entry_tokens entries)"
    by (induction entries) auto
  then have "sum_u32 (map entry_tokens (filter (\<lambda>e. se_seq e \<le> an_seq a) entries)) = ?old"
    and "sum_u32 (map entry_tokens (filter (\<lambda>e. se_seq e > an_seq a) entries)) = ?new"
    using assms(2) by (auto intro!: sum_u32_exact)
  with assms(1) a have "?old \<le> an_usage_prompt a" "n = saturating_add_u32 (an_usage_prompt a) ?new"
    by (auto simp: meter_estimate_def Let_def split: if_splits)
  with split assms(2) a show ?thesis
    by (auto simp: saturating_add_u32_def meter_estimate_def meter_invalidate_def)
qed

theorem meter_not_below_heuristic_witness:
  "let e = \<lparr>se_seq = 2, se_message = message_user ''abcd'', se_tool = None, se_context = None\<rparr>;
       m = meter_record None 7 0 100
   in meter_estimate m 7 [e] = Some 105 \<and> sum_list (map entry_tokens [e]) \<le> 105"
proof -
  let ?e = "\<lparr>se_seq = 2, se_message = message_user ''abcd'', se_tool = None, se_context = None\<rparr>"
  have t: "entry_tokens ?e = 5"
    by (simp add: entry_tokens_def message_user_def message_base_def approx_tokens_def
        chars_count_def is_cont_byte_def)
  have m: "meter_estimate (meter_record None 7 0 100) 7 [?e] = Some 105"
    by (simp add: meter_record_def meter_estimate_def t sum_u32_def saturating_add_u32_def Let_def)
  have "sum_list (map entry_tokens [?e]) \<le> U32_MAX" by (simp add: t)
  from meter_not_below_heuristic [OF m this] m show ?thesis by (simp add: Let_def)
qed

end
