(* ===== verification/Retain.thy ===== *)
theory Retain
  imports Sica_Prelude
begin

text \<open>
  Output retention, \<open>src/crates/sica-core/src/retain.rs\<close>: head/tail windows over a text with
  an honest omission notice. The two loops that walk to a character boundary are
  \<open>head_end\<close> and \<open>tail_start\<close>; the slices \<open>&s[..end]\<close> and \<open>&s[start..]\<close> are \<open>take\<close> and
  \<open>drop\<close> at those indices, and \<open>head_end_boundary\<close>, \<open>tail_start_boundary\<close> show that the
  indices are character boundaries, so that the slices never panic.
\<close>

datatype Omitted = OmittedNone | OmittedBytes nat

record TextWindow =
  tw_head :: string
  tw_tail :: string
  tw_omitted :: Omitted

definition render :: "TextWindow \<Rightarrow> string \<Rightarrow> string" where
  "render w marker =
     (case tw_omitted w of
        OmittedNone \<Rightarrow> tw_head w
      | OmittedBytes _ \<Rightarrow>
          tw_head w
          @ (if tw_head w \<noteq> [] \<and> last (tw_head w) \<noteq> CHR 0x0A then [CHR 0x0A] else [])
          @ marker
          @ (if tw_tail w \<noteq> [] then CHR 0x0A # tw_tail w else []))"

fun head_end :: "string \<Rightarrow> nat \<Rightarrow> nat" where
  "head_end s 0 = 0"
| "head_end s (Suc n) = (if is_char_boundary s (Suc n) then Suc n else head_end s n)"

definition utf8_head :: "string \<Rightarrow> nat \<Rightarrow> string" where
  "utf8_head s mx = (if length s \<le> mx then s else take (head_end s mx) s)"

function tail_start :: "string \<Rightarrow> nat \<Rightarrow> nat" where
  "tail_start s i =
     (if i < length s \<and> \<not> is_char_boundary s i then tail_start s (Suc i) else i)"
  by pat_completeness auto
termination
  by (relation "measure (\<lambda>(s, i). length s - i)") auto

declare tail_start.simps [simp del]

definition utf8_tail :: "string \<Rightarrow> nat \<Rightarrow> string" where
  "utf8_tail s mx = (if length s \<le> mx then s else drop (tail_start s (length s - mx)) s)"

definition head_tail :: "string \<Rightarrow> nat \<Rightarrow> nat \<Rightarrow> TextWindow" where
  "head_tail s h t =
     (if length s \<le> h + t
      then \<lparr>tw_head = s, tw_tail = [], tw_omitted = OmittedNone\<rparr>
      else let hd' = utf8_head s h; tl' = utf8_tail s t
           in \<lparr>tw_head = hd', tw_tail = tl',
               tw_omitted = OmittedBytes (length s - (length hd' + length tl'))\<rparr>)"

definition head_only :: "string \<Rightarrow> nat \<Rightarrow> TextWindow" where
  "head_only s mx =
     (if length s \<le> mx
      then \<lparr>tw_head = s, tw_tail = [], tw_omitted = OmittedNone\<rparr>
      else let h = utf8_head s mx
           in \<lparr>tw_head = h, tw_tail = [], tw_omitted = OmittedBytes (length s - length h)\<rparr>)"

text \<open>The ellipsis character of the notices, in UTF-8.\<close>

definition ellipsis :: string where
  "ellipsis = [CHR 0xE2, CHR 0x80, CHR 0xA6]"

definition notice :: "Omitted \<Rightarrow> string \<Rightarrow> string" where
  "notice om recovery =
     (case om of
        OmittedNone \<Rightarrow> []
      | OmittedBytes n \<Rightarrow>
          if recovery = []
          then ''['' @ ellipsis @ '' '' @ dec n @ '' bytes omitted '' @ ellipsis @ '']''
          else ''['' @ ellipsis @ '' '' @ dec n @ '' bytes omitted; '' @ recovery @ '' ''
               @ ellipsis @ '']'')"

section \<open>The boundary loops\<close>

lemma head_end_le: "head_end s n \<le> n"
  by (induction n) auto

lemma head_end_boundary: "is_char_boundary s (head_end s n)"
  by (induction n) (auto simp: is_char_boundary_def)

lemma head_end_longest: "i \<le> n \<Longrightarrow> is_char_boundary s i \<Longrightarrow> i \<le> head_end s n"
  by (induction n) (auto simp: le_Suc_eq)

lemma tail_start_ge: "i \<le> tail_start s i"
  by (induction s i rule: tail_start.induct) (subst tail_start.simps, force)

lemma tail_start_le: "i \<le> length s \<Longrightarrow> tail_start s i \<le> length s"
  by (induction s i rule: tail_start.induct) (subst tail_start.simps, force)

lemma tail_start_boundary: "i \<le> length s \<Longrightarrow> is_char_boundary s (tail_start s i)"
proof (induction s i rule: tail_start.induct)
  case (1 s i)
  show ?case
  proof (cases "i < length s \<and> \<not> is_char_boundary s i")
    case True
    with 1 show ?thesis by (simp add: tail_start.simps [of s i])
  next
    case False
    with "1.prems" show ?thesis
      by (auto simp: tail_start.simps [of s i] is_char_boundary_def)
  qed
qed

lemma tail_start_first:
  "i \<le> j \<Longrightarrow> j \<le> length s \<Longrightarrow> is_char_boundary s j \<Longrightarrow> tail_start s i \<le> j"
proof (induction s i rule: tail_start.induct)
  case (1 s i)
  show ?case
  proof (cases "i < length s \<and> \<not> is_char_boundary s i")
    case True
    with "1.prems" have "Suc i \<le> j" by (cases "i = j") auto
    with 1 True show ?thesis by (simp add: tail_start.simps [of s i])
  next
    case False
    then have "tail_start s i = i" by (auto simp: tail_start.simps [of s i])
    with "1.prems" show ?thesis by simp
  qed
qed

lemma length_utf8_head: "length (utf8_head s mx) \<le> mx"
  using head_end_le [of s mx] by (simp add: utf8_head_def)

lemma length_utf8_tail: "length (utf8_tail s mx) \<le> mx"
  using tail_start_ge [of "length s - mx" s] by (simp add: utf8_tail_def) linarith

lemma utf8_head_prefix: "utf8_head s mx = take (length (utf8_head s mx)) s"
  using head_end_le [of s mx] by (simp add: utf8_head_def min_def)

lemma utf8_tail_suffix: "utf8_tail s mx = drop (length s - length (utf8_tail s mx)) s"
  using tail_start_le [of "length s - mx" s] by (simp add: utf8_tail_def)

lemma utf8_head_boundary: "is_char_boundary s (length (utf8_head s mx))"
  using head_end_boundary [of s mx] head_end_le [of s mx]
  by (simp add: utf8_head_def min_def) (simp add: is_char_boundary_def)

lemma utf8_tail_boundary: "is_char_boundary s (length s - length (utf8_tail s mx))"
  using tail_start_boundary [of "length s - mx" s] tail_start_le [of "length s - mx" s]
  by (simp add: utf8_tail_def) (simp add: is_char_boundary_def)

section \<open>Properties\<close>

text \<open>
  A prefix cut is maximal. \<open>utf8_head\<close> returns the longest prefix that fits in the byte
  budget and ends on a character boundary: the cut is on a boundary (so the slice does not
  panic), it fits, and no boundary within the budget is beyond it.
\<close>

theorem utf8_head_longest:
  "utf8_head s mx = take (length (utf8_head s mx)) s
   \<and> length (utf8_head s mx) \<le> mx
   \<and> is_char_boundary s (length (utf8_head s mx))
   \<and> (\<forall>i. i \<le> length s \<and> i \<le> mx \<and> is_char_boundary s i \<longrightarrow> i \<le> length (utf8_head s mx))"
proof -
  have "\<forall>i. i \<le> length s \<and> i \<le> mx \<and> is_char_boundary s i \<longrightarrow> i \<le> length (utf8_head s mx)"
    using head_end_longest [of _ mx s] head_end_le [of s mx] by (auto simp: utf8_head_def min_def)
  then show ?thesis
    using utf8_head_prefix length_utf8_head utf8_head_boundary by blast
qed

theorem utf8_head_longest_witness:
  "is_char_boundary (''ab'' @ ellipsis) 2 \<and> 2 \<le> length (utf8_head (''ab'' @ ellipsis) 4)
   \<and> utf8_head (''ab'' @ ellipsis) 4 = ''ab''"
proof -
  have b: "is_char_boundary (''ab'' @ ellipsis) 2" by code_simp
  have "2 \<le> length (''ab'' @ ellipsis)" by (simp add: ellipsis_def)
  with b have "2 \<le> length (utf8_head (''ab'' @ ellipsis) 4)"
    using utf8_head_longest [of "''ab'' @ ellipsis" 4] by simp
  moreover have "utf8_head (''ab'' @ ellipsis) 4 = ''ab''" by code_simp
  ultimately show ?thesis using b by simp
qed

text \<open>
  The accounting of a head/tail window is exact. When a text does not fit, it is the
  retained head, then exactly as many bytes as the window reports omitted, then the retained
  tail; both parts respect their budgets. When it fits, nothing is reported omitted.
\<close>

theorem head_tail_exact:
  "(tw_omitted (head_tail s h t) = OmittedNone \<longrightarrow> length s \<le> h + t \<and> tw_head (head_tail s h t) = s)
   \<and> (\<forall>n. tw_omitted (head_tail s h t) = OmittedBytes n \<longrightarrow>
        (\<exists>mid. s = tw_head (head_tail s h t) @ mid @ tw_tail (head_tail s h t) \<and> length mid = n)
        \<and> length (tw_head (head_tail s h t)) \<le> h \<and> length (tw_tail (head_tail s h t)) \<le> t)"
proof (cases "length s \<le> h + t")
  case True
  then show ?thesis by (simp add: head_tail_def)
next
  case False
  define a b where "a = utf8_head s h" and "b = utf8_tail s t"
  have la: "length a \<le> h" and lb: "length b \<le> t"
    unfolding a_def b_def by (rule length_utf8_head, rule length_utf8_tail)
  define k where "k = length s - (length a + length b)"
  have fits: "length a + length b \<le> length s" using la lb False by linarith
  have a: "a = take (length a) s" unfolding a_def by (rule utf8_head_prefix)
  have b: "b = drop (length s - length b) s" unfolding b_def by (rule utf8_tail_suffix)
  have drop_mid: "drop (length a) s = take k (drop (length a) s) @ b"
  proof -
    have "length s - length b = length a + k" using fits by (simp add: k_def)
    then have "b = drop k (drop (length a) s)" using b by (simp add: add.commute)
    then show ?thesis by (metis append_take_drop_id)
  qed
  have "s = a @ take k (drop (length a) s) @ b"
    using a drop_mid by (metis append_take_drop_id)
  moreover have "length (take k (drop (length a) s)) = k" using fits by (simp add: k_def)
  ultimately have "\<exists>mid. s = a @ mid @ b \<and> length mid = k" by blast
  with False la lb show ?thesis
    by (simp add: head_tail_def Let_def flip: a_def b_def k_def)
qed

theorem head_tail_exact_witness:
  "tw_omitted (head_tail ''abcdefgh'' 3 2) = OmittedBytes 3
   \<and> (\<exists>mid. ''abcdefgh'' = tw_head (head_tail ''abcdefgh'' 3 2) @ mid
              @ tw_tail (head_tail ''abcdefgh'' 3 2) \<and> length mid = 3)"
proof -
  have "tw_omitted (head_tail ''abcdefgh'' 3 2) = OmittedBytes 3" by code_simp
  then show ?thesis using head_tail_exact [of "''abcdefgh''" 3 2] by blast
qed

section \<open>Length of a rendered window\<close>

lemma length_dec: "n < 10 ^ k \<Longrightarrow> 0 < k \<Longrightarrow> length (dec n) \<le> k"
proof (induction n arbitrary: k rule: dec.induct)
  case (1 n)
  show ?case
  proof (cases "n < 10")
    case True
    then show ?thesis using "1.prems" by (simp add: dec.simps [of n])
  next
    case False
    obtain m where k: "k = Suc m" using "1.prems"(2) by (cases k) auto
    have m: "0 < m" using "1.prems"(1) False k by (cases m) auto
    have "n div 10 < 10 ^ m" using "1.prems"(1) k by (simp add: less_mult_imp_div_less)
    then have "length (dec (n div 10)) \<le> m" using 1 False m by blast
    then show ?thesis using False k by (simp add: dec.simps [of n])
  qed
qed

lemma length_notice:
  "n < 10 ^ 20 \<Longrightarrow> length (notice (OmittedBytes n) r) \<le> length r + 47"
  using length_dec [of n 20] by (simp add: notice_def ellipsis_def)

lemma length_render:
  "length (render w marker) \<le> length (tw_head w) + length marker + length (tw_tail w) + 2"
  by (simp add: render_def split: Omitted.splits)

lemma render_omitted_bound:
  assumes "h + t < length s" and "length s < 10 ^ 20"
  shows "length (render (head_tail s h t) (notice (tw_omitted (head_tail s h t)) r))
         \<le> h + t + length r + 49"
proof -
  let ?w = "head_tail s h t"
  obtain n where n: "tw_omitted ?w = OmittedBytes n" and "n \<le> length s"
    using assms(1) by (simp add: head_tail_def Let_def)
  then have "length (notice (tw_omitted ?w) r) \<le> length r + 47"
    using assms(2) length_notice by simp
  moreover have "length (tw_head ?w) \<le> h" and "length (tw_tail ?w) \<le> t"
    using assms(1) by (simp_all add: head_tail_def Let_def length_utf8_head length_utf8_tail)
  ultimately show ?thesis
    using length_render [of ?w "notice (tw_omitted ?w) r"] by linarith
qed

end
