(* ===== verification/Compaction.thy ===== *)
theory Compaction
  imports Context_Budget Retain
begin

text \<open>
  Context compaction: \<open>src/crates/agents/src/compact.rs\<close> and its driver in
  \<open>src/crates/backend/src/chat.rs\<close> (\<open>prune_tool_results\<close>, \<open>compact_session\<close>, the prompt edit
  that rewinds).

  The summarizer's stream is the parameter \<open>stream\<close>: what attempt number \<open>n\<close> returned for a
  request (text and finish reason, or \<open>None\<close> for a transport failure). The sessions lock is
  released three times during \<open>compact_session\<close>; what other tasks did to the session at each
  of these points is a parameter of type \<open>interference\<close> (\<open>None\<close>: the session is gone).
  The \<open>f32\<close> arithmetic of \<open>split_index\<close> is modelled exactly: round to nearest even on a
  24-bit significand. The text of the summarisation directive (\<open>COMPACTION_INSTRUCTION\<close>) is
  the argument \<open>instruction\<close>.
\<close>

section \<open>Constants\<close>

definition MIN_TAIL_TOKENS :: nat where "MIN_TAIL_TOKENS = 512"
definition MIN_FOLD :: nat where "MIN_FOLD = 4"
definition MIN_TAIL :: nat where "MIN_TAIL = 2"
definition PRUNE_THRESHOLD :: nat where "PRUNE_THRESHOLD = 8192"
definition PRUNE_HEAD :: nat where "PRUNE_HEAD = 4096"
definition PRUNE_TAIL :: nat where "PRUNE_TAIL = 1024"
definition MAX_EXCERPT_CHARS :: nat where "MAX_EXCERPT_CHARS = 2000"
definition MAX_SUMMARY_CHARS :: nat where "MAX_SUMMARY_CHARS = 8000"

lemmas compact_consts = MIN_TAIL_TOKENS_def MIN_FOLD_def MIN_TAIL_def PRUNE_THRESHOLD_def
  PRUNE_HEAD_def PRUNE_TAIL_def MAX_EXCERPT_CHARS_def MAX_SUMMARY_CHARS_def

section \<open>Pruning a text\<close>

definition prune_recovery :: string where
  "prune_recovery = ''middle of this older tool result was pruned to free context; re-run the tool if you need it''"

definition prune_summary :: "string \<Rightarrow> string option" where
  "prune_summary summary =
     (if length summary \<le> PRUNE_THRESHOLD then None
      else let w = head_tail summary PRUNE_HEAD PRUNE_TAIL
           in Some (render w (notice (tw_omitted w) prune_recovery)))"

definition truncated_recovery :: string where
  "truncated_recovery = ''this reply was cut off at the output limit, so any tool call in it was incomplete and did NOT run; its middle was removed from context''"

definition truncated_reply :: "string \<Rightarrow> string option" where
  "truncated_reply text =
     (if length text \<le> PRUNE_THRESHOLD then None
      else let w = head_tail text PRUNE_HEAD PRUNE_TAIL
           in Some (render w (notice (tw_omitted w) truncated_recovery)))"

section \<open>Choosing the split\<close>

definition msg_tokens :: "Message \<Rightarrow> nat" where
  "msg_tokens m = wrap_u32 (approx_tokens (content m) + 4)"

definition approx_total :: "Message list \<Rightarrow> nat" where
  "approx_total ms = sum_u32 (map msg_tokens ms)"

text \<open>Significand arithmetic of \<open>f32\<close> on non-negative values.\<close>

fun bitlen :: "nat \<Rightarrow> nat" where
  "bitlen n = (if n = 0 then 0 else Suc (bitlen (n div 2)))"

declare bitlen.simps [simp del]

definition round_div_even :: "nat \<Rightarrow> nat \<Rightarrow> nat" where
  "round_div_even a b =
     (let q = a div b; r = a mod b
      in if 2 * r > b \<or> (2 * r = b \<and> odd q) then q + 1 else q)"

definition f32_of_nat :: "nat \<Rightarrow> nat" where
  "f32_of_nat n = (let k = bitlen n - 24 in round_div_even n (2 ^ k) * 2 ^ k)"

text \<open>\<open>(p / 100.0).max(512.0) as u32\<close> for an integral \<open>f32\<close> value \<open>p\<close>.\<close>

definition f32_div100_max512 :: "nat \<Rightarrow> nat" where
  "f32_div100_max512 p =
     (let x = p div 100; e = bitlen x - 1
      in if x < MIN_TAIL_TOKENS then MIN_TAIL_TOKENS
         else if e \<le> 23 then round_div_even (p * 2 ^ (23 - e)) 100 div 2 ^ (23 - e)
         else min U32_MAX (round_div_even p (100 * 2 ^ (e - 23)) * 2 ^ (e - 23)))"

definition tail_budget :: "nat \<Rightarrow> nat \<Rightarrow> nat" where
  "tail_budget budget_tokens pct =
     f32_div100_max512 (f32_of_nat (f32_of_nat budget_tokens * f32_of_nat (max pct 1)))"

text \<open>The two loops of \<open>split_index\<close>: fill the tail backwards, then keep call/result pairs whole.\<close>

fun walk_back :: "Message list \<Rightarrow> nat \<Rightarrow> nat \<Rightarrow> nat \<Rightarrow> nat \<Rightarrow> nat" where
  "walk_back ms tb max_split acc 0 = 0"
| "walk_back ms tb max_split acc (Suc n) =
     (let cost = msg_tokens (ms ! n)
      in if saturating_add_u32 acc cost > tb \<and> Suc n \<le> max_split then Suc n
         else walk_back ms tb max_split (saturating_add_u32 acc cost) n)"

fun pair_back :: "Message list \<Rightarrow> nat \<Rightarrow> nat" where
  "pair_back ms 0 = 0"
| "pair_back ms (Suc n) =
     (if \<not> (Suc n < length ms \<and> role (ms ! Suc n) = Tool) \<and> tool_calls (ms ! n) = None
      then Suc n else pair_back ms n)"

definition split_index :: "Message list \<Rightarrow> nat \<Rightarrow> nat \<Rightarrow> nat option" where
  "split_index ms budget_tokens pct =
     (if length ms < MIN_FOLD + MIN_TAIL then None
      else let tb = tail_budget budget_tokens pct;
               max_split = length ms - MIN_TAIL;
               split = min (walk_back ms tb max_split 0 (length ms)) max_split;
               split = pair_back ms split
           in if split < MIN_FOLD then None else Some split)"

section \<open>The summarizer\<close>

definition excerpt :: "string \<Rightarrow> nat \<Rightarrow> string" where
  "excerpt text max_bytes =
     (let w = head_tail text (max_bytes * 2 div 3) (max_bytes div 3)
      in render w (notice (tw_omitted w) []))"

fun str_rfind :: "string \<Rightarrow> string \<Rightarrow> nat option" where
  "str_rfind [] pat = (if pat = [] then Some 0 else None)"
| "str_rfind (c # cs) pat =
     (case str_rfind cs pat of Some i \<Rightarrow> Some (Suc i)
      | None \<Rightarrow> if starts_with (c # cs) pat then Some 0 else None)"

definition clean :: "string \<Rightarrow> string" where
  "clean raw =
     (let body = (case str_rfind raw ''</think>'' of
                    Some i \<Rightarrow> drop (i + length ''</think>'') raw | None \<Rightarrow> raw);
          trimmed = trim body
      in if chars_count trimmed \<le> MAX_SUMMARY_CHARS then trimmed
         else trim_end (take_chars MAX_SUMMARY_CHARS trimmed))"

definition cap_excerpt :: "ChatMessage \<Rightarrow> ChatMessage" where
  "cap_excerpt m =
     (let text = content_text (cm_content m)
      in if length text > MAX_EXCERPT_CHARS
         then m\<lparr>cm_content := Text (excerpt text MAX_EXCERPT_CHARS)\<rparr> else m)"

definition summarizer_request :: "string \<Rightarrow> ChatMessage list \<Rightarrow> ChatMessage list \<Rightarrow> ChatMessage list" where
  "summarizer_request instruction system_wire folded =
     system_wire @ map cap_excerpt folded @ [chat_text ''user'' instruction]"

type_synonym attempt = "(string \<times> string option) option"

text \<open>One pass of the retry loop: \<open>n\<close> attempts are left, \<open>i\<close> is the number of this one.\<close>

fun summarize_attempts :: "(nat \<Rightarrow> attempt) \<Rightarrow> nat \<Rightarrow> nat \<Rightarrow> string option" where
  "summarize_attempts stream 0 i = None"
| "summarize_attempts stream (Suc n) i =
     (case stream i of
        None \<Rightarrow> summarize_attempts stream n (Suc i)
      | Some (raw, fin) \<Rightarrow>
          if fin = Some ''length'' then summarize_attempts stream n (Suc i)
          else let summary = clean raw
               in if summary \<noteq> [] then Some summary else summarize_attempts stream n (Suc i))"

definition summarize_fold ::
  "string \<Rightarrow> (ChatMessage list \<Rightarrow> nat \<Rightarrow> attempt) \<Rightarrow> CompactPolicy \<Rightarrow> ChatMessage list
   \<Rightarrow> ChatMessage list \<Rightarrow> string option" where
  "summarize_fold instruction stream policy system_wire folded =
     summarize_attempts (stream (summarizer_request instruction system_wire folded))
       (Suc (retries policy)) 0"

definition SUMMARY_PREFIX :: string where
  "SUMMARY_PREFIX = ''[context summary] Earlier conversation was compressed to fit the model's context window. Treat the briefing below as established fact; do not assume anything beyond it about the discarded messages.''"

definition SUMMARY_PREAMBLE :: string where
  "SUMMARY_PREAMBLE = ''Treat the captured context as established background and build on it without restating it. Continue the task directly from the messages that follow, without acknowledging this checkpoint.''"

definition summary_message :: "string \<Rightarrow> string" where
  "summary_message summary =
     SUMMARY_PREFIX @ [CHR 0x0A, CHR 0x0A] @ SUMMARY_PREAMBLE @ [CHR 0x0A, CHR 0x0A]
     @ ''<compacted-summary>'' @ [CHR 0x0A] @ summary @ [CHR 0x0A] @ ''</compacted-summary>''"

section \<open>Pruning tool results in the log\<close>

definition prune_candidate :: "SurfaceEntry \<Rightarrow> EventKind option" where
  "prune_candidate e =
     Option.bind (se_tool e) (\<lambda>t. map_option
       (\<lambda>pruned. ToolResult (Replace (se_seq e) (se_seq e)) (tm_call_seq t) (tm_name t)
          (tool_call_id (se_message e)) (tm_ok t) pruned (tm_trusted t) True)
       (prune_summary (tm_summary t)))"

definition prune_candidates :: "SurfaceEntry list \<Rightarrow> nat option \<Rightarrow> EventKind list" where
  "prune_candidates entries split =
     (let keep_from = (case split of Some k \<Rightarrow> k | None \<Rightarrow> length entries - MIN_TAIL)
      in List.map_filter prune_candidate (take keep_from entries))"

definition prune_tool_results ::
  "int \<Rightarrow> SurfaceEntry list \<Rightarrow> nat option \<Rightarrow> nat \<Rightarrow> SessionLog \<Rightarrow> nat \<times> SessionLog" where
  "prune_tool_results now entries split lastq log =
     (let candidates = prune_candidates entries split
      in if candidates = [] then (0, log)
         else if last_seq log \<noteq> lastq then (0, log)
         else (length candidates, foldl (\<lambda>l k. log_append l now k) log candidates))"

definition prune_oversized_results :: "int \<Rightarrow> json_printer \<Rightarrow> SessionLog \<Rightarrow> nat \<times> SessionLog" where
  "prune_oversized_results now ser log =
     (let entries = derive_surface ser (events log)
      in prune_tool_results now entries (Some (length entries)) (last_seq log) log)"

section \<open>Compacting a session\<close>

type_synonym interference = "SessionLog \<Rightarrow> SessionLog option"

datatype hub_event =
    ContextCompacting
  | ContextCompacted bool nat nat nat string nat

record compact_env =
  ce_ser :: json_printer
  ce_parse :: "string \<Rightarrow> json option"
  ce_img :: "UserImage \<Rightarrow> string option"
  ce_summarize :: "ChatMessage list \<Rightarrow> string option"
  ce_now :: int
  ce_native :: bool
  ce_overhead :: nat
  ce_budget :: nat
  ce_window :: nat
  ce_policy :: CompactPolicy

text \<open>The second half: summarise the prefix of \<open>entries\<close> and append the summary.\<close>

definition fold_summary ::
  "compact_env \<Rightarrow> interference \<Rightarrow> nat \<Rightarrow> SurfaceEntry list \<Rightarrow> nat \<Rightarrow> SessionLog option
   \<Rightarrow> bool \<times> hub_event list \<times> SessionLog option" where
  "fold_summary env i3 pruned entries lastq cur =
     (let snapshot = map se_message entries
      in case split_index snapshot (ce_budget env) (retain_pct (ce_policy env)) of
           None \<Rightarrow> (pruned > 0, [], cur)
         | Some split \<Rightarrow>
             let before = approx_total snapshot;
                 failed = ContextCompacted False 0 before before [] pruned;
                 cur' = Option.bind cur i3
             in case ce_summarize env (wire_messages (ce_parse env) (ce_img env) (ce_native env) (take split snapshot)) of
                  None \<Rightarrow> (False, [ContextCompacting, failed], cur')
                | Some summary \<Rightarrow>
                    let text = summary_message summary;
                        after = approx_total (message_system text # drop split snapshot)
                    in case cur' of
                         None \<Rightarrow> (False, [ContextCompacting], None)
                       | Some log \<Rightarrow>
                           if last_seq log \<noteq> lastq then (False, [ContextCompacting, failed], Some log)
                           else (True, [ContextCompacting, ContextCompacted True split before after summary pruned],
                             Some (log_append log (ce_now env)
                               (CompactionSummary (Replace (se_seq (entries ! 0)) (se_seq (entries ! (split - 1))))
                                  text summary split before after))))"

definition compact_session ::
  "compact_env \<Rightarrow> interference \<Rightarrow> interference \<Rightarrow> interference \<Rightarrow> SessionLog
   \<Rightarrow> bool \<times> hub_event list \<times> SessionLog option" where
  "compact_session env i1 i2 i3 log0 =
     (let entries = derive_surface (ce_ser env) (events log0);
          lastq = last_seq log0;
          snapshot = map se_message entries;
          split = split_index snapshot (ce_budget env) (retain_pct (ce_policy env));
          (pruned, cur) = (case i1 log0 of None \<Rightarrow> (0, None)
             | Some l \<Rightarrow> let (n, l') = prune_tool_results (ce_now env) entries split lastq l in (n, Some l'))
      in if pruned > 0 then
           (case Option.bind cur i2 of
              None \<Rightarrow> (False, [], None)
            | Some log1 \<Rightarrow>
                let entries1 = derive_surface (ce_ser env) (events log1);
                    snapshot1 = map se_message entries1;
                    tokens = saturating_add_u32 (approx_total snapshot1) (ce_overhead env)
                in if tokens * 100 < ce_budget env * threshold_pct (ce_policy env)
                      \<and> \<not> at_ceiling tokens (ce_window env)
                   then (True, [ContextCompacted True 0 0 tokens [] pruned], Some log1)
                   else fold_summary env i3 pruned entries1 (last_seq log1) (Some log1))
         else fold_summary env i3 0 entries lastq cur)"

section \<open>Editing an earlier prompt\<close>

datatype edit_error = EmptyPrompt | TurnRunning | NotVisible | NotAUserMessage | NoSuchMessage

definition edit_user_message ::
  "json_printer \<Rightarrow> bool \<Rightarrow> SessionLog \<Rightarrow> nat \<Rightarrow> string \<Rightarrow> edit_error + UserImage list" where
  "edit_user_message ser running log sq text =
     (if trim text = [] then Inl EmptyPrompt
      else if running then Inl TurnRunning
      else if \<not> list_ex (\<lambda>e. se_seq e = sq) (derive_surface ser (events log)) then Inl NotVisible
      else case find (\<lambda>e. seq e = sq) (events log) of
             None \<Rightarrow> Inl NoSuchMessage
           | Some ev \<Rightarrow> (case kind ev of UserMessage _ _ imgs \<Rightarrow> Inr imgs | _ \<Rightarrow> Inl NotAUserMessage))"

text \<open>The first thing \<open>start_turn\<close> appends for a re-run from the prompt at \<open>sq\<close>.\<close>

definition start_rewind :: "int \<Rightarrow> SessionLog \<Rightarrow> nat \<Rightarrow> SessionLog" where
  "start_rewind now log sq = log_append log now (Rewind sq (last_seq log))"

end
