(* ===== verification/Compaction_Correct.thy ===== *)
theory Compaction_Correct
  imports Compaction
begin

text \<open>
  What compaction guarantees, and where the code's own steps leave the conditions under which
  it does: pruning shrinks and is idempotent, the split never separates a tool call from its
  result, a summary is never a truncated one, a compaction of a surface in sequence order is
  the splice the comments promise, and a compaction or a prompt edit on a surface that is out
  of order is not.
\<close>

section \<open>Pruning\<close>

lemma length_prune_recovery: "length prune_recovery \<le> 120"
  by (simp add: prune_recovery_def)

lemma length_truncated_recovery: "length truncated_recovery \<le> 160"
  by (simp add: truncated_recovery_def)

text \<open>
  Pruning always shrinks and is idempotent. A tool result (or a reply cut off at the output
  limit) over the threshold becomes strictly shorter, ends up under the threshold, and is
  therefore never pruned again. The hypothesis is that its length is a machine size.
\<close>

theorem pruning_idempotent:
  assumes "length s < 2 ^ 64"
  shows "(prune_summary s = Some t \<longrightarrow> length t < length s \<and> prune_summary t = None)
    \<and> (truncated_reply s = Some u \<longrightarrow> length u < length s \<and> truncated_reply u = None)"
proof -
  have size: "length s < 10 ^ 20" using assms by (rule order.strict_trans) simp
  have bound: "length (render (head_tail s 4096 1024) (notice (tw_omitted (head_tail s 4096 1024)) r)) \<le> 8000"
    if "8192 < length s" and "length r \<le> 160" for r
    using render_omitted_bound [of 4096 1024 s r] that size by simp
  show ?thesis
    using bound [OF _ length_truncated_recovery] bound [of prune_recovery] length_prune_recovery
    by (fastforce simp: prune_summary_def truncated_reply_def compact_consts Let_def split: if_splits)
qed

theorem pruning_idempotent_witness:
  "let s = replicate 9000 (CHR ''a'')
   in \<exists>t. prune_summary s = Some t \<and> length t < 9000 \<and> prune_summary t = None"
proof -
  let ?s = "replicate 9000 (CHR ''a'')"
  have l: "length ?s < 2 ^ 64" by simp
  obtain t where t: "prune_summary ?s = Some t"
    by (simp add: prune_summary_def compact_consts Let_def)
  from pruning_idempotent [OF l, of t] t show ?thesis by (simp add: Let_def)
qed

section \<open>The split\<close>

lemma pair_back_le: "pair_back ms n \<le> n"
  by (induction n) auto

lemma pair_back_safe:
  "0 < pair_back ms n \<Longrightarrow>
     \<not> (pair_back ms n < length ms \<and> role (ms ! pair_back ms n) = Tool)
     \<and> tool_calls (ms ! (pair_back ms n - 1)) = None"
  by (induction n) auto

lemma split_index_bounds:
  assumes "split_index ms budget pct = Some k"
  shows "MIN_FOLD \<le> k \<and> k + MIN_TAIL \<le> length ms \<and> role (ms ! k) \<noteq> Tool
    \<and> tool_calls (ms ! (k - 1)) = None"
proof -
  let ?mx = "length ms - MIN_TAIL"
  obtain n where n: "n \<le> ?mx" "k = pair_back ms n" "MIN_FOLD \<le> k" "MIN_FOLD + MIN_TAIL \<le> length ms"
    using assms that [of "min (walk_back ms (tail_budget budget pct) ?mx 0 (length ms)) ?mx"]
    by (auto simp: split_index_def Let_def split: if_splits)
  then have "k \<le> ?mx" using pair_back_le [of ms n] by simp
  then have "k + MIN_TAIL \<le> length ms" and "k < length ms" and "0 < k"
    using n by (auto simp: compact_consts)
  then show ?thesis using n pair_back_safe [of ms n] by auto
qed


lemma bitlen_le: "n < 2 ^ k \<Longrightarrow> bitlen n \<le> k"
proof (induction n arbitrary: k rule: bitlen.induct)
  case (1 n)
  show ?case
  proof (cases "n = 0")
    case False
    then obtain m where k: "k = Suc m" using "1.prems" by (cases k) auto
    have "n div 2 < 2 ^ m" using "1.prems" k by (simp add: less_mult_imp_div_less)
    with 1 False k show ?thesis by (simp add: bitlen.simps [of n])
  qed (simp add: bitlen.simps)
qed

lemma f32_of_nat_small: "n < 2 ^ 24 \<Longrightarrow> f32_of_nat n = n"
  using bitlen_le [of n 24] by (simp add: f32_of_nat_def round_div_even_def Let_def)

lemma round_div_even_near:
  "A div 100 \<le> round_div_even A 100" "100 * round_div_even A 100 \<le> A + 50"
proof -
  define d m where "d = A div 100" and "m = A mod 100"
  have A: "A = 100 * d + m" by (simp add: d_def m_def)
  have "round_div_even A 100 = (if 2 * m > 100 \<or> (2 * m = 100 \<and> odd d) then d + 1 else d)"
    by (simp only: round_div_even_def Let_def d_def m_def)
  then show "A div 100 \<le> round_div_even A 100" "100 * round_div_even A 100 \<le> A + 50"
    unfolding d_def [symmetric] using A by (simp_all split: if_splits)
qed

lemma round_div_even_share:
  assumes "64 \<le> F"
  shows "round_div_even (p * F) 100 div F = p div 100"
proof -
  define A x q where "A = p * F" and "x = p div 100" and "q = round_div_even A 100"
  define xF rF where "xF = x * F" and "rF = (p mod 100) * F"
  have "p = 100 * x + p mod 100" by (simp add: x_def)
  then have A: "A = 100 * xF + rF"
    unfolding xF_def rF_def by (metis A_def add_mult_distrib mult.assoc)
  have "p mod 100 < 100" by simp
  then have "p mod 100 \<le> 99" by linarith
  then have rF: "rF \<le> 99 * F" unfolding rF_def by (rule mult_le_mono1)
  have "xF \<le> A div 100" using A by linarith
  then have lo: "xF \<le> q" using round_div_even_near(1) [of A] by (simp add: q_def)
  have "100 * q \<le> A + 50" using round_div_even_near(2) [of A] by (simp add: q_def)
  with A rF assms have "q < xF + F" by linarith
  with lo have "q div F = x"
    unfolding xF_def by (intro div_nat_eqI) (simp_all add: mult.commute)
  then show ?thesis by (simp add: q_def A_def x_def)
qed

lemma tail_budget_share:
  assumes "b * max p 1 < 2 ^ 24"
  shows "tail_budget b p = max MIN_TAIL_TOKENS (b * max p 1 div 100)"
proof -
  let ?m = "b * max p 1"
  have 1: "f32_of_nat (f32_of_nat b * f32_of_nat (max p 1)) = ?m"
  proof (cases "b = 0")
    case True
    then show ?thesis by (simp add: f32_of_nat_small)
  next
    case False
    then have "1 * max p 1 \<le> ?m" and "b * 1 \<le> ?m"
      by (intro mult_le_mono1, simp) (intro mult_le_mono2, simp)
    then have "max p 1 < 2 ^ 24" and "b < 2 ^ 24" using assms by linarith+
    then have "f32_of_nat b = b" "f32_of_nat (max p 1) = max p 1"
      by (simp_all only: f32_of_nat_small)
    then show ?thesis using assms by (simp add: f32_of_nat_small)
  qed
  show ?thesis
  proof (cases "?m div 100 < MIN_TAIL_TOKENS")
    case True
    then show ?thesis by (simp only: tail_budget_def 1 f32_div100_max512_def Let_def if_True max.absorb1 less_imp_le)
  next
    case False
    have "?m div 100 < 2 ^ 18" using assms by simp
    then have e: "bitlen (?m div 100) - 1 \<le> 17" using bitlen_le [of "?m div 100" 18] by simp
    then have "(2::nat) ^ 6 \<le> 2 ^ (23 - (bitlen (?m div 100) - 1))"
      by (intro power_increasing) auto
    then have "round_div_even (?m * 2 ^ (23 - (bitlen (?m div 100) - 1))) 100
        div 2 ^ (23 - (bitlen (?m div 100) - 1)) = ?m div 100"
      by (intro round_div_even_share) simp
    with False e show ?thesis
      by (simp only: tail_budget_def 1 f32_div100_max512_def Let_def if_False) simp
  qed
qed

text \<open>
  The tail budget is the exact share. As long as budget times percentage stays below
  \<open>2^24\<close> (a million-token window at the default 16 percent), the \<open>f32\<close> computation loses
  nothing: the tail may fill exactly \<open>max 512 (budget * pct / 100)\<close> tokens.
\<close>

theorem tail_budget_exact:
  assumes "b * max p 1 < 2 ^ 24"
  shows "tail_budget b p = max MIN_TAIL_TOKENS (b * max p 1 div 100)"
  using assms by (rule tail_budget_share)

theorem tail_budget_exact_witness: "tail_budget 24000 16 = 3840"
  using tail_budget_exact [of 24000 16] by (simp add: compact_consts)

section \<open>The summary\<close>

lemma chars_count_clean: "chars_count (clean raw) \<le> MAX_SUMMARY_CHARS"
proof -
  have "chars_count (trim_end (take_chars MAX_SUMMARY_CHARS s)) \<le> MAX_SUMMARY_CHARS" for s
    using chars_count_trim_end [of "take_chars MAX_SUMMARY_CHARS s"]
    by (simp add: chars_count_take_chars)
  then show ?thesis by (simp add: clean_def Let_def)
qed

definition usable :: "attempt \<Rightarrow> bool" where
  "usable a = (case a of None \<Rightarrow> False | Some (raw, fin) \<Rightarrow> fin \<noteq> Some ''length'' \<and> clean raw \<noteq> [])"

lemma summarize_attempts_first:
  "summarize_attempts stream n i =
     (case find (\<lambda>j. usable (stream j)) [i..<i + n] of
        Some j \<Rightarrow> (case stream j of Some (raw, fin) \<Rightarrow> Some (clean raw) | None \<Rightarrow> None)
      | None \<Rightarrow> None)"
proof (induction n arbitrary: i)
  case (Suc n)
  have "[i..<i + Suc n] = i # [Suc i..<Suc i + n]" by (simp add: upt_conv_Cons)
  with Suc [of "Suc i"] show ?case
    by (auto simp: usable_def Let_def split: option.splits prod.splits)
qed simp

text \<open>
  Only a complete summary is kept. The summarizer answers exactly when one of its
  \<open>retries + 1\<close> attempts is usable; the answer is the cleaned text of an attempt that was not
  cut off at the token limit, it is not empty and has at most 8000 characters.
\<close>

theorem summary_complete_or_none:
  "(summarize_fold instr stream policy sys folded \<noteq> None \<longleftrightarrow>
      (\<exists>j \<le> retries policy. usable (stream (summarizer_request instr sys folded) j)))
   \<and> (\<forall>s. summarize_fold instr stream policy sys folded = Some s \<longrightarrow>
        s \<noteq> [] \<and> chars_count s \<le> MAX_SUMMARY_CHARS
        \<and> (\<exists>j raw fin. stream (summarizer_request instr sys folded) j = Some (raw, fin)
             \<and> fin \<noteq> Some ''length'' \<and> s = clean raw))"
proof -
  let ?st = "stream (summarizer_request instr sys folded)"
  let ?f = "find (\<lambda>j. usable (?st j)) [0..<Suc (retries policy)]"
  have eq: "summarize_fold instr stream policy sys folded =
      (case ?f of Some j \<Rightarrow> (case ?st j of Some (raw, fin) \<Rightarrow> Some (clean raw) | None \<Rightarrow> None) | None \<Rightarrow> None)"
    unfolding summarize_fold_def summarize_attempts_first by simp
  show ?thesis
  proof (cases ?f)
    case None
    then have "\<forall>j \<in> set [0..<Suc (retries policy)]. \<not> usable (?st j)"
      by (simp only: find_None_iff) blast
    then have "\<forall>j \<le> retries policy. \<not> usable (?st j)" by (auto simp: le_less)
    with None eq show ?thesis by simp
  next
    case (Some j)
    then have j: "usable (?st j)" "j \<le> retries policy"
      by (auto simp: find_Some_iff simp del: upt_Suc)
    then obtain raw fin where st: "?st j = Some (raw, fin)" "fin \<noteq> Some ''length''" "clean raw \<noteq> []"
      by (auto simp: usable_def split: option.splits)
    with eq Some have "summarize_fold instr stream policy sys folded = Some (clean raw)" by simp
    with j st show ?thesis using chars_count_clean [of raw] by auto
  qed
qed

theorem summary_complete_or_none_witness:
  "let stream = (\<lambda>_ (j::nat). if j = 0 then Some (''cut'', Some ''length'') else Some ('' done '', Some ''stop''));
       policy = \<lparr>threshold_pct = 80, retain_pct = 16, max_tokens = 8192, retries = 1\<rparr>
   in (\<exists>s. summarize_fold ''go'' stream policy [] [] = Some s \<and> s \<noteq> [])"
proof -
  let ?stream = "\<lambda>_ (j::nat). if j = 0 then Some (''cut'', Some ''length'') else Some ('' done '', Some ''stop'')"
  let ?policy = "\<lparr>threshold_pct = 80, retain_pct = 16, max_tokens = 8192, retries = 1\<rparr>"
  have c: "clean '' done '' \<noteq> []"
  proof -
    have "chars_count ''done'' \<le> MAX_SUMMARY_CHARS" by (simp add: chars_count_def compact_consts is_cont_byte_def)
    moreover have "trim '' done '' = ''done''" by code_simp
    moreover have "str_rfind '' done '' ''</think>'' = None" by code_simp
    ultimately show ?thesis by (simp add: clean_def Let_def)
  qed
  then have "usable (?stream (summarizer_request ''go'' [] []) 1)" by (simp add: usable_def)
  then have "summarize_fold ''go'' ?stream ?policy [] [] \<noteq> None"
    using summary_complete_or_none [of "''go''" ?stream ?policy "[]" "[]"] by fastforce
  then show ?thesis
    using summary_complete_or_none [of "''go''" ?stream ?policy "[]" "[]"] by (auto simp: Let_def)
qed

section \<open>Compaction of a session\<close>

lemma derive_log_append:
  assumes "wf_log log" and "entry_of ser (fst (derive_state ser (events log)))
      \<lparr>seq = Suc (last_seq log), ts = now, kind = k\<rparr> = Some (s, e)"
  shows "derive_surface ser (events (log_append log now k)) = land s e (derive_surface ser (events log))"
  by (simp add: events_append [OF assms(1)] derive_surface_snoc surface_step_entry [OF assms(2)])
    (simp add: derive_surface_def)

definition summary_entry :: "nat \<Rightarrow> string \<Rightarrow> SurfaceEntry" where
  "summary_entry n text = \<lparr>se_seq = n, se_message = message_system text, se_tool = None, se_context = None\<rparr>"

lemma derive_after_summary:
  assumes "wf_log log"
  shows "derive_surface ser (events (log_append log now (CompactionSummary s text sm f x y)))
    = land s (summary_entry (Suc (last_seq log)) text) (derive_surface ser (events log))"
  by (rule derive_log_append [OF assms]) (simp add: entry_of_def summary_entry_def)

text \<open>The handler on an undisturbed session with nothing to prune.\<close>

lemma compact_session_undisturbed:
  assumes ent: "entries = derive_surface (ce_ser env) (events log)"
    and split: "split_index (map se_message entries) (ce_budget env) (retain_pct (ce_policy env)) = Some k"
    and noprune: "prune_candidates entries (Some k) = []"
    and sum: "ce_summarize env (wire_messages (ce_parse env) (ce_img env) (ce_native env)
        (take k (map se_message entries))) = Some sm"
  shows "\<exists>evs b a. compact_session env Some i2 Some log = (True, evs, Some (log_append log (ce_now env)
      (CompactionSummary (Replace (se_seq (entries ! 0)) (se_seq (entries ! (k - 1))))
         (summary_message sm) sm k b a)))"
  using split noprune sum
  by (auto simp: compact_session_def fold_summary_def prune_tool_results_def Let_def simp flip: ent)

lemma compact_session_sorted:
  assumes "wf_log log" and ent: "entries = derive_surface (ce_ser env) (events log)"
    and srt: "seq_sorted entries"
    and split: "split_index (map se_message entries) (ce_budget env) (retain_pct (ce_policy env)) = Some k"
    and "prune_candidates entries (Some k) = []"
    and "ce_summarize env (wire_messages (ce_parse env) (ce_img env) (ce_native env)
        (take k (map se_message entries))) = Some sm"
  shows "\<exists>evs kd. compact_session env Some i2 Some log = (True, evs, Some (log_append log (ce_now env) kd))
    \<and> derive_surface (ce_ser env) (events (log_append log (ce_now env) kd)) =
        summary_entry (Suc (last_seq log)) (summary_message sm) # drop k entries"
proof -
  let ?a = "se_seq (entries ! 0)" and ?b = "se_seq (entries ! (k - 1))"
  let ?e = "summary_entry (Suc (last_seq log)) (summary_message sm)"
  obtain evs b a where run: "compact_session env Some i2 Some log = (True, evs, Some (log_append log (ce_now env)
      (CompactionSummary (Replace ?a ?b) (summary_message sm) sm k b a)))"
    using compact_session_undisturbed [OF assms(2,4,5,6)] by blast
  let ?kd = "CompactionSummary (Replace ?a ?b) (summary_message sm) sm k b a"
  have k: "0 < k" "k \<le> length entries"
    using split_index_bounds [OF split] by (auto simp: compact_consts)
  note cut = seq_sorted_split [OF srt k refl refl]
  have "derive_surface (ce_ser env) (events (log_append log (ce_now env) ?kd)) = land (Replace ?a ?b) ?e entries"
    unfolding ent by (rule derive_after_summary [OF assms(1)])
  also have "\<dots> = ?e # drop k entries"
    by (simp only: land_Replace_sorted [OF srt cut(3)] cut(1,2)) simp
  finally show ?thesis using run by blast
qed


text \<open>A session of six messages in order; the last one alone fills the tail budget.\<close>

definition demo_env :: compact_env where
  "demo_env = \<lparr>ce_ser = (\<lambda>_. []), ce_parse = (\<lambda>_. None), ce_img = (\<lambda>_. None),
     ce_summarize = (\<lambda>_. Some ''S''), ce_now = 0, ce_native = False, ce_overhead = 0,
     ce_budget = 2000, ce_window = 4000,
     ce_policy = \<lparr>threshold_pct = 80, retain_pct = 16, max_tokens = 8192, retries = 1\<rparr>\<rparr>"

abbreviation big_text :: string where
  "big_text \<equiv> replicate 2100 (CHR ''a'')"

definition demo_log :: "EventKind list \<Rightarrow> SessionLog" where
  "demo_log ks = foldl (\<lambda>l k. log_append l 0 k) (new_in 1 ''t'' None 0 0) ks"

definition ordered_kinds :: "EventKind list" where
  "ordered_kinds = [UserMessage Append ''a'' [], UserMessage Append ''b'' [], UserMessage Append ''c'' [],
     UserMessage Append ''d'' [], UserMessage Append ''e'' [], UserMessage Append big_text []]"

lemma wf_demo_log: "wf_log (demo_log ks)"
  unfolding demo_log_def by (rule slog.app_all(1) [OF wf_new_in])

lemma chars_count_big [simp]: "chars_count big_text = 2100"
  by (simp add: chars_count_def filter_replicate is_cont_byte_def)

text \<open>Six messages, none with tool calls, the last one big: the split is at four.\<close>

lemma split_demo:
  assumes "length ms = 6" and "\<forall>m \<in> set ms. tool_calls m = None \<and> role m \<noteq> Tool"
    and "content (ms ! 5) = big_text" and "msg_tokens (ms ! 4) \<le> 100"
  shows "split_index ms 2000 16 = Some 4"
proof -
  have tb: "tail_budget 2000 16 = 512"
    using tail_budget_share [of 2000 16] by (simp add: compact_consts)
  have t5: "msg_tokens (ms ! 5) = 529"
    using assms(3) by (simp add: msg_tokens_def approx_tokens_def)
  have "saturating_add_u32 (saturating_add_u32 529 (msg_tokens (ms ! 4))) c > 512" for c
    using assms(4) by (simp add: saturating_add_u32_def)
  then have w3: "walk_back ms 512 4 (saturating_add_u32 529 (msg_tokens (ms ! 4))) 4 = 4"
    using walk_back.simps(2) [of ms 512 4 "saturating_add_u32 529 (msg_tokens (ms ! 4))" 3]
    by (simp add: Let_def)
  have w4: "walk_back ms 512 4 529 5 = 4"
    using walk_back.simps(2) [of ms 512 4 529 4] w3 by (simp add: Let_def)
  have "walk_back ms 512 4 0 6 = 4"
    using walk_back.simps(2) [of ms 512 4 0 5] w4 t5 by (simp add: Let_def saturating_add_u32_def)
  moreover have "pair_back ms 4 = 4"
    using assms(1,2) by (simp add: numeral_eq_Suc)
  ultimately show ?thesis
    using assms(1) by (simp add: split_index_def compact_consts tb Let_def)
qed

lemmas demo_eval = demo_log_def new_in_def log_append_def derive_surface_def derive_state_def
  surface_step_def entry_of_def message_user_with_images_def message_user_def message_system_def
  message_base_def

lemma ordered_entries:
  "derive_surface (ce_ser demo_env) (events (demo_log ordered_kinds)) =
     map (\<lambda>(n, t). \<lparr>se_seq = n, se_message = message_user t, se_tool = None, se_context = None\<rparr>)
      [(2, ''a''), (3, ''b''), (4, ''c''), (5, ''d''), (6, ''e''), (7, big_text)]"
  by (simp add: demo_eval ordered_kinds_def demo_env_def)

lemma ordered_split:
  "split_index (map se_message (derive_surface (ce_ser demo_env) (events (demo_log ordered_kinds))))
     (ce_budget demo_env) (retain_pct (ce_policy demo_env)) = Some 4"
  unfolding ordered_entries
  by (simp add: demo_env_def split_demo message_user_def message_base_def msg_tokens_def approx_tokens_def
      chars_count_def [of "[_]"] is_cont_byte_def nth_Cons')


lemma ordered_noprune:
  "prune_candidates (derive_surface (ce_ser demo_env) (events (demo_log ordered_kinds))) (Some 4) = []"
  unfolding ordered_entries
  by (simp add: prune_candidates_def prune_candidate_def List.map_filter_def numeral_eq_Suc)

lemma demo_summarize: "ce_summarize demo_env ms = Some ''S''"
  by (simp add: demo_env_def)


text \<open>
  On a surface out of order, compaction leaves folded messages in the model's view. The
  shadowed span runs from the sequence number of the first entry to that of the last folded
  one. A folded entry whose number lies outside this span (every older message, once the
  runtime-context snapshot at the front has been refreshed by a later turn, or after an
  earlier compaction) is still on the surface after a compaction that reports success.
\<close>

theorem compaction_leaves_folded_visible:
  assumes "wf_log log" and "entries = derive_surface (ce_ser env) (events log)"
    and "split_index (map se_message entries) (ce_budget env) (retain_pct (ce_policy env)) = Some k"
    and "prune_candidates entries (Some k) = []"
    and "ce_summarize env (wire_messages (ce_parse env) (ce_img env) (ce_native env)
        (take k (map se_message entries))) = Some sm"
    and "e \<in> set (take k entries)"
    and "se_seq e < se_seq (entries ! 0) \<or> se_seq e > se_seq (entries ! (k - 1))"
  shows "\<exists>evs log'. compact_session env Some i2 Some log = (True, evs, Some log')
    \<and> e \<in> set (derive_surface (ce_ser env) (events log'))"
proof -
  let ?a = "se_seq (entries ! 0)" and ?b = "se_seq (entries ! (k - 1))"
  let ?e = "summary_entry (Suc (last_seq log)) (summary_message sm)"
  obtain evs b a where run: "compact_session env Some i2 Some log = (True, evs, Some (log_append log (ce_now env)
      (CompactionSummary (Replace ?a ?b) (summary_message sm) sm k b a)))"
    using compact_session_undisturbed [OF assms(2,3,4,5)] by blast
  have "e \<in> set (shadow ?a ?b entries)"
    using assms(6,7) by (auto simp: shadow_def dest: in_set_takeD)
  then have "e \<in> set (land (Replace ?a ?b) ?e entries)"
    by (simp add: Let_def)
  with run show ?thesis
    using derive_after_summary [OF assms(1), of "ce_ser env"] by (auto simp flip: assms(2))
qed

text \<open>
  Two turns of a session in the order the backend logs them: runtime context, prompt, reply,
  a steered message and a reply; then the second turn's context snapshot replaces the first.
\<close>

definition two_turn_kinds :: "EventKind list" where
  "two_turn_kinds = [ContextInjected Append RuntimeContext ''rc1'', UserMessage Append ''u1'' [],
     AssistantMessage Append ''a1'' None None, UserMessage Append ''u2'' [],
     AssistantMessage Append ''a2'' None None,
     ContextInjected (Replace 2 2) RuntimeContext ''rc2'', UserMessage Append big_text []]"

theorem compaction_leaves_folded_visible_witness:
  "let log = demo_log two_turn_kinds;
       e = \<lparr>se_seq = 3, se_message = message_user ''u1'', se_tool = None, se_context = None\<rparr>
   in \<exists>evs log'. compact_session demo_env Some Some Some log = (True, evs, Some log')
      \<and> e \<in> set (derive_surface (\<lambda>_. []) (events log'))"
proof -
  let ?log = "demo_log two_turn_kinds"
  let ?mk = "\<lambda>n m c. \<lparr>se_seq = n, se_message = m, se_tool = None, se_context = c\<rparr>"
  let ?entries = "derive_surface (ce_ser demo_env) (events ?log)"
  have ents: "?entries = [?mk 7 (message_user ''rc2'') (Some RuntimeContext), ?mk 3 (message_user ''u1'') None,
      ?mk 4 (message_assistant ''a1'') None, ?mk 5 (message_user ''u2'') None,
      ?mk 6 (message_assistant ''a2'') None, ?mk 8 (message_user big_text) None]"
    by (simp add: demo_eval two_turn_kinds_def demo_env_def shadow_def insert_at_def message_assistant_def Let_def)
  have sp: "split_index (map se_message ?entries) (ce_budget demo_env) (retain_pct (ce_policy demo_env)) = Some 4"
    unfolding ents
    by (simp add: demo_env_def split_demo message_user_def message_assistant_def message_base_def msg_tokens_def approx_tokens_def
        chars_count_def [of "[_, _]"] is_cont_byte_def nth_Cons')
  have np: "prune_candidates ?entries (Some 4) = []"
    unfolding ents by (simp add: prune_candidates_def prune_candidate_def List.map_filter_def numeral_eq_Suc)
  have e: "?mk 3 (message_user ''u1'') None \<in> set (take 4 ?entries)"
    and "se_seq (?mk 3 (message_user ''u1'') None) < se_seq (?entries ! 0)"
    unfolding ents by (simp_all add: numeral_eq_Suc)
  with compaction_leaves_folded_visible [OF wf_demo_log refl sp np demo_summarize e, of Some] show ?thesis
    by (auto simp: demo_env_def Let_def)
qed

text \<open>
  A compaction never hides what its summary did not read. If other tasks only append to the
  session while the summarizer runs, a compaction that reports success appended its summary to
  exactly the log it had read: the check on the last sequence number is enough.
\<close>

theorem compaction_reads_what_it_folds:
  assumes "wf_log log" and "i3 = (\<lambda>l. Some (foldl (\<lambda>l k. log_append l t k) l ks))"
    and "prune_candidates (derive_surface (ce_ser env) (events log))
      (split_index (map se_message (derive_surface (ce_ser env) (events log))) (ce_budget env) (retain_pct (ce_policy env))) = []"
    and "compact_session env Some i2 i3 log = (True, evs, Some log')"
  shows "events log' = events log @ [last (events log')] \<and> ks = []"
proof -
  let ?l = "foldl (\<lambda>l k. log_append l t k) log ks"
  from assms(2,3,4) have "last_seq ?l = last_seq log" and ap: "\<exists>k. log' = log_append ?l (ce_now env) k"
    by (auto simp: compact_session_def fold_summary_def prune_tool_results_def Let_def
        split: option.splits if_splits)
  then have "?l = log" by (intro slog.unmoved [OF assms(1)])
  moreover have "ks = []"
    using slog.app_all(2) [OF assms(1), of t ks] \<open>last_seq ?l = last_seq log\<close> by simp
  ultimately show ?thesis using ap events_append [OF assms(1)] by auto
qed

theorem compaction_reads_what_it_folds_witness:
  "\<exists>evs log'. compact_session demo_env Some Some Some (demo_log ordered_kinds) = (True, evs, Some log')
     \<and> events log' = events (demo_log ordered_kinds) @ [last (events log')]"
proof -
  let ?log = "demo_log ordered_kinds"
  let ?i3 = "\<lambda>l. Some (foldl (\<lambda>l k. log_append l 0 k) l [])"
  have i3: "?i3 = Some" by (rule ext) simp
  obtain evs log' where run: "compact_session demo_env Some Some ?i3 ?log = (True, evs, Some log')"
    using compact_session_undisturbed [OF refl ordered_split ordered_noprune demo_summarize, of Some]
    unfolding i3 by blast
  have np: "prune_candidates (derive_surface (ce_ser demo_env) (events ?log))
      (split_index (map se_message (derive_surface (ce_ser demo_env) (events ?log)))
        (ce_budget demo_env) (retain_pct (ce_policy demo_env))) = []"
    unfolding ordered_split by (rule ordered_noprune)
  from compaction_reads_what_it_folds [OF wf_demo_log refl np run] run show ?thesis
    unfolding i3 by blast
qed

section \<open>Pruning in the log\<close>

lemma land_behind_replaced:
  assumes "seq_sorted entries" and "i < j" and "j < length entries" and "se_seq (entries ! j) < se_seq e1"
  shows "land (Replace (se_seq (entries ! j)) (se_seq (entries ! j))) e2 (entries[i := e1]) =
    take i entries @ e2 # e1 # shadow (se_seq (entries ! j)) (se_seq (entries ! j)) (drop (Suc i) entries)"
proof -
  let ?q = "se_seq (entries ! j)"
  have il: "i < length entries" using assms(2,3) by simp
  have pre: "\<forall>x \<in> set (take i entries). se_seq x < ?q"
    using assms(1-3) by (auto simp: in_set_conv_nth sorted_wrt_iff_nth_less)
  have "shadow ?q ?q (entries[i := e1]) = take i entries @ e1 # shadow ?q ?q (drop (Suc i) entries)"
    using pre il assms(4) by (auto simp: upd_conv_take_nth_drop shadow_def filter_id_conv)
  moreover have "position (\<lambda>x. ?q \<le> se_seq x) (take i entries) = None"
    using pre by (auto simp: position_None)
  ultimately show ?thesis using il assms(4) by (simp add: insert_at_def position_append)
qed

lemma prune_candidate_shape:
  assumes "prune_candidate x = Some k"
  shows "\<exists>cs n i ok p tr. k = ToolResult (Replace (se_seq x) (se_seq x)) cs n i ok p tr True"
  using assms by (auto simp: prune_candidate_def bind_eq_Some_conv)

lemma prune_candidate_entry:
  assumes "prune_candidate x = Some k" and "wf_log log"
  shows "\<exists>e. derive_surface ser (events (log_append log now k)) =
      land (Replace (se_seq x) (se_seq x)) e (derive_surface ser (events log))
    \<and> se_seq e = Suc (last_seq log) \<and> role (se_message e) = Tool"
proof -
  obtain cs n i ok p tr where k: "k = ToolResult (Replace (se_seq x) (se_seq x)) cs n i ok p tr True"
    using prune_candidate_shape [OF assms(1)] by blast
  let ?ev = "\<lparr>seq = Suc (last_seq log), ts = now, kind = k\<rparr>"
  have "\<exists>e. entry_of ser (fst (derive_state ser (events log))) ?ev = Some (Replace (se_seq x) (se_seq x), e)
      \<and> se_seq e = Suc (last_seq log) \<and> role (se_message e) = Tool"
    by (simp add: entry_of_def k Let_def message_base_def)
  then show ?thesis using derive_log_append [OF assms(2)] by blast
qed

text \<open>
  Pruning one result replaces it in place. On a surface in sequence order, when exactly one
  result in front of the tail is oversized, the pruner changes that entry only: it becomes a
  tool message at the same position, and every other entry is untouched.
\<close>

theorem prune_one_in_place:
  assumes "wf_log log" and "entries = derive_surface ser (events log)" and "seq_sorted entries"
    and "i < length entries" and "prune_candidate (entries ! i) = Some k"
    and "prune_candidates entries split = [k]"
  shows "\<exists>log' e. prune_tool_results now entries split (last_seq log) log = (1, log')
    \<and> derive_surface ser (events log') = entries[i := e]
    \<and> se_seq e = Suc (last_seq log) \<and> role (se_message e) = Tool"
proof -
  obtain e where e: "derive_surface ser (events (log_append log now k)) =
      land (Replace (se_seq (entries ! i)) (se_seq (entries ! i))) e entries"
      "se_seq e = Suc (last_seq log)" "role (se_message e) = Tool"
    using prune_candidate_entry [OF assms(5,1), of ser now] assms(2) by blast
  then have "derive_surface ser (events (log_append log now k)) = entries[i := e]"
    using land_Replace_at [OF assms(3,4)] by simp
  with e(2,3) assms(6) show ?thesis
    by (intro exI [of _ "log_append log now k"] exI [of _ e]) (simp add: prune_tool_results_def)
qed

text \<open>
  Pruning two results swaps them. With two oversized results in front of the tail the second
  replacement does not take the place of its span: the first replacement, now carrying a high
  sequence number, is the first entry at or above the second span, so the newer result is
  inserted in front of the older one.
\<close>

theorem prune_two_swaps:
  assumes "wf_log log" and "entries = derive_surface ser (events log)" and "seq_sorted entries"
    and "i < j" and "j < length entries"
    and "prune_candidate (entries ! i) = Some k1" and "prune_candidate (entries ! j) = Some k2"
    and "prune_candidates entries split = [k1, k2]"
  shows "\<exists>log' e1 e2. prune_tool_results now entries split (last_seq log) log = (2, log')
    \<and> derive_surface ser (events log') ! i = e2 \<and> derive_surface ser (events log') ! Suc i = e1
    \<and> se_seq e2 = last_seq log + 2 \<and> se_seq e1 = last_seq log + 1"
proof -
  let ?l1 = "log_append log now k1" and ?q = "se_seq (entries ! j)"
  have il: "i < length entries" using assms(4,5) by simp
  obtain e1 where e1: "derive_surface ser (events ?l1) = entries[i := e1]" "se_seq e1 = Suc (last_seq log)"
    using prune_candidate_entry [OF assms(6,1), of ser now] land_Replace_at [OF assms(3) il] assms(2) by metis
  obtain e2 where e2: "derive_surface ser (events (log_append ?l1 now k2)) = land (Replace ?q ?q) e2 (entries[i := e1])"
      "se_seq e2 = Suc (Suc (last_seq log))"
    using prune_candidate_entry [OF assms(7) wf_append [OF assms(1)], where ser = ser] e1
      last_seq_append [OF assms(1)] by metis
  have "?q \<le> last_seq log"
    using surface_seq_logged [of "entries ! j" ser "events log"] wf_bounds [OF assms(1)] assms(2,5) by fastforce
  then have "land (Replace ?q ?q) e2 (entries[i := e1]) =
      take i entries @ e2 # e1 # shadow ?q ?q (drop (Suc i) entries)"
    using e1(2) by (intro land_behind_replaced [OF assms(3-5)]) simp
  with e1(2) e2 il assms(8) show ?thesis
    by (intro exI [of _ "log_append ?l1 now k2"]) (simp add: prune_tool_results_def nth_append)
qed

text \<open>Sessions with one or two oversized tool results in front of the tail.\<close>

definition huge_text :: string where
  "huge_text = replicate 9000 (CHR ''a'')"

definition result_kinds :: "nat \<Rightarrow> EventKind list" where
  "result_kinds n = UserMessage Append ''u'' []
     # replicate n (ToolResult Append 2 ''read'' None True huge_text True False)
     @ [AssistantMessage Append ''a1'' None None, UserMessage Append ''u2'' []]"

lemma huge_pruned: "prune_summary huge_text \<noteq> None"
  by (simp add: huge_text_def prune_summary_def compact_consts Let_def)

lemma result_entries:
  "derive_surface (\<lambda>_. []) (events (demo_log (result_kinds n))) =
     \<lparr>se_seq = 2, se_message = message_user ''u'', se_tool = None, se_context = None\<rparr>
     # map (\<lambda>i. \<lparr>se_seq = 3 + i,
          se_message = message_base Tool (tool_result_message (\<lambda>_. []) ''read'' True huge_text True),
          se_tool = Some (tool_meta Map.empty 2 ''read'' True huge_text True False), se_context = None\<rparr>) [0..<n]
     @ [\<lparr>se_seq = 3 + n, se_message = message_assistant ''a1'', se_tool = None, se_context = None\<rparr>,
        \<lparr>se_seq = 4 + n, se_message = message_user ''u2'', se_tool = None, se_context = None\<rparr>]"
  if "n = 1 \<or> n = 2"
  using that
  by (auto simp: demo_eval result_kinds_def message_assistant_def numeral_eq_Suc Let_def)

theorem prune_one_in_place_witness:
  "let log = demo_log (result_kinds 1)
   in \<exists>log'. prune_tool_results 0 (derive_surface (\<lambda>_. []) (events log)) None (last_seq log) log = (1, log')
      \<and> map se_seq (derive_surface (\<lambda>_. []) (events log')) = [2, 6, 4, 5]"
proof -
  let ?log = "demo_log (result_kinds 1)"
  let ?E = "derive_surface (\<lambda>_. []) (events ?log)"
  have srt: "seq_sorted ?E" and i: "1 < length ?E" and sq: "map se_seq ?E = [2, 3, 4, 5]"
    by (simp_all add: result_entries)
  obtain k where k: "prune_candidate (?E ! 1) = Some k"
    using huge_pruned by (auto simp: result_entries prune_candidate_def tool_meta_def)
  have c: "prune_candidates ?E None = [k]"
    using k by (simp add: result_entries prune_candidates_def List.map_filter_def compact_consts
        numeral_eq_Suc) (simp add: prune_candidate_def)
  have "last_seq ?log = 5" by (simp add: demo_eval result_kinds_def last_seq_def)
  with prune_one_in_place [OF wf_demo_log refl srt i k c, of 0] sq show ?thesis
    by (auto simp: Let_def map_update)
qed

theorem prune_two_swaps_witness:
  "let log = demo_log (result_kinds 2)
   in \<exists>log'. prune_tool_results 0 (derive_surface (\<lambda>_. []) (events log)) None (last_seq log) log = (2, log')
      \<and> se_seq (derive_surface (\<lambda>_. []) (events log') ! 1) = 8
      \<and> se_seq (derive_surface (\<lambda>_. []) (events log') ! 2) = 7"
proof -
  let ?log = "demo_log (result_kinds 2)"
  let ?E = "derive_surface (\<lambda>_. []) (events ?log)"
  have srt: "seq_sorted ?E" and j: "2 < length ?E" by (simp_all add: result_entries upt_rec)
  obtain k1 k2 where k: "prune_candidate (?E ! 1) = Some k1" "prune_candidate (?E ! 2) = Some k2"
    using huge_pruned by (auto simp: result_entries upt_rec prune_candidate_def tool_meta_def)
  have c: "prune_candidates ?E None = [k1, k2]"
    using k by (simp add: result_entries prune_candidates_def List.map_filter_def compact_consts
        numeral_eq_Suc) (simp add: prune_candidate_def)
  have "last_seq ?log = 6" by (simp add: demo_eval result_kinds_def last_seq_def numeral_eq_Suc)
  with prune_two_swaps [OF wf_demo_log refl srt _ j k c, of 0] show ?thesis
    by (auto simp: Let_def numeral_eq_Suc)
qed

section \<open>Editing an earlier prompt\<close>

lemma rewind_filter:
  assumes "wf_log log"
  shows "derive_surface ser (events (start_rewind now log sq)) =
    filter (\<lambda>e. se_seq e < sq) (derive_surface ser (events log))"
proof -
  have "se_seq e < sq \<or> last_seq log < se_seq e \<longleftrightarrow> se_seq e < sq"
    if "e \<in> set (derive_surface ser (events log))" for e
    using surface_seq_logged [OF that] wf_bounds [OF assms] by fastforce
  then have "shadow sq (last_seq log) (derive_surface ser (events log)) =
      filter (\<lambda>e. se_seq e < sq) (derive_surface ser (events log))"
    unfolding shadow_def by (intro filter_cong refl) blast
  then show ?thesis
    by (simp add: start_rewind_def events_append [OF assms] derive_surface_snoc surface_step_def)
      (auto simp: derive_surface_def split: prod.splits)
qed

lemma seq_sorted_filter_less:
  assumes "seq_sorted out" and "i < length out"
  shows "filter (\<lambda>e. se_seq e < se_seq (out ! i)) out = take i out"
proof -
  have "out = take i out @ out ! i # drop (Suc i) out" using assms(2) by (rule id_take_nth_drop)
  with assms(1) have *: "seq_sorted (take i out @ out ! i # drop (Suc i) out)" by simp
  have "filter (\<lambda>e. se_seq e < se_seq (out ! i)) (take i out @ out ! i # drop (Suc i) out) = take i out"
    using * by (auto simp: sorted_wrt_append filter_id_conv filter_empty_conv)
  then show ?thesis using assms(2) by (simp add: id_take_nth_drop [symmetric])
qed

text \<open>
  An edit leaves exactly the history before the prompt. Re-running from a visible prompt
  keeps the entries with smaller sequence numbers and nothing else; on a surface in sequence
  order these are the entries that stand before the prompt.
\<close>

theorem rewind_keeps_history_before_prompt:
  assumes "wf_log log" and "edit_user_message ser running log sq text = Inr imgs"
  shows "derive_surface ser (events (start_rewind now log sq)) =
      filter (\<lambda>e. se_seq e < sq) (derive_surface ser (events log))
    \<and> (seq_sorted (derive_surface ser (events log)) \<longrightarrow>
        (\<exists>i < length (derive_surface ser (events log)). se_seq (derive_surface ser (events log) ! i) = sq
          \<and> derive_surface ser (events (start_rewind now log sq)) = take i (derive_surface ser (events log))))"
proof -
  let ?out = "derive_surface ser (events log)"
  have "\<exists>e \<in> set ?out. se_seq e = sq"
    using assms(2) by (auto simp: edit_user_message_def list_ex_iff split: if_splits)
  then obtain i where "i < length ?out" "se_seq (?out ! i) = sq" by (auto simp: in_set_conv_nth)
  then show ?thesis using rewind_filter [OF assms(1)] seq_sorted_filter_less by auto
qed

theorem rewind_keeps_history_before_prompt_witness:
  "let log = demo_log ordered_kinds in
   edit_user_message (\<lambda>_. []) False log 4 ''c2'' = Inr []
   \<and> map se_seq (derive_surface (\<lambda>_. []) (events (start_rewind 0 log 4))) = [2, 3]"
proof -
  let ?log = "demo_log ordered_kinds" and ?ser = "\<lambda>_. []"
  have ents: "derive_surface ?ser (events ?log) =
     map (\<lambda>(n, t). \<lparr>se_seq = n, se_message = message_user t, se_tool = None, se_context = None\<rparr>)
      [(2, ''a''), (3, ''b''), (4, ''c''), (5, ''d''), (6, ''e''), (7, big_text)]"
    using ordered_entries by (simp add: demo_env_def)
  have "trim ''c2'' \<noteq> []" by code_simp
  then have ok: "edit_user_message ?ser False ?log 4 ''c2'' = Inr []"
    unfolding edit_user_message_def ents by (simp add: demo_log_def new_in_def log_append_def ordered_kinds_def)
  with rewind_keeps_history_before_prompt [OF wf_demo_log ok, of 0] show ?thesis
    unfolding ents by simp
qed

text \<open>
  Editing a prompt of the verbatim tail after a compaction loses the folded history. The
  summary was appended after every prompt of the tail, so a rewind to one of them removes the
  summary, and the messages it stands for stay shadowed: the model is left with the tail
  messages before the prompt only. The same edit before the compaction keeps all of them.
\<close>

theorem rewind_loses_summary:
  assumes "wf_log log" and "entries = derive_surface (ce_ser env) (events log)"
    and "seq_sorted entries"
    and "split_index (map se_message entries) (ce_budget env) (retain_pct (ce_policy env)) = Some k"
    and "prune_candidates entries (Some k) = []"
    and "ce_summarize env (wire_messages (ce_parse env) (ce_img env) (ce_native env)
        (take k (map se_message entries))) = Some sm"
    and "k \<le> j" and "j < length entries"
  shows "derive_surface (ce_ser env) (events (start_rewind now log (se_seq (entries ! j)))) = take j entries
    \<and> (\<exists>evs log'. compact_session env Some i2 Some log = (True, evs, Some log')
        \<and> derive_surface (ce_ser env) (events (start_rewind now log' (se_seq (entries ! j)))) = drop k (take j entries))"
proof -
  let ?q = "se_seq (entries ! j)"
  obtain evs kd where run: "compact_session env Some i2 Some log = (True, evs, Some (log_append log (ce_now env) kd))"
    and out: "derive_surface (ce_ser env) (events (log_append log (ce_now env) kd)) =
        summary_entry (Suc (last_seq log)) (summary_message sm) # drop k entries"
    using compact_session_sorted [OF assms(1-6)] by blast
  have "?q \<le> last_seq log"
    using surface_seq_logged [of "entries ! j" "ce_ser env" "events log"] wf_bounds [OF assms(1)] assms(2,8) by fastforce
  moreover have "seq_sorted (drop k entries)" using sorted_wrt_drop [OF assms(3)] by (simp add: drop_map)
  then have "filter (\<lambda>e. se_seq e < ?q) (drop k entries) = drop k (take j entries)"
    using seq_sorted_filter_less [of "drop k entries" "j - k"] assms(7,8) by (simp add: drop_take)
  ultimately have "derive_surface (ce_ser env) (events (start_rewind now (log_append log (ce_now env) kd) ?q)) =
      drop k (take j entries)"
    using rewind_filter [OF wf_append [OF assms(1)]] by (simp add: out summary_entry_def)
  with run show ?thesis
    using rewind_filter [OF assms(1)] seq_sorted_filter_less [OF assms(3,8)] by (auto simp flip: assms(2))
qed

theorem rewind_loses_summary_witness:
  "let log = demo_log ordered_kinds in
   map se_seq (derive_surface (\<lambda>_. []) (events (start_rewind 0 log 7))) = [2, 3, 4, 5, 6]
   \<and> (\<exists>evs log'. compact_session demo_env Some Some Some log = (True, evs, Some log')
        \<and> map se_seq (derive_surface (\<lambda>_. []) (events (start_rewind 0 log' 7))) = [6])"
proof -
  let ?log = "demo_log ordered_kinds"
  let ?E = "derive_surface (ce_ser demo_env) (events ?log)"
  have srt: "seq_sorted ?E" and l: "5 < length ?E" and q: "se_seq (?E ! 5) = 7"
    and t: "map se_seq (take 5 ?E) = [2, 3, 4, 5, 6]" "map se_seq (drop 4 (take 5 ?E)) = [6]"
    unfolding ordered_entries by (simp_all add: numeral_eq_Suc)
  from rewind_loses_summary [OF wf_demo_log refl srt ordered_split ordered_noprune demo_summarize _ l, of 0 Some]
  show ?thesis unfolding q using t by (auto simp: demo_env_def Let_def)
qed

end
