(* ===== verification/Project_Folds.thy ===== *)
theory Project_Folds
  imports Surface_Theory Session_Log Retain
begin

text \<open>
  The session projections of \<open>src/crates/sica-core/src/project.rs\<close>: pure folds over the event
  log that give a client a finished value. The trait \<open>Projection\<close> is the locale
  \<open>projection\<close>; its three implementors are interpretations of it. The free-standing folds
  (orchestrated runs, reminders, session memory, feedback) follow.

  Counters are \<open>u32\<close> and wrap; times are \<open>i64\<close>.
\<close>

section \<open>The trait\<close>

definition project_fold :: "'s \<Rightarrow> ('s \<Rightarrow> SessionEvent \<Rightarrow> 's) \<Rightarrow> SessionEvent list \<Rightarrow> 's" where
  "project_fold init step evs = foldl step init evs"

lemma project_fold_Nil [simp]: "project_fold i f [] = i"
  by (simp add: project_fold_def)

lemma project_fold_snoc [simp]: "project_fold i f (xs @ [x]) = f (project_fold i f xs) x"
  by (simp add: project_fold_def)

lemma project_fold_append: "project_fold i f (xs @ ys) = foldl f (project_fold i f xs) ys"
  by (simp add: project_fold_def)

text \<open>What every projection promises: its \<open>through_seq\<close> says how current the value is.\<close>

locale projection =
  fixes init :: 's
    and step :: "'s \<Rightarrow> SessionEvent \<Rightarrow> 's"
    and through :: "'s \<Rightarrow> nat"
  assumes through_init: "through init = 0"
    and through_step: "through (step s ev) = max (through s) (seq ev)"
begin

lemma through_mono: "through s \<le> through (foldl step s evs)"
proof (induction evs arbitrary: s)
  case (Cons ev evs)
  have "through s \<le> through (step s ev)" by (simp add: through_step)
  also have "\<dots> \<le> through (foldl step (step s ev) evs)" by (rule Cons.IH)
  finally show ?case by simp
qed simp

lemma through_max: "through (project_fold init step evs) = Max (insert 0 (seq ` set evs))"
proof (induction evs rule: rev_induct)
  case (snoc ev evs)
  have "Max (insert (seq ev) (insert 0 (seq ` set evs))) = max (seq ev) (Max (insert 0 (seq ` set evs)))"
    by (rule Max_insert) auto
  with snoc show ?case by (simp only: project_fold_snoc through_step set_append image_Un max.commute) (simp add: insert_commute)
qed (simp add: through_init)

lemma through_last_seq:
  assumes "wf_log log"
  shows "through (project_fold init step (events (log_append log now k))) = last_seq (log_append log now k)"
proof -
  have "\<And>e. e \<in> set (events log) \<Longrightarrow> seq e \<le> last_seq log" using wf_bounds [OF assms] by auto
  then have "Max (insert 0 (seq ` set (events (log_append log now k)))) = Suc (last_seq log)"
    by (intro Max_eqI) (force simp: events_append [OF assms])+
  then show ?thesis by (simp add: through_max last_seq_append [OF assms])
qed

lemma resume:
  "project_fold init step (xs @ ys) = foldl step (project_fold init step xs) ys"
  by (rule project_fold_append)

end

section \<open>Session statistics\<close>

record StatsState =
  user_msgs :: nat
  assistant_msgs :: nat
  st_tool_calls :: nat
  tool_failures :: nat
  st_retries :: nat
  st_turns :: nat
  wall_ms :: int
  st_through_seq :: nat
  first_ts :: "int option"
  last_ts :: int

definition stats_init :: StatsState where
  "stats_init = \<lparr>user_msgs = 0, assistant_msgs = 0, st_tool_calls = 0, tool_failures = 0,
     st_retries = 0, st_turns = 0, wall_ms = 0, st_through_seq = 0, first_ts = None, last_ts = 0\<rparr>"

definition stats_clock :: "StatsState \<Rightarrow> SessionEvent \<Rightarrow> StatsState" where
  "stats_clock st ev =
     (let st = st\<lparr>st_through_seq := max (st_through_seq st) (seq ev)\<rparr>;
          st = (if first_ts st = None then st\<lparr>first_ts := Some (ts ev)\<rparr> else st);
          st = st\<lparr>last_ts := max (last_ts st) (ts ev)\<rparr>
      in st\<lparr>wall_ms := wrap_i64 (last_ts st - (case first_ts st of Some t \<Rightarrow> t | None \<Rightarrow> last_ts st))\<rparr>)"

definition stats_apply :: "StatsState \<Rightarrow> SessionEvent \<Rightarrow> StatsState" where
  "stats_apply st0 ev =
     (let st = stats_clock st0 ev
      in case kind ev of
        UserMessage _ _ _ \<Rightarrow> st\<lparr>user_msgs := wrap_u32 (user_msgs st + 1)\<rparr>
      | AssistantMessage _ _ _ _ \<Rightarrow> st\<lparr>assistant_msgs := wrap_u32 (assistant_msgs st + 1)\<rparr>
      | ToolCall _ _ _ _ _ \<Rightarrow> st\<lparr>st_tool_calls := wrap_u32 (st_tool_calls st + 1)\<rparr>
      | ToolResult _ _ _ _ ok _ _ _ \<Rightarrow>
          (if \<not> ok then st\<lparr>tool_failures := wrap_u32 (tool_failures st + 1)\<rparr> else st)
      | LlmRetry _ _ _ _ \<Rightarrow> st\<lparr>st_retries := wrap_u32 (st_retries st + 1)\<rparr>
      | TurnStart _ _ \<Rightarrow> st\<lparr>st_turns := wrap_u32 (st_turns st + 1)\<rparr>
      | _ \<Rightarrow> st)"

abbreviation session_stats :: "SessionEvent list \<Rightarrow> StatsState" where
  "session_stats \<equiv> project_fold stats_init stats_apply"

section \<open>The turn outline\<close>

record TurnRow =
  row_turn_id :: nat
  first_user_line :: string
  row_source :: string
  row_hops :: nat
  row_finish_reason :: string
  row_start_seq :: nat
  ts_start :: int
  ts_end :: int
  row_tool_calls :: nat

record OutlineState =
  ou_turns :: "TurnRow list"
  ou_through_seq :: nat

definition first_line :: "string \<Rightarrow> nat \<Rightarrow> string" where
  "first_line text mx =
     (let line = (case find (\<lambda>l. l \<noteq> []) (map trim (str_lines text)) of Some l \<Rightarrow> l | None \<Rightarrow> [])
      in if chars_count line \<le> mx then line
         else trim_end (take_chars (mx - 1) line) @ ellipsis)"

definition outline_init :: OutlineState where
  "outline_init = \<lparr>ou_turns = [], ou_through_seq = 0\<rparr>"

definition touch_row :: "int \<Rightarrow> TurnRow \<Rightarrow> TurnRow" where
  "touch_row t row = row\<lparr>ts_end := max (ts_end row) t\<rparr>"

definition outline_apply :: "OutlineState \<Rightarrow> SessionEvent \<Rightarrow> OutlineState" where
  "outline_apply st0 ev =
     (let st = st0\<lparr>ou_through_seq := max (ou_through_seq st0) (seq ev)\<rparr>;
          on_turns = (\<lambda>f. st\<lparr>ou_turns := f (ou_turns st)\<rparr>)
      in case kind ev of
        TurnStart tid src \<Rightarrow> on_turns (\<lambda>rows. rows @
          [\<lparr>row_turn_id = tid, first_user_line = [], row_source = turn_source_label src, row_hops = 0,
            row_finish_reason = [], row_start_seq = seq ev, ts_start = ts ev, ts_end = ts ev,
            row_tool_calls = 0\<rparr>])
      | TurnEnd tid fin hops \<Rightarrow> on_turns (update_rfind (\<lambda>r. row_turn_id r = tid)
          (\<lambda>r. r\<lparr>row_finish_reason := fin, row_hops := hops, ts_end := ts ev\<rparr>))
      | UserMessage _ text _ \<Rightarrow> on_turns (update_last (\<lambda>r.
          let r = touch_row (ts ev) r
          in if first_user_line r = [] then r\<lparr>first_user_line := first_line text 60\<rparr> else r))
      | ToolCall _ _ _ _ _ \<Rightarrow> on_turns (update_last (\<lambda>r.
          touch_row (ts ev) (r\<lparr>row_tool_calls := wrap_u32 (row_tool_calls r + 1)\<rparr>)))
      | _ \<Rightarrow> on_turns (update_last (touch_row (ts ev))))"

abbreviation turn_outline :: "SessionEvent list \<Rightarrow> OutlineState" where
  "turn_outline \<equiv> project_fold outline_init outline_apply"

section \<open>The last token reading\<close>

record UsageState =
  us_used :: nat
  us_limit :: nat
  us_budget :: nat
  us_prompt_tokens :: "nat option"
  us_completion_tokens :: "nat option"
  us_seen :: bool
  us_through_seq :: nat

definition usage_init :: UsageState where
  "usage_init = \<lparr>us_used = 0, us_limit = 0, us_budget = 0, us_prompt_tokens = None,
     us_completion_tokens = None, us_seen = False, us_through_seq = 0\<rparr>"

definition usage_apply :: "UsageState \<Rightarrow> SessionEvent \<Rightarrow> UsageState" where
  "usage_apply st ev =
     (case kind ev of
        TokenUsage u l b p c \<Rightarrow>
          \<lparr>us_used = u, us_limit = l, us_budget = b, us_prompt_tokens = p, us_completion_tokens = c,
           us_seen = True, us_through_seq = max (us_through_seq st) (seq ev)\<rparr>
      | _ \<Rightarrow> st\<lparr>us_through_seq := max (us_through_seq st) (seq ev)\<rparr>)"

interpretation stats: projection stats_init stats_apply st_through_seq
  by unfold_locales
    (auto simp: stats_init_def stats_apply_def stats_clock_def Let_def split: EventKind.splits)

interpretation outline: projection outline_init outline_apply ou_through_seq
  by unfold_locales (auto simp: outline_init_def outline_apply_def Let_def split: EventKind.splits)

interpretation usage: projection usage_init usage_apply us_through_seq
  by unfold_locales (auto simp: usage_init_def usage_apply_def split: EventKind.splits)

section \<open>What the three projections compute\<close>

fun is_tool_failure :: "EventKind \<Rightarrow> bool" where
  "is_tool_failure (ToolResult _ _ _ _ ok _ _ _) = (\<not> ok)"
| "is_tool_failure _ = False"

fun is_user_message :: "EventKind \<Rightarrow> bool" where
  "is_user_message (UserMessage _ _ _) = True"
| "is_user_message _ = False"

fun is_assistant_message :: "EventKind \<Rightarrow> bool" where
  "is_assistant_message (AssistantMessage _ _ _ _) = True"
| "is_assistant_message _ = False"

fun is_tool_call :: "EventKind \<Rightarrow> bool" where
  "is_tool_call (ToolCall _ _ _ _ _) = True"
| "is_tool_call _ = False"

fun is_llm_retry :: "EventKind \<Rightarrow> bool" where
  "is_llm_retry (LlmRetry _ _ _ _) = True"
| "is_llm_retry _ = False"

fun is_turn_start :: "EventKind \<Rightarrow> bool" where
  "is_turn_start (TurnStart _ _) = True"
| "is_turn_start _ = False"

definition tally :: "(EventKind \<Rightarrow> bool) \<Rightarrow> SessionEvent list \<Rightarrow> nat" where
  "tally P evs = wrap_u32 (length (filter (\<lambda>ev. P (kind ev)) evs))"

lemma tally_Nil [simp]: "tally P [] = 0"
  by (simp add: tally_def)

lemma tally_snoc [simp]:
  "tally P (evs @ [ev]) = (if P (kind ev) then wrap_u32 (tally P evs + 1) else tally P evs)"
  by (simp add: tally_def wrap_u32_def mod_Suc_eq)

lemma stats_clock_counters [simp]:
  "user_msgs (stats_clock st ev) = user_msgs st"
  "assistant_msgs (stats_clock st ev) = assistant_msgs st"
  "st_tool_calls (stats_clock st ev) = st_tool_calls st"
  "tool_failures (stats_clock st ev) = tool_failures st"
  "st_retries (stats_clock st ev) = st_retries st"
  "st_turns (stats_clock st ev) = st_turns st"
  by (simp_all add: stats_clock_def Let_def)

lemma stats_apply_counters:
  "user_msgs (stats_apply st ev) =
     (if is_user_message (kind ev) then wrap_u32 (user_msgs st + 1) else user_msgs st)"
  "assistant_msgs (stats_apply st ev) =
     (if is_assistant_message (kind ev) then wrap_u32 (assistant_msgs st + 1) else assistant_msgs st)"
  "st_tool_calls (stats_apply st ev) =
     (if is_tool_call (kind ev) then wrap_u32 (st_tool_calls st + 1) else st_tool_calls st)"
  "tool_failures (stats_apply st ev) =
     (if is_tool_failure (kind ev) then wrap_u32 (tool_failures st + 1) else tool_failures st)"
  "st_retries (stats_apply st ev) =
     (if is_llm_retry (kind ev) then wrap_u32 (st_retries st + 1) else st_retries st)"
  "st_turns (stats_apply st ev) =
     (if is_turn_start (kind ev) then wrap_u32 (st_turns st + 1) else st_turns st)"
  unfolding stats_apply_def Let_def by (cases "kind ev"; simp)+

lemma stats_init_counters [simp]:
  "user_msgs stats_init = 0" "assistant_msgs stats_init = 0" "st_tool_calls stats_init = 0"
  "tool_failures stats_init = 0" "st_retries stats_init = 0" "st_turns stats_init = 0"
  "first_ts stats_init = None" "last_ts stats_init = 0" "wall_ms stats_init = 0"
  by (simp_all add: stats_init_def)

lemma stats_tallies:
  "user_msgs (session_stats evs) = tally is_user_message evs"
  "assistant_msgs (session_stats evs) = tally is_assistant_message evs"
  "st_tool_calls (session_stats evs) = tally is_tool_call evs"
  "tool_failures (session_stats evs) = tally is_tool_failure evs"
  "st_retries (session_stats evs) = tally is_llm_retry evs"
  "st_turns (session_stats evs) = tally is_turn_start evs"
  by (induction evs rule: rev_induct)
    (simp_all only: project_fold_Nil project_fold_snoc stats_init_counters stats_apply_counters tally_Nil tally_snoc)

lemma stats_clock_sel:
  "first_ts (stats_clock st ev) = Some (case first_ts st of None \<Rightarrow> ts ev | Some t \<Rightarrow> t)"
  "last_ts (stats_clock st ev) = max (last_ts st) (ts ev)"
  "wall_ms (stats_clock st ev) =
     wrap_i64 (max (last_ts st) (ts ev) - (case first_ts st of None \<Rightarrow> ts ev | Some t \<Rightarrow> t))"
  by (auto simp: stats_clock_def Let_def split: option.splits)

lemma stats_apply_times:
  "first_ts (stats_apply st ev) = first_ts (stats_clock st ev)"
  "last_ts (stats_apply st ev) = last_ts (stats_clock st ev)"
  "wall_ms (stats_apply st ev) = wall_ms (stats_clock st ev)"
  by (simp_all add: stats_apply_def Let_def split: EventKind.splits)

lemma stats_times:
  "first_ts (session_stats evs) = (if evs = [] then None else Some (ts (hd evs)))
   \<and> last_ts (session_stats evs) = foldl max 0 (map ts evs)
   \<and> wall_ms (session_stats evs) =
       (if evs = [] then 0 else wrap_i64 (foldl max 0 (map ts evs) - ts (hd evs)))"
proof (induction evs rule: rev_induct)
  case (snoc ev evs)
  then show ?case
    using project_fold_snoc [of stats_init stats_apply "[]" ev]
    by (cases "evs = []") (simp_all add: stats_apply_times stats_clock_sel)
qed simp

text \<open>
  The statistics count what happened, not what is visible. Each counter is the number of
  events of its kind in the whole log (modulo the width of the counter); the wall time is the
  newest time stamp less the first one; shadowing by compaction or a prompt edit changes none
  of them, since appending an event of another kind leaves the counters alone.
\<close>

theorem stats_count_events:
  "user_msgs (session_stats evs) = wrap_u32 (length (filter (\<lambda>ev. is_user_message (kind ev)) evs))
   \<and> assistant_msgs (session_stats evs) = wrap_u32 (length (filter (\<lambda>ev. is_assistant_message (kind ev)) evs))
   \<and> st_tool_calls (session_stats evs) = wrap_u32 (length (filter (\<lambda>ev. is_tool_call (kind ev)) evs))
   \<and> tool_failures (session_stats evs) = wrap_u32 (length (filter (\<lambda>ev. is_tool_failure (kind ev)) evs))
   \<and> st_retries (session_stats evs) = wrap_u32 (length (filter (\<lambda>ev. is_llm_retry (kind ev)) evs))
   \<and> st_turns (session_stats evs) = wrap_u32 (length (filter (\<lambda>ev. is_turn_start (kind ev)) evs))
   \<and> wall_ms (session_stats evs) =
       (if evs = [] then 0 else wrap_i64 (foldl max 0 (map ts evs) - ts (hd evs)))
   \<and> st_through_seq (session_stats evs) = Max (insert 0 (seq ` set evs))"
  unfolding stats_tallies tally_def using stats_times [of evs] stats.through_max [of evs] by blast

lemma chars_count_first_line: "chars_count (first_line text mx) \<le> max mx 1"
proof -
  have "chars_count ellipsis = 1" by (simp add: ellipsis_def chars_count_def is_cont_byte_def)
  moreover have "chars_count (trim_end (take_chars (mx - 1) line)) \<le> mx - 1" for line
    using chars_count_trim_end [of "take_chars (mx - 1) line"] by (simp add: chars_count_take_chars)
  ultimately have "chars_count (trim_end (take_chars (mx - 1) line) @ ellipsis) \<le> (mx - 1) + 1" for line
    by (simp only: chars_count_append add_mono)
  then have "chars_count (trim_end (take_chars (mx - 1) line) @ ellipsis) \<le> max mx 1" for line
    by (rule order.trans) simp
  then show ?thesis by (simp add: first_line_def Let_def le_max_iff_disj)
qed

definition turn_starts :: "SessionEvent list \<Rightarrow> (nat \<times> nat \<times> int \<times> string) list" where
  "turn_starts evs = List.map_filter (\<lambda>ev. case kind ev of
      TurnStart tid src \<Rightarrow> Some (tid, seq ev, ts ev, turn_source_label src) | _ \<Rightarrow> None) evs"

definition row_key :: "TurnRow \<Rightarrow> nat \<times> nat \<times> int \<times> string" where
  "row_key r = (row_turn_id r, row_start_seq r, ts_start r, row_source r)"

lemma update_last_snoc [simp]: "update_last f (xs @ [x]) = xs @ [f x]"
  by (induction f xs rule: update_last.induct) auto

text \<open>The four shapes a step of the outline has, as a rule for case analysis.\<close>

lemma outline_step_cases:
  assumes "outline_apply st ev = st'"
  obtains (start) tid src where "kind ev = TurnStart tid src"
      "ou_turns st' = ou_turns st @ [\<lparr>row_turn_id = tid, first_user_line = [],
         row_source = turn_source_label src, row_hops = 0, row_finish_reason = [],
         row_start_seq = seq ev, ts_start = ts ev, ts_end = ts ev, row_tool_calls = 0\<rparr>]"
  | (finish) tid fin hops where "kind ev = TurnEnd tid fin hops"
      "ou_turns st' = update_rfind (\<lambda>r. row_turn_id r = tid)
         (\<lambda>r. r\<lparr>row_finish_reason := fin, row_hops := hops, ts_end := ts ev\<rparr>) (ou_turns st)"
  | (inside) f where "\<not> is_turn_start (kind ev)" "ou_turns st' = update_last f (ou_turns st)"
      "\<And>r. row_key (f r) = row_key r"
      "\<And>r. row_tool_calls (f r) = (if is_tool_call (kind ev) then wrap_u32 (row_tool_calls r + 1) else row_tool_calls r)"
      "\<And>r. first_user_line (f r) = first_user_line r \<or> (\<exists>t. first_user_line (f r) = first_line t 60)"
proof -
  consider tid src where "kind ev = TurnStart tid src" | tid fin hops where "kind ev = TurnEnd tid fin hops"
    | s t imgs where "kind ev = UserMessage s t imgs" | "is_tool_call (kind ev)"
    | "\<not> is_turn_start (kind ev)" "\<not> is_tool_call (kind ev)"
      "ou_turns st' = update_last (touch_row (ts ev)) (ou_turns st)"
    using assms by (cases "kind ev") (auto simp: outline_apply_def)
  then show thesis
  proof cases
    case 1
    then show ?thesis using assms start by (auto simp: outline_apply_def)
  next
    case 2
    then show ?thesis using assms finish by (auto simp: outline_apply_def)
  next
    case 3
    show ?thesis
      by (rule inside [of "\<lambda>r. if first_user_line r = [] then (touch_row (ts ev) r)\<lparr>first_user_line := first_line t 60\<rparr>
            else touch_row (ts ev) r"])
        (auto simp: 3 outline_apply_def Let_def row_key_def touch_row_def simp flip: assms cong: if_cong)
  next
    case 4
    then obtain a b c d e where k: "kind ev = ToolCall a b c d e" by (cases "kind ev") auto
    show ?thesis
      by (rule inside [of "\<lambda>r. touch_row (ts ev) (r\<lparr>row_tool_calls := wrap_u32 (row_tool_calls r + 1)\<rparr>)"])
        (auto simp: k outline_apply_def Let_def row_key_def touch_row_def simp flip: assms)
  next
    case 5
    show ?thesis
      by (rule inside [of "touch_row (ts ev)"]) (use 5 in \<open>auto simp: row_key_def touch_row_def\<close>)
  qed
qed

lemma outline_keys: "map row_key (ou_turns (turn_outline evs)) = turn_starts evs"
proof (induction evs rule: rev_induct)
  case (snoc ev evs)
  show ?case
  proof (rule outline_step_cases [of "turn_outline evs" ev, OF refl])
    fix f
    assume "\<not> is_turn_start (kind ev)" "ou_turns (outline_apply (turn_outline evs) ev) = update_last f (ou_turns (turn_outline evs))"
      "\<And>r. row_key (f r) = row_key r"
    then show ?thesis using snoc
      by (cases "kind ev") (simp_all add: map_update_last turn_starts_def List.map_filter_def)
  qed (use snoc in \<open>simp_all add: row_key_def turn_starts_def List.map_filter_def map_update_rfind\<close>)
qed (simp add: outline_init_def turn_starts_def List.map_filter_def)

lemma update_last_prop:
  assumes "\<forall>x \<in> set xs. P x" and "\<And>x. P x \<Longrightarrow> P (f x)"
  shows "\<forall>x \<in> set (update_last f xs). P x"
  using assms by (induction f xs rule: update_last.induct) auto

lemma update_rfind_prop:
  assumes "\<forall>x \<in> set xs. P x" and "\<And>x. P x \<Longrightarrow> P (f x)"
  shows "\<forall>x \<in> set (update_rfind Q f xs). P x"
proof (cases "rposition Q xs")
  case (Some i)
  then have "i < length xs" by (rule rposition_Some)
  with Some assms show ?thesis
    by (auto simp: update_rfind_def dest!: set_update_subset_insert [THEN subsetD])
qed (use assms in \<open>simp add: update_rfind_def\<close>)

lemma outline_lines:
  "\<forall>r \<in> set (ou_turns (turn_outline evs)). first_user_line r = [] \<or> (\<exists>t. first_user_line r = first_line t 60)"
proof (induction evs rule: rev_induct)
  case (snoc ev evs)
  show ?case
  proof (rule outline_step_cases [of "turn_outline evs" ev, OF refl])
    fix f
    assume "ou_turns (outline_apply (turn_outline evs) ev) = update_last f (ou_turns (turn_outline evs))"
      "\<And>r. first_user_line (f r) = first_user_line r \<or> (\<exists>t. first_user_line (f r) = first_line t 60)"
    then show ?thesis using update_last_prop [OF snoc, of f] by (metis project_fold_snoc)
  next
    fix tid fin hops
    assume st: "ou_turns (outline_apply (turn_outline evs) ev) = update_rfind (\<lambda>r. row_turn_id r = tid)
         (\<lambda>r. r\<lparr>row_finish_reason := fin, row_hops := hops, ts_end := ts ev\<rparr>) (ou_turns (turn_outline evs))"
    show ?thesis unfolding project_fold_snoc st by (rule update_rfind_prop [OF snoc]) simp
  qed (use snoc in auto)
qed (simp add: outline_init_def)

text \<open>Tool calls are counted in the row of the turn that was open last.\<close>

lemma outline_calls:
  "wrap_u32 (sum_list (map row_tool_calls (ou_turns (turn_outline evs)))) =
     tally is_tool_call (dropWhile (\<lambda>ev. \<not> is_turn_start (kind ev)) evs)
   \<and> (ou_turns (turn_outline evs) = [] \<longleftrightarrow> (\<forall>ev \<in> set evs. \<not> is_turn_start (kind ev)))"
proof (induction evs rule: rev_induct)
  case (snoc ev evs)
  let ?rows = "ou_turns (turn_outline evs)"
  note IH = snoc
  show ?case
  proof (rule outline_step_cases [of "turn_outline evs" ev, OF refl])
    fix tid src
    assume "kind ev = TurnStart tid src"
      and "ou_turns (outline_apply (turn_outline evs) ev) = ?rows @ [\<lparr>row_turn_id = tid, first_user_line = [],
         row_source = turn_source_label src, row_hops = 0, row_finish_reason = [],
         row_start_seq = seq ev, ts_start = ts ev, ts_end = ts ev, row_tool_calls = 0\<rparr>]"
    with IH show ?thesis by (auto simp: dropWhile_append tally_def)
  next
    fix tid fin hops
    assume "kind ev = TurnEnd tid fin hops"
      and "ou_turns (outline_apply (turn_outline evs) ev) = update_rfind (\<lambda>r. row_turn_id r = tid)
         (\<lambda>r. r\<lparr>row_finish_reason := fin, row_hops := hops, ts_end := ts ev\<rparr>) ?rows"
    with IH show ?thesis
      by (auto simp: map_update_rfind dropWhile_append tally_def simp flip: length_0_conv)
  next
    fix f
    assume ev: "\<not> is_turn_start (kind ev)"
      and st: "ou_turns (outline_apply (turn_outline evs) ev) = update_last f ?rows"
      and f: "\<And>r. row_tool_calls (f r) =
        (if is_tool_call (kind ev) then wrap_u32 (row_tool_calls r + 1) else row_tool_calls r)"
    show ?thesis
    proof (cases ?rows rule: rev_cases)
      case Nil
      with IH ev st show ?thesis by (auto simp: dropWhile_append tally_def)
    next
      case (snoc rs r)
      then have "\<not> (\<forall>ev \<in> set evs. \<not> is_turn_start (kind ev))" using IH by auto
      then have "tally is_tool_call (dropWhile (\<lambda>ev. \<not> is_turn_start (kind ev)) (evs @ [ev])) =
          (if is_tool_call (kind ev) then wrap_u32 (tally is_tool_call (dropWhile (\<lambda>ev. \<not> is_turn_start (kind ev)) evs) + 1)
           else tally is_tool_call (dropWhile (\<lambda>ev. \<not> is_turn_start (kind ev)) evs))"
        by (subst dropWhile_append) (auto simp del: tally_snoc simp: tally_snoc [symmetric])
      with IH snoc ev st show ?thesis
        by (auto simp: f wrap_u32_def mod_simps) (metis mod_Suc_eq)
    qed
  qed
qed (simp add: outline_init_def tally_def)

text \<open>
  The outline has one row per turn, in order. Whatever the log, the rows are the \<open>TurnStart\<close>
  events with their id, sequence number, time and source; the quoted line of each fits sixty
  characters; and every tool call from the first turn on is counted in exactly one row.
\<close>

theorem outline_one_row_per_turn:
  "map (\<lambda>r. (row_turn_id r, row_start_seq r, ts_start r, row_source r)) (ou_turns (turn_outline evs)) =
     List.map_filter (\<lambda>ev. case kind ev of
       TurnStart tid src \<Rightarrow> Some (tid, seq ev, ts ev, turn_source_label src) | _ \<Rightarrow> None) evs
   \<and> (\<forall>r. r \<in> set (ou_turns (turn_outline evs)) \<longrightarrow> chars_count (first_user_line r) \<le> 60)
   \<and> wrap_u32 (sum_list (map row_tool_calls (ou_turns (turn_outline evs)))) =
       tally is_tool_call (dropWhile (\<lambda>ev. \<not> is_turn_start (kind ev)) evs)"
proof (intro conjI allI impI)
  show "map (\<lambda>r. (row_turn_id r, row_start_seq r, ts_start r, row_source r)) (ou_turns (turn_outline evs)) =
     List.map_filter (\<lambda>ev. case kind ev of
       TurnStart tid src \<Rightarrow> Some (tid, seq ev, ts ev, turn_source_label src) | _ \<Rightarrow> None) evs"
    using outline_keys [of evs] unfolding turn_starts_def row_key_def .
next
  fix r assume "r \<in> set (ou_turns (turn_outline evs))"
  then consider "first_user_line r = []" | t where "first_user_line r = first_line t 60"
    using outline_lines by blast
  then show "chars_count (first_user_line r) \<le> 60"
    using chars_count_first_line [of _ 60] by cases (simp_all add: chars_count_def)
qed (use outline_calls in blast)

theorem outline_one_row_per_turn_witness:
  "let ev = (\<lambda>n k. \<lparr>seq = n, ts = int n, kind = k\<rparr>);
       evs = [ev 2 (TurnStart 7 Human), ev 3 (UserMessage Append ''hello'' []),
              ev 4 (ToolCall ''ls'' [] [] None None), ev 5 (TurnEnd 7 ''stop'' 1)]
   in map row_turn_id (ou_turns (turn_outline evs)) = [7]
      \<and> wrap_u32 (sum_list (map row_tool_calls (ou_turns (turn_outline evs)))) = 1"
proof -
  let ?ev = "\<lambda>n k. \<lparr>seq = n, ts = int n, kind = k\<rparr>"
  let ?evs = "[?ev 2 (TurnStart 7 Human), ?ev 3 (UserMessage Append ''hello'' []),
              ?ev 4 (ToolCall ''ls'' [] [] None None), ?ev 5 (TurnEnd 7 ''stop'' 1)]"
  have "map fst (map (\<lambda>r. (row_turn_id r, row_start_seq r, ts_start r, row_source r)) (ou_turns (turn_outline ?evs))) = [7]"
    using outline_one_row_per_turn [of ?evs] by (simp only: List.map_filter_def) simp
  then have "map row_turn_id (ou_turns (turn_outline ?evs)) = [7]" by (simp add: comp_def)
  moreover have "wrap_u32 (sum_list (map row_tool_calls (ou_turns (turn_outline ?evs)))) = 1"
    using outline_one_row_per_turn [of ?evs] by (simp add: tally_def)
  ultimately show ?thesis by (simp only: Let_def)
qed

end
