(* ===== verification/Event_Folds.thy ===== *)
theory Event_Folds
  imports Project_Folds
begin

text \<open>
  The free-standing folds of \<open>src/crates/sica-core/src/project.rs\<close>: orchestrated runs rebuilt
  from their edges (\<open>workflow_runs\<close>), the active reminders (\<open>ScheduleRecord::next_after\<close>,
  \<open>schedules\<close>), the session memory and the message feedback. Each loop is a \<open>foldl\<close> of its
  body.
\<close>

section \<open>Orchestrated runs\<close>

record RunMember =
  rm_id :: nat
  rm_label :: string
  rm_state :: RunState

record RunPhase =
  ph_title :: string
  ph_members :: "RunMember list"

record Run =
  rn_run_id :: nat
  rn_call_seq :: nat
  rn_state :: RunState
  rn_open :: bool
  rn_phases :: "RunPhase list"

text \<open>The index of the phase a row names, with the phases it is an index into.\<close>

definition ensure_phase :: "string \<Rightarrow> RunPhase list \<Rightarrow> RunPhase list \<times> nat" where
  "ensure_phase t phases =
     (case position (\<lambda>p. ph_title p = t) phases of
        Some i \<Rightarrow> (phases, i)
      | None \<Rightarrow> (phases @ [\<lparr>ph_title = t, ph_members = []\<rparr>], length phases))"

definition member_row :: "RunState \<Rightarrow> string \<Rightarrow> nat option \<Rightarrow> RunMember list \<Rightarrow> RunMember list" where
  "member_row st label mid members =
     (if st = Started then
        members @ [\<lparr>rm_id = (case mid of Some i \<Rightarrow> i | None \<Rightarrow> 0), rm_label = label, rm_state = Started\<rparr>]
      else
        let at = (case Option.bind mid (\<lambda>i. position (\<lambda>m. rm_id m = i) members) of
                    Some i \<Rightarrow> Some i
                  | None \<Rightarrow> rposition (\<lambda>m. rm_label m = label \<and> rm_state m = Started) members)
        in case at of Some i \<Rightarrow> members[i := (members ! i)\<lparr>rm_state := st\<rparr>] | None \<Rightarrow> members)"

definition run_row ::
  "string option \<Rightarrow> string option \<Rightarrow> nat option \<Rightarrow> RunState \<Rightarrow> Run \<Rightarrow> Run" where
  "run_row phase member mid st run =
     (case member of
        None \<Rightarrow> run\<lparr>rn_state := st, rn_open := (st = Started)\<rparr>
      | Some label \<Rightarrow>
          let t = (case phase of Some p \<Rightarrow> p | None \<Rightarrow> []);
              (phases, i) = ensure_phase t (rn_phases run);
              p = phases ! i
          in run\<lparr>rn_phases := phases[i := p\<lparr>ph_members := member_row st label mid (ph_members p)\<rparr>]\<rparr>)"

definition runs_step :: "Run list \<Rightarrow> SessionEvent \<Rightarrow> Run list" where
  "runs_step out ev =
     (case kind ev of
        WorkflowRun rid cs phase member mid st \<Rightarrow>
          (case position (\<lambda>r. rn_run_id r = rid) out of
             Some i \<Rightarrow> out[i := run_row phase member mid st (out ! i)]
           | None \<Rightarrow>
               if member \<noteq> None then out
               else out @ [run_row phase member mid st
                     \<lparr>rn_run_id = rid, rn_call_seq = cs, rn_state = Started, rn_open = True, rn_phases = []\<rparr>])
      | _ \<Rightarrow> out)"

definition workflow_runs :: "SessionEvent list \<Rightarrow> Run list" where
  "workflow_runs evs = foldl runs_step [] evs"

text \<open>What the log says of a run: the state its last run-level row gave it.\<close>

definition run_level :: "nat \<Rightarrow> SessionEvent \<Rightarrow> RunState option" where
  "run_level rid ev =
     (case kind ev of
        WorkflowRun r _ _ member _ st \<Rightarrow> if r = rid \<and> member = None then Some st else None
      | _ \<Rightarrow> None)"

definition logged_run_state :: "SessionEvent list \<Rightarrow> nat \<Rightarrow> RunState option" where
  "logged_run_state evs rid = find_map (run_level rid) (rev evs)"

lemma logged_run_state_snoc:
  "logged_run_state (evs @ [ev]) rid =
     (case run_level rid ev of Some st \<Rightarrow> Some st | None \<Rightarrow> logged_run_state evs rid)"
  unfolding logged_run_state_def by simp

definition wf_run :: "Run \<Rightarrow> bool" where
  "wf_run r \<longleftrightarrow> (rn_open r \<longleftrightarrow> rn_state r = Started) \<and> distinct (map ph_title (rn_phases r))"

lemma ensure_phase_titles:
  assumes "distinct (map ph_title phases)" and "ensure_phase t phases = (phases', i)"
  shows "distinct (map ph_title phases')" and "i < length phases'" and "ph_title (phases' ! i) = t"
  using assms
  by (auto simp: ensure_phase_def position_None nth_append dest: position_bound position_sat split: option.splits)

lemma map_update_same: "i < length xs \<Longrightarrow> f y = f (xs ! i) \<Longrightarrow> map f (xs[i := y]) = map f xs"
  by (simp add: map_update list_update_same_conv)

lemma wf_run_row:
  assumes "wf_run run"
  shows "wf_run (run_row phase member mid st run)"
proof (cases member)
  case (Some label)
  let ?t = "case phase of Some p \<Rightarrow> p | None \<Rightarrow> []"
  obtain phases i where e: "ensure_phase ?t (rn_phases run) = (phases, i)" by fastforce
  note ph = ensure_phase_titles [OF _ e]
  have "distinct (map ph_title (rn_phases run))" using assms by (simp add: wf_run_def)
  with ph Some e assms show ?thesis
    by (simp add: run_row_def wf_run_def map_update_same Let_def)
qed (use assms in \<open>simp add: run_row_def wf_run_def\<close>)

lemma run_row_id [simp]: "rn_run_id (run_row phase member mid st run) = rn_run_id run"
  by (simp add: run_row_def Let_def split: option.splits prod.splits)

lemma run_row_state:
  "rn_state (run_row phase member mid st run) = (if member = None then st else rn_state run)"
  by (simp add: run_row_def Let_def split: option.splits prod.splits)

text \<open>The invariant of the loop, with the log read so far.\<close>

definition runs_inv :: "SessionEvent list \<Rightarrow> Run list \<Rightarrow> bool" where
  "runs_inv evs out \<longleftrightarrow> distinct (map rn_run_id out) \<and> (\<forall>r \<in> set out. wf_run r)
     \<and> (\<forall>rid. map_option rn_state (find (\<lambda>r. rn_run_id r = rid) out) = logged_run_state evs rid)"

lemma find_position: "find P xs = map_option ((!) xs) (position P xs)"
  by (induction xs) (auto simp: option.map_comp comp_def)

lemma find_update_key:
  assumes "position (\<lambda>r. key r = a) out = Some i" and "key y = a"
  shows "find (\<lambda>r. key r = b) (out[i := y]) = (if b = a then Some y else find (\<lambda>r. key r = b) out)"
  using assms by (induction out arbitrary: i) (auto split: if_splits nat.splits)

lemma find_append_new:
  "find P (xs @ [y]) = (case find P xs of Some x \<Rightarrow> Some x | None \<Rightarrow> if P y then Some y else None)"
  by (induction xs) auto

lemma run_level_row:
  assumes "kind ev = WorkflowRun rid cs phase member mid st"
  shows "run_level r ev = (if r = rid \<and> member = None then Some st else None)"
  using assms by (auto simp: run_level_def)

lemma runs_inv_step:
  assumes "runs_inv evs out"
  shows "runs_inv (evs @ [ev]) (runs_step out ev)"
proof (cases "\<exists>rid cs phase member mid st. kind ev = WorkflowRun rid cs phase member mid st")
  case False
  then have "runs_step out ev = out" and "run_level r ev = None" for r
    by (cases "kind ev"; auto simp: runs_step_def run_level_def)+
  with assms show ?thesis by (simp add: runs_inv_def logged_run_state_snoc)
next
  case True
  then obtain rid cs phase member mid st where k: "kind ev = WorkflowRun rid cs phase member mid st" by blast
  note lev = run_level_row [OF k]
  from assms have d: "distinct (map rn_run_id out)" and w: "\<forall>r \<in> set out. wf_run r"
    and l: "\<And>r. map_option rn_state (find (\<lambda>x. rn_run_id x = r) out) = logged_run_state evs r"
    by (auto simp: runs_inv_def)
  show ?thesis
  proof (cases "position (\<lambda>r. rn_run_id r = rid) out")
    case (Some i)
    let ?new = "run_row phase member mid st (out ! i)"
    have i: "i < length out" "rn_run_id (out ! i) = rid"
      using Some by (auto dest: position_bound position_sat)
    have "runs_step out ev = out[i := ?new]" using k Some by (simp add: runs_step_def)
    moreover have "map rn_run_id (out[i := ?new]) = map rn_run_id out" using i by (simp add: map_update_same)
    moreover have "\<forall>r \<in> set (out[i := ?new]). wf_run r"
      using w i by (auto intro: wf_run_row dest!: set_update_subset_insert [THEN subsetD])
    moreover have "map_option rn_state (find (\<lambda>x. rn_run_id x = r) (out[i := ?new])) = logged_run_state (evs @ [ev]) r" for r
      using l [of r] find_position [of "\<lambda>r. rn_run_id r = rid" out] Some i
        find_update_key [OF Some, of ?new r]
      by (auto simp: logged_run_state_snoc lev run_row_state)
    ultimately show ?thesis using d by (simp add: runs_inv_def)
  next
    case None
    show ?thesis
    proof (cases "member = None")
      case True
      let ?new = "run_row phase member mid st
        \<lparr>rn_run_id = rid, rn_call_seq = cs, rn_state = Started, rn_open = True, rn_phases = []\<rparr>"
      have "runs_step out ev = out @ [?new]" using k None True by (simp add: runs_step_def)
      moreover have "wf_run ?new" by (rule wf_run_row) (simp add: wf_run_def)
      moreover have "map_option rn_state (find (\<lambda>x. rn_run_id x = r) (out @ [?new])) = logged_run_state (evs @ [ev]) r" for r
        using l [of r] find_position [of "\<lambda>r. rn_run_id r = rid" out] None True
        by (auto simp: find_append_new logged_run_state_snoc lev run_row_state split: option.splits)
      moreover have "rid \<notin> rn_run_id ` set out" using None by (auto simp: position_None)
      ultimately show ?thesis using d w by (auto simp: runs_inv_def)
    next
      case False
      with None k have "runs_step out ev = out" by (simp add: runs_step_def)
      with False assms show ?thesis by (auto simp: runs_inv_def logged_run_state_snoc lev)
    qed
  qed
qed

lemma runs_inv_fold: "runs_inv evs (workflow_runs evs)"
  unfolding workflow_runs_def
  by (induction evs rule: rev_induct) (auto simp: runs_inv_step, simp add: runs_inv_def logged_run_state_def)

text \<open>
  Orchestrated runs say what the log says. Whatever the log, each run appears once, under
  each run every phase title appears once, a run is open exactly when its state is running, and
  its state is the one its last run-level row gave it; a run without such a row is not listed.
\<close>

theorem workflow_runs_sound:
  "distinct (map rn_run_id (workflow_runs evs))
   \<and> list_all (\<lambda>r. rn_open r = (rn_state r = Started) \<and> distinct (map ph_title (rn_phases r))) (workflow_runs evs)
   \<and> map_option rn_state (find (\<lambda>r. rn_run_id r = rid) (workflow_runs evs)) = logged_run_state evs rid"
  using runs_inv_fold [of evs] by (auto simp: runs_inv_def wf_run_def list_all_iff)

text \<open>
  A run-level end row whose start the log never had still lists the run, closed: the comment in
  the source says that only a \<open>Started\<close> row opens a run.
\<close>

lemma run_end_without_start_listed:
  "workflow_runs [\<lparr>seq = n, ts = t, kind = WorkflowRun rid cs phase None mid Done\<rparr>] =
     [\<lparr>rn_run_id = rid, rn_call_seq = cs, rn_state = Done, rn_open = False, rn_phases = []\<rparr>]"
  by (simp add: workflow_runs_def runs_step_def run_row_def)

section \<open>Reminders\<close>

record ScheduleRecord =
  sr_id :: string
  sr_prompt :: string
  sr_rule :: string
  fire_at :: int
  every_seconds :: "nat option"
  anchor :: int

definition next_after :: "ScheduleRecord \<Rightarrow> int \<Rightarrow> int option" where
  "next_after r now =
     Option.bind (every_seconds r) (\<lambda>e.
       let every = u64_as_i64 e
       in if every \<le> 0 then None
          else if now < anchor r then Some (anchor r)
          else let elapsed = wrap_i64 (now - anchor r);
                   steps = wrap_i64 (elapsed sdiv every + 1)
               in Option.bind (checked_mul_i64 steps every) (\<lambda>d. checked_add_i64 (anchor r) d))"

definition schedules_step :: "ScheduleRecord list \<Rightarrow> SessionEvent \<Rightarrow> ScheduleRecord list" where
  "schedules_step out ev =
     (case kind ev of
        Schedule sid op prompt rule fire after every accepted_at \<Rightarrow>
          let pos = position (\<lambda>r. sr_id r = sid) out
          in if op = ''create'' then
               (if pos \<noteq> None then out
                else case (prompt, rule, fire) of
                   (Some p, Some ru, Some f) \<Rightarrow>
                     out @ [\<lparr>sr_id = sid, sr_prompt = p, sr_rule = ru, fire_at = f, every_seconds = every, anchor = f\<rparr>]
                 | _ \<Rightarrow> out)
             else if op = ''delete'' then
               (case pos of Some i \<Rightarrow> remove_at i out | None \<Rightarrow> out)
             else if op = ''dispatch'' then
               (case pos of None \<Rightarrow> out
                | Some i \<Rightarrow>
                    (case (every_seconds (out ! i), accepted_at) of
                       (Some _, Some at) \<Rightarrow>
                         (case next_after (out ! i) at of
                            Some n \<Rightarrow> out[i := (out ! i)\<lparr>fire_at := n\<rparr>]
                          | None \<Rightarrow> remove_at i out)
                     | _ \<Rightarrow> remove_at i out))
             else out
      | _ \<Rightarrow> out)"

definition schedules :: "SessionEvent list \<Rightarrow> ScheduleRecord list" where
  "schedules evs = foldl schedules_step [] evs"

text \<open>The range the interval arithmetic is exact in: times since 1970 and no overflow ahead.\<close>

definition in_horizon :: "ScheduleRecord \<Rightarrow> nat \<Rightarrow> int \<Rightarrow> bool" where
  "in_horizon r e now \<longleftrightarrow> every_seconds r = Some e \<and> 0 < e \<and> 0 \<le> anchor r \<and> anchor r \<le> I64_MAX
     \<and> 0 \<le> now \<and> now + int e \<le> I64_MAX"

lemma u64_as_i64_id: "int e \<le> I64_MAX \<Longrightarrow> u64_as_i64 e = int e"
  by (simp add: u64_as_i64_def in_i64_def)

lemma div_less_of_less_mult:
  fixes d e k :: int
  assumes "0 < e" and "d < k * e"
  shows "d div e < k"
proof (rule ccontr)
  assume "\<not> d div e < k"
  then have "k * e \<le> d div e * e" using assms(1) by (intro mult_right_mono) simp_all
  also have "\<dots> \<le> d" using assms(1) by (simp flip: minus_mod_eq_div_mult)
  finally show False using assms(2) by simp
qed

lemma next_after_horizon:
  assumes "in_horizon r e now"
  shows "next_after r now =
    Some (if now < anchor r then anchor r else anchor r + ((now - anchor r) div int e + 1) * int e)"
proof -
  let ?d = "now - anchor r"
  have e: "every_seconds r = Some e" "0 < e" "u64_as_i64 e = int e" and a: "0 \<le> anchor r"
    and n: "0 \<le> now" "now + int e \<le> I64_MAX"
    using assms u64_as_i64_id [of e] by (auto simp: in_horizon_def)
  show ?thesis
  proof (cases "now < anchor r")
    case False
    have q: "0 \<le> ?d div int e" and m: "?d div int e * int e \<le> ?d"
      using False e(2) by (simp_all add: pos_imp_zdiv_nonneg_iff flip: minus_mod_eq_div_mult)
    have "?d div int e \<le> ?d div int e * int e"
      using mult_left_mono [of 1 "int e" "?d div int e"] q e(2) by simp
    with m have ub: "?d div int e \<le> ?d" by linarith
    let ?s = "?d div int e + 1"
    have q2: "0 \<le> ?d div int e * int e" using q by simp
    have s: "?s * int e = ?d div int e * int e + int e" by (simp add: algebra_simps)
    have "in_i64 ?d" "in_i64 ?s" "in_i64 (?s * int e)" "in_i64 (anchor r + ?s * int e)"
      unfolding in_i64_def s using q q2 m ub a n e(2) False by linarith+
    moreover have "?d sdiv int e = ?d div int e"
      using False e(2) by (cases "?d = 0") (simp_all add: signed_divide_int_def)
    ultimately show ?thesis
      using False e by (simp add: next_after_def Let_def checked_mul_i64_def checked_add_i64_def)
  qed (use e in \<open>simp add: next_after_def Let_def\<close>)
qed

lemma next_after_later: "in_horizon r e now \<Longrightarrow> next_after r now = Some n \<Longrightarrow> now < n"
proof -
  assume h: "in_horizon r e now" and n: "next_after r now = Some n"
  have "(now - anchor r) mod int e < int e" using h by (simp add: in_horizon_def)
  then have "now - anchor r < ((now - anchor r) div int e + 1) * int e"
    using div_mult_mod_eq [of "now - anchor r" "int e"] unfolding distrib_right by linarith
  with n show "now < n" unfolding next_after_horizon [OF h] by (simp split: if_splits)
qed

text \<open>
  A recurring reminder moves to its first occurrence after now. For times since 1970 and an
  interval that leaves room before the end of \<open>i64\<close>, \<open>next_after\<close> returns an occurrence that is
  aligned with the anchor, not before it, strictly after \<open>now\<close>, and the earliest such: missed
  intervals are skipped, none is replayed.
\<close>

theorem next_after_first_occurrence:
  assumes "in_horizon r e now"
  shows "\<exists>n. next_after r now = Some n \<and> now < n \<and> anchor r \<le> n \<and> int e dvd (n - anchor r)
    \<and> (\<forall>m. now < m \<and> anchor r \<le> m \<and> int e dvd (m - anchor r) \<longrightarrow> n \<le> m)"
proof -
  let ?d = "now - anchor r"
  let ?n = "if now < anchor r then anchor r else anchor r + (?d div int e + 1) * int e"
  have e: "0 < int e" using assms by (simp add: in_horizon_def)
  note n = next_after_horizon [OF assms]
  have "?n \<le> m" if "now < m" "anchor r \<le> m" "int e dvd (m - anchor r)" for m
  proof (cases "now < anchor r")
    case False
    obtain k where k: "m - anchor r = int e * k" using \<open>int e dvd (m - anchor r)\<close> by (rule dvdE)
    have "?d < k * int e" using k that(1) by (simp add: mult.commute)
    then have "?d div int e < k" by (rule div_less_of_less_mult [OF e])
    then have "(?d div int e + 1) * int e \<le> k * int e" using e by (intro mult_right_mono) auto
    with False k show ?thesis by (simp add: mult.commute)
  qed (use that in simp)
  moreover have "anchor r \<le> ?n" "int e dvd (?n - anchor r)"
    using e by (auto simp: pos_imp_zdiv_nonneg_iff)
  ultimately show ?thesis using n next_after_later [OF assms n] by blast
qed

theorem next_after_first_occurrence_witness:
  "let r = \<lparr>sr_id = ''s'', sr_prompt = ''p'', sr_rule = ''every'', fire_at = 100, every_seconds = Some 60, anchor = 100\<rparr>
   in \<exists>n. next_after r 290 = Some n \<and> 290 < n \<and> 60 dvd (n - 100) \<and> n \<le> 340"
proof -
  let ?r = "\<lparr>sr_id = ''s'', sr_prompt = ''p'', sr_rule = ''every'', fire_at = 100, every_seconds = Some 60, anchor = 100\<rparr>"
  have "in_horizon ?r 60 290" by (simp add: in_horizon_def)
  from next_after_first_occurrence [OF this] obtain n where "next_after ?r 290 = Some n" "290 < n" "60 dvd (n - 100)"
    and "\<forall>m. 290 < m \<and> 100 \<le> m \<and> 60 dvd (m - 100) \<longrightarrow> n \<le> m" by auto
  moreover from this(4) have "n \<le> 340" by simp
  ultimately show ?thesis by (simp add: Let_def)
qed

section \<open>The active reminders\<close>

text \<open>Every record is aligned with its anchor, and no two have the same id.\<close>

definition aligned :: "ScheduleRecord \<Rightarrow> bool" where
  "aligned r \<longleftrightarrow> (\<forall>e. every_seconds r = Some e \<longrightarrow> u64_as_i64 e dvd (fire_at r - anchor r))"

definition schedules_inv :: "ScheduleRecord list \<Rightarrow> bool" where
  "schedules_inv out \<longleftrightarrow> distinct (map sr_id out) \<and> (\<forall>r \<in> set out. aligned r)"

lemma next_after_aligned:
  assumes "next_after r now = Some n"
  shows "aligned (r\<lparr>fire_at := n\<rparr>)"
  using assms
  by (auto simp: next_after_def aligned_def bind_eq_Some_conv checked_mul_i64_def checked_add_i64_def Let_def
      split: if_splits)

lemma schedules_inv_remove: "schedules_inv out \<Longrightarrow> schedules_inv (remove_at i out)"
  using set_remove_at_subset [of i out] by (auto simp: schedules_inv_def map_remove_at distinct_remove_at)

lemma schedules_inv_update:
  assumes "schedules_inv out" and "i < length out" and "next_after (out ! i) t = Some n"
  shows "schedules_inv (out[i := (out ! i)\<lparr>fire_at := n\<rparr>])"
  using assms next_after_aligned [OF assms(3)]
  by (auto simp: schedules_inv_def map_update_same dest!: set_update_subset_insert [THEN subsetD])

lemma schedules_inv_new:
  assumes "schedules_inv out" and "position (\<lambda>r. sr_id r = sid) out = None"
  shows "schedules_inv (out @ [\<lparr>sr_id = sid, sr_prompt = p, sr_rule = ru, fire_at = f, every_seconds = ev, anchor = f\<rparr>])"
  using assms by (auto simp: schedules_inv_def aligned_def position_None)

lemma schedules_inv_step:
  assumes "schedules_inv out"
  shows "schedules_inv (schedules_step out ev)"
proof (cases "kind ev")
  case (Schedule sid op prompt rule fire after every accepted_at)
  note intros = assms schedules_inv_remove [OF assms] schedules_inv_update [OF assms] schedules_inv_new [OF assms]
  show ?thesis
  proof (cases "position (\<lambda>r. sr_id r = sid) out")
    case None
    then show ?thesis
      using intros by (simp add: schedules_step_def Schedule split: option.split)
  next
    case (Some i)
    then have "i < length out" by (rule position_bound)
    with Some show ?thesis
      using intros by (simp add: schedules_step_def Schedule Let_def split: option.split)
  qed
qed (use assms in \<open>simp_all add: schedules_step_def\<close>)

lemma schedules_inv_fold: "schedules_inv (schedules evs)"
  unfolding schedules_def
  by (induction evs rule: rev_induct) (auto simp: schedules_inv_step, simp add: schedules_inv_def)

lemma position_key_distinct:
  assumes "distinct (map key xs)" and "x \<in> set xs"
  obtains i where "position (\<lambda>y. key y = key x) xs = Some i" and "i < length xs" and "xs ! i = x"
proof -
  have "position (\<lambda>y. key y = key x) xs \<noteq> None" using assms(2) by (auto simp: position_None)
  then obtain i where i: "position (\<lambda>y. key y = key x) xs = Some i" by blast
  then have "i < length xs" "key (xs ! i) = key x" by (auto dest: position_bound position_sat)
  moreover from this have "xs ! i = x"
    using assms by (auto simp: distinct_map inj_on_def)
  ultimately show ?thesis using i that by blast
qed

lemma remove_at_keys:
  assumes "distinct (map key xs)" and "i < length xs"
  shows "set (remove_at i xs) = {x \<in> set xs. key x \<noteq> key (xs ! i)}"
proof -
  have "distinct xs" using assms(1) by (simp add: distinct_map)
  then have "set (remove_at i xs) = set xs - {xs ! i}" using assms(2) by (rule set_remove_at_distinct)
  moreover have "x = xs ! i" if "x \<in> set xs" "key x = key (xs ! i)" for x
    using assms that by (auto simp: distinct_map inj_on_def)
  ultimately show ?thesis by auto
qed

lemma update_keys:
  assumes "distinct (map key xs)" and "i < length xs"
  shows "set (xs[i := y]) = insert y {x \<in> set xs. key x \<noteq> key (xs ! i)}"
proof -
  have "distinct xs" using assms(1) by (simp add: distinct_map)
  then have "set (xs[i := y]) = insert y (set xs - {xs ! i})"
    using assms(2) by (simp add: set_update_distinct)
  moreover have "x = xs ! i" if "x \<in> set xs" "key x = key (xs ! i)" for x
    using assms that by (auto simp: distinct_map inj_on_def)
  ultimately show ?thesis by auto
qed

lemma dispatch_one_shot:
  assumes "schedules_inv out" and "r \<in> set out" and "kind ev = Schedule (sr_id r) ''dispatch'' p ru f a es acc"
    and "every_seconds r = None"
  shows "set (schedules_step out ev) = {r' \<in> set out. sr_id r' \<noteq> sr_id r}"
proof -
  have d: "distinct (map sr_id out)" using assms(1) by (simp add: schedules_inv_def)
  obtain i where i: "position (\<lambda>r'. sr_id r' = sr_id r) out = Some i" "i < length out" "out ! i = r"
    using position_key_distinct [OF d assms(2)] by blast
  with assms(3,4) remove_at_keys [OF d i(2)] show ?thesis by (simp add: schedules_step_def Let_def)
qed

lemma dispatch_recurring:
  assumes "schedules_inv out" and "r \<in> set out" and "kind ev = Schedule (sr_id r) ''dispatch'' p ru f a es (Some at)"
    and h: "in_horizon r e at"
  shows "\<exists>n. next_after r at = Some n \<and> at < n
    \<and> set (schedules_step out ev) = insert (r\<lparr>fire_at := n\<rparr>) {r' \<in> set out. sr_id r' \<noteq> sr_id r}"
proof -
  have d: "distinct (map sr_id out)" using assms(1) by (simp add: schedules_inv_def)
  obtain i where i: "position (\<lambda>r'. sr_id r' = sr_id r) out = Some i" "i < length out" "out ! i = r"
    using position_key_distinct [OF d assms(2)] by blast
  obtain n where n: "next_after r at = Some n" using next_after_horizon [OF h] by blast
  moreover have "every_seconds r = Some e" using h by (simp add: in_horizon_def)
  ultimately have "set (schedules_step out ev) = insert (r\<lparr>fire_at := n\<rparr>) {r' \<in> set out. sr_id r' \<noteq> sr_id r}"
    using i assms(3) update_keys [OF d i(2)] by (simp add: schedules_step_def Let_def)
  then show ?thesis using n next_after_later [OF h n] by blast
qed

text \<open>
  A dispatched reminder never fires twice for the same moment. Ids are unique and every
  record stays aligned with its anchor. Dispatching an active one-shot reminder removes it;
  dispatching a recurring one moves it to a moment strictly after the decision time; no other
  reminder is touched.
\<close>

theorem reminder_dispatch:
  assumes "r \<in> set (schedules evs)"
    and "kind ev = Schedule (sr_id r) ''dispatch'' p ru f a es (Some at)"
  shows "distinct (map sr_id (schedules (evs @ [ev]))) \<and> list_all aligned (schedules (evs @ [ev]))
    \<and> (every_seconds r = None \<longrightarrow>
         set (schedules (evs @ [ev])) = {r' \<in> set (schedules evs). sr_id r' \<noteq> sr_id r})
    \<and> (in_horizon r e at \<longrightarrow> (\<exists>n. at < n \<and> set (schedules (evs @ [ev])) =
         insert (r\<lparr>fire_at := n\<rparr>) {r' \<in> set (schedules evs). sr_id r' \<noteq> sr_id r}))"
proof -
  have s: "schedules (evs @ [ev]) = schedules_step (schedules evs) ev" by (simp add: schedules_def)
  show ?thesis
    unfolding s
    using schedules_inv_step [OF schedules_inv_fold [of evs], of ev]
      dispatch_one_shot [OF schedules_inv_fold assms] dispatch_recurring [OF schedules_inv_fold assms]
    by (simp add: schedules_inv_def list_all_iff) blast
qed

theorem reminder_dispatch_witness:
  "let ev = (\<lambda>n k. \<lparr>seq = n, ts = 0, kind = k\<rparr>);
       evs = [ev 2 (Schedule ''a'' ''create'' (Some ''stretch'') (Some ''every'') (Some 100) None (Some 60) None)];
       r = \<lparr>sr_id = ''a'', sr_prompt = ''stretch'', sr_rule = ''every'', fire_at = 100, every_seconds = Some 60, anchor = 100\<rparr>
   in \<exists>n. 290 < n \<and> set (schedules (evs @ [ev 3 (Schedule ''a'' ''dispatch'' None None None None None (Some 290))])) = {r\<lparr>fire_at := n\<rparr>}"
proof -
  let ?ev = "\<lambda>n k. \<lparr>seq = n, ts = 0, kind = k\<rparr>"
  let ?evs = "[?ev 2 (Schedule ''a'' ''create'' (Some ''stretch'') (Some ''every'') (Some 100) None (Some 60) None)]"
  let ?r = "\<lparr>sr_id = ''a'', sr_prompt = ''stretch'', sr_rule = ''every'', fire_at = 100, every_seconds = Some 60, anchor = 100\<rparr>"
  let ?d = "?ev 3 (Schedule ''a'' ''dispatch'' None None None None None (Some 290))"
  have s: "set (schedules ?evs) = {?r}" by (simp add: schedules_def schedules_step_def)
  have r: "?r \<in> set (schedules ?evs)" unfolding s by simp
  have k: "kind ?d = Schedule (sr_id ?r) ''dispatch'' None None None None None (Some 290)" by simp
  have h: "in_horizon ?r 60 290" by (simp add: in_horizon_def)
  have "\<exists>n. 290 < n \<and> set (schedules (?evs @ [?d])) = insert (?r\<lparr>fire_at := n\<rparr>) {r' \<in> set (schedules ?evs). sr_id r' \<noteq> sr_id ?r}"
    using reminder_dispatch [OF r k, of 60] h by blast
  moreover have "{r' \<in> {?r}. sr_id r' \<noteq> sr_id ?r} = {}" by auto
  ultimately show ?thesis unfolding s Let_def by (simp only: append_Cons append_Nil)
qed

section \<open>Session memory and feedback\<close>

record SessionMemory =
  me_seq :: nat
  me_ts :: int
  me_summary :: string
  me_facts :: "string list"
  me_through_seq :: nat
  me_author :: string

definition memory_is_empty :: "SessionMemory \<Rightarrow> bool" where
  "memory_is_empty m \<longleftrightarrow> trim (me_summary m) = [] \<and> list_all (\<lambda>f. trim f = []) (me_facts m)"

definition memory_row :: "SessionEvent \<Rightarrow> SessionMemory option" where
  "memory_row ev =
     (case kind ev of
        SessionMemoryRow summary facts through author \<Rightarrow>
          Some \<lparr>me_seq = seq ev, me_ts = ts ev, me_summary = summary, me_facts = facts,
                me_through_seq = through, me_author = author\<rparr>
      | _ \<Rightarrow> None)"

definition latest_session_memory :: "SessionEvent list \<Rightarrow> SessionMemory option" where
  "latest_session_memory evs = find_map memory_row (rev evs)"

definition session_memory :: "SessionEvent list \<Rightarrow> SessionMemory option" where
  "session_memory evs =
     (case latest_session_memory evs of
        Some m \<Rightarrow> if \<not> memory_is_empty m then Some m else None
      | None \<Rightarrow> None)"

definition feedback_step ::
  "(nat \<rightharpoonup> int \<times> string option) \<Rightarrow> SessionEvent \<Rightarrow> (nat \<rightharpoonup> int \<times> string option)" where
  "feedback_step out ev =
     (case kind ev of
        MessageFeedback seq_ref rating note \<Rightarrow>
          if rating = 0 then out(seq_ref := None) else out(seq_ref \<mapsto> (rating, note))
      | _ \<Rightarrow> out)"

definition feedback :: "SessionEvent list \<Rightarrow> (nat \<rightharpoonup> int \<times> string option)" where
  "feedback evs = foldl feedback_step Map.empty evs"

definition rating_of :: "nat \<Rightarrow> SessionEvent \<Rightarrow> (int \<times> string option) option" where
  "rating_of n ev = (case kind ev of
      MessageFeedback m rating note \<Rightarrow> if m = n then Some (rating, note) else None | _ \<Rightarrow> None)"

lemma feedback_latest:
  "feedback evs n = (case find_map (rating_of n) (rev evs) of
      Some (r, note) \<Rightarrow> if r = 0 then None else Some (r, note) | None \<Rightarrow> None)"
proof (induction evs rule: rev_induct)
  case (snoc ev evs)
  have "feedback (evs @ [ev]) n = (case rating_of n ev of
      Some (r, note) \<Rightarrow> if r = 0 then None else Some (r, note) | None \<Rightarrow> feedback evs n)"
    by (cases "kind ev") (simp_all add: feedback_def feedback_step_def rating_of_def)
  with snoc show ?case by (simp split: option.split)
qed (simp add: feedback_def)

lemma find_map_None: "find_map f xs = None \<longleftrightarrow> (\<forall>x \<in> set xs. f x = None)"
  by (induction xs) (auto split: option.splits)

lemma find_map_SomeD:
  "find_map f xs = Some y \<Longrightarrow> \<exists>pre x post. xs = pre @ x # post \<and> f x = Some y \<and> (\<forall>z \<in> set pre. f z = None)"
proof (induction xs)
  case (Cons a xs)
  show ?case
  proof (cases "f a")
    case None
    with Cons obtain pre x post where "xs = pre @ x # post" "f x = Some y" "\<forall>z \<in> set pre. f z = None" by auto
    with None show ?thesis by (intro exI [of _ "a # pre"]) auto
  qed (use Cons.prems in \<open>intro exI [of _ "[]"], auto\<close>)
qed simp

lemma find_map_rev_Some:
  "find_map f (rev xs) = Some y \<longleftrightarrow> (\<exists>pre x post. xs = pre @ x # post \<and> f x = Some y \<and> (\<forall>z \<in> set post. f z = None))"
proof
  assume "find_map f (rev xs) = Some y"
  then obtain pre x post where "rev xs = pre @ x # post" "f x = Some y" "\<forall>z \<in> set pre. f z = None"
    using find_map_SomeD by metis
  then have "xs = rev post @ x # rev pre" by (metis append_assoc append_Cons append_Nil rev.simps(2) rev_append rev_rev_ident)
  with \<open>f x = Some y\<close> \<open>\<forall>z \<in> set pre. f z = None\<close>
  show "\<exists>pre x post. xs = pre @ x # post \<and> f x = Some y \<and> (\<forall>z \<in> set post. f z = None)"
    by (intro exI [of _ "rev post"] exI [of _ x] exI [of _ "rev pre"]) simp
next
  assume "\<exists>pre x post. xs = pre @ x # post \<and> f x = Some y \<and> (\<forall>z \<in> set post. f z = None)"
  then show "find_map f (rev xs) = Some y"
    by (auto simp: find_map_append find_map_None [THEN iffD2] split: option.splits)
qed

text \<open>
  The newest row decides. A client sees a session memory exactly when the last memory row of
  the log is not blank, and then that row; and the rating it sees of a message is the last
  rating logged for it, none if that was the clearing zero.
\<close>

theorem latest_row_decides:
  "(session_memory evs = Some m \<longleftrightarrow> \<not> memory_is_empty m
      \<and> (\<exists>pre ev post. evs = pre @ ev # post \<and> memory_row ev = Some m \<and> list_all (\<lambda>e. memory_row e = None) post))
   \<and> (feedback evs n = Some (r, note) \<longleftrightarrow> r \<noteq> 0
      \<and> (\<exists>pre ev post. evs = pre @ ev # post \<and> kind ev = MessageFeedback n r note \<and> list_all (\<lambda>e. rating_of n e = None) post))"
proof -
  have k: "rating_of n ev = Some (r, note) \<longleftrightarrow> kind ev = MessageFeedback n r note" for ev
    by (cases "kind ev") (auto simp: rating_of_def)
  have "session_memory evs = Some m \<longleftrightarrow> \<not> memory_is_empty m \<and> find_map memory_row (rev evs) = Some m"
    by (auto simp: session_memory_def latest_session_memory_def split: option.splits)
  moreover have "feedback evs n = Some (r, note) \<longleftrightarrow> r \<noteq> 0 \<and> find_map (rating_of n) (rev evs) = Some (r, note)"
    by (auto simp: feedback_latest split: option.splits if_splits)
  ultimately show ?thesis unfolding find_map_rev_Some k list_all_iff by blast
qed

end
