(* ===== verification/Goals.thy ===== *)
theory Goals
  imports Session_Log
begin

text \<open>
  The durable objective of a session: \<open>src/crates/agents/src/goal.rs\<close> and its handlers in
  \<open>src/crates/backend/src/chat.rs\<close> (\<open>put_goal\<close>, the goal skills of \<open>handle_control\<close>,
  \<open>command_goal\<close>, the round driver at the end of a turn, \<open>disarm\<close>, \<open>control_state\<close>
  and the restore at startup).

  \<open>GoalState\<close> is what the backend keeps for one session: its log, the goal in memory, whether
  it is armed, the counter the next goal id comes from, and the goal snapshots sent to the
  frontend, newest first. Refusals are values of \<open>refusal\<close>, one per message of the source;
  log lines of the user interface are not part of the state.
\<close>

section \<open>Goals\<close>

definition MAX_GOAL_ROUNDS :: nat where "MAX_GOAL_ROUNDS = 256"
definition DEFAULT_GOAL_ROUNDS :: nat where "DEFAULT_GOAL_ROUNDS = 16"
definition BLOCKED_AFTER_CONSECUTIVE_ROUNDS :: nat where "BLOCKED_AFTER_CONSECUTIVE_ROUNDS = 3"

lemmas goal_consts = MAX_GOAL_ROUNDS_def DEFAULT_GOAL_ROUNDS_def BLOCKED_AFTER_CONSECUTIVE_ROUNDS_def

record Goal =
  g_id :: nat
  g_revision :: nat
  g_objective :: string
  g_phase :: GoalPhase
  rounds_started :: nat
  max_rounds :: nat
  g_blocker :: "string option"

definition clamp :: "nat \<Rightarrow> nat \<Rightarrow> nat \<Rightarrow> nat" where
  "clamp x lo hi = (if x < lo then lo else if x > hi then hi else x)"

definition new_goal :: "nat \<Rightarrow> string \<Rightarrow> nat \<Rightarrow> Goal" where
  "new_goal i objective mx =
     \<lparr>g_id = i, g_revision = 1, g_objective = objective, g_phase = Active, rounds_started = 0,
      max_rounds = clamp mx 1 MAX_GOAL_ROUNDS, g_blocker = None\<rparr>"

definition rounds_left :: "Goal \<Rightarrow> bool" where
  "rounds_left g \<longleftrightarrow> g_phase g = Active \<and> rounds_started g < max_rounds g"

definition goal_summary :: "Goal \<Rightarrow> string" where
  "goal_summary g =
     ''goal #'' @ dec (g_id g) @ '' rev '' @ dec (g_revision g) @ '' ['' @ phase_label (g_phase g)
     @ ''] round '' @ dec (rounds_started g) @ ''/'' @ dec (max_rounds g) @ '': '' @ g_objective g
     @ (case g_blocker g of Some b \<Rightarrow> [CHR 0x0A] @ ''blocker: '' @ b | None \<Rightarrow> [])"

datatype GoalAction = Pause | Resume | Complete | Block

datatype refusal =
    UnknownAction string
  | NotTopLevel
  | NeedsUser GoalAction
  | TooEarly nat
  | RevisionMismatch nat nat
  | AlreadyTerminal GoalPhase
  | NeedsBlocker
  | NeedsObjective
  | OnlyUserCreates
  | GoalExists string
  | NoGoal
  | NoRevision nat

definition action_parse :: "string \<Rightarrow> refusal + GoalAction" where
  "action_parse s =
     (let t = to_ascii_lowercase (trim s)
      in if t = ''pause'' then Inr Pause
         else if t = ''resume'' \<or> t = ''continue'' then Inr Resume
         else if t = ''complete'' \<or> t = ''done'' then Inr Complete
         else if t = ''block'' \<or> t = ''blocked'' then Inr Block
         else Inl (UnknownAction t))"

fun action_phase :: "GoalAction \<Rightarrow> GoalPhase" where
  "action_phase Pause = Paused"
| "action_phase Resume = Active"
| "action_phase Complete = Completed"
| "action_phase Block = Blocked"

definition authorize :: "GoalAction \<Rightarrow> Goal \<Rightarrow> bool \<Rightarrow> nat \<Rightarrow> refusal + unit" where
  "authorize action g human depth =
     (if depth > 0 then Inl NotTopLevel
      else if (action = Pause \<or> action = Resume) \<and> \<not> human then Inl (NeedsUser action)
      else if action = Block \<and> \<not> human \<and> rounds_started g < BLOCKED_AFTER_CONSECUTIVE_ROUNDS
           then Inl (TooEarly (rounds_started g))
      else Inr ())"

definition apply_action :: "Goal \<Rightarrow> nat \<Rightarrow> GoalAction \<Rightarrow> string option \<Rightarrow> refusal + Goal" where
  "apply_action g revision action note =
     (if revision \<noteq> g_revision g then Inl (RevisionMismatch revision (g_revision g))
      else if is_terminal (g_phase g) \<and> action \<noteq> Resume then Inl (AlreadyTerminal (g_phase g))
      else if action = Block \<and> (case note of Some n \<Rightarrow> trim n | None \<Rightarrow> []) = [] then Inl NeedsBlocker
      else Inr (g\<lparr>g_revision := wrap_u32 (g_revision g + 1), g_phase := action_phase action,
             g_blocker := (case action of Block \<Rightarrow> map_option trim note | Resume \<Rightarrow> None | _ \<Rightarrow> g_blocker g)\<rparr>))"

definition edit_goal :: "Goal \<Rightarrow> nat \<Rightarrow> string \<Rightarrow> refusal + Goal" where
  "edit_goal g revision objective =
     (if revision \<noteq> g_revision g then Inl (RevisionMismatch revision (g_revision g))
      else if trim objective = [] then Inl NeedsObjective
      else if is_terminal (g_phase g) then Inl (AlreadyTerminal (g_phase g))
      else Inr (g\<lparr>g_revision := wrap_u32 (g_revision g + 1), g_objective := trim objective\<rparr>))"

definition start_round :: "Goal \<Rightarrow> Goal" where
  "start_round g = g\<lparr>g_revision := wrap_u32 (g_revision g + 1), rounds_started := wrap_u32 (rounds_started g + 1)\<rparr>"

definition parse_max_rounds :: "json option \<Rightarrow> nat" where
  "parse_max_rounds v =
     (let raw = (case v of
           Some (JNumber n) \<Rightarrow> wrap_u32 (case as_u64 n of Some k \<Rightarrow> k | None \<Rightarrow> 0)
         | Some (JString s) \<Rightarrow> (case parse_uint U32_MAX (trim s) of Some k \<Rightarrow> k | None \<Rightarrow> 0)
         | _ \<Rightarrow> 0)
      in if raw = 0 then DEFAULT_GOAL_ROUNDS else clamp raw 1 MAX_GOAL_ROUNDS)"

section \<open>The state of a session's goal\<close>

record GoalState =
  gs_log :: SessionLog
  gs_goal :: "Goal option"
  gs_armed :: bool
  gs_next_goal :: nat
  gs_emitted :: "(Goal \<times> bool) list"

definition goal_event :: "Goal \<Rightarrow> EventKind" where
  "goal_event g = GoalChange (g_id g) (g_revision g) (g_objective g) (g_phase g) (rounds_started g)
     (max_rounds g) (g_blocker g)"

definition put_goal :: "int \<Rightarrow> Goal \<Rightarrow> GoalState \<Rightarrow> GoalState" where
  "put_goal now g st =
     (let st = st\<lparr>gs_log := log_append (gs_log st) now (goal_event g)\<rparr>;
          st = (if \<not> rounds_left g then st\<lparr>gs_armed := False\<rparr> else st);
          st = st\<lparr>gs_emitted := (g, gs_armed st) # gs_emitted st\<rparr>
      in st\<lparr>gs_goal := Some g\<rparr>)"

datatype outcome = Refused refusal | Accepted string

definition create_goal :: "int \<Rightarrow> json \<Rightarrow> TurnSource \<Rightarrow> GoalState \<Rightarrow> outcome \<times> GoalState" where
  "create_goal now args source st =
     (case Option.bind (json_get ''objective'' args) as_str of
        None \<Rightarrow> (Refused NeedsObjective, st)
      | Some s \<Rightarrow>
          if trim s = [] then (Refused NeedsObjective, st)
          else if \<not> is_human source then (Refused OnlyUserCreates, st)
          else case (case gs_goal st of Some g \<Rightarrow> if is_terminal (g_phase g) then None else Some g | None \<Rightarrow> None) of
            Some g \<Rightarrow> (Refused (GoalExists (goal_summary g)), st)
          | None \<Rightarrow>
              let g' = new_goal (gs_next_goal st) (trim s) (parse_max_rounds (json_get ''max_rounds'' args))
              in (Accepted (goal_summary g'),
                  put_goal now g' (st\<lparr>gs_next_goal := gs_next_goal st + 1, gs_armed := True\<rparr>)))"

definition get_goal :: "GoalState \<Rightarrow> outcome" where
  "get_goal st =
     (case gs_goal st of
        Some g \<Rightarrow> Accepted (goal_summary g @ [CHR 0x0A] @ ''rounds armed: ''
                    @ (if gs_armed st then ''true'' else ''false''))
      | None \<Rightarrow> Refused NoGoal)"

definition parse_revision :: "json \<Rightarrow> nat option" where
  "parse_revision v =
     (case v of
        JNumber n \<Rightarrow> map_option wrap_u32 (as_u64 n)
      | JString s \<Rightarrow> parse_uint U32_MAX (trim s)
      | _ \<Rightarrow> None)"

definition update_goal :: "int \<Rightarrow> json \<Rightarrow> TurnSource \<Rightarrow> GoalState \<Rightarrow> outcome \<times> GoalState" where
  "update_goal now args source st =
     (case gs_goal st of
        None \<Rightarrow> (Refused NoGoal, st)
      | Some g \<Rightarrow>
          (case Option.bind (json_get ''revision'' args) parse_revision of
             None \<Rightarrow> (Refused (NoRevision (g_revision g)), st)
           | Some revision \<Rightarrow>
               (case action_parse (case Option.bind (json_get ''action'' args) as_str of Some a \<Rightarrow> a | None \<Rightarrow> []) of
                  Inl e \<Rightarrow> (Refused e, st)
                | Inr action \<Rightarrow>
                    (case authorize action g (is_human source) 0 of
                       Inl e \<Rightarrow> (Refused e, st)
                     | Inr _ \<Rightarrow>
                         (case apply_action g revision action (Option.bind (json_get ''note'' args) as_str) of
                            Inl e \<Rightarrow> (Refused e, st)
                          | Inr next \<Rightarrow>
                              (Accepted (goal_summary next),
                               put_goal now next
                                 (if g_phase next \<noteq> Active then st\<lparr>gs_armed := False\<rparr> else st)))))))"

section \<open>The \<open>/goal\<close> command\<close>

text \<open>\<open>split_once(char::is_whitespace)\<close>: the text before and after the first white-space character.\<close>

fun split_once_ws :: "string \<Rightarrow> (string \<times> string) option" where
  "split_once_ws [] = None"
| "split_once_ws (c # cs) =
     (if ws_head (c # cs) \<noteq> 0 then Some ([], drop (ws_head (c # cs)) (c # cs))
      else map_option (\<lambda>(a, b). (c # a, b)) (split_once_ws cs))"

text \<open>The flag \<open>idle\<close> says that no turn of the session is running.\<close>

definition command_goal :: "int \<Rightarrow> string \<Rightarrow> bool \<Rightarrow> GoalState \<Rightarrow> outcome \<times> GoalState" where
  "command_goal now input idle st =
     (case gs_goal st of
        None \<Rightarrow> (Refused NoGoal, st)
      | Some g \<Rightarrow>
          let (word, note) = (case split_once_ws (trim input) of
                 Some (w, rest) \<Rightarrow> (trim w, trim rest) | None \<Rightarrow> (trim input, []))
          in if word = [] then (get_goal st, st)
             else if to_ascii_lowercase word = ''edit'' then
               (case edit_goal g (g_revision g) note of
                  Inl e \<Rightarrow> (Refused e, st)
                | Inr next \<Rightarrow> (Accepted (goal_summary next), put_goal now next st))
             else case action_parse word of
               Inl e \<Rightarrow> (Refused e, st)
             | Inr action \<Rightarrow>
                 (case apply_action g (g_revision g) action (Some note) of
                    Inl e \<Rightarrow> (Refused e, st)
                  | Inr next \<Rightarrow>
                      let resumed = (g_phase next = Active \<and> rounds_left next);
                          st' = put_goal now next (st\<lparr>gs_armed := resumed\<rparr>)
                      in (Accepted (goal_summary next),
                          if resumed \<and> idle then
                            (case gs_goal st' of Some g' \<Rightarrow> put_goal now (start_round g') st' | None \<Rightarrow> st')
                          else st')))"

section \<open>The end of a turn\<close>

datatype NextTurn =
    FollowupTurn string "UserImage list"
  | AutoContinueTurn string
  | GoalRoundTurn Goal
  | Idle

text \<open>
  What the turn task decides under the slot lock: \<open>mine\<close> says that the slot is still this
  turn's, \<open>followup\<close> is what \<open>take_followup\<close> returned, \<open>auto_cont\<close> the prompt of the
  completion check.
\<close>

definition decide_next ::
  "bool \<Rightarrow> (string \<times> UserImage list) option \<Rightarrow> bool \<Rightarrow> string option \<Rightarrow> GoalState \<Rightarrow> NextTurn \<times> GoalState" where
  "decide_next mine followup cancelled auto_cont st =
     (if \<not> mine then (Idle, st)
      else case followup of
        Some (text, imgs) \<Rightarrow> (FollowupTurn text imgs, st)
      | None \<Rightarrow>
          if cancelled then (Idle, st\<lparr>gs_armed := False\<rparr>)
          else case auto_cont of
            Some p \<Rightarrow> (AutoContinueTurn p, st)
          | None \<Rightarrow>
              (case gs_goal st of
                 Some g \<Rightarrow> if rounds_left g \<and> gs_armed st then (GoalRoundTurn g, st) else (Idle, st)
               | None \<Rightarrow> (Idle, st)))"

definition turn_end ::
  "int \<Rightarrow> bool \<Rightarrow> (string \<times> UserImage list) option \<Rightarrow> bool \<Rightarrow> string option \<Rightarrow> GoalState \<Rightarrow> NextTurn \<times> GoalState" where
  "turn_end now mine followup cancelled auto_cont st =
     (case decide_next mine followup cancelled auto_cont st of
        (GoalRoundTurn g, st') \<Rightarrow> (GoalRoundTurn (start_round g), put_goal now (start_round g) st')
      | (n, st') \<Rightarrow> (n, st'))"

definition disarm :: "GoalState \<Rightarrow> GoalState" where
  "disarm st = st\<lparr>gs_armed := False\<rparr>"

section \<open>Restoring a session\<close>

record ControlPlane =
  cp_mode :: PermissionMode
  cp_plan :: bool
  cp_preset :: "string option"
  cp_goal :: "Goal option"

definition control_step :: "ControlPlane \<Rightarrow> SessionEvent \<Rightarrow> ControlPlane" where
  "control_step c ev =
     (case kind ev of
        PermissionModeSet m \<Rightarrow> c\<lparr>cp_mode := m\<rparr>
      | PlanMode active \<Rightarrow> c\<lparr>cp_plan := active\<rparr>
      | AgentPreset name \<Rightarrow> c\<lparr>cp_preset := name\<rparr>
      | GoalChange gid rv obj ph started mx blk \<Rightarrow>
          c\<lparr>cp_goal := Some \<lparr>g_id = gid, g_revision = rv, g_objective = obj, g_phase = ph,
              rounds_started = started, max_rounds = mx, g_blocker = blk\<rparr>\<rparr>
      | _ \<Rightarrow> c)"

definition control_state :: "SessionLog \<Rightarrow> ControlPlane" where
  "control_state log = foldl control_step
     \<lparr>cp_mode = default_permission, cp_plan = False, cp_preset = None, cp_goal = None\<rparr> (events log)"

definition restore_goal :: "nat \<Rightarrow> SessionLog \<Rightarrow> GoalState" where
  "restore_goal next_goal log =
     \<lparr>gs_log = log, gs_goal = cp_goal (control_state log), gs_armed = False, gs_next_goal = next_goal,
      gs_emitted = []\<rparr>"

section \<open>Steps\<close>

text \<open>
  What can happen to a session's goal, and who does it: a person (a command, the stop button,
  or a goal skill called in a human turn), the machine, or the machine opening a round.
  Whatever else the session logs is an event of another kind.
\<close>

datatype actor = Person | Machine | RoundOpened

fun is_goal_change :: "EventKind \<Rightarrow> bool" where
  "is_goal_change (GoalChange _ _ _ _ _ _ _) = True"
| "is_goal_change _ = False"

definition skill_actor :: "TurnSource \<Rightarrow> actor" where
  "skill_actor source = (if is_human source then Person else Machine)"

fun turn_actor :: "NextTurn \<Rightarrow> actor" where
  "turn_actor (GoalRoundTurn _) = RoundOpened"
| "turn_actor _ = Machine"

inductive goal_step :: "actor \<Rightarrow> GoalState \<Rightarrow> GoalState \<Rightarrow> bool" where
  Create: "create_goal now args source st = (out, st') \<Longrightarrow> goal_step (skill_actor source) st st'"
| Update: "update_goal now args source st = (out, st') \<Longrightarrow> goal_step (skill_actor source) st st'"
| Command: "command_goal now input idle st = (out, st') \<Longrightarrow> goal_step Person st st'"
| TurnOver: "turn_end now mine followup cancelled auto_cont st = (out, st') \<Longrightarrow> goal_step (turn_actor out) st st'"
| Interrupt: "goal_step Person st (disarm st)"
| Log: "\<not> is_goal_change k \<Longrightarrow> goal_step Machine st (st\<lparr>gs_log := log_append (gs_log st) now k\<rparr>)"
| Restart: "goal_step Machine st (restore_goal n (gs_log st))"

inductive goal_reach :: "GoalState \<Rightarrow> GoalState \<Rightarrow> bool" where
  Here: "goal_reach st st"
| Step: "goal_reach st st' \<Longrightarrow> goal_step a st' st'' \<Longrightarrow> goal_reach st st''"

text \<open>A run in which no person acts, with the number of rounds it opened.\<close>

inductive machine_run :: "nat \<Rightarrow> GoalState \<Rightarrow> GoalState \<Rightarrow> bool" where
  Start: "machine_run 0 st st"
| Quiet: "machine_run n st st' \<Longrightarrow> goal_step Machine st' st'' \<Longrightarrow> machine_run n st st''"
| Round: "machine_run n st st' \<Longrightarrow> goal_step RoundOpened st' st'' \<Longrightarrow> machine_run (Suc n) st st''"

definition new_state :: "nat \<Rightarrow> SessionLog \<Rightarrow> GoalState" where
  "new_state n log = \<lparr>gs_log = log, gs_goal = None, gs_armed = False, gs_next_goal = n, gs_emitted = []\<rparr>"

text \<open>
  The effect of a step, in three shapes: nothing about the goal changes, it is disarmed, or a
  new version of it is put.
\<close>

lemma put_goal_sel [simp]:
  "gs_goal (put_goal now g st) = Some g"
  "gs_armed (put_goal now g st) = (rounds_left g \<and> gs_armed st)"
  "gs_log (put_goal now g st) = log_append (gs_log st) now (goal_event g)"
  "gs_emitted (put_goal now g st) = (g, rounds_left g \<and> gs_armed st) # gs_emitted st"
  "gs_next_goal (put_goal now g st) = gs_next_goal st"
  by (simp_all add: put_goal_def Let_def)

lemma create_goal_cases:
  assumes "create_goal now args source st = (out, st')"
  shows "(st' = st \<and> (\<exists>e. out = Refused e))
    \<or> (is_human source \<and> (\<forall>g. gs_goal st = Some g \<longrightarrow> is_terminal (g_phase g))
       \<and> (\<exists>obj mx. st' = put_goal now (new_goal (gs_next_goal st) obj mx)
            (st\<lparr>gs_next_goal := gs_next_goal st + 1, gs_armed := True\<rparr>)))"
  using assms unfolding create_goal_def Let_def
  by (auto split: option.split_asm if_split_asm)

lemma put_goal_not_active:
  "put_goal now g (if g_phase g \<noteq> Active then st\<lparr>gs_armed := False\<rparr> else st) = put_goal now g st"
  by (simp add: put_goal_def rounds_left_def Let_def)

lemma update_goal_cases:
  assumes "update_goal now args source st = (out, st')"
  shows "(st' = st \<and> (\<exists>e. out = Refused e))
    \<or> (\<exists>g revision action nt g'. gs_goal st = Some g \<and> Option.bind (json_get ''revision'' args) parse_revision = Some revision
       \<and> authorize action g (is_human source) 0 = Inr () \<and> apply_action g revision action nt = Inr g'
       \<and> st' = put_goal now g' st)"
proof (cases "gs_goal st")
  case (Some g)
  show ?thesis
  proof (cases "Option.bind (json_get ''revision'' args) parse_revision")
    case (Some revision)
    note rev = this
    obtain a where a: "action_parse (case Option.bind (json_get ''action'' args) as_str of Some a \<Rightarrow> a | None \<Rightarrow> []) = a"
      by blast
    show ?thesis
      using assms unfolding update_goal_def \<open>gs_goal st = Some g\<close> rev a put_goal_not_active
      by (simp split: sum.split_asm) blast+
  qed (use assms Some in \<open>auto simp: update_goal_def\<close>)
qed (use assms in \<open>auto simp: update_goal_def\<close>)

lemma command_goal_cases:
  assumes "command_goal now input idle st = (out, st')"
  shows "st' = st
    \<or> (\<exists>g note g'. gs_goal st = Some g \<and> edit_goal g (g_revision g) note = Inr g' \<and> st' = put_goal now g' st)
    \<or> (\<exists>g action note g'. gs_goal st = Some g \<and> apply_action g (g_revision g) action (Some note) = Inr g'
        \<and> (st' = put_goal now g' (st\<lparr>gs_armed := rounds_left g'\<rparr>)
         \<or> rounds_left g' \<and> idle \<and> st' = put_goal now (start_round g') (put_goal now g' (st\<lparr>gs_armed := True\<rparr>))))"
proof (cases "gs_goal st")
  case (Some g)
  obtain word nt where w: "(case split_once_ws (trim input) of
      Some (w, rest) \<Rightarrow> (trim w, trim rest) | None \<Rightarrow> (trim input, [])) = (word, nt)" by fastforce
  have r: "(g_phase g' = Active \<and> rounds_left g') = rounds_left g'" for g' by (auto simp: rounds_left_def)
  have run: "(if word = [] then (get_goal st, st)
      else if to_ascii_lowercase word = ''edit'' then
        (case edit_goal g (g_revision g) nt of Inl e \<Rightarrow> (Refused e, st)
         | Inr g' \<Rightarrow> (Accepted (goal_summary g'), put_goal now g' st))
      else case action_parse word of Inl e \<Rightarrow> (Refused e, st)
        | Inr action \<Rightarrow> (case apply_action g (g_revision g) action (Some nt) of Inl e \<Rightarrow> (Refused e, st)
          | Inr g' \<Rightarrow> (Accepted (goal_summary g'),
              if rounds_left g' \<and> idle then put_goal now (start_round g') (put_goal now g' (st\<lparr>gs_armed := rounds_left g'\<rparr>))
              else put_goal now g' (st\<lparr>gs_armed := rounds_left g'\<rparr>)))) = (out, st')"
    using assms unfolding command_goal_def Some w Let_def r option.case prod.case put_goal_sel(1) .
  show ?thesis
  proof (cases "word = [] \<or> to_ascii_lowercase word = ''edit''")
    case True
    with run show ?thesis by (auto simp: Some split: if_split_asm sum.split_asm)
  next
    case False
    with run consider "st' = st" | action g' where "apply_action g (g_revision g) action (Some nt) = Inr g'"
        "st' = (if rounds_left g' \<and> idle then put_goal now (start_round g') (put_goal now g' (st\<lparr>gs_armed := rounds_left g'\<rparr>))
              else put_goal now g' (st\<lparr>gs_armed := rounds_left g'\<rparr>))"
      by (auto split: sum.split_asm)
    then show ?thesis
    proof cases
      case (2 action g')
      then show ?thesis using Some by (cases "rounds_left g' \<and> idle") (simp_all, blast+)
    qed simp
  qed
qed (use assms in \<open>simp add: command_goal_def\<close>)

lemma turn_end_cases:
  assumes "turn_end now mine followup cancelled auto_cont st = (out, st')"
  shows "((st' = st \<or> st' = st\<lparr>gs_armed := False\<rparr>) \<and> (\<forall>g. out \<noteq> GoalRoundTurn g))
    \<or> (\<exists>g. gs_goal st = Some g \<and> rounds_left g \<and> gs_armed st \<and> out = GoalRoundTurn (start_round g)
        \<and> st' = put_goal now (start_round g) st)"
proof -
  obtain n s where d: "decide_next mine followup cancelled auto_cont st = (n, s)" by fastforce
  then have "s = st \<or> s = st\<lparr>gs_armed := False\<rparr>"
    and "\<And>g. n = GoalRoundTurn g \<Longrightarrow> gs_goal st = Some g \<and> rounds_left g \<and> gs_armed st \<and> s = st"
    by (auto simp: decide_next_def split: option.split_asm if_split_asm)
  then show ?thesis using assms d by (cases n) (auto simp: turn_end_def)
qed

section \<open>What every step does to the goal\<close>

lemma apply_action_Inr:
  assumes "apply_action g revision action nt = Inr g'"
  shows "revision = g_revision g" "g_revision g' = wrap_u32 (g_revision g + 1)" "g_phase g' = action_phase action"
    "rounds_started g' = rounds_started g" "max_rounds g' = max_rounds g" "g_id g' = g_id g"
    "is_terminal (g_phase g) \<Longrightarrow> action = Resume" "g_objective g' = g_objective g"
  using assms by (auto simp: apply_action_def split: if_split_asm)

lemma edit_goal_Inr:
  assumes "edit_goal g revision obj = Inr g'"
  shows "revision = g_revision g" "g_revision g' = wrap_u32 (g_revision g + 1)" "g_phase g' = g_phase g"
    "rounds_started g' = rounds_started g" "max_rounds g' = max_rounds g" "g_id g' = g_id g"
    "\<not> is_terminal (g_phase g)"
  using assms by (auto simp: edit_goal_def split: if_split_asm)

text \<open>The invariant of every state a session can reach.\<close>

definition goal_inv :: "GoalState \<Rightarrow> bool" where
  "goal_inv st \<longleftrightarrow> wf_log (gs_log st) \<and> gs_goal st = cp_goal (control_state (gs_log st))
     \<and> (\<forall>g. gs_goal st = Some g \<longrightarrow> rounds_started g \<le> max_rounds g \<and> max_rounds g \<le> MAX_GOAL_ROUNDS)
     \<and> (gs_armed st \<longrightarrow> (\<exists>g. gs_goal st = Some g \<and> rounds_left g))
     \<and> (\<forall>g b rest. gs_emitted st = (g, b) # rest \<longrightarrow> gs_goal st = Some g \<and> (gs_armed st \<longrightarrow> b))"

lemma control_state_append:
  assumes "wf_log log"
  shows "cp_goal (control_state (log_append log now k)) =
    (case k of GoalChange gid rv obj ph started mx blk \<Rightarrow>
        Some \<lparr>g_id = gid, g_revision = rv, g_objective = obj, g_phase = ph,
              rounds_started = started, max_rounds = mx, g_blocker = blk\<rparr>
     | _ \<Rightarrow> cp_goal (control_state log))"
  by (cases k) (simp_all add: control_state_def events_append [OF assms] control_step_def)

lemma control_state_goal_event:
  "wf_log log \<Longrightarrow> cp_goal (control_state (log_append log now (goal_event g))) = Some g"
  by (simp add: control_state_append goal_event_def)

lemma control_state_other:
  "wf_log log \<Longrightarrow> \<not> is_goal_change k \<Longrightarrow> cp_goal (control_state (log_append log now k)) = cp_goal (control_state log)"
  by (cases k) (simp_all add: control_state_append)

lemma goal_inv_put:
  assumes "goal_inv st" and "rounds_started g \<le> max_rounds g" and "max_rounds g \<le> MAX_GOAL_ROUNDS"
  shows "goal_inv (put_goal now g (st\<lparr>gs_next_goal := n, gs_armed := b\<rparr>))"
  using assms by (auto simp: goal_inv_def wf_append control_state_goal_event)

lemma goal_inv_put_same:
  assumes "goal_inv st" and "rounds_started g \<le> max_rounds g" and "max_rounds g \<le> MAX_GOAL_ROUNDS"
  shows "goal_inv (put_goal now g st)"
  using goal_inv_put [OF assms, where now = now and b = "gs_armed st" and n = "gs_next_goal st"] by simp

lemma goal_inv_disarm: "goal_inv st \<Longrightarrow> goal_inv (st\<lparr>gs_armed := False\<rparr>)"
  by (auto simp: goal_inv_def)

lemma clamp_bounds: "lo \<le> hi \<Longrightarrow> lo \<le> clamp x lo hi \<and> clamp x lo hi \<le> hi"
  by (simp add: clamp_def)

lemma new_goal_rounds: "rounds_started (new_goal i obj mx) \<le> max_rounds (new_goal i obj mx)"
  "max_rounds (new_goal i obj mx) \<le> MAX_GOAL_ROUNDS" "rounds_left (new_goal i obj mx)"
  using clamp_bounds [of 1 MAX_GOAL_ROUNDS mx] by (auto simp: new_goal_def rounds_left_def goal_consts)

lemma goal_inv_bounds:
  "goal_inv st \<Longrightarrow> gs_goal st = Some g \<Longrightarrow> rounds_started g \<le> max_rounds g \<and> max_rounds g \<le> MAX_GOAL_ROUNDS"
  by (simp add: goal_inv_def)

lemma start_round_bounds:
  assumes "rounds_left g" and "max_rounds g \<le> MAX_GOAL_ROUNDS"
  shows "rounds_started (start_round g) = Suc (rounds_started g)" "rounds_started (start_round g) \<le> max_rounds g"
    "max_rounds (start_round g) = max_rounds g" "g_phase (start_round g) = g_phase g"
  using assms by (simp_all add: start_round_def rounds_left_def goal_consts)

lemma goal_inv_step:
  assumes "goal_step a st st'" and inv: "goal_inv st"
  shows "goal_inv st'"
  using assms(1)
proof cases
  case (Create now args source out)
  from create_goal_cases [OF Create(2)] show ?thesis
  proof (elim disjE conjE exE)
    fix obj mx
    assume "st' = put_goal now (new_goal (gs_next_goal st) obj mx) (st\<lparr>gs_next_goal := gs_next_goal st + 1, gs_armed := True\<rparr>)"
    then show ?thesis
      using goal_inv_put [OF inv new_goal_rounds(1,2), where now = now and b = True and n = "gs_next_goal st + 1"] by simp
  qed (use inv in simp)
next
  case (Update now args source out)
  from update_goal_cases [OF Update(2)] show ?thesis
  proof (elim disjE conjE exE)
    fix g revision action nt g'
    assume g: "gs_goal st = Some g" and a: "apply_action g revision action nt = Inr g'" and st: "st' = put_goal now g' st"
    show ?thesis
      unfolding st using goal_inv_bounds [OF inv g] apply_action_Inr [OF a] by (intro goal_inv_put_same [OF inv]) auto
  qed (use inv in simp)
next
  case (Command now input idle out)
  from command_goal_cases [OF Command(2)] show ?thesis
  proof (elim disjE conjE exE)
    fix g nt g'
    assume g: "gs_goal st = Some g" and a: "edit_goal g (g_revision g) nt = Inr g'" and st: "st' = put_goal now g' st"
    show ?thesis
      unfolding st using goal_inv_bounds [OF inv g] edit_goal_Inr [OF a] by (intro goal_inv_put_same [OF inv]) auto
  next
    fix g action nt g'
    assume g: "gs_goal st = Some g" and a: "apply_action g (g_revision g) action (Some nt) = Inr g'"
      and st: "st' = put_goal now g' (st\<lparr>gs_armed := rounds_left g'\<rparr>)"
    show ?thesis
      unfolding st using goal_inv_bounds [OF inv g] apply_action_Inr [OF a]
        goal_inv_put [OF inv, where g = g' and now = now and b = "rounds_left g'" and n = "gs_next_goal st"] by simp
  next
    fix g action nt g'
    assume g: "gs_goal st = Some g" and a: "apply_action g (g_revision g) action (Some nt) = Inr g'"
      and r: "rounds_left g'" and st: "st' = put_goal now (start_round g') (put_goal now g' (st\<lparr>gs_armed := True\<rparr>))"
    have "goal_inv (put_goal now g' (st\<lparr>gs_armed := True\<rparr>))" and mx: "max_rounds g' \<le> MAX_GOAL_ROUNDS"
      using goal_inv_bounds [OF inv g] apply_action_Inr [OF a]
        goal_inv_put [OF inv, where g = g' and now = now and b = True and n = "gs_next_goal st"] by simp_all
    then show ?thesis
      unfolding st using start_round_bounds [OF r mx] by (intro goal_inv_put_same [of "put_goal now g' (st\<lparr>gs_armed := True\<rparr>)"]) auto
  qed (use inv in simp)
next
  case (TurnOver now mine followup cancelled auto_cont out)
  from turn_end_cases [OF TurnOver(2)] show ?thesis
  proof (elim disjE conjE exE)
    fix g
    assume g: "gs_goal st = Some g" and r: "rounds_left g" and st: "st' = put_goal now (start_round g) st"
    show ?thesis
      unfolding st using goal_inv_bounds [OF inv g] start_round_bounds [OF r]
      by (intro goal_inv_put_same [OF inv]) auto
  qed (use inv goal_inv_disarm in auto)
next
  case Interrupt
  then show ?thesis using goal_inv_disarm [OF inv] by (simp add: disarm_def)
next
  case (Log k now)
  moreover have "cp_goal (control_state (log_append (gs_log st) now k)) = cp_goal (control_state (gs_log st))"
    using inv Log by (intro control_state_other) (simp_all add: goal_inv_def)
  ultimately show ?thesis using inv unfolding goal_inv_def by (simp add: wf_append) metis
next
  case (Restart n)
  then show ?thesis using inv by (simp add: goal_inv_def restore_goal_def)
qed

lemma goal_inv_reach:
  assumes "goal_reach st st'" and "goal_inv st"
  shows "goal_inv st'"
  using assms by (induction rule: goal_reach.induct) (auto intro: goal_inv_step)

lemma goal_inv_new: "wf_log log \<Longrightarrow> cp_goal (control_state log) = None \<Longrightarrow> goal_inv (new_state n log)"
  by (simp add: goal_inv_def new_state_def)


text \<open>What the machine may do: the cases of its steps.\<close>

lemma machine_step_cases:
  assumes "goal_step a st st'" and "a \<noteq> Person" and inv: "goal_inv st"
  shows "(a = Machine \<and> gs_goal st' = gs_goal st \<and> (gs_armed st' \<longrightarrow> gs_armed st))
    \<or> (a = Machine \<and> (\<exists>g action nt g'. gs_goal st = Some g \<and> authorize action g False 0 = Inr ()
         \<and> apply_action g (g_revision g) action nt = Inr g' \<and> gs_goal st' = Some g' \<and> (gs_armed st' \<longrightarrow> gs_armed st)))
    \<or> (a = RoundOpened \<and> (\<exists>g. gs_goal st = Some g \<and> rounds_left g \<and> gs_armed st
         \<and> gs_goal st' = Some (start_round g)))"
  using assms(1)
proof cases
  case (Create now args source out)
  then show ?thesis using create_goal_cases [OF Create(2)] assms(2) by (auto simp: skill_actor_def split: if_splits)
next
  case (Update now args source out)
  then have m: "\<not> is_human source" "a = Machine" using assms(2) by (auto simp: skill_actor_def split: if_splits)
  from update_goal_cases [OF Update(2)] show ?thesis
  proof (elim disjE conjE exE)
    fix g revision action nt g'
    assume "gs_goal st = Some g" "authorize action g (is_human source) 0 = Inr ()"
      "apply_action g revision action nt = Inr g'" "st' = put_goal now g' st"
    with m apply_action_Inr(1) show ?thesis by auto
  qed (use m in simp)
next
  case (TurnOver now mine followup cancelled auto_cont out)
  then show ?thesis using turn_end_cases [OF TurnOver(2)] by (cases out) auto
next
  case (Restart n)
  then show ?thesis using inv by (simp add: goal_inv_def restore_goal_def)
qed (use assms(2) in auto)

lemma authorize_machine:
  assumes "authorize action g False d = Inr ()"
  shows "action = Complete \<or> (action = Block \<and> BLOCKED_AFTER_CONSECUTIVE_ROUNDS \<le> rounds_started g)"
  using assms by (cases action) (auto simp: authorize_def split: if_split_asm)

text \<open>Rounds a goal still has; machine steps never add to it.\<close>

definition budget :: "GoalState \<Rightarrow> nat" where
  "budget st = (if gs_armed st then (case gs_goal st of Some g \<Rightarrow> max_rounds g - rounds_started g | None \<Rightarrow> 0) else 0)"

lemma budget_machine: "goal_step Machine st st' \<Longrightarrow> goal_inv st \<Longrightarrow> budget st' \<le> budget st"
  using machine_step_cases [of Machine st st'] by (auto simp: budget_def apply_action_Inr split: option.splits)

lemma budget_round:
  assumes "goal_step RoundOpened st st'" and "goal_inv st"
  shows "Suc (budget st') \<le> budget st"
proof -
  obtain g where g: "gs_goal st = Some g" "rounds_left g" "gs_armed st" "gs_goal st' = Some (start_round g)"
    using machine_step_cases [OF assms(1) _ assms(2)] by auto
  have mx: "max_rounds g \<le> MAX_GOAL_ROUNDS" using goal_inv_bounds [OF assms(2) g(1)] by simp
  show ?thesis
    using g start_round_bounds [OF g(2) mx] by (auto simp: budget_def rounds_left_def)
qed

lemma machine_run_inv: "machine_run n st st' \<Longrightarrow> goal_inv st \<Longrightarrow> goal_inv st' \<and> n + budget st' \<le> budget st"
proof (induction rule: machine_run.induct)
  case (Quiet n st st' st'')
  then show ?case using goal_inv_step budget_machine by fastforce
next
  case (Round n st st' st'')
  then show ?case using goal_inv_step budget_round by fastforce
qed simp

text \<open>
  C6: Autonomy is bounded. From any state of a session, as long as no person acts, the machine
  opens at most as many rounds as the goal has left, so never more than 256; and if the session
  is not armed (after a restart, a fork, a stop) it opens none.
\<close>

theorem autonomy_bounded:
  assumes "goal_inv st" and "machine_run n st st'"
  shows "n \<le> 256 \<and> (\<forall>g. gs_goal st = Some g \<longrightarrow> n + rounds_started g \<le> max_rounds g)
    \<and> (\<not> gs_armed st \<longrightarrow> n = 0)"
  using machine_run_inv [OF assms(2,1)] goal_inv_bounds [OF assms(1)]
  by (fastforce simp: budget_def MAX_GOAL_ROUNDS_def split: if_splits option.splits)

text \<open>
  C26: What the machine may not do. Without a person, a goal keeps its id, its objective and its
  budget; a finished, blocked or absent goal stays exactly as it is; and the phase changes only
  to completed, or to blocked after at least three rounds.
\<close>

theorem machine_authority:
  assumes "goal_inv st" and "goal_step a st st'" and "a \<noteq> Person"
  shows "case gs_goal st of None \<Rightarrow> gs_goal st' = None
    | Some g \<Rightarrow> \<exists>g'. gs_goal st' = Some g' \<and> g_id g' = g_id g \<and> g_objective g' = g_objective g \<and> max_rounds g' = max_rounds g
        \<and> (is_terminal (g_phase g) \<longrightarrow> g' = g)
        \<and> (g_phase g' = g_phase g \<or> g_phase g' = Completed \<or> (g_phase g' = Blocked \<and> 3 \<le> rounds_started g))"
  using machine_step_cases [OF assms(2,3,1)]
proof (elim disjE conjE exE)
  fix g action nt g'
  assume g: "gs_goal st = Some g" "gs_goal st' = Some g'" and au: "authorize action g False 0 = Inr ()"
    and ap: "apply_action g (g_revision g) action nt = Inr g'"
  have "\<not> is_terminal (g_phase g)" using authorize_machine [OF au] apply_action_Inr(7) [OF ap] by auto
  with g apply_action_Inr [OF ap] authorize_machine [OF au] show ?thesis
    by (auto simp: BLOCKED_AFTER_CONSECUTIVE_ROUNDS_def)
next
  fix g assume "gs_goal st = Some g" "rounds_left g" "gs_goal st' = Some (start_round g)"
  then show ?thesis by (auto simp: start_round_def rounds_left_def)
qed (auto split: option.splits)

lemma parse_revision_le: "parse_revision v = Some r \<Longrightarrow> r \<le> U32_MAX"
  by (cases v) (auto simp: parse_revision_def parse_uint_def wrap_u32_le Let_def split: if_splits)

lemma wrap_u32_succ: "r \<le> U32_MAX \<Longrightarrow> wrap_u32 (r + 1) \<noteq> r"
  by (cases "r = U32_MAX") (simp_all add: wrap_u32_def)

lemma stale_update_refused:
  assumes "gs_goal st = Some g" and "Option.bind (json_get ''revision'' args) parse_revision = Some r" and "r \<noteq> g_revision g"
  shows "\<exists>e. update_goal now args source st = (Refused e, st)"
proof -
  obtain out st' where u: "update_goal now args source st = (out, st')" by fastforce
  from update_goal_cases [OF u] assms apply_action_Inr(1) show ?thesis unfolding u by fastforce
qed

text \<open>
  C27: Of two callers that read the same revision, one wins. An accepted update presented the
  current revision and moves the goal to the next one; any second update that presents the
  same revision, from a person or a round, is refused and changes nothing.
\<close>

theorem update_compare_and_set:
  assumes "update_goal now args source st = (Accepted m, st')"
    and "Option.bind (json_get ''revision'' args) parse_revision = Some r"
    and "Option.bind (json_get ''revision'' args2) parse_revision = Some r"
  shows "(\<exists>g g'. gs_goal st = Some g \<and> gs_goal st' = Some g' \<and> r = g_revision g \<and> g_revision g' = wrap_u32 (r + 1))
    \<and> (\<exists>e. update_goal now2 args2 source2 st' = (Refused e, st'))"
proof -
  obtain g action nt g' where g: "gs_goal st = Some g" "apply_action g r action nt = Inr g'" "st' = put_goal now g' st"
    using update_goal_cases [OF assms(1)] assms(2) by auto
  note a = apply_action_Inr [OF g(2)]
  have "r \<le> U32_MAX" using assms(2) by (auto simp: bind_eq_Some_conv dest: parse_revision_le)
  then have ne: "r \<noteq> g_revision g'" using a(1,2) wrap_u32_succ [of r] by simp
  have "gs_goal st' = Some g'" using g(3) by simp
  with stale_update_refused [OF this assms(3) ne] g(1) a(1,2) show ?thesis by auto
qed

section \<open>A session with a goal\<close>

definition demo_args :: json where
  "demo_args = JObject [(''objective'', JString ''ship it''), (''max_rounds'', JNumber (NumU64 2))]"

definition demo_goal :: Goal where
  "demo_goal = \<lparr>g_id = 5, g_revision = 1, g_objective = ''ship it'', g_phase = Active, rounds_started = 0,
     max_rounds = 2, g_blocker = None\<rparr>"

definition fresh_state :: GoalState where
  "fresh_state = new_state 5 (new_in 1 ''t'' None 0 0)"

definition demo_state :: GoalState where
  "demo_state = snd (create_goal 0 demo_args Human fresh_state)"

lemma trim_ship: "trim ''ship it'' = ''ship it''"
  by code_simp

lemma demo_create:
  "create_goal 0 demo_args Human fresh_state =
     (Accepted (goal_summary demo_goal), put_goal 0 demo_goal (fresh_state\<lparr>gs_next_goal := 6, gs_armed := True\<rparr>))"
proof -
  have "parse_max_rounds (Some (JNumber (NumU64 2))) = 2"
    by (simp add: parse_max_rounds_def clamp_def goal_consts)
  then have "new_goal 5 ''ship it'' (parse_max_rounds (json_get ''max_rounds'' demo_args)) = demo_goal"
    by (simp add: new_goal_def demo_goal_def demo_args_def clamp_def goal_consts)
  then show ?thesis
    by (simp add: create_goal_def demo_args_def fresh_state_def new_state_def trim_ship is_human_def)
qed

lemma demo_state_eq: "demo_state = put_goal 0 demo_goal (fresh_state\<lparr>gs_next_goal := 6, gs_armed := True\<rparr>)"
  by (simp add: demo_state_def demo_create)

lemma demo_sel [simp]: "gs_goal demo_state = Some demo_goal" "gs_armed demo_state"
  by (simp_all add: demo_state_eq rounds_left_def) (simp_all add: demo_goal_def)

lemma demo_reach: "goal_reach fresh_state demo_state"
  using goal_reach.Step [OF goal_reach.Here goal_step.Create [OF demo_create]] by (simp add: demo_state_eq)

lemma demo_inv: "goal_inv demo_state"
proof -
  have "cp_goal (control_state (new_in 1 ''t'' None 0 0)) = None"
    by (simp add: control_state_def new_in_def log_append_def control_step_def)
  then show ?thesis
    using goal_inv_reach [OF demo_reach] goal_inv_new [OF wf_new_in] by (simp add: fresh_state_def)
qed

lemma demo_round:
  "turn_end 0 True None False None demo_state =
     (GoalRoundTurn (start_round demo_goal), put_goal 0 (start_round demo_goal) demo_state)"
  by (simp add: turn_end_def decide_next_def rounds_left_def) (simp add: demo_goal_def)


theorem autonomy_bounded_witness:
  "machine_run 1 demo_state (put_goal 0 (start_round demo_goal) demo_state)
   \<and> (\<forall>n st'. \<not> machine_run (3 + n) demo_state st')"
proof -
  have "goal_step RoundOpened demo_state (put_goal 0 (start_round demo_goal) demo_state)"
    using goal_step.TurnOver [OF demo_round] by simp
  then have run: "machine_run (Suc 0) demo_state (put_goal 0 (start_round demo_goal) demo_state)"
    by (rule machine_run.Round [OF machine_run.Start])
  have "\<not> machine_run (3 + n) demo_state st'" for n st'
    using autonomy_bounded [OF demo_inv, of "3 + n" st'] by (auto simp: demo_goal_def)
  with run show ?thesis by simp
qed

theorem machine_authority_witness:
  "let st' = put_goal 0 (start_round demo_goal) demo_state
   in goal_step RoundOpened demo_state st' \<and> (\<exists>g'. gs_goal st' = Some g' \<and> g_objective g' = ''ship it'' \<and> max_rounds g' = 2)"
proof -
  have st: "goal_step RoundOpened demo_state (put_goal 0 (start_round demo_goal) demo_state)"
    using goal_step.TurnOver [OF demo_round] by simp
  with machine_authority [OF demo_inv st] show ?thesis by (simp add: demo_goal_def Let_def)
qed

definition done_args :: json where
  "done_args = JObject [(''revision'', JNumber (NumU64 1)), (''action'', JString ''complete'')]"

theorem update_compare_and_set_witness:
  "\<exists>m st'. update_goal 0 done_args GoalRound demo_state = (Accepted m, st')
     \<and> (\<exists>e. update_goal 0 done_args Human st' = (Refused e, st'))"
proof -
  have r: "Option.bind (json_get ''revision'' done_args) parse_revision = Some 1"
    by (simp add: done_args_def parse_revision_def)
  have "to_ascii_lowercase (trim ''complete'') = ''complete''" by code_simp
  then have "action_parse ''complete'' = Inr Complete" by (simp add: action_parse_def)
  moreover have "apply_action demo_goal 1 Complete None = Inr (demo_goal\<lparr>g_revision := 2, g_phase := Completed\<rparr>)"
    by (simp add: apply_action_def demo_goal_def)
  moreover have "authorize Complete demo_goal False 0 = Inr ()" by (simp add: authorize_def)
  ultimately obtain m st' where u: "update_goal 0 done_args GoalRound demo_state = (Accepted m, st')"
    by (simp add: update_goal_def r) (simp add: done_args_def is_human_def)
  with update_compare_and_set [OF u r r, of 0 Human] show ?thesis by blast
qed

text \<open>Stopping disarms the session and tells the frontend nothing.\<close>

lemma stop_not_reported:
  "gs_armed demo_state \<and> \<not> gs_armed (disarm demo_state)
   \<and> hd (gs_emitted (disarm demo_state)) = (demo_goal, True)"
  by (simp add: disarm_def) (simp add: demo_state_eq rounds_left_def, simp add: demo_goal_def)

end
