(* ===== verification/Inbox_Queue.thy ===== *)
theory Inbox_Queue
  imports Session_Event
begin

text \<open>
  The per-session inbox of \<open>src/crates/backend/src/inbox.rs\<close>: one first-in-first-out queue per
  session holding followups (which run as turns of their own), steers and injects (which the
  running turn takes at its next hop). Each method takes the lock for its whole body, so it is
  one function on the state here. The locale \<open>two_channels\<close> states what the turn loop relies
  on; the model's operations interpret it for every session.
\<close>

section \<open>State\<close>

datatype Inbound =
    Followup string "UserImage list"
  | Steer string
  | Inject string ContextSource

fun accepted :: "Inbound \<Rightarrow> string" where
  "accepted (Followup _ _) = ''queued''"
| "accepted (Steer _) = ''steered''"
| "accepted (Inject _ _) = ''injected''"

fun is_followup :: "Inbound \<Rightarrow> bool" where
  "is_followup (Followup _ _) = True"
| "is_followup _ = False"

record Queued =
  q_id :: nat
  q_item :: Inbound

record Inbox =
  queues :: "nat \<rightharpoonup> Queued list"
  next_id :: nat

record QueuedDump =
  qd_id :: nat
  qd_text :: string
  qd_images :: nat

definition inbox_new :: Inbox where
  "inbox_new = \<lparr>queues = Map.empty, next_id = 0\<rparr>"

section \<open>Operations\<close>

definition dump :: "Queued list \<Rightarrow> QueuedDump list" where
  "dump q = List.map_filter (\<lambda>e. case q_item e of
      Followup text imgs \<Rightarrow> Some \<lparr>qd_id = q_id e, qd_text = text, qd_images = wrap_u32 (length imgs)\<rparr>
    | _ \<Rightarrow> None) q"

definition queue_of :: "Inbox \<Rightarrow> nat \<Rightarrow> Queued list" where
  "queue_of ib sid = (case queues ib sid of Some q \<Rightarrow> q | None \<Rightarrow> [])"

definition inbox_push :: "Inbox \<Rightarrow> nat \<Rightarrow> Inbound \<Rightarrow> QueuedDump list \<times> Inbox" where
  "inbox_push ib sid item =
     (let i = next_id ib + 1;
          q = queue_of ib sid @ [\<lparr>q_id = i, q_item = item\<rparr>]
      in (dump q, \<lparr>queues = (queues ib)(sid \<mapsto> q), next_id = i\<rparr>))"

definition drain_mid_turn :: "Inbox \<Rightarrow> nat \<Rightarrow> Inbound list \<times> Inbox" where
  "drain_mid_turn ib sid =
     (case queues ib sid of
        None \<Rightarrow> ([], ib)
      | Some q \<Rightarrow>
          (map q_item (filter (\<lambda>e. \<not> is_followup (q_item e)) q),
           ib\<lparr>queues := (queues ib)(sid \<mapsto> filter (\<lambda>e. is_followup (q_item e)) q)\<rparr>))"

definition take_followup :: "Inbox \<Rightarrow> nat \<Rightarrow> (string \<times> UserImage list) option \<times> Inbox" where
  "take_followup ib sid =
     (case queues ib sid of
        None \<Rightarrow> (None, ib)
      | Some q \<Rightarrow>
          (case position (\<lambda>e. is_followup (q_item e)) q of
             None \<Rightarrow> (None, ib)
           | Some pos \<Rightarrow>
               ((case q_item (q ! pos) of Followup text imgs \<Rightarrow> Some (text, imgs) | _ \<Rightarrow> None),
                ib\<lparr>queues := (queues ib)(sid \<mapsto> remove_at pos q)\<rparr>)))"

definition inbox_edit :: "Inbox \<Rightarrow> nat \<Rightarrow> nat \<Rightarrow> string \<Rightarrow> bool \<times> Inbox" where
  "inbox_edit ib sid i text =
     (case queues ib sid of
        None \<Rightarrow> (False, ib)
      | Some q \<Rightarrow>
          (case position (\<lambda>e. q_id e = i) q of
             None \<Rightarrow> (False, ib)
           | Some pos \<Rightarrow>
               (case q_item (q ! pos) of
                  Followup _ imgs \<Rightarrow>
                    (True, ib\<lparr>queues := (queues ib)(sid \<mapsto> q[pos := (q ! pos)\<lparr>q_item := Followup text imgs\<rparr>])\<rparr>)
                | _ \<Rightarrow> (False, ib))))"

definition inbox_remove :: "Inbox \<Rightarrow> nat \<Rightarrow> nat \<Rightarrow> Inbound option \<times> Inbox" where
  "inbox_remove ib sid i =
     (case queues ib sid of
        None \<Rightarrow> (None, ib)
      | Some q \<Rightarrow>
          (case position (\<lambda>e. q_id e = i \<and> is_followup (q_item e)) q of
             None \<Rightarrow> (None, ib)
           | Some pos \<Rightarrow> (Some (q_item (q ! pos)), ib\<lparr>queues := (queues ib)(sid \<mapsto> remove_at pos q)\<rparr>)))"

definition inbox_rows :: "Inbox \<Rightarrow> nat \<Rightarrow> QueuedDump list" where
  "inbox_rows ib sid = (case queues ib sid of Some q \<Rightarrow> dump q | None \<Rightarrow> [])"

definition inbox_queued :: "Inbox \<Rightarrow> nat \<Rightarrow> nat" where
  "inbox_queued ib sid = (case queues ib sid of Some q \<Rightarrow> wrap_u32 (length (dump q)) | None \<Rightarrow> 0)"

definition inbox_clear :: "Inbox \<Rightarrow> nat \<Rightarrow> Inbox" where
  "inbox_clear ib sid = ib\<lparr>queues := (queues ib)(sid := None)\<rparr>"

section \<open>What the turn loop relies on\<close>

datatype inbox_op = Push Inbound | TakeFollowup | DrainMidTurn

text \<open>Followups and mid-turn items pushed by a sequence of operations, in order.\<close>

fun followup_of :: "Inbound \<Rightarrow> (string \<times> UserImage list) list" where
  "followup_of (Followup text imgs) = [(text, imgs)]"
| "followup_of _ = []"

definition mid_of :: "Inbound \<Rightarrow> Inbound list" where
  "mid_of i = (if is_followup i then [] else [i])"

fun pushed_items :: "inbox_op list \<Rightarrow> Inbound list" where
  "pushed_items [] = []"
| "pushed_items (Push i # ops) = i # pushed_items ops"
| "pushed_items (_ # ops) = pushed_items ops"

text \<open>Run a sequence of operations: the followups claimed, the mid-turn items drained, the end state.\<close>

fun run_ops ::
  "('q \<Rightarrow> Inbound \<Rightarrow> 'q) \<Rightarrow> ('q \<Rightarrow> (string \<times> UserImage list) option \<times> 'q) \<Rightarrow> ('q \<Rightarrow> Inbound list \<times> 'q)
   \<Rightarrow> inbox_op list \<Rightarrow> 'q \<Rightarrow> (string \<times> UserImage list) list \<times> Inbound list \<times> 'q" where
  "run_ops push claim drain [] q = ([], [], q)"
| "run_ops push claim drain (Push i # ops) q = run_ops push claim drain ops (push q i)"
| "run_ops push claim drain (TakeFollowup # ops) q =
     (let (x, q') = claim q; (fs, ms, q'') = run_ops push claim drain ops q'
      in ((case x of Some f \<Rightarrow> f # fs | None \<Rightarrow> fs), ms, q''))"
| "run_ops push claim drain (DrainMidTurn # ops) q =
     (let (xs, q') = drain q; (fs, ms, q'') = run_ops push claim drain ops q'
      in (fs, xs @ ms, q''))"

locale two_channels =
  fixes push :: "'q \<Rightarrow> Inbound \<Rightarrow> 'q"
    and claim :: "'q \<Rightarrow> (string \<times> UserImage list) option \<times> 'q"
    and drain :: "'q \<Rightarrow> Inbound list \<times> 'q"
    and fups :: "'q \<Rightarrow> (string \<times> UserImage list) list"
    and mids :: "'q \<Rightarrow> Inbound list"
  assumes fups_push: "fups (push q i) = fups q @ followup_of i"
    and mids_push: "mids (push q i) = mids q @ mid_of i"
    and take_out: "fst (claim q) = (case fups q of [] \<Rightarrow> None | f # _ \<Rightarrow> Some f)"
    and fups_take: "fups (snd (claim q)) = tl (fups q)"
    and mids_take: "mids (snd (claim q)) = mids q"
    and drain_out: "fst (drain q) = mids q"
    and fups_drain: "fups (snd (drain q)) = fups q"
    and mids_drain: "mids (snd (drain q)) = []"
begin

lemma conserved:
  assumes "run_ops push claim drain ops q = (fs, ms, q')"
  shows "fs @ fups q' = fups q @ concat (map followup_of (pushed_items ops))
    \<and> ms @ mids q' = mids q @ concat (map mid_of (pushed_items ops))"
  using assms
proof (induction ops arbitrary: q fs ms q')
  case (Cons oper ops)
  show ?case
  proof (cases oper)
    case (Push i)
    with Cons.prems have "run_ops push claim drain ops (push q i) = (fs, ms, q')" by simp
    from Cons.IH [OF this] show ?thesis using Push by (simp add: fups_push mids_push)
  next
    case TakeFollowup
    obtain x q1 where t: "claim q = (x, q1)" by fastforce
    obtain gs ns q2 where r: "run_ops push claim drain ops q1 = (gs, ns, q2)" by (metis prod_cases3)
    have "x = (case fups q of [] \<Rightarrow> None | f # _ \<Rightarrow> Some f)" "fups q1 = tl (fups q)" "mids q1 = mids q"
      using take_out [of q] fups_take [of q] mids_take [of q] t by simp_all
    with Cons.prems Cons.IH [OF r] t r TakeFollowup show ?thesis by (cases "fups q") auto
  next
    case DrainMidTurn
    obtain xs q1 where t: "drain q = (xs, q1)" by fastforce
    obtain gs ns q2 where r: "run_ops push claim drain ops q1 = (gs, ns, q2)" by (metis prod_cases3)
    have "xs = mids q" "fups q1 = fups q" "mids q1 = []"
      using drain_out [of q] fups_drain [of q] mids_drain [of q] t by simp_all
    with Cons.prems Cons.IH [OF r] t r DrainMidTurn show ?thesis by auto
  qed
qed simp

end

section \<open>The inbox provides it\<close>

definition inbox_fups :: "nat \<Rightarrow> Inbox \<Rightarrow> (string \<times> UserImage list) list" where
  "inbox_fups sid ib = concat (map (followup_of \<circ> q_item) (queue_of ib sid))"

definition inbox_mids :: "nat \<Rightarrow> Inbox \<Rightarrow> Inbound list" where
  "inbox_mids sid ib = filter (\<lambda>i. \<not> is_followup i) (map q_item (queue_of ib sid))"

lemma followup_of_empty: "\<not> is_followup i \<Longrightarrow> followup_of i = []"
  by (cases i) auto

lemma concat_followups_none:
  assumes "\<forall>e \<in> set q. \<not> is_followup (q_item e)"
  shows "concat (map (followup_of \<circ> q_item) q) = []"
  using assms by (induction q) (auto simp: followup_of_empty)

lemma inbox_fups_none: "\<forall>e \<in> set (queue_of ib sid). \<not> is_followup (q_item e) \<Longrightarrow> inbox_fups sid ib = []"
  unfolding inbox_fups_def by (rule concat_followups_none)

lemma inbox_fups_split:
  assumes "queue_of ib sid = pre @ e # post" and "q_item e = Followup t imgs"
    and "\<forall>x \<in> set pre. \<not> is_followup (q_item x)"
  shows "inbox_fups sid ib = (t, imgs) # concat (map (followup_of \<circ> q_item) post)"
proof -
  have "inbox_fups sid ib = concat (map (followup_of \<circ> q_item) pre) @ (t, imgs) # concat (map (followup_of \<circ> q_item) post)"
    using assms(1,2) by (simp add: inbox_fups_def)
  then show ?thesis unfolding concat_followups_none [OF assms(3)] by simp
qed

lemma concat_followups_drop:
  assumes "\<forall>x \<in> set pre. \<not> is_followup (q_item x)"
  shows "concat (map (followup_of \<circ> q_item) (pre @ post)) = concat (map (followup_of \<circ> q_item) post)"
  unfolding map_append concat_append concat_followups_none [OF assms] by simp

lemma position_split:
  assumes "position P xs = Some i"
  obtains pre x post where "xs = pre @ x # post" "length pre = i" "P x" "\<forall>y \<in> set pre. \<not> P y"
proof -
  have i: "i < length xs" "P (xs ! i)" "\<forall>j < i. \<not> P (xs ! j)" using assms by (auto simp: position_Some)
  have "\<forall>y \<in> set (take i xs). \<not> P y" using i by (auto simp: in_set_conv_nth)
  with i id_take_nth_drop [OF i(1)] show ?thesis by (intro that [of "take i xs" "xs ! i" "drop (Suc i) xs"]) auto
qed

lemma remove_at_split: "length pre = i \<Longrightarrow> remove_at i (pre @ x # post) = pre @ post"
  by (auto simp: remove_at_def)

lemma queue_of_upd [simp]: "queue_of (ib\<lparr>queues := (queues ib)(sid \<mapsto> q)\<rparr>) sid' = (if sid' = sid then q else queue_of ib sid')"
  by (simp add: queue_of_def)

lemma take_followup_queue:
  "(\<forall>e \<in> set (queue_of ib sid). \<not> is_followup (q_item e)) \<and> take_followup ib sid = (None, ib)
   \<or> (\<exists>pre e post text imgs. queue_of ib sid = pre @ e # post \<and> q_item e = Followup text imgs
        \<and> (\<forall>x \<in> set pre. \<not> is_followup (q_item x))
        \<and> take_followup ib sid = (Some (text, imgs), ib\<lparr>queues := (queues ib)(sid \<mapsto> pre @ post)\<rparr>))"
proof (cases "queues ib sid")
  case (Some q)
  then have q: "queue_of ib sid = q" by (simp add: queue_of_def)
  show ?thesis
  proof (cases "position (\<lambda>e. is_followup (q_item e)) q")
    case None
    then have "\<forall>e \<in> set q. \<not> is_followup (q_item e)" by (simp add: position_None)
    moreover have "take_followup ib sid = (None, ib)" using None Some by (simp add: take_followup_def)
    ultimately show ?thesis using q by blast
  next
    case (Some pos)
    then obtain pre e post where s: "q = pre @ e # post" "length pre = pos" "is_followup (q_item e)"
      "\<forall>x \<in> set pre. \<not> is_followup (q_item x)" by (rule position_split)
    then obtain t imgs where "q_item e = Followup t imgs" by (cases "q_item e") auto
    moreover have "remove_at pos q = pre @ post" "q ! pos = e" using s(1,2) by (auto simp: remove_at_split nth_append)
    ultimately have "take_followup ib sid = (Some (t, imgs), ib\<lparr>queues := (queues ib)(sid \<mapsto> pre @ post)\<rparr>)"
      using Some \<open>queues ib sid = Some q\<close> by (simp add: take_followup_def)
    with s \<open>q_item e = Followup t imgs\<close> q show ?thesis by blast
  qed
qed (auto simp: take_followup_def queue_of_def)

interpretation inbox: two_channels "\<lambda>ib i. snd (inbox_push ib sid i)" "\<lambda>ib. take_followup ib sid"
    "\<lambda>ib. drain_mid_turn ib sid" "inbox_fups sid" "inbox_mids sid" for sid
proof (unfold_locales, goal_cases)
  case (1 ib i)
  then show ?case by (simp add: inbox_push_def inbox_fups_def queue_of_def Let_def)
next
  case (2 ib i)
  then show ?case by (simp add: inbox_push_def inbox_mids_def queue_of_def mid_of_def Let_def)
next
  case (3 ib)
  show ?case
    using take_followup_queue [of ib sid] by (auto simp: inbox_fups_none inbox_fups_split)
next
  case (4 ib)
  show ?case
    using take_followup_queue [of ib sid]
  proof (elim disjE conjE exE)
    fix pre e post t imgs
    assume q: "queue_of ib sid = pre @ e # post" "q_item e = Followup t imgs" "\<forall>x \<in> set pre. \<not> is_followup (q_item x)"
      and "take_followup ib sid = (Some (t, imgs), ib\<lparr>queues := (queues ib)(sid \<mapsto> pre @ post)\<rparr>)"
    then have "inbox_fups sid (snd (take_followup ib sid)) = concat (map (followup_of \<circ> q_item) (pre @ post))"
      by (simp add: inbox_fups_def)
    then show ?thesis unfolding concat_followups_drop [OF q(3)] inbox_fups_split [OF q] by simp
  qed (simp add: inbox_fups_none)
next
  case (5 ib)
  show ?case using take_followup_queue [of ib sid] by (auto simp: inbox_mids_def)
next
  case (6 ib)
  show ?case by (auto simp: drain_mid_turn_def inbox_mids_def queue_of_def filter_map comp_def split: option.splits)
next
  case (7 ib)
  have "concat (map (followup_of \<circ> q_item) (filter (\<lambda>e. is_followup (q_item e)) q)) = concat (map (followup_of \<circ> q_item) q)" for q
    by (induction q) (auto simp: followup_of_empty)
  then show ?case by (auto simp: drain_mid_turn_def inbox_fups_def queue_of_def split: option.splits)
next
  case (8 ib)
  show ?case by (auto simp: drain_mid_turn_def inbox_mids_def queue_of_def filter_empty_conv split: option.splits)
qed

text \<open>
  C11: Nothing sent is lost, duplicated or reordered. Run any sequence of pushes, claims and drains
  on a session of a fresh inbox: the followups claimed, followed by those still waiting, are
  exactly the followups pushed, in order; and the same holds of steers and injects, drained and
  still waiting.
\<close>

theorem inbox_fifo:
  "case run_ops (\<lambda>ib i. snd (inbox_push ib sid i)) (\<lambda>ib. take_followup ib sid) (\<lambda>ib. drain_mid_turn ib sid) ops inbox_new of
     (fs, ms, ib) \<Rightarrow>
       fs @ inbox_fups sid ib = concat (map followup_of (pushed_items ops))
       \<and> ms @ inbox_mids sid ib = filter (\<lambda>i. \<not> is_followup i) (pushed_items ops)"
proof -
  obtain fs ms ib where r: "run_ops (\<lambda>ib i. snd (inbox_push ib sid i)) (\<lambda>ib. take_followup ib sid)
      (\<lambda>ib. drain_mid_turn ib sid) ops inbox_new = (fs, ms, ib)" by (metis prod_cases3)
  have "concat (map mid_of is) = filter (\<lambda>i. \<not> is_followup i) is" for "is"
    by (induction "is") (auto simp: mid_of_def)
  moreover have "inbox_fups sid inbox_new = []" "inbox_mids sid inbox_new = []"
    by (simp_all add: inbox_fups_def inbox_mids_def queue_of_def inbox_new_def)
  ultimately show ?thesis using inbox.conserved [OF r] unfolding r by simp
qed

section \<open>Addressing a waiting message\<close>

text \<open>Ids are unique within a session and below the counter.\<close>

definition wf_inbox :: "Inbox \<Rightarrow> bool" where
  "wf_inbox ib \<longleftrightarrow> (\<forall>sid. distinct (map q_id (queue_of ib sid)) \<and> (\<forall>e \<in> set (queue_of ib sid). q_id e \<le> next_id ib))"

lemma wf_inboxD: "wf_inbox ib \<Longrightarrow> distinct (map q_id (queue_of ib sid))"
  by (simp add: wf_inbox_def)

lemma wf_inbox_new: "wf_inbox inbox_new"
  by (simp add: wf_inbox_def inbox_new_def queue_of_def)

lemma wf_inbox_push: "wf_inbox ib \<Longrightarrow> wf_inbox (snd (inbox_push ib sid i))"
  by (fastforce simp: wf_inbox_def inbox_push_def Let_def queue_of_def split: if_splits)

lemma wf_inbox_queue:
  assumes "wf_inbox ib" and "distinct (map q_id q)" and "q_id ` set q \<subseteq> q_id ` set (queue_of ib sid)"
  shows "wf_inbox (ib\<lparr>queues := (queues ib)(sid \<mapsto> q)\<rparr>)"
  using assms by (fastforce simp: wf_inbox_def)

lemma wf_inbox_take: "wf_inbox ib \<Longrightarrow> wf_inbox (snd (take_followup ib sid))"
  using take_followup_queue [of ib sid] wf_inboxD [of ib sid] by (auto intro!: wf_inbox_queue)

lemma wf_inbox_drain: "wf_inbox ib \<Longrightarrow> wf_inbox (snd (drain_mid_turn ib sid))"
  using wf_inboxD [of ib sid]
  by (auto simp: drain_mid_turn_def queue_of_def distinct_map_filter split: option.splits intro!: wf_inbox_queue)

lemma inbox_rows_dump: "inbox_rows ib sid = dump (queue_of ib sid)"
  by (simp add: inbox_rows_def queue_of_def dump_def List.map_filter_def split: option.splits)

lemma dump_simps [simp]:
  "dump [] = []"
  "dump (e # q) = (case q_item e of Followup t imgs \<Rightarrow> [\<lparr>qd_id = q_id e, qd_text = t, qd_images = wrap_u32 (length imgs)\<rparr>] | _ \<Rightarrow> []) @ dump q"
  "dump (q @ q') = dump q @ dump q'"
  by (simp_all add: dump_def List.map_filter_def split: Inbound.splits)

lemma dump_ids: "qd_id ` set (dump q) \<subseteq> q_id ` set q"
  by (induction q) (auto split: Inbound.splits)

lemma dump_none: "\<forall>e \<in> set q. \<not> is_followup (q_item e) \<Longrightarrow> dump q = []"
  by (induction q) (auto split: Inbound.splits)

lemma position_absent: "i \<notin> q_id ` set q \<Longrightarrow> (\<And>e. P e \<Longrightarrow> q_id e = i) \<Longrightarrow> position P q = None"
  by (force simp: position_None)

lemma edit_absent: "i \<notin> q_id ` set (queue_of ib sid) \<Longrightarrow> inbox_edit ib sid i t = (False, ib)"
  by (auto simp: inbox_edit_def queue_of_def position_absent split: option.split_asm option.split)

lemma remove_absent: "i \<notin> q_id ` set (queue_of ib sid) \<Longrightarrow> inbox_remove ib sid i = (None, ib)"
  by (auto simp: inbox_remove_def queue_of_def position_absent split: option.split_asm option.split)

text \<open>
  Editing a waiting message never hits another one. Claiming takes the first row the
  frontend shows and leaves the others; from then on an edit or a removal addressed to the
  claimed row is refused and changes nothing, instead of rewriting the row that moved up.
\<close>

theorem claimed_row_is_gone:
  assumes "wf_inbox ib" and "inbox_rows ib sid = r # rs"
  shows "\<exists>t imgs ib'. take_followup ib sid = (Some (t, imgs), ib') \<and> t = qd_text r
    \<and> inbox_rows ib' sid = rs \<and> wf_inbox ib'
    \<and> inbox_edit ib' sid (qd_id r) t' = (False, ib') \<and> inbox_remove ib' sid (qd_id r) = (None, ib')"
proof -
  have ne: "\<exists>e \<in> set (queue_of ib sid). is_followup (q_item e)"
    using assms(2) dump_none by (force simp: inbox_rows_dump)
  then obtain pre e post t imgs where q: "queue_of ib sid = pre @ e # post" "q_item e = Followup t imgs"
      "\<forall>x \<in> set pre. \<not> is_followup (q_item x)"
    and take: "take_followup ib sid = (Some (t, imgs), ib\<lparr>queues := (queues ib)(sid \<mapsto> pre @ post)\<rparr>)"
    using take_followup_queue [of ib sid] by blast
  let ?ib' = "ib\<lparr>queues := (queues ib)(sid \<mapsto> pre @ post)\<rparr>"
  have rows: "r = \<lparr>qd_id = q_id e, qd_text = t, qd_images = wrap_u32 (length imgs)\<rparr>" "rs = dump post"
    using assms(2) q dump_none [OF q(3)] by (simp_all add: inbox_rows_dump)
  have "q_id e \<notin> q_id ` set (queue_of ?ib' sid)"
    using wf_inboxD [OF assms(1), of sid] q(1) by auto
  note gone = edit_absent [OF this] remove_absent [OF this]
  have "inbox_rows ?ib' sid = rs" using rows dump_none [OF q(3)] by (simp add: inbox_rows_dump)
  with take rows gone wf_inbox_take [OF assms(1), of sid] show ?thesis by auto
qed

theorem claimed_row_is_gone_witness:
  "let ib = snd (inbox_push (snd (inbox_push inbox_new 7 (Followup ''first'' []))) 7 (Followup ''second'' []))
   in \<exists>ib'. take_followup ib 7 = (Some (''first'', []), ib') \<and> map qd_text (inbox_rows ib' 7) = [''second'']
      \<and> inbox_edit ib' 7 1 ''new'' = (False, ib')"
proof -
  let ?ib = "snd (inbox_push (snd (inbox_push inbox_new 7 (Followup ''first'' []))) 7 (Followup ''second'' []))"
  have w: "wf_inbox ?ib" by (intro wf_inbox_push wf_inbox_new)
  have rows: "inbox_rows ?ib 7 = [\<lparr>qd_id = 1, qd_text = ''first'', qd_images = 0\<rparr>, \<lparr>qd_id = 2, qd_text = ''second'', qd_images = 0\<rparr>]"
    by (simp add: inbox_rows_dump inbox_push_def queue_of_def inbox_new_def Let_def)
  have out: "fst (take_followup ?ib 7) = Some (''first'', [])"
    by (simp add: take_followup_def inbox_push_def queue_of_def inbox_new_def Let_def)
  obtain t imgs ib' where c: "take_followup ?ib 7 = (Some (t, imgs), ib')"
      "inbox_rows ib' 7 = [\<lparr>qd_id = 2, qd_text = ''second'', qd_images = 0\<rparr>]" "inbox_edit ib' 7 1 ''new'' = (False, ib')"
    using claimed_row_is_gone [OF w rows, of "''new''"] by auto
  with out have "take_followup ?ib 7 = (Some (''first'', []), ib')" by simp
  with c(2,3) show ?thesis unfolding Let_def by (intro exI [of _ ib']) simp
qed

end
