(* ===== verification/Retry_Policy.thy ===== *)
theory Retry_Policy
  imports Sica_Prelude
begin

text \<open>
  The retry policy for chat requests, \<open>src/crates/llm/src/retry.rs\<close>: classifying a failure,
  reading the context window or the requested delay out of its text, and the backoff.

  An error of the client is its rendered text together with what \<open>reqwest\<close> says of it: not a
  \<open>reqwest\<close> error, one without an HTTP status, or one with. The clock bits behind the jitter are
  the argument \<open>nanos\<close>.
\<close>

definition RETRY_MAX :: nat where "RETRY_MAX = 5"
definition INITIAL_DELAY_MS :: nat where "INITIAL_DELAY_MS = 500"
definition MAX_DELAY_MS :: nat where "MAX_DELAY_MS = 10000"

datatype Failure =
    Retryable string
  | Fatal string
  | ContextOverflow string "nat option"

fun is_retryable :: "Failure \<Rightarrow> bool" where
  "is_retryable (Retryable _) = True"
| "is_retryable _ = False"

fun is_context_overflow :: "Failure \<Rightarrow> bool" where
  "is_context_overflow (ContextOverflow _ _) = True"
| "is_context_overflow _ = False"

fun context_limit :: "Failure \<Rightarrow> nat option" where
  "context_limit (ContextOverflow _ limit) = limit"
| "context_limit _ = None"

fun failure_reason :: "Failure \<Rightarrow> string" where
  "failure_reason (Retryable r) = r"
| "failure_reason (Fatal r) = r"
| "failure_reason (ContextOverflow r _) = r"

section \<open>Reading a refusal\<close>

definition is_context_overflow_text :: "string \<Rightarrow> bool" where
  "is_context_overflow_text text =
     (let t = to_ascii_lowercase text
      in if contains t ''context_length_exceeded'' \<or> contains t ''exceed_context_size''
            \<or> contains t ''prompt is too long'' \<or> contains t ''reduce the length of the messages''
            \<or> contains t ''too many tokens''
         then True
         else (contains t ''context length'' \<or> contains t ''context size'' \<or> contains t ''context window'')
            \<and> (contains t ''exceed'' \<or> contains t ''too long'' \<or> contains t ''too large''
               \<or> contains t ''maximum'' \<or> contains t ''larger than'' \<or> contains t ''greater than''))"

definition KEYS :: "string list" where
  "KEYS = [[CHR 0x22] @ ''n_ctx'' @ [CHR 0x22], ''maximum context length is'', ''maximum context length of'',
     ''context length is'', ''context length of'', ''context window of'', ''context window is'',
     ''context size of'', ''context size is'', ''tokens >'']"

definition number_after :: "string \<Rightarrow> string \<Rightarrow> nat option" where
  "number_after text key =
     Option.bind (str_find text key) (\<lambda>i.
       let rest = dropWhile (\<lambda>c. \<not> is_digit c) (drop (i + length key) text)
       in parse_uint U32_MAX (takeWhile is_digit rest))"

definition context_limit_in :: "string \<Rightarrow> nat option" where
  "context_limit_in text =
     (let t = to_ascii_lowercase text
      in case find_map (number_after t) KEYS of
           Some n \<Rightarrow> if n \<ge> 512 then Some n else None
         | None \<Rightarrow> None)"

section \<open>Classifying\<close>

record llm_error =
  err_text :: string
  err_reqwest :: "nat option option"

definition classify :: "llm_error \<Rightarrow> Failure" where
  "classify err =
     (let text = err_text err
      in if is_context_overflow_text text then ContextOverflow text (context_limit_in text)
         else case err_reqwest err of
           Some (Some code) \<Rightarrow>
             if code = 429 \<or> (500 \<le> code \<and> code \<le> 599) then Retryable (''HTTP '' @ dec code)
             else Fatal (''HTTP '' @ dec code)
         | Some None \<Rightarrow> Retryable text
         | None \<Rightarrow>
             if starts_with text ''sse decode'' \<or> contains text ''task panicked'' then Retryable text
             else Fatal text)"

text \<open>The delay a server asked for, in seconds.\<close>

definition retry_after :: "llm_error \<Rightarrow> nat option" where
  "retry_after err =
     Option.bind (str_find (err_text err) ''retry-after='') (\<lambda>i.
       let rest = drop (i + length ''retry-after='') (err_text err)
       in map_option (\<lambda>secs. min secs 120) (parse_uint (2 ^ 64 - 1) (takeWhile is_digit rest)))"

definition empty_response :: Failure where
  "empty_response = Retryable ''empty response''"

section \<open>Backoff\<close>

definition backoff :: "nat \<Rightarrow> nat \<Rightarrow> nat" where
  "backoff attempt nanos =
     (let ex = min (attempt - 1) 16;
          base = min (min (2 ^ 64 - 1) (INITIAL_DELAY_MS * 2 ^ ex)) MAX_DELAY_MS;
          jitter_span = base div 2;
          offset = (if jitter_span = 0 then 0 else nanos mod (jitter_span * 2 + 1))
      in min (base - jitter_span + offset) MAX_DELAY_MS)"

definition backoff_base :: "nat \<Rightarrow> nat" where
  "backoff_base attempt = min (500 * 2 ^ (attempt - 1)) 10000"

lemma backoff_base_eq:
  "min (min (2 ^ 64 - 1) (INITIAL_DELAY_MS * 2 ^ (min (attempt - 1) 16))) MAX_DELAY_MS = backoff_base attempt"
proof (cases "attempt - 1 \<le> 16")
  case True
  have "(2::nat) ^ (attempt - 1) \<le> 2 ^ 16" using True by (intro power_increasing) auto
  then have "500 * 2 ^ (attempt - 1) \<le> (2::nat) ^ 64 - 1" by simp
  then show ?thesis
    using True unfolding backoff_base_def INITIAL_DELAY_MS_def MAX_DELAY_MS_def by (simp only: min.absorb1 min.absorb2)
next
  case False
  then have "(2::nat) ^ 16 \<le> 2 ^ (attempt - 1)" by (intro power_increasing) auto
  then have "(10000::nat) \<le> 500 * 2 ^ (attempt - 1)" by simp
  then have "backoff_base attempt = 10000" by (simp add: backoff_base_def)
  then show ?thesis using False by (simp add: INITIAL_DELAY_MS_def MAX_DELAY_MS_def)
qed

text \<open>
  Every wait before a retry is bounded. Before attempt \<open>k\<close> the loop waits half a second doubled
  \<open>k - 1\<close> times, capped at ten seconds, give or take one half and never over ten seconds;
  so between a quarter of a second and ten. A delay the server asked for is honoured up to two
  minutes.
\<close>

theorem retry_waits_bounded:
  "let b = min (500 * 2 ^ (attempt - 1)) 10000
   in b - b div 2 \<le> backoff attempt nanos \<and> backoff attempt nanos \<le> min (b + b div 2) 10000
      \<and> 250 \<le> backoff attempt nanos \<and> (case retry_after err of Some s \<Rightarrow> s \<le> 120 | None \<Rightarrow> True)"
proof -
  let ?b = "backoff_base attempt"
  have lo: "500 \<le> ?b" and hi: "?b \<le> 10000" by (simp_all add: backoff_base_def)
  have nz: "?b div 2 \<noteq> 0" using lo by linarith
  have off: "nanos mod (?b div 2 * 2 + 1) \<le> ?b div 2 * 2"
    using mod_less_divisor [of "?b div 2 * 2 + 1" nanos] by linarith
  have e: "backoff attempt nanos = min (?b - ?b div 2 + (if ?b div 2 = 0 then 0 else nanos mod (?b div 2 * 2 + 1))) 10000"
    by (simp only: backoff_def Let_def backoff_base_eq) (simp only: MAX_DELAY_MS_def)
  have "?b - ?b div 2 \<le> backoff attempt nanos" "backoff attempt nanos \<le> min (?b + ?b div 2) 10000"
    "250 \<le> backoff attempt nanos"
    unfolding e if_not_P [OF nz] using lo hi off by linarith+
  moreover have "case retry_after err of Some s \<Rightarrow> s \<le> 120 | None \<Rightarrow> True"
    by (auto simp: retry_after_def Let_def bind_eq_Some_conv split: option.splits)
  ultimately show ?thesis by (simp only: Let_def backoff_base_def)
qed

text \<open>What a refusal names: the run of digits behind the phrase is the number read.\<close>

lemma takeWhile_digits:
  assumes "list_all is_digit ds" and "rest = [] \<or> \<not> is_digit (hd rest)"
  shows "takeWhile is_digit (ds @ rest) = ds"
  using assms by (cases rest) (auto simp: takeWhile_append list_all_iff takeWhile_eq_all_conv [THEN iffD2])

lemma number_after_printed:
  assumes "str_find t key = Some i" and "drop (i + length key) t = filler @ dec n @ rest"
    and "list_all (\<lambda>c. \<not> is_digit c) filler" and "rest = [] \<or> \<not> is_digit (hd rest)" and "n \<le> U32_MAX"
  shows "number_after t key = Some n"
proof -
  have "dropWhile (\<lambda>c. \<not> is_digit c) (filler @ dec n @ rest) = dec n @ rest"
  proof -
    obtain c cs where "dec n = c # cs" "is_digit c"
      using dec_digits [of n] by (cases "dec n") auto
    then show ?thesis using assms(3) by (auto simp: dropWhile_append list_all_iff dropWhile_eq_Nil_conv)
  qed
  moreover have "takeWhile is_digit (dec n @ rest) = dec n"
    using dec_digits [of n] assms(4) by (intro takeWhile_digits) auto
  ultimately show ?thesis
    using assms(1,2) parse_dec [OF assms(5)] by (simp add: number_after_def)
qed

text \<open>
  The window a server names is the window adopted. If an overflow refusal has the wording
  \<open>maximum context length is\<close> N (and no \<open>n_ctx\<close> field), it is classified as an overflow whatever the HTTP
  status, and the limit read is N, for every N of at least 512 that fits 32 bits.
\<close>

theorem overflow_window_read:
  assumes "t = to_ascii_lowercase (err_text err)" and "str_find t ''maximum context length is'' = Some i"
    and "drop (i + 25) t = filler @ dec n @ rest" and "list_all (\<lambda>c. \<not> is_digit c) filler"
    and "rest = [] \<or> \<not> is_digit (hd rest)" and "str_find t ([CHR 0x22] @ ''n_ctx'' @ [CHR 0x22]) = None"
    and "512 \<le> n" and "n \<le> U32_MAX"
  shows "classify err = ContextOverflow (err_text err) (Some n)"
proof -
  have "length ''maximum context length is'' = 25" by simp
  then have "number_after t ''maximum context length is'' = Some n"
    using assms(2-5,8) by (intro number_after_printed [of t _ i filler n rest]) (simp_all only:)
  moreover have "number_after t ([CHR 0x22] @ ''n_ctx'' @ [CHR 0x22]) = None"
    using assms(6) by (simp add: number_after_def)
  ultimately have "context_limit_in (err_text err) = Some n"
    using assms(1,7) by (simp add: context_limit_in_def KEYS_def Let_def)
  moreover have "contains t ''context length'' \<and> contains t ''maximum''"
  proof -
    obtain pre post where t: "t = pre @ ''maximum context length is'' @ post"
      using str_find_Some [OF assms(2)] by blast
    have "t = (pre @ ''maximum '') @ ''context length'' @ ('' is'' @ post)" "t = pre @ ''maximum'' @ ('' context length is'' @ post)"
      using t by simp_all
    then show ?thesis unfolding contains_iff by blast
  qed
  then have "is_context_overflow_text (err_text err)"
    by (simp only: is_context_overflow_text_def Let_def assms(1) [symmetric]) simp
  ultimately show ?thesis by (simp add: classify_def Let_def)
qed

theorem overflow_window_read_witness:
  "classify \<lparr>err_text = ''HTTP 400: maximum context length is 8192 tokens.'', err_reqwest = Some (Some 400)\<rparr>
     = ContextOverflow ''HTTP 400: maximum context length is 8192 tokens.'' (Some 8192)"
proof -
  let ?e = "\<lparr>err_text = ''HTTP 400: maximum context length is 8192 tokens.'', err_reqwest = Some (Some 400)\<rparr>"
  let ?t = "''http 400: maximum context length is 8192 tokens.''"
  have t: "?t = to_ascii_lowercase (err_text ?e)" by code_simp
  have f: "str_find ?t ''maximum context length is'' = Some 10" by code_simp
  have nx: "str_find ?t ([CHR 0x22] @ ''n_ctx'' @ [CHR 0x22]) = None" by code_simp
  have n: "dec 8192 = ''8192''"
  proof -
    have "digit_char 8 = CHR ''8''" "digit_char 1 = CHR ''1''" "digit_char 9 = CHR ''9''" "digit_char 2 = CHR ''2''"
      by code_simp+
    then show ?thesis by (simp add: dec.simps [of 8192] dec.simps [of 819] dec.simps [of 81] dec.simps [of 8])
  qed
  have d: "drop (10 + 25) ?t = '' '' @ dec 8192 @ '' tokens.''" unfolding n by code_simp
  have fl: "list_all (\<lambda>c. \<not> is_digit c) '' ''" by code_simp
  have rs: "'' tokens.'' = [] \<or> \<not> is_digit (hd '' tokens.'')" by code_simp
  from overflow_window_read [OF t f d fl rs nx] show ?thesis by (simp only: llm_error.select_convs)
qed

end
