(* ===== verification/Harness_Controls.thy ===== *)
theory Harness_Controls
  imports Goals
begin

text \<open>
  The harness-control skills other than the goal's, from \<open>src/crates/agents/src/control.rs\<close> and
  their handlers in \<open>handle_control_body\<close> of \<open>src/crates/backend/src/chat.rs\<close>: which skills are
  controls and which of them a child agent never sees, the argument readers, the todo list and
  leaving plan mode. Parsing a JSON array out of a text (\<open>serde_json::from_str\<close>) is the
  parameter \<open>parse_arr\<close>; what the user answered to the plan review is an argument.
\<close>

section \<open>Names\<close>

definition CREATE_GOAL_NAME :: string where "CREATE_GOAL_NAME = ''create-goal''"
definition GET_GOAL_NAME :: string where "GET_GOAL_NAME = ''get-goal''"
definition UPDATE_GOAL_NAME :: string where "UPDATE_GOAL_NAME = ''update-goal''"
definition TODO_WRITE_NAME :: string where "TODO_WRITE_NAME = ''todo-write''"
definition EXIT_PLAN_MODE_NAME :: string where "EXIT_PLAN_MODE_NAME = ''exit-plan-mode''"
definition ASK_USER_NAME :: string where "ASK_USER_NAME = ''ask-user''"
definition SCHEDULE_CREATE_NAME :: string where "SCHEDULE_CREATE_NAME = ''schedule-create''"
definition SCHEDULE_LIST_NAME :: string where "SCHEDULE_LIST_NAME = ''schedule-list''"
definition SCHEDULE_DELETE_NAME :: string where "SCHEDULE_DELETE_NAME = ''schedule-delete''"
definition REMEMBER_NAME :: string where "REMEMBER_NAME = ''remember''"
definition RECALL_NAME :: string where "RECALL_NAME = ''recall''"
definition FORGET_NAME :: string where "FORGET_NAME = ''forget''"

lemmas skill_names = CREATE_GOAL_NAME_def GET_GOAL_NAME_def UPDATE_GOAL_NAME_def TODO_WRITE_NAME_def
  EXIT_PLAN_MODE_NAME_def ASK_USER_NAME_def SCHEDULE_CREATE_NAME_def SCHEDULE_LIST_NAME_def
  SCHEDULE_DELETE_NAME_def REMEMBER_NAME_def RECALL_NAME_def FORGET_NAME_def

definition CHILD_EXCLUDED :: "string list" where
  "CHILD_EXCLUDED =
     [''agent-team'', ''subagent'', ''subagent-fork'', ''ralph'', ''workflow'', ASK_USER_NAME,
      TODO_WRITE_NAME, EXIT_PLAN_MODE_NAME, CREATE_GOAL_NAME, GET_GOAL_NAME, UPDATE_GOAL_NAME,
      SCHEDULE_CREATE_NAME, SCHEDULE_LIST_NAME, SCHEDULE_DELETE_NAME, REMEMBER_NAME, RECALL_NAME,
      FORGET_NAME]"

definition is_goal_skill :: "string \<Rightarrow> bool" where
  "is_goal_skill name \<longleftrightarrow> name = CREATE_GOAL_NAME \<or> name = GET_GOAL_NAME \<or> name = UPDATE_GOAL_NAME"

definition is_schedule_skill :: "string \<Rightarrow> bool" where
  "is_schedule_skill name \<longleftrightarrow>
     name = SCHEDULE_CREATE_NAME \<or> name = SCHEDULE_LIST_NAME \<or> name = SCHEDULE_DELETE_NAME"

definition is_memory_skill :: "string \<Rightarrow> bool" where
  "is_memory_skill name \<longleftrightarrow> name = REMEMBER_NAME \<or> name = RECALL_NAME \<or> name = FORGET_NAME"

definition is_control_skill :: "string \<Rightarrow> bool" where
  "is_control_skill name \<longleftrightarrow>
     name = TODO_WRITE_NAME \<or> name = EXIT_PLAN_MODE_NAME \<or> is_goal_skill name
     \<or> is_schedule_skill name \<or> is_memory_skill name"

definition control_trusted :: "string \<Rightarrow> bool" where
  "control_trusted name \<longleftrightarrow> name \<noteq> RECALL_NAME"

section \<open>Arguments\<close>

definition flag_arg :: "json option \<Rightarrow> bool" where
  "flag_arg v =
     (case v of
        Some (JBool b) \<Rightarrow> b
      | Some (JString s) \<Rightarrow> to_ascii_lowercase (trim s) \<in> {''true'', ''1'', ''yes'', ''on''}
      | _ \<Rightarrow> False)"

definition array_arg :: "(string \<Rightarrow> json list option) \<Rightarrow> json \<Rightarrow> json list option" where
  "array_arg parse_arr v =
     (case v of JArray a \<Rightarrow> Some a | JString s \<Rightarrow> parse_arr s | _ \<Rightarrow> None)"

section \<open>The todo list\<close>

datatype todo_error =
    NotAnArray
  | NoItems
  | TooManyItems nat
  | BadContent nat
  | BadStatus nat
  | DuplicateItem nat
  | TwoInProgress

text \<open>The loop over the items: the index, the list so far and the count of active items.\<close>

fun todo_loop ::
  "nat \<Rightarrow> TodoItem list \<Rightarrow> nat \<Rightarrow> json list \<Rightarrow> todo_error + TodoItem list \<times> nat" where
  "todo_loop i out active [] = Inr (out, active)"
| "todo_loop i out active (item # rest) =
     (case Option.bind (json_get ''content'' item) as_str of
        None \<Rightarrow> Inl (BadContent i)
      | Some s \<Rightarrow>
          let c = trim s
          in if c = [] then Inl (BadContent i)
             else case Option.bind (Option.bind (json_get ''status'' item) as_str) todo_parse of
               None \<Rightarrow> Inl (BadStatus i)
             | Some st \<Rightarrow>
                 if list_ex (\<lambda>t. todo_content t = c) out then Inl (DuplicateItem i)
                 else todo_loop (Suc i) (out @ [\<lparr>todo_content = c, todo_status = st\<rparr>])
                        (if st = InProgress then active + 1 else active) rest)"

definition parse_todo_items :: "(string \<Rightarrow> json list option) \<Rightarrow> json \<Rightarrow> todo_error + TodoItem list" where
  "parse_todo_items parse_arr raw =
     (case array_arg parse_arr raw of
        None \<Rightarrow> Inl NotAnArray
      | Some arr \<Rightarrow>
          if arr = [] then Inl NoItems
          else if length arr > 50 then Inl (TooManyItems (length arr))
          else case todo_loop 0 [] 0 arr of
            Inl e \<Rightarrow> Inl e
          | Inr (out, active) \<Rightarrow> if active > 1 then Inl TwoInProgress else Inr out)"

text \<open>The handler: a valid list is logged and shown, an invalid one changes nothing.\<close>

definition todo_write ::
  "(string \<Rightarrow> json list option) \<Rightarrow> int \<Rightarrow> json \<Rightarrow> SessionLog \<Rightarrow> (todo_error + string) \<times> SessionLog" where
  "todo_write parse_arr now args log =
     (case parse_todo_items parse_arr (case json_get ''items'' args of Some v \<Rightarrow> v | None \<Rightarrow> JNull) of
        Inl e \<Rightarrow> (Inl e, log)
      | Inr items \<Rightarrow>
          (Inr (''todo list updated: '' @ dec (length items) @ '' items, ''
             @ dec (length (filter (\<lambda>t. todo_status t = InProgress) items)) @ '' in progress''),
           log_append log now (TodoWrite items)))"

text \<open>A todo list the harness accepts.\<close>

definition valid_todos :: "TodoItem list \<Rightarrow> bool" where
  "valid_todos items \<longleftrightarrow> items \<noteq> [] \<and> length items \<le> 50 \<and> distinct (map todo_content items)
     \<and> list_all (\<lambda>t. todo_content t \<noteq> [] \<and> trim (todo_content t) = todo_content t) items
     \<and> length (filter (\<lambda>t. todo_status t = InProgress) items) \<le> 1"

definition todo_json :: "TodoItem \<Rightarrow> json" where
  "todo_json t = JObject [(''content'', JString (todo_content t)), (''status'', JString (todo_label (todo_status t)))]"

definition active_count :: "TodoItem list \<Rightarrow> nat" where
  "active_count items = length (filter (\<lambda>t. todo_status t = InProgress) items)"

lemma todo_loop_sound:
  assumes "todo_loop i out (active_count out) arr = Inr (items, n)" and "distinct (map todo_content out)"
    and "list_all (\<lambda>t. todo_content t \<noteq> [] \<and> trim (todo_content t) = todo_content t) out"
  shows "distinct (map todo_content items) \<and> length items = length out + length arr \<and> n = active_count items
    \<and> list_all (\<lambda>t. todo_content t \<noteq> [] \<and> trim (todo_content t) = todo_content t) items"
  using assms
proof (induction arr arbitrary: i out)
  case (Cons item rest)
  obtain s st where s: "Option.bind (json_get ''content'' item) as_str = Some s" "trim s \<noteq> []"
      "Option.bind (Option.bind (json_get ''status'' item) as_str) todo_parse = Some st"
      "\<not> list_ex (\<lambda>t. todo_content t = trim s) out"
    using Cons.prems(1) by (auto simp: Let_def split: option.splits if_splits)
  let ?out = "out @ [\<lparr>todo_content = trim s, todo_status = st\<rparr>]"
  have "todo_loop (Suc i) ?out (active_count ?out) rest = Inr (items, n)"
    using Cons.prems(1) s by (simp add: Let_def active_count_def split: if_splits)
  moreover have "distinct (map todo_content ?out)" using Cons.prems(2) s(4) by (auto simp: list_ex_iff)
  moreover have "list_all (\<lambda>t. todo_content t \<noteq> [] \<and> trim (todo_content t) = todo_content t) ?out"
    using Cons.prems(3) s(2) by (simp add: trim_idem)
  ultimately show ?case using Cons.IH [of "Suc i" ?out] by simp
qed simp

lemma todo_loop_complete:
  assumes "distinct (map todo_content (out @ items))"
    and "list_all (\<lambda>t. todo_content t \<noteq> [] \<and> trim (todo_content t) = todo_content t) items"
  shows "todo_loop i out (active_count out) (map todo_json items) = Inr (out @ items, active_count (out @ items))"
  using assms
proof (induction items arbitrary: i out)
  case (Cons t items)
  have "\<not> list_ex (\<lambda>u. todo_content u = todo_content t) out" using Cons.prems(1) by (auto simp: list_ex_iff) (metis imageI)
  then have "todo_loop i out (active_count out) (map todo_json (t # items)) =
      todo_loop (Suc i) (out @ [t]) (active_count (out @ [t])) (map todo_json items)"
    using Cons.prems(2) by (cases t) (simp add: todo_json_def todo_parse_label Let_def active_count_def)
  then show ?case using Cons.IH [of "out @ [t]" "Suc i"] Cons.prems by simp
qed simp

text \<open>
  The todo list is always well formed, and every well-formed list can be written. Whatever the
  model sends, a list that is accepted has one to fifty items, no two alike, each with trimmed
  and non-empty text, and at most one in progress; and any such list, sent as JSON, is accepted
  as it is.
\<close>

theorem todo_items_valid:
  "(\<forall>items. parse_todo_items parse_arr raw = Inr items \<longrightarrow> valid_todos items)
   \<and> (\<forall>items. valid_todos items \<longrightarrow> parse_todo_items parse_arr (JArray (map todo_json items)) = Inr items)"
proof (intro conjI allI impI)
  fix items assume "parse_todo_items parse_arr raw = Inr items"
  then obtain arr n where a: "arr \<noteq> []" "length arr \<le> 50" "todo_loop 0 [] 0 arr = Inr (items, n)" "n \<le> 1"
    by (auto simp: parse_todo_items_def split: option.splits if_splits sum.splits)
  then have "todo_loop 0 [] (active_count []) arr = Inr (items, n)" by (simp add: active_count_def)
  from todo_loop_sound [OF this] a show "valid_todos items"
    by (auto simp: valid_todos_def active_count_def)
next
  fix items assume "valid_todos items"
  then show "parse_todo_items parse_arr (JArray (map todo_json items)) = Inr items"
    using todo_loop_complete [of "[]" items 0]
    by (auto simp: parse_todo_items_def array_arg_def valid_todos_def active_count_def)
qed

theorem todo_items_valid_witness:
  "let items = [\<lparr>todo_content = ''plan'', todo_status = TodoCompleted\<rparr>, \<lparr>todo_content = ''build'', todo_status = InProgress\<rparr>]
   in valid_todos items \<and> parse_todo_items (\<lambda>_. None) (JArray (map todo_json items)) = Inr items"
proof -
  let ?items = "[\<lparr>todo_content = ''plan'', todo_status = TodoCompleted\<rparr>, \<lparr>todo_content = ''build'', todo_status = InProgress\<rparr>]"
  have "trim ''plan'' = ''plan''" "trim ''build'' = ''build''" by code_simp+
  then have "valid_todos ?items" by (simp add: valid_todos_def)
  with todo_items_valid [of "\<lambda>_. None" JNull] show ?thesis by (simp only: Let_def)
qed

section \<open>Leaving plan mode\<close>

datatype plan_result = MissingPlan | NotPlanning | NoAnswer | KeepPlanning string | Approved

text \<open>The plan flag of the session and its log; \<open>answer\<close> is what the broker returned.\<close>

definition exit_plan_mode ::
  "int \<Rightarrow> json \<Rightarrow> string option \<Rightarrow> bool \<Rightarrow> SessionLog \<Rightarrow> plan_result \<times> bool \<times> SessionLog \<times> bool" where
  "exit_plan_mode now args answer planning log =
     (let plan = trim (case Option.bind (json_get ''plan'' args) as_str of Some s \<Rightarrow> s | None \<Rightarrow> [])
      in if plan = [] then (MissingPlan, planning, log, False)
         else if \<not> planning then (NotPlanning, planning, log, False)
         else case answer of
           None \<Rightarrow> (NoAnswer, planning, log, False)
         | Some a \<Rightarrow>
             if to_ascii_lowercase (trim a) = ''approve''
             then (Approved, False, log_append log now (PlanMode False), True)
             else (KeepPlanning a, planning, log, False))"

text \<open>
  Only an approval ends plan mode. A call of \<open>exit-plan-mode\<close> leaves plan mode, logs it and ends
  the turn exactly when the session is in plan mode, the call carries a plan and the user
  answered \<open>approve\<close>; in every other case flag and log are unchanged and the turn goes on. A
  restart reads the same flag from the log.
\<close>

theorem plan_mode_needs_approval:
  assumes "wf_log log" and "planning = cp_plan (control_state log)"
    and "exit_plan_mode now args answer planning log = (r, planning', log', ends)"
  shows "(ends \<longleftrightarrow> planning \<and> (\<exists>a s. answer = Some a \<and> to_ascii_lowercase (trim a) = ''approve''
        \<and> Option.bind (json_get ''plan'' args) as_str = Some s \<and> trim s \<noteq> []))
    \<and> planning' = (planning \<and> \<not> ends) \<and> (\<not> ends \<longrightarrow> log' = log)
    \<and> planning' = cp_plan (control_state log')"
proof -
  have nil: "trim [] = []" by code_simp
  have "cp_plan (control_state (log_append log now (PlanMode False))) = False"
    by (simp add: control_state_def events_append [OF assms(1)] control_step_def)
  then show ?thesis
    using assms(2,3) nil
    by (auto simp: exit_plan_mode_def Let_def split: option.splits if_splits)
qed

theorem plan_mode_needs_approval_witness:
  "let log = log_append (new_in 1 ''t'' None 0 0) 0 (PlanMode True)
   in \<exists>log'. exit_plan_mode 0 (JObject [(''plan'', JString ''1. build'')]) (Some '' Approve'') True log = (Approved, False, log', True)
      \<and> \<not> cp_plan (control_state log')"
proof -
  let ?log = "log_append (new_in 1 ''t'' None 0 0) 0 (PlanMode True)"
  let ?args = "JObject [(''plan'', JString ''1. build'')]"
  have w: "wf_log ?log" by (intro wf_append wf_new_in)
  have p: "True = cp_plan (control_state ?log)"
    by (simp add: control_state_def events_append [OF wf_new_in] control_step_def)
  have "trim ''1. build'' = ''1. build''" "to_ascii_lowercase (trim '' Approve'') = ''approve''" by code_simp+
  then have run: "exit_plan_mode 0 ?args (Some '' Approve'') True ?log = (Approved, False, log_append ?log 0 (PlanMode False), True)"
    by (simp add: exit_plan_mode_def)
  from plan_mode_needs_approval [OF w p run] run show ?thesis by (simp add: Let_def)
qed

text \<open>A child agent never sees a harness control.\<close>

lemma controls_excluded_from_children: "is_control_skill name \<Longrightarrow> name \<in> set CHILD_EXCLUDED"
  by (auto simp: is_control_skill_def is_goal_skill_def is_schedule_skill_def is_memory_skill_def CHILD_EXCLUDED_def)

end
