(* ===== verification/Log_Invariants.thy ===== *)
theory Log_Invariants
  imports Surface_Theory Context_Budget
begin

text \<open>
  The runtime checks of \<open>src/crates/backend/src/invariants.rs\<close> over a session log: tool calls and
  their results are shadowed together, a failed attempt persisted nothing, and an errored turn
  has a ticket. Each theorem says what the model may conclude when a check reports nothing.
  (The check of a request against the log is in \<open>Context_Budget\<close>.)
\<close>

section \<open>Spans hold whole pairs\<close>

datatype violation =
    ResultWithoutCall nat nat nat string nat nat
  | CallWithoutResult nat nat nat string nat nat
  | RetryAppended "(nat \<times> string) list"
  | ErrorTurnUnticketed nat

definition span_violations :: "SessionEvent list \<Rightarrow> SessionEvent \<Rightarrow> nat \<Rightarrow> nat \<Rightarrow> violation list" where
  "span_violations evs ev start_seq end_seq =
     (let answers = (case kind ev of ToolResult _ cs _ _ _ _ _ _ \<Rightarrow> Some cs | _ \<Rightarrow> None)
      in List.map_filter (\<lambda>inner.
            case kind inner of
              ToolResult _ cs skill _ _ _ _ _ \<Rightarrow>
                if answers = Some cs then None
                else if cs \<noteq> 0 \<and> (cs < start_seq \<or> cs > end_seq)
                     then Some (ResultWithoutCall start_seq end_seq (seq ev) skill (seq inner) cs) else None
            | _ \<Rightarrow> None) (filter (\<lambda>e. seq e \<ge> start_seq \<and> seq e \<le> end_seq) evs)
         @ List.map_filter (\<lambda>outer.
            case kind outer of
              ToolResult _ cs skill _ _ _ _ _ \<Rightarrow>
                if cs \<ge> start_seq \<and> cs \<le> end_seq
                then Some (CallWithoutResult start_seq end_seq (seq ev) skill cs (seq outer)) else None
            | _ \<Rightarrow> None) (filter (\<lambda>e. seq e < start_seq \<or> seq e > end_seq) evs))"

definition check_compaction_span_balanced :: "SessionEvent list \<Rightarrow> violation list" where
  "check_compaction_span_balanced evs =
     concat (map (\<lambda>ev. case surface (kind ev) of
        Some (Replace start_seq end_seq) \<Rightarrow> span_violations evs ev start_seq end_seq
      | _ \<Rightarrow> []) evs)"

fun result_of :: "EventKind \<Rightarrow> nat option" where
  "result_of (ToolResult _ cs _ _ _ _ _ _) = Some cs"
| "result_of _ = None"

lemma map_filter_Nil: "List.map_filter f xs = [] \<longleftrightarrow> (\<forall>x \<in> set xs. f x = None)"
  by (induction xs) (auto simp: List.map_filter_def)

lemma span_violations_Nil:
  "span_violations evs ev a b = [] \<longleftrightarrow>
     (\<forall>e \<in> set evs. \<forall>cs. result_of (kind e) = Some cs \<longrightarrow>
        (if a \<le> seq e \<and> seq e \<le> b then result_of (kind ev) = Some cs \<or> cs = 0 \<or> (a \<le> cs \<and> cs \<le> b)
         else \<not> (a \<le> cs \<and> cs \<le> b)))"
proof -
  have "result_of k = (case k of ToolResult _ cs _ _ _ _ _ _ \<Rightarrow> Some cs | _ \<Rightarrow> None)" for k
    by (cases k) auto
  then have k: "(case kind ev of ToolResult _ cs _ _ _ _ _ _ \<Rightarrow> Some cs | _ \<Rightarrow> None) = result_of (kind ev)" by simp
  have inner: "(case kind e of ToolResult _ cs skill _ _ _ _ _ \<Rightarrow>
        if result_of (kind ev) = Some cs then None
        else if cs \<noteq> 0 \<and> (cs < a \<or> cs > b) then Some (ResultWithoutCall a b (seq ev) skill (seq e) cs) else None
      | _ \<Rightarrow> None) = None \<longleftrightarrow>
      (\<forall>cs. result_of (kind e) = Some cs \<longrightarrow> result_of (kind ev) = Some cs \<or> cs = 0 \<or> (a \<le> cs \<and> cs \<le> b))" for e
    by (cases "kind e") auto
  have outer: "(case kind e of ToolResult _ cs skill _ _ _ _ _ \<Rightarrow>
        if cs \<ge> a \<and> cs \<le> b then Some (CallWithoutResult a b (seq ev) skill cs (seq e)) else None
      | _ \<Rightarrow> None) = None \<longleftrightarrow> (\<forall>cs. result_of (kind e) = Some cs \<longrightarrow> \<not> (a \<le> cs \<and> cs \<le> b))" for e
    by (cases "kind e") auto
  show ?thesis
    unfolding span_violations_def Let_def k append_is_Nil_conv map_filter_Nil inner outer
    by (auto simp: not_le)
qed

text \<open>
  The span check is exact. It reports nothing precisely when, for every replacing event of the
  log, each tool result inside its span has its call inside too (or is answered by the replacing
  result itself, or has no recorded call), and no tool result outside has its call inside.
\<close>

theorem span_check_exact:
  "check_compaction_span_balanced evs = [] \<longleftrightarrow>
     (\<forall>ev a b. ev \<in> set evs \<and> surface (kind ev) = Some (Replace a b) \<longrightarrow>
        (\<forall>e cs. e \<in> set evs \<and> result_of (kind e) = Some cs \<longrightarrow>
           (if a \<le> seq e \<and> seq e \<le> b then result_of (kind ev) = Some cs \<or> cs = 0 \<or> (a \<le> cs \<and> cs \<le> b)
            else \<not> (a \<le> cs \<and> cs \<le> b))))"
proof -
  have "check_compaction_span_balanced evs = [] \<longleftrightarrow>
      (\<forall>ev \<in> set evs. \<forall>a b. surface (kind ev) = Some (Replace a b) \<longrightarrow> span_violations evs ev a b = [])"
    by (fastforce simp: check_compaction_span_balanced_def split: option.splits SurfaceOp.splits)
  then show ?thesis unfolding span_violations_Nil by blast
qed

section \<open>A retry re-runs the same request\<close>

fun kind_name :: "EventKind \<Rightarrow> string" where
  "kind_name (UserMessage _ _ _) = ''UserMessage''"
| "kind_name (AssistantMessage _ _ _ _) = ''AssistantMessage''"
| "kind_name (ToolResult _ _ _ _ _ _ _ _) = ''ToolResult''"
| "kind_name (CompactionSummary _ _ _ _ _ _) = ''CompactionSummary''"
| "kind_name (ContextInjected _ _ _) = ''ContextInjected''"
| "kind_name (LegacyMessage _ _) = ''LegacyMessage''"
| "kind_name _ = ''other''"

definition check_retry_appended_nothing :: "SessionEvent list \<Rightarrow> nat \<Rightarrow> violation list" where
  "check_retry_appended_nothing evs seq_before =
     (let offenders = map (\<lambda>e. (seq e, kind_name (kind e)))
            (filter (\<lambda>e. surface (kind e) \<noteq> None) (filter (\<lambda>e. seq e > seq_before) evs))
      in if offenders = [] then [] else [RetryAppended offenders])"

fun is_rewind :: "EventKind \<Rightarrow> bool" where
  "is_rewind (Rewind _ _) = True"
| "is_rewind _ = False"

lemma surface_step_quiet:
  assumes "surface (kind ev) = None" and "\<not> is_rewind (kind ev)"
  shows "snd (surface_step ser st ev) = snd st"
  using assms by (cases "kind ev") (auto simp: surface_step_def entry_of_def surface_def split: prod.splits)

lemma quiet_suffix:
  assumes "\<forall>ev \<in> set post. surface (kind ev) = None \<and> \<not> is_rewind (kind ev)"
  shows "derive_surface ser (pre @ post) = derive_surface ser pre"
  using assms
proof (induction post rule: rev_induct)
  case (snoc ev post)
  have "derive_surface ser ((pre @ post) @ [ev]) = snd (derive_state ser (pre @ post))"
    using snoc.prems by (simp only: derive_surface_snoc) (simp add: surface_step_quiet)
  with snoc show ?case by (simp add: derive_surface_def)
qed simp

lemma sorted_cut:
  assumes "sorted_wrt (<) (map seq evs)"
  shows "evs = filter (\<lambda>e. seq e \<le> n) evs @ filter (\<lambda>e. seq e > n) evs"
  using assms
proof (induction evs)
  case (Cons e evs)
  show ?case
  proof (cases "seq e \<le> n")
    case False
    then have "\<forall>x \<in> set evs. seq x > n" using Cons.prems by auto
    then have "filter (\<lambda>e. seq e \<le> n) evs = []" "filter (\<lambda>e. seq e > n) evs = evs"
      by (auto simp: filter_empty_conv filter_id_conv)
    with False show ?thesis by simp
  qed (use Cons in auto)
qed simp

text \<open>
  A clean retry derives the same request. If the check finds nothing after a failed attempt, and
  no prompt edit was logged meanwhile, the history the retry sends is the history the failed
  attempt sent, whatever bookkeeping was logged in between.
\<close>

theorem clean_retry_same_request:
  assumes "sorted_wrt (<) (map seq evs)" and "check_retry_appended_nothing evs n = []"
    and "\<forall>ev \<in> set evs. n < seq ev \<longrightarrow> \<not> is_rewind (kind ev)"
  shows "derive_messages ser evs = derive_messages ser (filter (\<lambda>e. seq e \<le> n) evs)"
proof -
  have "\<forall>ev \<in> set (filter (\<lambda>e. seq e > n) evs). surface (kind ev) = None \<and> \<not> is_rewind (kind ev)"
    using assms(2,3) by (auto simp: check_retry_appended_nothing_def Let_def filter_empty_conv split: if_splits)
  then have "derive_surface ser (filter (\<lambda>e. seq e \<le> n) evs @ filter (\<lambda>e. seq e > n) evs) =
      derive_surface ser (filter (\<lambda>e. seq e \<le> n) evs)"
    by (rule quiet_suffix)
  then show ?thesis using sorted_cut [OF assms(1), of n] by (simp add: derive_messages_def)
qed

theorem clean_retry_same_request_witness:
  "let evs = [\<lparr>seq = 2, ts = 0, kind = UserMessage Append ''hi'' []\<rparr>, \<lparr>seq = 3, ts = 0, kind = LlmRetry 1 5 500 ''HTTP 500''\<rparr>]
   in check_retry_appended_nothing evs 2 = []
      \<and> derive_messages (\<lambda>_. []) evs = derive_messages (\<lambda>_. []) [\<lparr>seq = 2, ts = 0, kind = UserMessage Append ''hi'' []\<rparr>]"
proof -
  let ?u = "\<lparr>seq = 2, ts = 0, kind = UserMessage Append ''hi'' []\<rparr>"
  let ?evs = "[?u, \<lparr>seq = 3, ts = 0, kind = LlmRetry 1 5 500 ''HTTP 500''\<rparr>]"
  have c: "check_retry_appended_nothing ?evs 2 = []" by (simp add: check_retry_appended_nothing_def surface_def)
  have "derive_messages (\<lambda>_. []) ?evs = derive_messages (\<lambda>_. []) (filter (\<lambda>e. seq e \<le> 2) ?evs)"
    by (rule clean_retry_same_request [OF _ c]) auto
  with c show ?thesis by (simp add: Let_def)
qed

section \<open>Errored turns have tickets\<close>

text \<open>The two fields of a ledger entry the check reads.\<close>

record ledger_row =
  is_turn_error :: bool
  row_turns :: "nat list"

definition check_error_turn_ticketed :: "string \<Rightarrow> nat \<Rightarrow> ledger_row list option \<Rightarrow> violation list" where
  "check_error_turn_ticketed finish_reason turn_id ledger =
     (if finish_reason \<noteq> ''error'' then []
      else if (case ledger of Some rows \<Rightarrow> list_ex (\<lambda>e. is_turn_error e \<and> turn_id \<in> set (row_turns e)) rows | None \<Rightarrow> False)
           then []
      else [ErrorTurnUnticketed turn_id])"

end
