(* ===== verification/Loop_Guard.thy ===== *)
theory Loop_Guard
  imports Retain Session_Event "HOL-Library.Char_ord" "HOL-Library.List_Lexorder" "HOL-Library.Multiset"
begin

text \<open>
  The repeat-tool reminder of \<open>src/crates/agents/src/guard.rs\<close>: a chain of identical tool calls,
  compared by their arguments with object keys sorted at every level, and a notice at the third,
  fifth and eighth. Printing a JSON value is the parameter \<open>ser\<close>. Keys are compared byte by byte.
\<close>

section \<open>Canonical arguments\<close>

primrec sort_json :: "json \<Rightarrow> json" where
  "sort_json JNull = JNull"
| "sort_json (JBool b) = JBool b"
| "sort_json (JNumber n) = JNumber n"
| "sort_json (JString s) = JString s"
| "sort_json (JArray a) = JArray (map sort_json a)"
| "sort_json (JObject m) = JObject (sort_key fst (map (map_prod id sort_json) m))"

definition canonical_json :: "json_printer \<Rightarrow> json \<Rightarrow> string" where
  "canonical_json ser v = ser (sort_json v)"

definition escape_nl :: "string \<Rightarrow> string" where
  "escape_nl s = concat (map (\<lambda>c. if c = CHR 0x0A then [CHR 0x5C, CHR ''n''] else [c]) s)"

definition preview_value :: "json_printer \<Rightarrow> json \<Rightarrow> string" where
  "preview_value ser v = (case v of JString s \<Rightarrow> [CHR 0x27] @ escape_nl s @ [CHR 0x27] | _ \<Rightarrow> ser v)"

fun join_sp :: "string list \<Rightarrow> string" where
  "join_sp [] = []"
| "join_sp [x] = x"
| "join_sp (x # xs) = x @ '' '' @ join_sp xs"

definition args_preview :: "json_printer \<Rightarrow> json \<Rightarrow> string" where
  "args_preview ser args =
     (case args of
        JObject m \<Rightarrow> join_sp (map (\<lambda>(k, v). preview_value ser v) (sort_key fst m))
      | JNull \<Rightarrow> []
      | _ \<Rightarrow> ser args)"

section \<open>The tracker\<close>

definition THRESHOLDS :: "nat list" where "THRESHOLDS = [3, 5, 8]"
definition PREVIEW_CHARS :: nat where "PREVIEW_CHARS = 500"

record RepeatTracker =
  rt_key :: string
  rt_count :: nat

definition tracker_default :: RepeatTracker where
  "tracker_default = \<lparr>rt_key = [], rt_count = 0\<rparr>"

definition call_key :: "json_printer \<Rightarrow> string \<Rightarrow> json \<Rightarrow> string" where
  "call_key ser skill args = skill @ [CHR 0x00] @ canonical_json ser args"

definition repeat_notice :: "json_printer \<Rightarrow> string \<Rightarrow> json \<Rightarrow> nat \<Rightarrow> string" where
  "repeat_notice ser skill args n =
     ''You have now called `'' @ skill @ ''` '' @ dec n @ '' times in a row with identical arguments: `''
     @ utf8_head (args_preview ser args) PREVIEW_CHARS
     @ ''`. Repeating the same call has produced the same result each time. Change the arguments, use a different tool, or explain to the user why you are stuck.''"

definition observe :: "json_printer \<Rightarrow> string \<Rightarrow> json \<Rightarrow> RepeatTracker \<Rightarrow> string option \<times> RepeatTracker" where
  "observe ser skill args t =
     (let key = call_key ser skill args;
          t' = (if key = rt_key t then t\<lparr>rt_count := wrap_u32 (rt_count t + 1)\<rparr>
                else t\<lparr>rt_key := key, rt_count := 1\<rparr>)
      in (if rt_count t' \<notin> set THRESHOLDS then None
          else Some (repeat_notice ser skill args (rt_count t')), t'))"

definition tracker_reset :: "RepeatTracker \<Rightarrow> RepeatTracker" where
  "tracker_reset t = t\<lparr>rt_key := [], rt_count := 0\<rparr>"

section \<open>Properties\<close>

lemma filter_same_key:
  assumes "distinct (map fst xs)" and "p \<in> set xs"
  shows "filter (\<lambda>x. fst p = fst x) xs = [p]"
  using assms
proof (induction xs)
  case (Cons x xs)
  show ?case
  proof (cases "p = x")
    case True
    then have "filter (\<lambda>y. fst p = fst y) xs = []" using Cons.prems(1) by (force simp: filter_empty_conv)
    then show ?thesis using True by simp
  next
    case False
    then have "p \<in> set xs" using Cons.prems(2) by simp
    moreover from this have "fst p \<noteq> fst x" using Cons.prems(1) by (metis distinct.simps(2) image_eqI list.set_map list.simps(9))
    ultimately show ?thesis using Cons.IH Cons.prems(1) by simp
  qed
qed simp

lemma sort_key_mset:
  assumes "mset xs = mset ys" and "distinct (map fst xs)"
  shows "sort_key fst xs = sort_key fst ys"
proof (rule properties_for_sort_key)
  show m: "mset (sort_key fst ys) = mset xs" using assms(1) by simp
  have "distinct (map fst (sort_key fst ys))"
    using assms(2) m mset_map [of fst] by (metis mset_eq_imp_distinct_iff)
  then show "filter (\<lambda>x. fst k = fst x) (sort_key fst ys) = filter (\<lambda>x. fst k = fst x) xs"
    if "k \<in> set (sort_key fst ys)" for k
    using that filter_same_key assms(2) mset_eq_setD [OF m] by metis
qed simp

lemma sort_json_reordered:
  assumes "mset m = mset m'" and "distinct (map fst m)"
  shows "sort_json (JObject m) = sort_json (JObject m')"
  using sort_key_mset [of "map (map_prod id sort_json) m" "map (map_prod id sort_json) m'"] assms
  by (simp add: comp_def)

text \<open>The notices a sequence of calls produces, one entry per call.\<close>

fun observe_all :: "json_printer \<Rightarrow> string \<Rightarrow> json list \<Rightarrow> RepeatTracker \<Rightarrow> string option list" where
  "observe_all ser skill [] t = []"
| "observe_all ser skill (a # as) t =
     (let (n, t') = observe ser skill a t in n # observe_all ser skill as t')"

lemma observe_same:
  assumes "rt_key t = call_key ser skill a"
  shows "snd (observe ser skill a t) = t\<lparr>rt_count := wrap_u32 (rt_count t + 1)\<rparr>"
    and "(fst (observe ser skill a t) = None) = (wrap_u32 (rt_count t + 1) \<notin> set THRESHOLDS)"
  using assms by (simp_all add: observe_def Let_def)

lemma observe_all_same:
  assumes "\<forall>a \<in> set as. sort_json a = sort_json a0" and "rt_key t = call_key ser skill a0"
    and "rt_count t + length as \<le> U32_MAX"
  shows "map (\<lambda>n. n \<noteq> None) (observe_all ser skill as t) =
    map (\<lambda>k. k \<in> set THRESHOLDS) [Suc (rt_count t)..<Suc (rt_count t + length as)]"
  using assms
proof (induction "as" arbitrary: t)
  case (Cons a as)
  have k: "rt_key t = call_key ser skill a" using Cons.prems(1,2) by (simp add: call_key_def canonical_json_def)
  have c: "wrap_u32 (rt_count t + 1) = Suc (rt_count t)" using Cons.prems(3) by simp
  let ?t = "t\<lparr>rt_count := Suc (rt_count t)\<rparr>"
  obtain n where o: "observe ser skill a t = (n, ?t)" "(n = None) = (Suc (rt_count t) \<notin> set THRESHOLDS)"
    using observe_same [OF k] unfolding c by (metis prod.collapse)
  have "map (\<lambda>n. n \<noteq> None) (observe_all ser skill as ?t) =
      map (\<lambda>k. k \<in> set THRESHOLDS) [Suc (Suc (rt_count t))..<Suc (Suc (rt_count t) + length as)]"
    using Cons.IH [of ?t] Cons.prems by simp
  moreover have "[Suc (rt_count t)..<Suc (rt_count t + length (a # as))] =
      Suc (rt_count t) # [Suc (Suc (rt_count t))..<Suc (Suc (rt_count t) + length as)]"
    by (subst upt_conv_Cons) simp_all
  ultimately show ?case using o by (simp only: list.simps observe_all.simps Let_def prod.case) blast
qed simp

text \<open>
  A repeated call is noticed at the third, the fifth and the eighth time. Whatever was called
  before, if a skill is then called with arguments that differ from each other only in the order
  of object keys, exactly the calls number 3, 5 and 8 of the run carry a notice.
\<close>

theorem repeats_noticed:
  assumes "\<forall>a \<in> set as. sort_json a = sort_json a0" and "rt_key t \<noteq> call_key ser skill a0" and "length as \<le> U32_MAX"
  shows "map (\<lambda>n. n \<noteq> None) (observe_all ser skill as t) = map (\<lambda>k. k \<in> {3, 5, 8}) [1..<Suc (length as)]"
proof (cases "as")
  case (Cons a as')
  have k: "call_key ser skill a = call_key ser skill a0" using assms(1) Cons by (simp add: call_key_def canonical_json_def)
  let ?t = "t\<lparr>rt_key := call_key ser skill a0, rt_count := 1\<rparr>"
  have o: "observe ser skill a t = (None, ?t)"
    using assms(2) by (simp add: observe_def k THRESHOLDS_def)
  have "map (\<lambda>n. n \<noteq> None) (observe_all ser skill as' ?t) = map (\<lambda>k. k \<in> set THRESHOLDS) [Suc 1..<Suc (1 + length as')]"
    using observe_all_same [of as' a0 ?t ser skill] assms(1,3) Cons by simp
  moreover have "[1..<Suc (length as)] = 1 # [Suc 1..<Suc (1 + length as')]" using Cons by (subst upt_conv_Cons) simp_all
  ultimately show ?thesis using Cons o by (simp add: THRESHOLDS_def)
qed simp

theorem repeats_noticed_witness:
  "let a = JObject [(''x'', JNull), (''y'', JBool True)]; b = JObject [(''y'', JBool True), (''x'', JNull)]
   in map (\<lambda>n. n \<noteq> None) (observe_all (\<lambda>_. []) ''read'' [a, b, a] tracker_default) = [False, False, True]"
proof -
  let ?a = "JObject [(''x'', JNull), (''y'', JBool True)]" and ?b = "JObject [(''y'', JBool True), (''x'', JNull)]"
  have "sort_json ?b = sort_json ?a" by (rule sort_json_reordered) auto
  then have s: "\<forall>v \<in> set [?a, ?b, ?a]. sort_json v = sort_json ?a" by (simp del: sort_json.simps)
  have "rt_key tracker_default \<noteq> call_key (\<lambda>_. []) ''read'' ?a" by (simp add: tracker_default_def call_key_def)
  then have "map (\<lambda>n. n \<noteq> None) (observe_all (\<lambda>_. []) ''read'' [?a, ?b, ?a] tracker_default)
      = map (\<lambda>k. k \<in> {3, 5, 8}) [1..<Suc (length [?a, ?b, ?a])]"
    by (rule repeats_noticed [OF s]) simp
  also have "\<dots> = [False, False, True]" by (simp add: upt_rec)
  finally show ?thesis unfolding Let_def .
qed

end
