(* ===== verification/Turn_Context.thy ===== *)
theory Turn_Context
  imports Compaction Event_Folds Workspace_Instructions
begin

text \<open>
  What a turn writes to the log before its first request: the durable context snapshots
  (workspace instructions, long-term memory, runtime facts, session memory), each shadowing its
  predecessor, and the block of \<open>start_turn\<close> in \<open>src/crates/backend/src/chat.rs\<close> that records the
  user's message; with the runtime-context text of \<open>src/crates/agents/src/prompt.rs\<close>, the memory
  snapshot of \<open>src/crates/agents/src/session_memory.rs\<close> and the fallback title of
  \<open>src/crates/backend/src/title_gen.rs\<close>. What the operating system and the process say (clock,
  working directory, files, how paths are split and printed) is the record \<open>turn_env\<close>.
\<close>

record turn_env =
  te_ser :: json_printer
  te_now :: int
  te_working_dir :: string
  te_os :: string
  te_date :: string
  te_components :: "string \<Rightarrow> path"
  te_display :: "path \<Rightarrow> string"
  te_digest :: "string \<Rightarrow> nat"
  te_read :: "path \<Rightarrow> string option"

definition session_dir :: "turn_env \<Rightarrow> SessionLog \<Rightarrow> string" where
  "session_dir env log = (case log_cwd log of Some d \<Rightarrow> d | None \<Rightarrow> te_working_dir env)"

text \<open>Snapshots look at the surface: the newest visible entry of a source, and its replacement.\<close>

definition latest_context :: "ContextSource \<Rightarrow> SurfaceEntry list \<Rightarrow> nat option" where
  "latest_context src entries = map_option se_seq (find (\<lambda>e. se_context e = Some src) (rev entries))"

definition snapshot_op :: "nat option \<Rightarrow> SurfaceOp" where
  "snapshot_op prev = (case prev of Some q \<Rightarrow> Replace q q | None \<Rightarrow> Append)"

section \<open>Runtime context\<close>

definition context_line :: "PermissionMode \<Rightarrow> string" where
  "context_line m = (case m of
      ReadOnly \<Rightarrow> ''read-only (no writes; only read-only shell commands run)''
    | WorkspaceWrite \<Rightarrow> ''workspace-write (writes outside the workspace are denied; destructive shell commands ask first)''
    | DangerFullAccess \<Rightarrow> ''danger-full-access (everything allowed; nothing asks)'')"

definition human_elapsed :: "int \<Rightarrow> string" where
  "human_elapsed secs =
     (if secs < 60 then ''less than a minute''
      else if secs < 3600 then dec (nat (secs sdiv 60)) @ '' minute(s)''
      else if secs < 86400 then dec (nat (secs sdiv 3600)) @ '' hour(s)''
      else dec (nat (secs sdiv 86400)) @ '' day(s)'')"

definition standard_vars_in :: "turn_env \<Rightarrow> string \<Rightarrow> string \<Rightarrow> string \<rightharpoonup> string" where
  "standard_vars_in env model cwd =
     [''cwd'' \<mapsto> cwd, ''os'' \<mapsto> te_os env, ''date'' \<mapsto> te_date env, ''model'' \<mapsto> model]"

definition RUNTIME_CONTEXT_HEADER :: string where
  "RUNTIME_CONTEXT_HEADER = ''Current runtime context. This snapshot supersedes earlier runtime-context snapshots.''"

definition OUTPUT_NAMING :: string where
  "OUTPUT_NAMING = [CHR 0x0A] @ ''- When you create or change files, name the primary ones in your final answer as inline code with the exact path you used, so they can be opened from the answer.''"

definition var_line :: "(string \<rightharpoonup> string) \<Rightarrow> string \<Rightarrow> string \<Rightarrow> string \<Rightarrow> string" where
  "var_line vars key before after =
     (case vars key of Some v \<Rightarrow> [CHR 0x0A] @ before @ v @ after | None \<Rightarrow> [])"

definition runtime_context_text :: "(string \<rightharpoonup> string) \<Rightarrow> string" where
  "runtime_context_text vars =
     RUNTIME_CONTEXT_HEADER
     @ var_line vars ''date'' ''- Local time: '' ('' '' @ em_dash @ '' from the OS clock'')
     @ var_line vars ''elapsed'' ''- Time since the previous message: '' []
     @ var_line vars ''cwd'' ''- Working directory: '' []
     @ var_line vars ''os'' ''- OS: '' []
     @ (case vars ''model'' of Some m \<Rightarrow> if m \<noteq> [] then [CHR 0x0A] @ ''- Model: '' @ m else [] | None \<Rightarrow> [])
     @ var_line vars ''permission'' ''- Permission mode: '' []
     @ var_line vars ''plan'' ''- Plan mode: '' []
     @ OUTPUT_NAMING"

definition append_runtime_context :: "turn_env \<Rightarrow> string \<Rightarrow> PermissionMode \<Rightarrow> bool \<Rightarrow> SessionLog \<Rightarrow> SessionLog" where
  "append_runtime_context env model mode planning log =
     (let entries = derive_surface (te_ser env) (events log);
          last_ts = (if entries = [] then None
                     else map_option ts (find (\<lambda>ev. seq ev = se_seq (last entries)) (events log)));
          vars = (standard_vars_in env model (session_dir env log))
            (''permission'' \<mapsto> context_line mode,
             ''plan'' \<mapsto> (if planning then ''active '' @ em_dash @ '' explore only, finish with exit-plan-mode'' else ''off''));
          vars = (case last_ts of
                    Some t \<Rightarrow> vars(''elapsed'' \<mapsto> human_elapsed (max (wrap_i64 (te_now env - t)) 0 sdiv 1000))
                  | None \<Rightarrow> vars)
      in log_append log (te_now env)
           (ContextInjected (snapshot_op (latest_context RuntimeContext entries)) RuntimeContext (runtime_context_text vars)))"

section \<open>Workspace instructions\<close>

definition INSTRUCTIONS_GONE :: string where
  "INSTRUCTIONS_GONE = ''<system-reminder>'' @ [CHR 0x0A]
     @ ''Workspace instruction files previously loaded are no longer present.'' @ [CHR 0x0A] @ ''</system-reminder>''"

definition refresh_instructions :: "turn_env \<Rightarrow> SessionLog \<Rightarrow> bool \<times> SessionLog" where
  "refresh_instructions env log =
     (let root = te_components env (session_dir env log);
          baseline = load (te_display env) (te_digest env) (te_read env) root root MAX_BYTES;
          prev = latest_context Instructions (derive_surface (te_ser env) (events log));
          prev_content = Option.bind prev (\<lambda>q. find_map (\<lambda>ev. case kind ev of
              ContextInjected _ src text \<Rightarrow> if src = Instructions \<and> seq ev = q then Some text else None
            | _ \<Rightarrow> None) (events log))
      in if baseline_is_empty baseline \<and> prev = None then (False, log)
         else let text = (if baseline_is_empty baseline then INSTRUCTIONS_GONE else render_baseline (te_display env) baseline)
              in if prev_content = Some text then (False, log)
                 else (True, log_append log (te_now env) (ContextInjected (snapshot_op prev) Instructions text)))"

section \<open>Memories\<close>

definition context_content :: "SessionLog \<Rightarrow> nat \<Rightarrow> string option" where
  "context_content log q = find_map (\<lambda>ev. case kind ev of
      ContextInjected _ _ text \<Rightarrow> if seq ev = q then Some text else None | _ \<Rightarrow> None) (events log)"

definition LONG_TERM_GONE :: string where
  "LONG_TERM_GONE = ''<long-term-memory>'' @ [CHR 0x0A]
     @ ''No long-term memories apply to this session any more '' @ em_dash @ '' disregard the ones listed earlier.''
     @ [CHR 0x0A] @ ''</long-term-memory>''"

definition refresh_long_term :: "turn_env \<Rightarrow> string option \<Rightarrow> SessionLog \<Rightarrow> bool \<times> SessionLog" where
  "refresh_long_term env block log =
     (let prev = latest_context LongTermMemory (derive_surface (te_ser env) (events log))
      in if block = None \<and> prev = None then (False, log)
         else let text = (case block of Some b \<Rightarrow> b | None \<Rightarrow> LONG_TERM_GONE)
              in if Option.bind prev (context_content log) = Some text then (False, log)
                 else (True, log_append log (te_now env) (ContextInjected (snapshot_op prev) LongTermMemory text)))"

definition memory_escape :: "string \<Rightarrow> string" where
  "memory_escape s = str_replace ''}}'' ''} }'' (str_replace ''{{'' ''{ {'' s)"

definition memory_snapshot :: "string \<Rightarrow> string list \<Rightarrow> string" where
  "memory_snapshot summary facts =
     ''<session-memory>'' @ [CHR 0x0A]
     @ ''This session's memory, kept up to date while you were idle: what the session is about, what has been done, and the key facts to keep. It survives compaction ''
     @ em_dash @ '' treat it as established context and build on it without restating it.''
     @ (if trim summary \<noteq> [] then [CHR 0x0A, CHR 0x0A] @ ''Summary:'' @ [CHR 0x0A] @ memory_escape (trim summary) else [])
     @ (if facts \<noteq> [] then [CHR 0x0A, CHR 0x0A] @ ''Key facts:'' @ concat (map (\<lambda>f. [CHR 0x0A] @ ''- '' @ memory_escape f) facts) else [])
     @ [CHR 0x0A] @ ''</session-memory>''"

definition CONTEXT_SUMMARY_PREFIX :: string where
  "CONTEXT_SUMMARY_PREFIX = ''[context summary''"

definition reattach_session_memory :: "turn_env \<Rightarrow> SessionLog \<Rightarrow> bool \<times> SessionLog" where
  "reattach_session_memory env log =
     (let entries = derive_surface (te_ser env) (events log);
          folded = list_ex (\<lambda>e. role (se_message e) = System \<and> starts_with (content (se_message e)) CONTEXT_SUMMARY_PREFIX) entries
      in if \<not> folded then (False, log)
         else case session_memory (events log) of
           None \<Rightarrow> (False, log)
         | Some m \<Rightarrow>
             let text = memory_snapshot (me_summary m) (me_facts m);
                 prev = latest_context SessionMemoryContext entries
             in if Option.bind prev (context_content log) = Some text then (False, log)
                else (True, log_append log (te_now env) (ContextInjected (snapshot_op prev) SessionMemoryContext text)))"

definition reattach_memory :: "turn_env \<Rightarrow> string option \<Rightarrow> SessionLog \<Rightarrow> bool \<times> SessionLog" where
  "reattach_memory env long_term log =
     (let (changed, log') = reattach_session_memory env log;
          (refreshed, log'') = refresh_long_term env long_term log'
      in (changed \<or> refreshed, log''))"

section \<open>The fallback title\<close>

fun take_word :: "string \<Rightarrow> string \<times> string" where
  "take_word [] = ([], [])"
| "take_word (c # cs) =
     (if ws_head (c # cs) \<noteq> 0 then ([], c # cs)
      else let (w, rest) = take_word cs in (c # w, rest))"

lemma length_take_word: "take_word s = (w, rest) \<Longrightarrow> length rest \<le> length s \<and> (s \<noteq> [] \<and> ws_head s = 0 \<longrightarrow> length rest < length s)"
proof (induction s arbitrary: w rest)
  case (Cons c cs)
  then show ?case by (force split: if_splits prod.splits)
qed simp

function split_ws :: "string \<Rightarrow> string list" where
  "split_ws s =
     (let s' = trim_start s
      in if s' = [] then [] else let (w, rest) = take_word s' in w # split_ws rest)"
  by pat_completeness auto
termination
proof (relation "measure length", simp, clarify)
  fix s w rest assume "trim_start s \<noteq> []" "(w, rest) = take_word (trim_start s)"
  then have "length rest < length (trim_start s)"
    using length_take_word [of "trim_start s" w rest] ws_head_trim_start [of s] by simp
  moreover have "length (trim_start s) \<le> length s" using trim_start_suffix [of s] by auto
  ultimately show "(rest, s) \<in> measure length" by simp
qed

declare split_ws.simps [simp del]

definition FALLBACK_MAX_WORDS :: nat where "FALLBACK_MAX_WORDS = 5"
definition FALLBACK_MAX_BYTES :: nat where "FALLBACK_MAX_BYTES = 40"

fun join_words :: "string list \<Rightarrow> string" where
  "join_words [] = []"
| "join_words [w] = w"
| "join_words (w # v # ws) = w @ '' '' @ join_words (v # ws)"

text \<open>Words hold no line break.\<close>

lemma ws_head_newline: "ws_head (CHR 0x0A # s) \<noteq> 0"
  by (simp add: ws_head_def codes_def)

lemma take_word_no_newline: "CHR 0x0A \<notin> set (fst (take_word s))"
proof (induction s)
  case (Cons c s)
  then show ?case using ws_head_newline [of s] by (cases "take_word s") auto
qed simp

lemma split_ws_no_newline: "w \<in> set (split_ws s) \<Longrightarrow> CHR 0x0A \<notin> set w"
proof (induction s rule: split_ws.induct)
  case (1 s)
  obtain v rest where v: "take_word (trim_start s) = (v, rest)" by (cases "take_word (trim_start s)")
  show ?case
  proof (cases "trim_start s = []")
    case True
    with "1.prems" show ?thesis by (simp add: split_ws.simps [of s])
  next
    case False
    with "1.prems" v have "w = v \<or> w \<in> set (split_ws rest)" by (simp add: split_ws.simps [of s])
    with 1(1) [OF refl False] v take_word_no_newline [of "trim_start s"] show ?thesis by auto
  qed
qed

lemma join_words_no_newline: "(\<And>w. w \<in> set ws \<Longrightarrow> CHR 0x0A \<notin> set w) \<Longrightarrow> CHR 0x0A \<notin> set (join_words ws)"
  by (induction ws rule: join_words.induct) auto

definition fallback :: "string \<Rightarrow> string" where
  "fallback text =
     (let joined = join_words (take FALLBACK_MAX_WORDS (split_ws text));
          cut = utf8_head joined FALLBACK_MAX_BYTES
      in trim (if length cut < length joined
               then (case rposition (\<lambda>c. c = CHR '' '') cut of Some i \<Rightarrow> if i > 0 then take i cut else cut | None \<Rightarrow> cut)
               else cut))"

section \<open>The start of a turn\<close>

definition default_title :: "nat \<Rightarrow> string" where
  "default_title i = ''Session '' @ dec i"

record turn_input =
  ti_text :: string
  ti_images :: "UserImage list"
  ti_source :: TurnSource
  ti_rewind :: "nat option"
  ti_turn_id :: nat
  ti_model :: string
  ti_mode :: PermissionMode
  ti_planning :: bool
  ti_long_term :: "string option"
  ti_expansion :: "(string \<times> string) option"
  ti_session_refs :: "(nat \<times> string) list"
  ti_file_refs :: "(string \<times> string) list"
  ti_hook_context :: "string list"

definition context_kinds :: "turn_input \<Rightarrow> EventKind list" where
  "context_kinds inp =
     (case ti_expansion inp of Some (name, text) \<Rightarrow> [ContextInjected Append (SkillInvocation name) text] | None \<Rightarrow> [])
     @ map (\<lambda>(i, text). ContextInjected Append (SessionReference i) text) (ti_session_refs inp)
     @ map (\<lambda>(p, text). ContextInjected Append (FileReference p) text) (ti_file_refs inp)
     @ map (\<lambda>extra. ContextInjected Append Injected extra) (filter (\<lambda>extra. trim extra \<noteq> []) (ti_hook_context inp))"

text \<open>The block under the session lock; the result carries the sequence number of the message.\<close>

definition record_message :: "turn_env \<Rightarrow> turn_input \<Rightarrow> SessionLog \<Rightarrow> nat \<times> SessionLog" where
  "record_message env inp log =
     (let now = te_now env;
          log = (case ti_rewind inp of Some q \<Rightarrow> start_rewind now log q | None \<Rightarrow> log);
          log = snd (refresh_instructions env log);
          log = snd (refresh_long_term env (ti_long_term inp) log);
          log = append_runtime_context env (ti_model inp) (ti_mode inp) (ti_planning inp) log;
          log = foldl (\<lambda>l k. log_append l now k) log (context_kinds inp);
          user_seq = next_seq log;
          log = log_append log now (UserMessage Append (ti_text inp) (ti_images inp));
          log = log_append log now (TurnStart (ti_turn_id inp) (ti_source inp));
          log = (if log_title log = default_title (log_id log) \<and> fallback (ti_text inp) \<noteq> []
                 then log_append log now (SessionTitle (fallback (ti_text inp))) else log)
      in (user_seq, log))"

section \<open>One visible copy of each snapshot\<close>

definition ctx :: "ContextSource option \<Rightarrow> SurfaceEntry list \<Rightarrow> SurfaceEntry list" where
  "ctx c out = filter (\<lambda>e. se_context e = c) out"

definition snapshot_sources :: "ContextSource set" where
  "snapshot_sources = {Instructions, LongTermMemory, RuntimeContext, SessionMemoryContext}"

definition one_each :: "json_printer \<Rightarrow> SessionLog \<Rightarrow> bool" where
  "one_each ser log \<longleftrightarrow> (\<forall>src \<in> snapshot_sources. length (ctx (Some src) (derive_surface ser (events log))) \<le> 1)"

lemma surface_distinct:
  "sorted_wrt (<) (map seq evs) \<Longrightarrow>
     distinct (map se_seq (derive_surface ser evs)) \<and> se_seq ` set (derive_surface ser evs) \<subseteq> seq ` set evs"
proof (induction evs rule: rev_induct)
  case (snoc ev evs)
  let ?old = "filter (\<lambda>n. \<not> covers ev n) (map se_seq (derive_surface ser evs))"
  let ?new = "?old @ (if surface (kind ev) \<noteq> None then [seq ev] else [])"
  have IH: "distinct (map se_seq (derive_surface ser evs))" "se_seq ` set (derive_surface ser evs) \<subseteq> seq ` set evs"
    and lt: "\<forall>e \<in> set evs. seq e < seq ev"
    using snoc by (auto simp: sorted_wrt_append)
  have m: "mset (map se_seq (derive_surface ser (evs @ [ev]))) = mset ?new"
    unfolding derive_surface_snoc surface_step_seqs by (simp add: derive_surface_def)
  have "distinct ?new" using IH lt by fastforce
  moreover have "set ?new \<subseteq> seq ` set (evs @ [ev])" using IH(2) by auto
  ultimately show ?case using mset_eq_imp_distinct_iff [OF m] mset_eq_setD [OF m] by (metis list.set_map)
qed (simp add: derive_surface_def)

lemma ctx_append [simp]: "ctx c (xs @ ys) = ctx c xs @ ctx c ys"
  by (simp add: ctx_def)

lemma ctx_insert_at_other: "se_context e \<noteq> c \<Longrightarrow> ctx c (insert_at i e out) = ctx c out"
  by (simp add: ctx_def insert_at_def) (metis append_take_drop_id filter_append)

lemma ctx_insert_at_same: "ctx (se_context e) out = [] \<Longrightarrow> ctx (se_context e) (insert_at i e out) = [e]"
  using ctx_append [of "se_context e" "take i out" "drop i out"] by (simp add: insert_at_def) (simp add: ctx_def)

lemma latest_context_Some:
  assumes "latest_context src out = Some q"
  obtains x where "x \<in> set out" "se_seq x = q" "se_context x = Some src"
proof -
  from assms obtain x where f: "find (\<lambda>e. se_context e = Some src) (rev out) = Some x" and "se_seq x = q"
    by (auto simp: latest_context_def)
  from f obtain i where "i < length (rev out)" "se_context (rev out ! i) = Some src" "x = rev out ! i"
    unfolding find_Some_iff by blast
  then have "x \<in> set (rev out)" "se_context x = Some src" by (simp_all only: nth_mem)
  then show ?thesis using that \<open>se_seq x = q\<close> by simp
qed

lemma latest_context_None: "latest_context src out = None \<longleftrightarrow> ctx (Some src) out = []"
  by (auto simp: latest_context_def ctx_def find_None_iff filter_empty_conv)

lemma land_snapshot:
  assumes "distinct (map se_seq out)" and "se_context e = Some src"
  shows "c \<noteq> Some src \<Longrightarrow> ctx c (land (snapshot_op (latest_context src out)) e out) = ctx c out"
    and "length (ctx (Some src) out) \<le> 1 \<Longrightarrow> ctx (Some src) (land (snapshot_op (latest_context src out)) e out) = [e]"
proof -
  have sh: "shadow q q out = filter (\<lambda>x. se_seq x \<noteq> q) out" for q
    unfolding shadow_def by (rule filter_cong) auto
  show "ctx c (land (snapshot_op (latest_context src out)) e out) = ctx c out" if c: "c \<noteq> Some src"
  proof (cases "latest_context src out")
    case None
    then show ?thesis using assms(2) c by (auto simp: snapshot_op_def ctx_def)
  next
    case (Some q)
    then obtain x where x: "x \<in> set out" "se_seq x = q" "se_context x = Some src" by (rule latest_context_Some)
    have "y = x" if "y \<in> set out" "se_seq y = q" for y
      using that x(1,2) assms(1) by (metis distinct_map inj_onD)
    then have "ctx c (filter (\<lambda>x. se_seq x \<noteq> q) out) = ctx c out"
      unfolding ctx_def filter_filter using x(3) c by (intro filter_cong refl) metis
    then show ?thesis using Some assms(2) c by (simp add: snapshot_op_def Let_def sh ctx_insert_at_other)
  qed
  show "ctx (Some src) (land (snapshot_op (latest_context src out)) e out) = [e]" if one: "length (ctx (Some src) out) \<le> 1"
  proof (cases "latest_context src out")
    case None
    then have "ctx (Some src) out = []" by (simp only: latest_context_None)
    then show ?thesis using assms(2) None by (simp add: snapshot_op_def) (simp add: ctx_def)
  next
    case (Some q)
    then obtain x where x: "x \<in> set out" "se_seq x = q" "se_context x = Some src" by (rule latest_context_Some)
    then have "x \<in> set (ctx (Some src) out)" by (simp add: ctx_def)
    then have "ctx (Some src) out = [x]" using one by (cases "ctx (Some src) out") auto
    then have "ctx (Some src) (filter (\<lambda>y. se_seq y \<noteq> q) out) = []"
      using x(2) filter_filter [of "\<lambda>e. se_context e = Some src" "\<lambda>y. se_seq y \<noteq> q" out] filter_filter [of "\<lambda>y. se_seq y \<noteq> q" "\<lambda>e. se_context e = Some src" out]
      by (simp add: ctx_def conj_commute)
    then show ?thesis using Some assms(2) ctx_insert_at_same [of e] by (simp add: snapshot_op_def Let_def sh)
  qed
qed

abbreviation surf :: "json_printer \<Rightarrow> SessionLog \<Rightarrow> SurfaceEntry list" where
  "surf ser log \<equiv> derive_surface ser (events log)"

lemma surf_injected:
  assumes "wf_log log"
  shows "surf ser (log_append log now (ContextInjected s src text)) =
    land s \<lparr>se_seq = Suc (last_seq log), se_message = message_user text, se_tool = None, se_context = Some src\<rparr> (surf ser log)"
  unfolding events_append [OF assms] derive_surface_snoc
  by (subst surface_step_entry [where s = s]) (simp_all add: entry_of_def derive_surface_def)

text \<open>What every snapshot operation does to the log: nothing, or one replacing row.\<close>

definition snapshot_row :: "json_printer \<Rightarrow> int \<Rightarrow> ContextSource \<Rightarrow> string \<Rightarrow> SessionLog \<Rightarrow> SessionLog" where
  "snapshot_row ser now src text log =
     log_append log now (ContextInjected (snapshot_op (latest_context src (surf ser log))) src text)"

lemma snapshot_row_ctx:
  assumes "wf_log log"
  shows "c \<noteq> Some src \<Longrightarrow> ctx c (surf ser (snapshot_row ser now src text log)) = ctx c (surf ser log)"
    and "length (ctx (Some src) (surf ser log)) \<le> 1 \<Longrightarrow>
      map (\<lambda>e. content (se_message e)) (ctx (Some src) (surf ser (snapshot_row ser now src text log))) = [text]"
proof -
  have d: "distinct (map se_seq (surf ser log))"
    using surface_distinct wf_bounds [OF assms] by blast
  show "c \<noteq> Some src \<Longrightarrow> ctx c (surf ser (snapshot_row ser now src text log)) = ctx c (surf ser log)"
    unfolding snapshot_row_def surf_injected [OF assms] by (rule land_snapshot(1) [OF d]) simp_all
  show "length (ctx (Some src) (surf ser log)) \<le> 1 \<Longrightarrow>
      map (\<lambda>e. content (se_message e)) (ctx (Some src) (surf ser (snapshot_row ser now src text log))) = [text]"
    unfolding snapshot_row_def surf_injected [OF assms]
    by (subst land_snapshot(2) [OF d]) (simp_all add: message_user_def message_base_def)
qed

lemma wf_snapshot_row: "wf_log log \<Longrightarrow> wf_log (snapshot_row ser now src text log)"
  by (simp add: snapshot_row_def wf_append)

lemma one_each_snapshot_row:
  assumes "wf_log log" and "one_each ser log"
  shows "one_each ser (snapshot_row ser now src text log)"
  unfolding one_each_def
proof
  fix s assume s: "s \<in> snapshot_sources"
  then have l: "length (ctx (Some s) (surf ser log)) \<le> 1" using assms(2) by (simp add: one_each_def)
  show "length (ctx (Some s) (surf ser (snapshot_row ser now src text log))) \<le> 1"
  proof (cases "s = src")
    case True
    then show ?thesis
      using arg_cong [of _ _ length, OF snapshot_row_ctx(2) [OF assms(1) l, of now "text"]] by simp
  next
    case False
    then show ?thesis using l snapshot_row_ctx(1) [OF assms(1)] by simp
  qed
qed


section \<open>Steps of a session's history\<close>

lemma refresh_instructions_cases:
  "snd (refresh_instructions env log) = log
   \<or> (\<exists>t. snd (refresh_instructions env log) = snapshot_row (te_ser env) (te_now env) Instructions t log)"
  by (auto simp: refresh_instructions_def snapshot_row_def Let_def)

lemma refresh_long_term_cases:
  "snd (refresh_long_term env b log) = log
   \<or> (\<exists>t. snd (refresh_long_term env b log) = snapshot_row (te_ser env) (te_now env) LongTermMemory t log)"
  by (auto simp: refresh_long_term_def snapshot_row_def Let_def)

lemma append_runtime_context_row:
  "\<exists>t. append_runtime_context env model mode planning log = snapshot_row (te_ser env) (te_now env) RuntimeContext t log"
  by (auto simp: append_runtime_context_def snapshot_row_def Let_def)

text \<open>
  Everything but a snapshot: a row of another kind. Whatever it is, it adds no entry of a snapshot
  source, and only a rewind or a replacement can take one away.
\<close>

fun is_snapshot_row :: "EventKind \<Rightarrow> bool" where
  "is_snapshot_row (ContextInjected _ src _) \<longleftrightarrow> src \<in> snapshot_sources"
| "is_snapshot_row _ \<longleftrightarrow> False"

lemma ctx_shadow_le: "length (ctx c (shadow a b out)) \<le> length (ctx c out)"
  by (induction out) (auto simp: ctx_def shadow_def)

lemma ctx_land_le: "se_context e \<noteq> c \<Longrightarrow> length (ctx c (land s e out)) \<le> length (ctx c out)"
  by (cases s) (simp_all add: ctx_insert_at_other Let_def ctx_shadow_le, simp add: ctx_def)

lemma surface_step_shape:
  "snd (surface_step ser (calls, out) ev) = out \<or> (\<exists>a b. snd (surface_step ser (calls, out) ev) = shadow a b out)
   \<or> (\<exists>s e. entry_of ser calls ev = Some (s, e) \<and> snd (surface_step ser (calls, out) ev) = land s e out)"
  by (cases "kind ev") (auto simp: surface_step_def split: option.splits)

lemma ctx_other_row:
  assumes "wf_log log" and "\<not> is_snapshot_row k" and "src \<in> snapshot_sources"
  shows "length (ctx (Some src) (surf ser (log_append log now k))) \<le> length (ctx (Some src) (surf ser log))"
proof -
  let ?ev = "\<lparr>seq = Suc (last_seq log), ts = now, kind = k\<rparr>"
  have e: "entry_of ser calls ?ev = Some (s, x) \<Longrightarrow> se_context x \<noteq> Some src" for calls s x
    using assms(2,3) by (cases k) (auto simp: entry_of_def Let_def)
  have "snd (surface_step ser (derive_state ser (events log)) ?ev) = surf ser log
      \<or> (\<exists>a b. snd (surface_step ser (derive_state ser (events log)) ?ev) = shadow a b (surf ser log))
      \<or> (\<exists>s x. se_context x \<noteq> Some src \<and> snd (surface_step ser (derive_state ser (events log)) ?ev) = land s x (surf ser log))"
    using surface_step_shape [of ser "fst (derive_state ser (events log))" "surf ser log" ?ev] e
    unfolding derive_state_pair [symmetric] by blast
  then show ?thesis
    unfolding events_append [OF assms(1)] derive_surface_snoc
    using ctx_shadow_le ctx_land_le by (metis order_refl)
qed

lemma one_each_other_row:
  "wf_log log \<Longrightarrow> \<not> is_snapshot_row k \<Longrightarrow> one_each ser log \<Longrightarrow> one_each ser (log_append log now k)"
  unfolding one_each_def using ctx_other_row le_trans by blast

inductive history_step :: "json_printer \<Rightarrow> SessionLog \<Rightarrow> SessionLog \<Rightarrow> bool" for ser where
  Message: "te_ser env = ser \<Longrightarrow> history_step ser log (snd (record_message env inp log))"
| Reconcile: "te_ser env = ser \<Longrightarrow> history_step ser log (snd (refresh_instructions env log))"
| Reattach: "te_ser env = ser \<Longrightarrow> history_step ser log (snd (reattach_memory env lt log))"
| Row: "\<not> is_snapshot_row k \<Longrightarrow> history_step ser log (log_append log now k)"

definition snap_inv :: "json_printer \<Rightarrow> SessionLog \<Rightarrow> bool" where
  "snap_inv ser log \<longleftrightarrow> wf_log log \<and> one_each ser log"

lemma snap_inv_row: "snap_inv ser log \<Longrightarrow> \<not> is_snapshot_row k \<Longrightarrow> snap_inv ser (log_append log now k)"
  by (simp add: snap_inv_def one_each_other_row wf_append)

lemma snap_inv_snapshot: "snap_inv ser log \<Longrightarrow> snap_inv ser (snapshot_row ser now src t log)"
  by (simp add: snap_inv_def one_each_snapshot_row wf_snapshot_row)

lemma snap_inv_ops:
  assumes "snap_inv ser log" and "te_ser env = ser"
  shows "snap_inv ser (snd (refresh_instructions env log))"
    and "snap_inv ser (snd (refresh_long_term env b log))"
    and "snap_inv ser (append_runtime_context env model mode planning log)"
  using refresh_instructions_cases [of env log] refresh_long_term_cases [of env b log]
    append_runtime_context_row [of env model mode planning log] snap_inv_snapshot [OF assms(1)] assms by metis+

lemma context_kinds_plain: "\<forall>k \<in> set (context_kinds inp). \<exists>src t. k = ContextInjected Append src t \<and> src \<notin> snapshot_sources"
  by (auto simp: context_kinds_def snapshot_sources_def split: option.splits)

lemma snap_inv_rows:
  "snap_inv ser log \<Longrightarrow> \<forall>k \<in> set ks. \<not> is_snapshot_row k \<Longrightarrow> snap_inv ser (foldl (\<lambda>l k. log_append l now k) log ks)"
  by (induction ks arbitrary: log) (simp_all add: snap_inv_row)

text \<open>\<open>record_message\<close> in two parts: the log its message is appended to, and the rows from the message on.\<close>

definition before_message :: "turn_env \<Rightarrow> turn_input \<Rightarrow> SessionLog \<Rightarrow> SessionLog" where
  "before_message env inp log =
     foldl (\<lambda>l k. log_append l (te_now env) k)
       (append_runtime_context env (ti_model inp) (ti_mode inp) (ti_planning inp)
         (snd (refresh_long_term env (ti_long_term inp) (snd (refresh_instructions env
           (case ti_rewind inp of Some q \<Rightarrow> start_rewind (te_now env) log q | None \<Rightarrow> log))))))
       (context_kinds inp)"

lemma record_message_parts:
  "\<exists>t. record_message env inp log = (next_seq (before_message env inp log),
     (let l = log_append (log_append (before_message env inp log) (te_now env) (UserMessage Append (ti_text inp) (ti_images inp)))
                (te_now env) (TurnStart (ti_turn_id inp) (ti_source inp))
      in if t = [] then l else log_append l (te_now env) (SessionTitle t)))"
proof -
  let ?l = "log_append (log_append (before_message env inp log) (te_now env) (UserMessage Append (ti_text inp) (ti_images inp)))
                (te_now env) (TurnStart (ti_turn_id inp) (ti_source inp))"
  show ?thesis
    by (rule exI [of _ "if log_title ?l = default_title (log_id ?l) then fallback (ti_text inp) else []"])
      (simp add: record_message_def before_message_def Let_def)
qed

lemma snap_inv_before_message:
  assumes "snap_inv ser log" and "te_ser env = ser"
  shows "snap_inv ser (before_message env inp log)"
proof -
  have "snap_inv ser (case ti_rewind inp of Some q \<Rightarrow> start_rewind (te_now env) log q | None \<Rightarrow> log)"
    using assms(1) by (auto simp: start_rewind_def snap_inv_row split: option.split)
  then have "snap_inv ser (append_runtime_context env (ti_model inp) (ti_mode inp) (ti_planning inp)
         (snd (refresh_long_term env (ti_long_term inp) (snd (refresh_instructions env
           (case ti_rewind inp of Some q \<Rightarrow> start_rewind (te_now env) log q | None \<Rightarrow> log))))))"
    using snap_inv_ops [OF _ assms(2)] by blast
  moreover have "\<forall>k \<in> set (context_kinds inp). \<not> is_snapshot_row k" using context_kinds_plain by fastforce
  ultimately show ?thesis unfolding before_message_def by (rule snap_inv_rows)
qed

lemma snap_inv_step: "history_step ser log log' \<Longrightarrow> snap_inv ser log \<Longrightarrow> snap_inv ser log'"
proof (induction rule: history_step.induct)
  case (Message env log inp)
  obtain t where r: "record_message env inp log = (next_seq (before_message env inp log),
     (let l = log_append (log_append (before_message env inp log) (te_now env) (UserMessage Append (ti_text inp) (ti_images inp)))
                (te_now env) (TurnStart (ti_turn_id inp) (ti_source inp))
      in if t = [] then l else log_append l (te_now env) (SessionTitle t)))"
    using record_message_parts by blast
  show ?case using snap_inv_before_message [OF Message(2,1)] unfolding r by (simp add: Let_def snap_inv_row)
next
  case (Reconcile env log)
  then show ?case using snap_inv_ops(1) by blast
next
  case (Reattach env log lt)
  let ?log' = "snd (reattach_session_memory env log)"
  have r: "snd (reattach_memory env lt log) = snd (refresh_long_term env lt ?log')"
    by (simp add: reattach_memory_def split_beta)
  have "?log' = log \<or> (\<exists>t. ?log' = snapshot_row (te_ser env) (te_now env) SessionMemoryContext t log)"
    by (auto simp: reattach_session_memory_def snapshot_row_def Let_def split: option.splits)
  then have "snap_inv ser ?log'" using Reattach snap_inv_snapshot by metis
  then show ?case unfolding r using Reattach(1) by (rule snap_inv_ops(2))
next
  case (Row k log now)
  then show ?case by (simp add: snap_inv_row)
qed

text \<open>
  C14: The model never sees two copies of a snapshot. From the creation of a session, whatever turns
  start, whatever is logged, compacted, edited or re-attached, at most one workspace-instruction
  block, one long-term memory block, one runtime context and one session memory are visible.
\<close>

theorem one_snapshot_each:
  assumes "(history_step ser)\<^sup>*\<^sup>* (new_in i t d secs now0) log" and "src \<in> snapshot_sources"
  shows "length (filter (\<lambda>e. se_context e = Some src) (derive_surface ser (events log))) \<le> 1"
proof -
  have "derive_surface ser (events (new_in i t d secs now0)) = []"
    by (simp add: new_in_def log_append_def derive_surface_def derive_state_def surface_step_def entry_of_def)
  then have "snap_inv ser (new_in i t d secs now0)"
    by (simp add: snap_inv_def wf_new_in one_each_def ctx_def)
  with assms(1) have "snap_inv ser log"
    by (induction rule: rtranclp_induct) (auto intro: snap_inv_step)
  then show ?thesis using assms(2) by (simp add: snap_inv_def one_each_def ctx_def)
qed

lemma surf_message:
  assumes "wf_log log"
  shows "surf ser (log_append log now (UserMessage Append t imgs)) = surf ser log @
    [\<lparr>se_seq = Suc (last_seq log), se_message = message_user_with_images t imgs, se_tool = None, se_context = None\<rparr>]"
  unfolding events_append [OF assms] derive_surface_snoc
  by (subst surface_step_entry [where s = Append]) (simp_all add: entry_of_def derive_surface_def)

lemma surf_bookkeeping:
  assumes "wf_log log"
  shows "surf ser (log_append log now (TurnStart i src)) = surf ser log"
    and "surf ser (log_append log now (SessionTitle t)) = surf ser log"
  unfolding events_append [OF assms] derive_surface_snoc
  by (simp_all add: surface_step_skip derives_def surface_def) (simp_all add: derive_surface_def)

lemma ctx_plain_rows:
  assumes "wf_log log" and "\<forall>k \<in> set ks. \<exists>src t. k = ContextInjected Append src t \<and> src \<notin> snapshot_sources"
    and "c = None \<or> c \<in> Some ` snapshot_sources"
  shows "ctx c (surf ser (foldl (\<lambda>l k. log_append l now k) log ks)) = ctx c (surf ser log)"
  using assms(1,2)
proof (induction ks arbitrary: log)
  case (Cons k ks)
  then obtain src t where k: "k = ContextInjected Append src t" "src \<notin> snapshot_sources" by auto
  have "ctx c (surf ser (log_append log now k)) = ctx c (surf ser log)"
    using k assms(3) by (auto simp: surf_injected [OF Cons.prems(1)]) (auto simp: ctx_def)
  then show ?case using Cons wf_append by simp
qed simp

lemma prefix_rows: "prefix (events log) (events (foldl (\<lambda>l k. log_append l now k) log ks))"
proof (induction ks arbitrary: log)
  case (Cons k ks)
  have "prefix (events log) (events (log_append log now k))" by (simp add: log_append_def)
  also have "prefix (events (log_append log now k)) (events (foldl (\<lambda>l k. log_append l now k) (log_append log now k) ks))"
    by (rule Cons.IH)
  finally show ?case by simp
qed simp

lemma prefix_snapshot: "prefix (events log) (events (snapshot_row ser now src t log))"
  by (simp add: snapshot_row_def log_append_def)

lemma before_message_ctx:
  assumes "snap_inv (te_ser env) log"
    and "start = (case ti_rewind inp of Some p \<Rightarrow> start_rewind (te_now env) log p | None \<Rightarrow> log)"
  shows "ctx None (surf (te_ser env) (before_message env inp log)) = ctx None (surf (te_ser env) start)"
    and "length (ctx (Some RuntimeContext) (surf (te_ser env) (before_message env inp log))) = 1"
    and "prefix (events log) (events (before_message env inp log))"
proof -
  let ?ser = "te_ser env" and ?now = "te_now env"
  let ?l1 = "snd (refresh_instructions env start)"
  let ?l2 = "snd (refresh_long_term env (ti_long_term inp) ?l1)"
  obtain t where l3: "append_runtime_context env (ti_model inp) (ti_mode inp) (ti_planning inp) ?l2 = snapshot_row ?ser ?now RuntimeContext t ?l2"
    using append_runtime_context_row by blast
  let ?l3 = "snapshot_row ?ser ?now RuntimeContext t ?l2"
  have bm: "before_message env inp log = foldl (\<lambda>l k. log_append l ?now k) ?l3 (context_kinds inp)"
    unfolding before_message_def assms(2) [symmetric] l3 ..
  have i0: "snap_inv ?ser start" using assms by (auto simp: start_rewind_def snap_inv_row split: option.split)
  have i1: "snap_inv ?ser ?l1" and i2: "snap_inv ?ser ?l2" and i3: "snap_inv ?ser ?l3"
    using snap_inv_ops [OF _ refl] snap_inv_snapshot i0 by blast+
  have w: "wf_log start" "wf_log ?l1" "wf_log ?l2" "wf_log ?l3" using i0 i1 i2 i3 by (simp_all add: snap_inv_def)
  have "ctx None (surf ?ser ?l1) = ctx None (surf ?ser start)"
    using refresh_instructions_cases [of env start] snapshot_row_ctx(1) [OF w(1), of None] by auto
  moreover have "ctx None (surf ?ser ?l2) = ctx None (surf ?ser ?l1)"
    using refresh_long_term_cases [of env "ti_long_term inp" ?l1] snapshot_row_ctx(1) [OF w(2), of None] by auto
  ultimately show "ctx None (surf ?ser (before_message env inp log)) = ctx None (surf ?ser start)"
    unfolding bm using ctx_plain_rows [OF w(4) context_kinds_plain, of None] snapshot_row_ctx(1) [OF w(3), of None] by simp
  have "length (ctx (Some RuntimeContext) (surf ?ser ?l2)) \<le> 1"
    using i2 by (simp add: snap_inv_def one_each_def snapshot_sources_def)
  from arg_cong [of _ _ length, OF snapshot_row_ctx(2) [OF w(3) this, of ?now t]]
  show "length (ctx (Some RuntimeContext) (surf ?ser (before_message env inp log))) = 1"
    unfolding bm using ctx_plain_rows [OF w(4) context_kinds_plain, of "Some RuntimeContext"] by (simp add: snapshot_sources_def)
  have "prefix (events log) (events start)" using assms(2) by (auto simp: start_rewind_def log_append_def split: option.split)
  moreover have "prefix (events start) (events ?l1)" using refresh_instructions_cases [of env start] prefix_snapshot by auto
  moreover have "prefix (events ?l1) (events ?l2)" using refresh_long_term_cases [of env "ti_long_term inp" ?l1] prefix_snapshot by auto
  ultimately show "prefix (events log) (events (before_message env inp log))"
    unfolding bm using prefix_snapshot prefix_rows by (metis prefix_order.trans)
qed

text \<open>
  A send adds exactly the user's message to the conversation. Recording a message keeps every
  row of the log, and apart from context snapshots the visible history is what it was (after the
  rewind, if the send re-runs an edited prompt) followed by the message, which stands last; its
  number is the one reported to the frontend, and exactly one runtime context is visible.
\<close>

theorem send_appends_message:
  assumes "wf_log log" and "one_each (te_ser env) log" and "record_message env inp log = (q, log')"
    and "start = (case ti_rewind inp of Some p \<Rightarrow> start_rewind (te_now env) log p | None \<Rightarrow> log)"
    and "user = \<lparr>se_seq = q, se_message = message_user_with_images (ti_text inp) (ti_images inp), se_tool = None, se_context = None\<rparr>"
  shows "wf_log log' \<and> take (length (events log)) (events log') = events log
    \<and> filter (\<lambda>e. se_context e = None) (derive_surface (te_ser env) (events log')) =
        filter (\<lambda>e. se_context e = None) (derive_surface (te_ser env) (events start)) @ [user]
    \<and> last (derive_surface (te_ser env) (events log')) = user
    \<and> length (filter (\<lambda>e. se_context e = Some RuntimeContext) (derive_surface (te_ser env) (events log'))) = 1"
proof -
  let ?l = "before_message env inp log" and ?ser = "te_ser env" and ?now = "te_now env"
  let ?l1 = "log_append ?l ?now (UserMessage Append (ti_text inp) (ti_images inp))"
  let ?l2 = "log_append ?l1 ?now (TurnStart (ti_turn_id inp) (ti_source inp))"
  have inv: "snap_inv ?ser log" using assms(1,2) by (simp add: snap_inv_def)
  note b = before_message_ctx [OF inv assms(4)]
  have w: "wf_log ?l" using snap_inv_before_message [OF inv refl] by (simp add: snap_inv_def)
  have w2: "wf_log ?l2" using w by (simp add: wf_append)
  have q: "q = Suc (last_seq ?l)" and log': "log' = ?l2 \<or> (\<exists>t. log' = log_append ?l2 ?now (SessionTitle t))"
    using record_message_parts [of env inp log] assms(3) w
    by (auto simp: Let_def wf_log_def last_seq_def split: if_splits)
  have s: "surf ?ser log' = surf ?ser ?l @ [user]"
    using log' w w2 by (auto simp: surf_bookkeeping surf_message wf_append assms(5) q)
  have "prefix (events ?l) (events log')" using log' by (auto simp: log_append_def)
  then have "prefix (events log) (events log')" using b(3) by (metis prefix_order.trans)
  then have "take (length (events log)) (events log') = events log" by (auto simp: prefix_def)
  moreover have "wf_log log'" using log' w2 wf_append by blast
  ultimately show ?thesis using b(1,2) unfolding s by (simp add: ctx_def assms(5))
qed

text \<open>A first message in a fresh session.\<close>

definition demo_env :: turn_env where
  "demo_env = \<lparr>te_ser = (\<lambda>_. []), te_now = 9, te_working_dir = ''/w'', te_os = ''linux'', te_date = ''d'',
     te_components = (\<lambda>s. [s]), te_display = concat, te_digest = length, te_read = (\<lambda>_. None)\<rparr>"

definition demo_input :: turn_input where
  "demo_input = \<lparr>ti_text = ''hello there'', ti_images = [], ti_source = Human, ti_rewind = None, ti_turn_id = 1, ti_model = ''m'',
     ti_mode = ReadOnly, ti_planning = False, ti_long_term = Some ''lt'', ti_expansion = None, ti_session_refs = [],
     ti_file_refs = [], ti_hook_context = []\<rparr>"

theorem one_snapshot_each_witness:
  "let log = snd (record_message demo_env demo_input (snd (record_message demo_env demo_input (new_in 7 ''t'' None 0 0))))
   in length (filter (\<lambda>e. se_context e = Some RuntimeContext) (derive_surface (\<lambda>_. []) (events log))) \<le> 1"
proof -
  have s: "te_ser demo_env = (\<lambda>_. [])" by (simp add: demo_env_def)
  have "(history_step (\<lambda>_. []))\<^sup>*\<^sup>* (new_in 7 ''t'' None 0 0)
      (snd (record_message demo_env demo_input (snd (record_message demo_env demo_input (new_in 7 ''t'' None 0 0)))))"
    using history_step.Message [OF s] by (meson r_into_rtranclp rtranclp_trans)
  from one_snapshot_each [OF this, of RuntimeContext] show ?thesis
    by (simp add: Let_def snapshot_sources_def)
qed

theorem send_appends_message_witness:
  "let log' = snd (record_message demo_env demo_input (new_in 7 ''t'' None 0 0))
   in content (se_message (last (derive_surface (\<lambda>_. []) (events log')))) = ''hello there''"
proof -
  let ?log = "new_in 7 ''t'' None 0 0"
  obtain q log' where r: "record_message demo_env demo_input ?log = (q, log')" by fastforce
  have s: "te_ser demo_env = (\<lambda>_. [])" by (simp add: demo_env_def)
  have "derive_surface (\<lambda>_. []) (events ?log) = []"
    by (simp add: new_in_def log_append_def derive_surface_def derive_state_def surface_step_def entry_of_def)
  then have "one_each (te_ser demo_env) ?log" by (simp add: one_each_def ctx_def s)
  from send_appends_message [OF wf_new_in this r refl refl] show ?thesis
    unfolding r Let_def snd_conv s by (simp add: demo_input_def message_user_with_images_def message_base_def message_user_def)
qed

end
