(* ===== verification/Turn_Slots.thy ===== *)
theory Turn_Slots
  imports Goals Inbox_Queue Turn_Context
begin

text \<open>
  Who runs next: the turn slot of a session (\<open>ChatHub::active_turns\<close> in
  \<open>src/crates/backend/src/chat.rs\<close>) together with its inbox and its goal. Sends, steers, edits of
  the queue, the start of a turn, its hops, its end and the stop button are functions on one
  record; each runs under the slot lock the way the code holds it. A start that was asked for and
  has not reached its turn yet waits in \<open>hb_starting\<close>, so other operations can come between.
\<close>

section \<open>State\<close>

text \<open>Text, images, source, and the prompt a re-run rewinds to.\<close>

type_synonym turn_request = "string \<times> UserImage list \<times> TurnSource \<times> nat option"

text \<open>The slot holds the marker of its turn and whether its token was cancelled.\<close>

record Hub =
  hb_active :: "(nat \<times> bool) option"
  hb_inbox :: Inbox
  hb_goal :: GoalState
  hb_next_marker :: nat
  hb_starting :: "turn_request list"

definition hub_new :: "GoalState \<Rightarrow> Hub" where
  "hub_new gs = \<lparr>hb_active = None, hb_inbox = inbox_new, hb_goal = gs, hb_next_marker = 1, hb_starting = []\<rparr>"

definition ask_start :: "turn_request \<Rightarrow> Hub \<Rightarrow> Hub" where
  "ask_start r hub = hub\<lparr>hb_starting := hb_starting hub @ [r]\<rparr>"

section \<open>The queue\<close>

datatype queue_event = InboxChanged nat string | QueueChanged "QueuedDump list"

datatype queue_error = EmptyText | LeftQueue | NothingRunning | HasImages

definition publish_queue :: "QueuedDump list \<Rightarrow> string \<Rightarrow> nat \<times> queue_event list" where
  "publish_queue rows word =
     (wrap_u32 (length rows), [InboxChanged (wrap_u32 (length rows)) word, QueueChanged rows])"

definition enqueue :: "nat \<Rightarrow> Inbound \<Rightarrow> Hub \<Rightarrow> (nat \<times> queue_event list) \<times> Hub" where
  "enqueue sid item hub =
     (let (rows, ib) = inbox_push (hb_inbox hub) sid item
      in (publish_queue rows (accepted item), hub\<lparr>hb_inbox := ib\<rparr>))"

definition send_user_message :: "nat \<Rightarrow> string \<Rightarrow> UserImage list \<Rightarrow> Hub \<Rightarrow> queue_event list \<times> Hub" where
  "send_user_message sid text imgs hub =
     (if hb_active hub \<noteq> None
      then (let (p, hub') = enqueue sid (Inbound.Followup text imgs) hub in (snd p, hub'))
      else ([], ask_start (text, imgs, Human, None) hub))"

definition steer_turn :: "nat \<Rightarrow> string \<Rightarrow> Hub \<Rightarrow> queue_event list \<times> Hub" where
  "steer_turn sid text hub =
     (if trim text = [] then ([], hub)
      else if hb_active hub = None then ([], ask_start (text, [], Human, None) hub)
      else (let (p, hub') = enqueue sid (Steer text) hub in (snd p, hub')))"

definition inject_context :: "nat \<Rightarrow> string \<Rightarrow> Hub \<Rightarrow> queue_event list \<times> Hub" where
  "inject_context sid text hub =
     (if trim text = [] then ([], hub)
      else (let (p, hub') = enqueue sid (Inject text Injected) hub in (snd p, hub')))"

definition edit_queued :: "nat \<Rightarrow> nat \<Rightarrow> string \<Rightarrow> Hub \<Rightarrow> (queue_error + queue_event list) \<times> Hub" where
  "edit_queued sid i text hub =
     (if trim text = [] then (Inl EmptyText, hub)
      else (case inbox_edit (hb_inbox hub) sid i text of
              (False, ib) \<Rightarrow> (Inl LeftQueue, hub)
            | (True, ib) \<Rightarrow> (Inr (snd (publish_queue (inbox_rows ib sid) ''edited'')), hub\<lparr>hb_inbox := ib\<rparr>)))"

definition remove_queued :: "nat \<Rightarrow> nat \<Rightarrow> Hub \<Rightarrow> (queue_error + queue_event list) \<times> Hub" where
  "remove_queued sid i hub =
     (case inbox_remove (hb_inbox hub) sid i of
        (None, ib) \<Rightarrow> (Inl LeftQueue, hub)
      | (Some _, ib) \<Rightarrow> (Inr (snd (publish_queue (inbox_rows ib sid) ''removed'')), hub\<lparr>hb_inbox := ib\<rparr>))"

definition steer_queued :: "nat \<Rightarrow> nat \<Rightarrow> Hub \<Rightarrow> (queue_error + queue_event list) \<times> Hub" where
  "steer_queued sid i hub =
     (if hb_active hub = None then (Inl NothingRunning, hub)
      else if list_ex (\<lambda>r. qd_id r = i \<and> qd_images r > 0) (inbox_rows (hb_inbox hub) sid) then (Inl HasImages, hub)
      else (case inbox_remove (hb_inbox hub) sid i of
              (Some (Inbound.Followup text _), ib) \<Rightarrow>
                let ib' = snd (inbox_push ib sid (Steer text))
                in (Inr (snd (publish_queue (inbox_rows ib' sid) ''steered'')), hub\<lparr>hb_inbox := ib'\<rparr>)
            | (_, ib) \<Rightarrow> (Inl LeftQueue, hub\<lparr>hb_inbox := ib\<rparr>)))"

section \<open>Turns\<close>

definition edit_prompt :: "json_printer \<Rightarrow> nat \<Rightarrow> string \<Rightarrow> Hub \<Rightarrow> (edit_error + unit) \<times> Hub" where
  "edit_prompt ser q text hub =
     (case edit_user_message ser (hb_active hub \<noteq> None) (gs_log (hb_goal hub)) q text of
        Inl e \<Rightarrow> (Inl e, hub)
      | Inr imgs \<Rightarrow> (Inr (), ask_start (text, imgs, Human, Some q) hub))"

text \<open>
  The slot side of \<open>start_turn\<close>: without a connected model, or when a hook refuses the prompt,
  the slot is released; otherwise the message is recorded and the turn takes the slot, under a
  fresh marker and a fresh token.
\<close>

definition start_turn :: "turn_env \<Rightarrow> bool \<Rightarrow> bool \<Rightarrow> turn_input \<Rightarrow> Hub \<Rightarrow> bool \<times> Hub" where
  "start_turn env connected denied inp hub =
     (if \<not> connected \<or> denied then (False, hub\<lparr>hb_active := None\<rparr>)
      else let log = snd (record_message env inp (gs_log (hb_goal hub)))
           in (True, hub\<lparr>hb_goal := (hb_goal hub)\<lparr>gs_log := log\<rparr>,
                         hb_active := Some (hb_next_marker hub, False),
                         hb_next_marker := hb_next_marker hub + 1\<rparr>))"

definition request_input :: "turn_input \<Rightarrow> turn_request \<Rightarrow> turn_input" where
  "request_input inp r =
     (case r of (text, imgs, src, rw) \<Rightarrow>
        inp\<lparr>ti_text := text, ti_images := imgs, ti_source := src, ti_rewind := rw\<rparr>)"

definition begin_request :: "turn_env \<Rightarrow> bool \<Rightarrow> bool \<Rightarrow> turn_input \<Rightarrow> nat \<Rightarrow> Hub \<Rightarrow> bool \<times> Hub" where
  "begin_request env connected denied inp k hub =
     start_turn env connected denied (request_input inp (hb_starting hub ! k))
       (hub\<lparr>hb_starting := remove_at k (hb_starting hub)\<rparr>)"

text \<open>At each hop the running turn takes what arrived for it.\<close>

definition apply_inbound :: "int \<Rightarrow> SessionLog \<Rightarrow> Inbound \<Rightarrow> SessionLog" where
  "apply_inbound now log item =
     (case item of
        Steer text \<Rightarrow> log_append log now (UserMessage Append text [])
      | Inject text src \<Rightarrow> log_append log now (ContextInjected Append src text)
      | Inbound.Followup _ _ \<Rightarrow> log)"

definition hop_start :: "int \<Rightarrow> nat \<Rightarrow> Hub \<Rightarrow> Hub" where
  "hop_start now sid hub =
     (let (items, ib) = drain_mid_turn (hb_inbox hub) sid
      in hub\<lparr>hb_inbox := ib, hb_goal := (hb_goal hub)\<lparr>gs_log := foldl (apply_inbound now) (gs_log (hb_goal hub)) items\<rparr>\<rparr>)"

definition round_prompt :: "Goal \<Rightarrow> string" where
  "round_prompt g =
     ''<goal_round>'' @ [CHR 0x0A] @ ''Objective: '' @ g_objective g @ [CHR 0x0A]
     @ ''Round '' @ dec (rounds_started g) @ '' of '' @ dec (max_rounds g) @ ''.'' @ [CHR 0x0A, CHR 0x0A]
     @ ''Continue working toward the objective in this same session. Treat the current workspace, your tool results and the durable session state as authoritative: inspect them instead of assuming earlier narration is still true. Make concrete progress and verify the result with a tool before you describe it.''
     @ [CHR 0x0A, CHR 0x0A] @ ''When the objective is genuinely met, call `update-goal` with revision '' @ dec (g_revision g)
     @ '', action `complete`, and a note naming the evidence. If something outside your reach makes it impossible, use action `block` with the specific blocker. Otherwise just keep working ''
     @ em_dash @ '' another round will follow.'' @ [CHR 0x0A] @ ''</goal_round>''"

text \<open>
  The end of the turn with marker \<open>m\<close>; \<open>auto_cont\<close> is the prompt of the completion check. The slot
  stays taken when another turn follows, and is given back only when nothing does.
\<close>

definition turn_over :: "int \<Rightarrow> nat \<Rightarrow> nat \<Rightarrow> string option \<Rightarrow> Hub \<Rightarrow> turn_request option \<times> Hub" where
  "turn_over now sid m auto_cont hub =
     (let mine = (case hb_active hub of Some (m', _) \<Rightarrow> m' = m | None \<Rightarrow> False);
          cancelled = (case hb_active hub of Some (m', c) \<Rightarrow> m' = m \<and> c | None \<Rightarrow> False);
          (followup, ib) = (if mine then take_followup (hb_inbox hub) sid else (None, hb_inbox hub));
          (nxt, gs) = turn_end now mine followup cancelled auto_cont (hb_goal hub);
          hub' = hub\<lparr>hb_inbox := ib, hb_goal := gs,
                     hb_active := (if mine \<and> nxt = Idle then None else hb_active hub)\<rparr>
      in case nxt of
           FollowupTurn text imgs \<Rightarrow> (Some (text, imgs, TurnSource.Followup, None), hub')
         | AutoContinueTurn p \<Rightarrow> (Some (p, [], AutoContinue, None), hub')
         | GoalRoundTurn g \<Rightarrow> (Some (round_prompt g, [], GoalRound, None), hub')
         | Idle \<Rightarrow> (None, hub'))"

definition interrupt_session :: "nat \<Rightarrow> Hub \<Rightarrow> Hub" where
  "interrupt_session sid hub =
     hub\<lparr>hb_active := map_option (\<lambda>(m, c). (m, True)) (hb_active hub),
         hb_goal := disarm (hb_goal hub),
         hb_inbox := snd (drain_mid_turn (hb_inbox hub) sid)\<rparr>"

text \<open>A due reminder claims a free slot before its turn is started.\<close>

definition claim_slot :: "string \<Rightarrow> Hub \<Rightarrow> bool \<times> Hub" where
  "claim_slot text hub =
     (if hb_active hub \<noteq> None then (False, hub\<lparr>hb_next_marker := hb_next_marker hub + 1\<rparr>)
      else (True, ask_start (text, [], ScheduleTurn, None)
              (hub\<lparr>hb_active := Some (hb_next_marker hub, False), hb_next_marker := hb_next_marker hub + 1\<rparr>)))"

section \<open>A waiting message always has a turn to wait for\<close>

abbreviation waiting :: "nat \<Rightarrow> Hub \<Rightarrow> (string \<times> UserImage list) list" where
  "waiting sid hub \<equiv> inbox_fups sid (hb_inbox hub)"

inductive hub_step :: "nat \<Rightarrow> Hub \<Rightarrow> Hub \<Rightarrow> bool" for sid where
  Send: "hub_step sid hub (snd (send_user_message sid text imgs hub))"
| SteerT: "hub_step sid hub (snd (steer_turn sid text hub))"
| InjectC: "hub_step sid hub (snd (inject_context sid text hub))"
| EditQ: "hub_step sid hub (snd (edit_queued sid i text hub))"
| RemoveQ: "hub_step sid hub (snd (remove_queued sid i hub))"
| SteerQ: "hub_step sid hub (snd (steer_queued sid i hub))"
| EditPrompt: "hub_step sid hub (snd (edit_prompt ser q text hub))"
| Begin: "k < length (hb_starting hub) \<Longrightarrow> hub_step sid hub (snd (begin_request env True False inp k hub))"
| Hop: "hub_step sid hub (hop_start now sid hub)"
| Over: "turn_over now sid m auto_cont hub = (r, hub') \<Longrightarrow>
     hub_step sid hub (case r of Some req \<Rightarrow> ask_start req hub' | None \<Rightarrow> hub')"
| Stop: "hub_step sid hub (interrupt_session sid hub)"
| Reminder: "hub_step sid hub (snd (claim_slot text hub))"

definition slot_inv :: "nat \<Rightarrow> Hub \<Rightarrow> bool" where
  "slot_inv sid hub \<longleftrightarrow> (waiting sid hub \<noteq> [] \<longrightarrow> hb_active hub \<noteq> None)"

lemma fups_push_mid: "\<not> is_followup i \<Longrightarrow> inbox_fups sid (snd (inbox_push ib sid i)) = inbox_fups sid ib"
  by (simp add: inbox.fups_push followup_of_empty)

lemma fups_nil: "inbox_fups sid ib = [] \<longleftrightarrow> (\<forall>e \<in> set (queue_of ib sid). \<not> is_followup (q_item e))"
proof
  assume n: "inbox_fups sid ib = []"
  show "\<forall>e \<in> set (queue_of ib sid). \<not> is_followup (q_item e)"
  proof
    fix e assume "e \<in> set (queue_of ib sid)"
    then have "followup_of (q_item e) = []" using n by (auto simp: inbox_fups_def)
    then show "\<not> is_followup (q_item e)" by (cases "q_item e") auto
  qed
qed (rule inbox_fups_none)

lemma queue_of_Some: "queues ib sid = Some q \<Longrightarrow> queue_of ib sid = q"
  by (simp add: queue_of_def)

lemma edit_no_followup:
  assumes "inbox_fups sid ib = []" shows "inbox_edit ib sid i t = (False, ib)"
proof (cases "queues ib sid")
  case (Some q)
  then have "\<forall>e \<in> set q. \<not> is_followup (q_item e)" using assms queue_of_Some unfolding fups_nil by blast
  then have "\<not> is_followup (q_item (q ! k))" if "position P q = Some k" for P k
    using position_bound [OF that] by simp
  then show ?thesis using Some
    by (auto simp: inbox_edit_def split: option.splits Inbound.splits) (metis is_followup.simps(1))+
qed (simp add: inbox_edit_def)

lemma remove_no_followup:
  assumes "inbox_fups sid ib = []" shows "inbox_remove ib sid i = (None, ib)"
proof (cases "queues ib sid")
  case (Some q)
  then have "\<forall>e \<in> set q. \<not> is_followup (q_item e)" using assms queue_of_Some unfolding fups_nil by blast
  then have "position (\<lambda>e. q_id e = i \<and> is_followup (q_item e)) q = None" by (simp add: position_None)
  then show ?thesis using Some by (simp add: inbox_remove_def)
qed (simp add: inbox_remove_def)

lemma push_parts: "(case inbox_push ib sid i of (rows, ib') \<Rightarrow> f rows ib') = f (fst (inbox_push ib sid i)) (snd (inbox_push ib sid i))"
  by (simp add: split_beta)

lemma enqueue_snd: "snd (enqueue sid i hub) = hub\<lparr>hb_inbox := snd (inbox_push (hb_inbox hub) sid i)\<rparr>"
  by (simp add: enqueue_def split_beta)

lemma decide_Idle: "fst (turn_end now True followup c a gs) = Idle \<Longrightarrow> followup = None"
  by (auto simp: turn_end_def decide_next_def split: option.splits if_splits prod.splits NextTurn.splits)

lemma turn_end_followup: "turn_end now True (Some (t, imgs)) c a gs = (FollowupTurn t imgs, gs)"
  by (simp add: turn_end_def decide_next_def)

lemma turn_over_mine:
  assumes "hb_active hub = Some (m, c)" and "turn_over now sid m auto_cont hub = (r, hub')"
  shows "case waiting sid hub of
      (t, imgs) # rest \<Rightarrow> r = Some (t, imgs, TurnSource.Followup, None) \<and> hb_active hub' = Some (m, c) \<and> waiting sid hub' = rest
        \<and> hb_goal hub' = hb_goal hub
    | [] \<Rightarrow> waiting sid hub' = [] \<and> (r = None \<longleftrightarrow> hb_active hub' = None)
        \<and> (c \<and> r = None \<longrightarrow> \<not> gs_armed (hb_goal hub')) \<and> (c \<longrightarrow> r = None)"
proof -
  obtain f ib where t: "take_followup (hb_inbox hub) sid = (f, ib)" by fastforce
  obtain nxt gs where e: "turn_end now True f c auto_cont (hb_goal hub) = (nxt, gs)" by fastforce
  have f: "f = (case waiting sid hub of [] \<Rightarrow> None | x # _ \<Rightarrow> Some x)" and ib: "inbox_fups sid ib = tl (waiting sid hub)"
    using inbox.take_out [of "hb_inbox hub" sid] inbox.fups_take [of sid "hb_inbox hub"] t by simp_all
  have o: "(r, hub') = (let hub' = hub\<lparr>hb_inbox := ib, hb_goal := gs, hb_active := (if nxt = Idle then None else hb_active hub)\<rparr>
      in case nxt of
           FollowupTurn text imgs \<Rightarrow> (Some (text, imgs, TurnSource.Followup, None), hub')
         | AutoContinueTurn p \<Rightarrow> (Some (p, [], AutoContinue, None), hub')
         | GoalRoundTurn g \<Rightarrow> (Some (round_prompt g, [], GoalRound, None), hub')
         | Idle \<Rightarrow> (None, hub'))"
    using assms t e by (cases nxt) (simp_all add: turn_over_def Let_def)
  show ?thesis
  proof (cases "waiting sid hub")
    case Nil
    have "c \<Longrightarrow> nxt = Idle \<and> \<not> gs_armed gs"
      using e f Nil by (simp add: turn_end_def decide_next_def) (metis GoalState.select_convs(3) GoalState.surjective GoalState.update_convs(3) prod.inject)
    then show ?thesis using o Nil ib assms(1) by (cases nxt) (auto simp: Let_def)
  next
    case (Cons x rest)
    then obtain tx im where x: "x = (tx, im)" by fastforce
    then have "nxt = FollowupTurn tx im" "gs = hb_goal hub" using e f Cons turn_end_followup by auto
    then show ?thesis using o Cons x ib assms(1) by (simp add: Let_def)
  qed
qed

lemma turn_over_foreign:
  assumes "\<forall>c. hb_active hub \<noteq> Some (m, c)"
  shows "turn_over now sid m auto_cont hub = (None, hub)"
proof -
  have "(case hb_active hub of Some (m', _) \<Rightarrow> m' = m | None \<Rightarrow> False) = False"
    "(case hb_active hub of Some (m', c) \<Rightarrow> m' = m \<and> c | None \<Rightarrow> False) = False"
    using assms by (auto split: option.split)
  then show ?thesis by (simp add: turn_over_def turn_end_def decide_next_def Let_def)
qed

lemma start_turn_admitted:
  "hb_active (snd (start_turn env True False inp hub)) = Some (hb_next_marker hub, False)
   \<and> hb_inbox (snd (start_turn env True False inp hub)) = hb_inbox hub"
  by (simp add: start_turn_def Let_def)

lemma slot_inv_step: "hub_step sid hub hub' \<Longrightarrow> slot_inv sid hub \<Longrightarrow> slot_inv sid hub'"
proof (induction rule: hub_step.induct)
  case (Send hub t imgs)
  then show ?case by (auto simp: send_user_message_def slot_inv_def ask_start_def enqueue_snd split_beta)
next
  case (SteerT hub t)
  then show ?case
    by (auto simp: steer_turn_def slot_inv_def ask_start_def enqueue_snd split_beta fups_push_mid)
next
  case (InjectC hub t)
  then show ?case by (auto simp: inject_context_def slot_inv_def enqueue_snd split_beta fups_push_mid)
next
  case (EditQ hub i t)
  then show ?case
    by (cases "inbox_edit (hb_inbox hub) sid i t"; cases "waiting sid hub = []")
      (auto simp: edit_queued_def slot_inv_def edit_no_followup split: bool.splits)
next
  case (RemoveQ hub i)
  then show ?case
    by (cases "inbox_remove (hb_inbox hub) sid i"; cases "waiting sid hub = []")
      (auto simp: remove_queued_def slot_inv_def remove_no_followup split: option.splits)
next
  case (SteerQ hub i)
  then show ?case
    by (cases "inbox_remove (hb_inbox hub) sid i")
      (auto simp: steer_queued_def slot_inv_def Let_def split: option.splits Inbound.splits)
next
  case (EditPrompt hub ser q t)
  then show ?case by (auto simp: edit_prompt_def slot_inv_def ask_start_def split: sum.splits)
next
  case (Begin k hub env inp)
  then show ?case using start_turn_admitted by (simp add: begin_request_def slot_inv_def)
next
  case (Hop hub now)
  then show ?case using inbox.fups_drain [of sid "hb_inbox hub"] by (simp add: hop_start_def slot_inv_def split_beta)
next
  case (Over now m auto_cont hub r hub')
  show ?case
  proof (cases "\<exists>c. hb_active hub = Some (m, c)")
    case True
    then obtain c where "hb_active hub = Some (m, c)" by blast
    from turn_over_mine [OF this Over(1)] show ?thesis
      by (auto simp: slot_inv_def ask_start_def split: list.splits option.splits)
  next
    case False
    then show ?thesis using Over turn_over_foreign [of hub m] by (auto simp: slot_inv_def)
  qed
next
  case (Stop hub)
  then show ?case using inbox.fups_drain [of sid "hb_inbox hub"] by (auto simp: interrupt_session_def slot_inv_def)
next
  case (Reminder hub t)
  then show ?case by (auto simp: claim_slot_def slot_inv_def ask_start_def)
qed

text \<open>
  A queued message always has a turn to wait for. However sends, steers, edits of the queue, hops,
  turn ends, stops and reminders interleave, and however long starts are delayed: as long as every
  start is admitted, no followup is ever waiting while the session's slot is free.
\<close>

theorem queued_message_has_turn:
  assumes "(hub_step sid)\<^sup>*\<^sup>* (hub_new gs) hub" and "inbox_rows (hb_inbox hub) sid \<noteq> []"
  shows "hb_active hub \<noteq> None"
proof -
  have "slot_inv sid (hub_new gs)" by (simp add: slot_inv_def hub_new_def inbox_fups_def inbox_new_def queue_of_def)
  with assms(1) have "slot_inv sid hub" by (induction rule: rtranclp_induct) (auto intro: slot_inv_step)
  moreover have "waiting sid hub \<noteq> []"
    using assms(2) dump_none unfolding inbox_rows_dump fups_nil by blast
  ultimately show ?thesis by (simp add: slot_inv_def)
qed

text \<open>Turn after turn: each turn ends, the next one starts at once.\<close>

fun run_turns :: "turn_env \<Rightarrow> turn_input \<Rightarrow> nat \<Rightarrow> (nat \<Rightarrow> string option) \<Rightarrow> nat \<Rightarrow> Hub \<Rightarrow> turn_request list \<times> Hub" where
  "run_turns env inp sid auto_cont 0 hub = ([], hub)"
| "run_turns env inp sid auto_cont (Suc n) hub =
     (case hb_active hub of
        None \<Rightarrow> ([], hub)
      | Some (m, c) \<Rightarrow>
          (case turn_over (te_now env) sid m (auto_cont m) hub of
             (None, hub') \<Rightarrow> ([], hub')
           | (Some req, hub') \<Rightarrow>
               let (reqs, hub'') = run_turns env inp sid auto_cont n
                     (snd (start_turn env True False (request_input inp req) hub'))
               in (req # reqs, hub'')))"


section \<open>A session with queued messages\<close>

definition demo_hub :: Hub where
  "demo_hub =
     (let start = (\<lambda>h. snd (begin_request demo_env True False demo_input 0 h));
          send = (\<lambda>t h. snd (send_user_message 7 t [] h))
      in send ''c'' (send ''b'' (start (send ''a'' (hub_new (new_state 5 (new_in 7 ''t'' None 0 0)))))))"

lemma demo_hub_reach: "(hub_step 7)\<^sup>*\<^sup>* (hub_new (new_state 5 (new_in 7 ''t'' None 0 0))) demo_hub"
proof -
  let ?h0 = "hub_new (new_state 5 (new_in 7 ''t'' None 0 0))"
  have "0 < length (hb_starting (snd (send_user_message 7 ''a'' [] ?h0)))"
    by (simp add: send_user_message_def hub_new_def ask_start_def)
  from hub_step.Begin [OF this] hub_step.Send show ?thesis
    unfolding demo_hub_def Let_def by (meson converse_rtranclp_into_rtranclp rtranclp.rtrancl_refl)
qed

lemma send_busy:
  assumes "hb_active hub \<noteq> None"
  shows "hb_active (snd (send_user_message sid t imgs hub)) = hb_active hub"
    and "hb_inbox (snd (send_user_message sid t imgs hub)) = snd (inbox_push (hb_inbox hub) sid (Inbound.Followup t imgs))"
  using assms by (simp_all add: send_user_message_def enqueue_snd split_beta)

lemma demo_hub_slot: "hb_active demo_hub = Some (Suc 0, False)"
    and demo_hub_queue: "queue_of (hb_inbox demo_hub) 7 =
      [\<lparr>q_id = Suc 0, q_item = Inbound.Followup ''b'' []\<rparr>, \<lparr>q_id = 2, q_item = Inbound.Followup ''c'' []\<rparr>]"
proof -
  let ?h0 = "hub_new (new_state 5 (new_in 7 ''t'' None 0 0))"
  define h1 where "h1 = snd (begin_request demo_env True False demo_input 0 (snd (send_user_message 7 ''a'' [] ?h0)))"
  have h1: "hb_active h1 = Some (Suc 0, False)" "hb_inbox h1 = inbox_new"
    using start_turn_admitted unfolding h1_def
    by (simp_all add: begin_request_def) (simp_all add: send_user_message_def hub_new_def ask_start_def)
  have d: "demo_hub = snd (send_user_message 7 ''c'' [] (snd (send_user_message 7 ''b'' [] h1)))"
    by (simp add: demo_hub_def h1_def Let_def)
  show "hb_active demo_hub = Some (Suc 0, False)" by (simp add: d send_busy h1)
  show "queue_of (hb_inbox demo_hub) 7 =
      [\<lparr>q_id = Suc 0, q_item = Inbound.Followup ''b'' []\<rparr>, \<lparr>q_id = 2, q_item = Inbound.Followup ''c'' []\<rparr>]"
    by (simp add: d send_busy h1) (simp add: inbox_push_def inbox_new_def queue_of_def)
qed

lemma demo_hub_waiting: "waiting 7 demo_hub = [(''b'', []), (''c'', [])]"
  by (simp add: inbox_fups_def demo_hub_queue)

theorem queued_message_has_turn_witness: "inbox_rows (hb_inbox demo_hub) 7 \<noteq> [] \<and> hb_active demo_hub \<noteq> None"
proof -
  have "inbox_rows (hb_inbox demo_hub) 7 \<noteq> []" unfolding inbox_rows_dump demo_hub_queue by simp
  with queued_message_has_turn [OF demo_hub_reach this] show ?thesis by blast
qed


text \<open>
  A refused message strands the ones behind it: the end of a turn claims the first queued message,
  a hook refuses it, and its slot is released although another message is waiting.
\<close>

lemma refused_followup_strands:
  "case turn_over 0 7 (Suc 0) None demo_hub of (r, hub) \<Rightarrow>
     r = Some (''b'', [], TurnSource.Followup, None)
     \<and> waiting 7 (snd (start_turn env True True inp hub)) = [(''c'', [])]
     \<and> hb_active (snd (start_turn env True True inp hub)) = None"
proof -
  obtain r hub where o: "turn_over 0 7 (Suc 0) None demo_hub = (r, hub)" by fastforce
  from turn_over_mine [OF demo_hub_slot o] show ?thesis by (simp add: o demo_hub_waiting start_turn_def)
qed

end
