(* ===== verification/Call_Line.thy ===== *)
theory Call_Line
  imports Protocol_Types
begin

text \<open>
  The one-line tool-call contract of \<open>src/crates/agents/src/parse_tool_call.rs\<close>,
  \<open>skill 'arg' 'arg' > expectation\<close>: the skill name, the split at the expectation, the quoted
  arguments (escaped or verbatim), and the printer \<open>render\<close>. Texts are read byte by byte; every
  decision of these functions is on an ASCII character or on white space, and no byte inside a
  longer UTF-8 character is either.
\<close>

section \<open>Calls\<close>

record ToolCall =
  tc_skill :: string
  tc_raw_args :: "string list"
  tc_expectation :: string
  tc_args_json :: "json option"
  tc_named :: "(string \<times> string) list"

definition plain_call :: "string \<Rightarrow> string list \<Rightarrow> string \<Rightarrow> ToolCall" where
  "plain_call skill args expectation =
     \<lparr>tc_skill = skill, tc_raw_args = args, tc_expectation = expectation,
      tc_args_json = None, tc_named = []\<rparr>"

abbreviation quote :: char where "quote \<equiv> CHR 0x27"
abbreviation dquote :: char where "dquote \<equiv> CHR 0x22"
abbreviation backslash :: char where "backslash \<equiv> CHR 0x5C"

definition is_quote :: "char \<Rightarrow> bool" where
  "is_quote c = (c = quote \<or> c = dquote)"

definition is_lower :: "char \<Rightarrow> bool" where
  "is_lower c = (97 \<le> (of_char c :: nat) \<and> (of_char c :: nat) \<le> 122)"

definition is_upper :: "char \<Rightarrow> bool" where
  "is_upper c = (65 \<le> (of_char c :: nat) \<and> (of_char c :: nat) \<le> 90)"

definition is_name_char :: "char \<Rightarrow> bool" where
  "is_name_char c = (is_lower c \<or> is_digit c \<or> c = CHR ''-'')"

definition is_ascii_whitespace :: "char \<Rightarrow> bool" where
  "is_ascii_whitespace c = (c \<in> {CHR '' '', CHR 0x09, CHR 0x0A, CHR 0x0C, CHR 0x0D})"

section \<open>Skill name and expectation\<close>

definition is_valid_skill_name :: "string \<Rightarrow> bool" where
  "is_valid_skill_name s = (case s of [] \<Rightarrow> False | c # cs \<Rightarrow> is_lower c \<and> list_all is_name_char cs)"

definition take_skill_name :: "string \<Rightarrow> (string \<times> string) option" where
  "take_skill_name s =
     (case s of
        [] \<Rightarrow> None
      | c # cs \<Rightarrow>
          if \<not> is_lower c then None
          else let rest = dropWhile is_name_char cs
               in if rest \<noteq> [] \<and> ws_head rest > 0
                  then Some (c # takeWhile is_name_char cs, rest) else None)"

text \<open>
  The scan for the separator: the open quote, whether the last byte was a backslash inside a quote,
  the previous byte, the bytes left; the result is the index of the \<open>>\<close>.
\<close>

fun expectation_at :: "char option \<Rightarrow> bool \<Rightarrow> char option \<Rightarrow> string \<Rightarrow> nat option" where
  "expectation_at q esc prev [] = None"
| "expectation_at q esc prev (b # bs) =
     (if esc then map_option Suc (expectation_at q False (Some b) bs)
      else case q of
        Some q' \<Rightarrow>
          if b = backslash then map_option Suc (expectation_at q True (Some b) bs)
          else if b = q' then map_option Suc (expectation_at None False (Some b) bs)
          else map_option Suc (expectation_at q False (Some b) bs)
      | None \<Rightarrow>
          if is_quote b then map_option Suc (expectation_at (Some b) False (Some b) bs)
          else if b = CHR ''>'' \<and> (case prev of None \<Rightarrow> False | Some p \<Rightarrow> is_ascii_whitespace p)
                  \<and> bs \<noteq> [] \<and> is_ascii_whitespace (hd bs)
          then Some 0
          else map_option Suc (expectation_at None False (Some b) bs))"

definition split_on_expectation :: "string \<Rightarrow> (string \<times> string) option" where
  "split_on_expectation s =
     map_option (\<lambda>i. (trim_end (take i s), trim_start (drop (Suc i) s))) (expectation_at None False None s)"

text \<open>Whether the first line leaves a quote open; a backslash inside a quote skips a byte.\<close>

fun open_quote :: "char option \<Rightarrow> string \<Rightarrow> char option" where
  "open_quote q [] = q"
| "open_quote (Some q) (b # bs) =
     (if b = backslash then (case bs of [] \<Rightarrow> Some q | _ # cs \<Rightarrow> open_quote (Some q) cs)
      else if b = q then open_quote None bs else open_quote (Some q) bs)"
| "open_quote None (b # bs) = (if is_quote b then open_quote (Some b) bs else open_quote None bs)"

definition quote_open_at_eol :: "string \<Rightarrow> bool" where
  "quote_open_at_eol s = (open_quote None (takeWhile (\<lambda>c. c \<noteq> CHR 0x0A) s) \<noteq> None)"

section \<open>Quoted arguments\<close>

definition unescape :: "char \<Rightarrow> string" where
  "unescape e =
     (if e = CHR ''n'' then [CHR 0x0A] else if e = CHR ''t'' then [CHR 0x09]
      else if e = CHR ''r'' then [CHR 0x0D]
      else if e = backslash \<or> e = quote \<or> e = dquote then [e]
      else [backslash, e])"

text \<open>The body of a quoted argument after its opening quote, and what follows the closing one.\<close>

fun quoted :: "char \<Rightarrow> string \<Rightarrow> (string \<times> string) option" where
  "quoted q [] = None"
| "quoted q (c # cs) =
     (if c = backslash
      then (case cs of [] \<Rightarrow> None | e # es \<Rightarrow> map_option (apfst (append (unescape e))) (quoted q es))
      else if c = q then Some ([], cs)
      else map_option (apfst (Cons c)) (quoted q cs))"

lemma quoted_shorter: "quoted q s = Some (b, r) \<Longrightarrow> length r < length s"
  by (induction q s arbitrary: b r rule: quoted.induct)
     (fastforce split: if_splits list.splits)+

function tokenize_loop :: "string \<Rightarrow> string list option" where
  "tokenize_loop s =
     (if s = [] then Some []
      else if ws_head s > 0 then tokenize_loop (drop (ws_head s) s)
      else if is_quote (hd s)
      then (case quoted (hd s) (tl s) of
              None \<Rightarrow> None
            | Some (b, r) \<Rightarrow> map_option (Cons b) (tokenize_loop r))
      else Some [trim s])"
  by pat_completeness auto
termination
proof (relation "measure length", goal_cases)
  case (3 s x b r)
  then have "quoted (hd s) (tl s) = Some (b, r)" by simp
  from quoted_shorter [OF this] show ?case by simp
qed (auto simp: length_greater_0_conv)

declare tokenize_loop.simps [simp del]

definition tokenize_args :: "string \<Rightarrow> string list option" where
  "tokenize_args args_part = tokenize_loop (trim args_part)"

definition escape_arg :: "char \<Rightarrow> string" where
  "escape_arg c =
     (if c = backslash then [backslash, backslash] else if c = quote then [backslash, quote]
      else if c = CHR 0x0A then [backslash, CHR ''n''] else if c = CHR 0x09 then [backslash, CHR ''t'']
      else [c])"

definition render_args :: "string list \<Rightarrow> string" where
  "render_args args = concat (map (\<lambda>a. CHR '' '' # quote # concat (map escape_arg a) @ [quote]) args)"

definition render_call :: "string \<Rightarrow> string list \<Rightarrow> string" where
  "render_call skill args = skill @ render_args args"

section \<open>The strict line\<close>

definition parse_line :: "string \<Rightarrow> ToolCall option" where
  "parse_line l =
     (let line = trim l
      in if line = [] then None
         else case take_skill_name line of
           None \<Rightarrow> None
         | Some (skill, rest) \<Rightarrow>
             (case split_on_expectation (trim_start rest) of
                None \<Rightarrow> None
              | Some (args_part, expectation) \<Rightarrow>
                  map_option (\<lambda>args. plain_call skill args (trim expectation)) (tokenize_args args_part)))"

definition first_line_of :: "string \<Rightarrow> string" where
  "first_line_of s = (case str_lines s of [] \<Rightarrow> [] | l # _ \<Rightarrow> l)"

definition parse_multiline :: "string \<Rightarrow> ToolCall option" where
  "parse_multiline s =
     (case take_skill_name s of
        None \<Rightarrow> None
      | Some (skill, rest0) \<Rightarrow>
          (let rest = trim_start rest0
           in if \<not> quote_open_at_eol rest then None
              else case split_on_expectation rest of
                None \<Rightarrow> None
              | Some (args_part, expectation) \<Rightarrow>
                  map_option (\<lambda>args. plain_call skill args (trim (first_line_of expectation)))
                    (tokenize_args args_part)))"

section \<open>One argument, verbatim\<close>

fun verbatim_quoted :: "char \<Rightarrow> string \<Rightarrow> (string \<times> string) option" where
  "verbatim_quoted q [] = None"
| "verbatim_quoted q [c] = (if c = q then Some ([], []) else None)"
| "verbatim_quoted q (c # d # cs) =
     (if c = backslash \<and> d = q then map_option (apfst (Cons q)) (verbatim_quoted q cs)
      else if c = q then Some ([], d # cs)
      else map_option (apfst (Cons c)) (verbatim_quoted q (d # cs)))"

lemma verbatim_shorter: "verbatim_quoted q s = Some (b, r) \<Longrightarrow> length r < length s"
  by (induction q s arbitrary: b r rule: verbatim_quoted.induct) (fastforce split: if_splits)+

function verbatim_tokens :: "string \<Rightarrow> string list option" where
  "verbatim_tokens s =
     (if s = [] then Some []
      else if ws_head s > 0 then verbatim_tokens (drop (ws_head s) s)
      else if is_quote (hd s)
      then (case verbatim_quoted (hd s) (tl s) of
              None \<Rightarrow> None
            | Some (b, r) \<Rightarrow> map_option (Cons b) (verbatim_tokens r))
      else None)"
  by pat_completeness auto
termination
proof (relation "measure length", goal_cases)
  case (3 s x b r)
  then have "verbatim_quoted (hd s) (tl s) = Some (b, r)" by simp
  from verbatim_shorter [OF this] show ?case by simp
qed (auto simp: length_greater_0_conv)

declare verbatim_tokens.simps [simp del]

definition is_arg_name :: "string \<Rightarrow> bool" where
  "is_arg_name s =
     (case s of [] \<Rightarrow> False
      | c # cs \<Rightarrow> (is_lower c \<or> is_upper c \<or> c = CHR ''_'')
                \<and> list_all (\<lambda>c. is_lower c \<or> is_upper c \<or> is_digit c \<or> c = CHR ''_'') cs)"

fun has_ws :: "string \<Rightarrow> bool" where
  "has_ws [] = False"
| "has_ws (c # cs) = (ws_head (c # cs) > 0 \<or> has_ws cs)"

definition simple_extra :: "string \<Rightarrow> bool" where
  "simple_extra t0 =
     (let t = trim t0
      in if t = [] \<or> length t > 200 then False
         else if (case split_once (CHR ''='') t of Some (key, _) \<Rightarrow> is_arg_name (trim key) | None \<Rightarrow> False)
         then True
         else \<not> has_ws t \<and> \<not> list_ex is_quote t)"

definition peel_kv_token :: "string \<Rightarrow> (string \<times> string) option" where
  "peel_kv_token s =
     (if s = [] \<or> \<not> is_quote (last s) then None
      else let q = last s; body = butlast s
           in case rposition (\<lambda>c. c = q) body of
                None \<Rightarrow> None
              | Some opn \<Rightarrow>
                  (let inner = drop (Suc opn) body; before = take opn body; rest = trim_end before
                   in if length rest = length before \<or> \<not> (rest \<noteq> [] \<and> is_quote (last rest)) then None
                      else case split_once (CHR ''='') inner of
                             None \<Rightarrow> None
                           | Some (key, _) \<Rightarrow>
                               if is_arg_name (trim key) then Some (rest, inner) else None))"

lemma length_trim_end_take: "length (trim_end (take n s)) \<le> length s"
  using length_trim_end [of "take n s"] by simp

lemma peel_shorter:
  assumes "peel_kv_token s = Some (r, kv)"
  shows "length r < length s"
proof -
  have s: "s \<noteq> []" "is_quote (last s)"
    using assms by (auto simp: peel_kv_token_def split: if_splits)
  obtain opn where o: "rposition (\<lambda>c. c = last s) (butlast s) = Some opn"
    using assms s by (cases "rposition (\<lambda>c. c = last s) (butlast s)") (simp_all add: peel_kv_token_def)
  then have "r = trim_end (take opn (butlast s))"
    using assms s by (simp add: peel_kv_token_def Let_def split: if_splits option.splits prod.splits)
  then have "length r \<le> length (butlast s)"
    by (simp only: length_trim_end_take)
  with s(1) show ?thesis
    by (cases s rule: rev_cases) simp_all
qed

function peel_all :: "string \<Rightarrow> string list \<Rightarrow> string \<times> string list" where
  "peel_all s extras =
     (case peel_kv_token s of None \<Rightarrow> (s, extras) | Some (rest, kv) \<Rightarrow> peel_all rest (kv # extras))"
  by pat_completeness auto
termination
  by (relation "measure (\<lambda>(s, e). length s)") (auto dest: peel_shorter)

declare peel_all.simps [simp del]

definition single_span :: "string \<Rightarrow> string list option" where
  "single_span s0 =
     (case peel_all (trim s0) [] of
        (s, extras) \<Rightarrow>
          if s = [] \<or> \<not> is_quote (hd s) then None
          else if length s < 2 \<or> last s \<noteq> hd s then None
          else Some (str_replace [backslash, hd s] [hd s] (butlast (tl s)) # extras))"

definition one_arg :: "string \<Rightarrow> string list option" where
  "one_arg args_part =
     (let s = trim args_part
      in case verbatim_tokens s of
           Some tokens \<Rightarrow>
             if length tokens \<le> 1 \<or> list_all simple_extra (tl tokens) then Some tokens else single_span s
         | None \<Rightarrow> single_span s)"

text \<open>The loop from the end, \<open>i\<close> before its decrement.\<close>

fun last_quote_split :: "char \<Rightarrow> string \<Rightarrow> nat \<Rightarrow> (string \<times> string) option" where
  "last_quote_split q rest 0 = None"
| "last_quote_split q rest (Suc i) =
     (if i = 0 then None
      else if rest ! i \<noteq> q then last_quote_split q rest i
      else let after = drop (Suc i) rest; spaced = trim_start after
           in if length spaced = length after then last_quote_split q rest i
              else case strip_prefix ''>'' spaced of
                     Some expectation \<Rightarrow>
                       if ws_head expectation > 0 then Some (take (Suc i) rest, trim_start expectation)
                       else last_quote_split q rest i
                   | None \<Rightarrow> last_quote_split q rest i)"

definition split_after_last_quote :: "string \<Rightarrow> (string \<times> string) option" where
  "split_after_last_quote rest =
     (if rest = [] \<or> \<not> is_quote (hd rest) then None
      else last_quote_split (hd rest) rest (length rest))"

definition split_one_arg :: "string \<Rightarrow> (string \<times> string list) option" where
  "split_one_arg rest =
     (case Option.bind (split_on_expectation rest) (\<lambda>(args_part, expectation).
             map_option (\<lambda>args. (expectation, args)) (one_arg args_part)) of
        Some r \<Rightarrow> Some r
      | None \<Rightarrow>
          Option.bind (split_after_last_quote rest) (\<lambda>(args_part, expectation).
             map_option (\<lambda>args. (expectation, args)) (one_arg args_part)))"

definition parse_line_for :: "(string \<Rightarrow> nat option) \<Rightarrow> string \<Rightarrow> ToolCall option" where
  "parse_line_for arity l =
     (let line = trim l
      in case take_skill_name line of
           None \<Rightarrow> None
         | Some (skill, rest0) \<Rightarrow>
             if arity skill \<noteq> Some 1 then parse_line line
             else let rest = trim_start rest0
                  in map_option (\<lambda>(expectation, args). plain_call skill args (trim expectation))
                       (case split_one_arg rest of
                          Some r \<Rightarrow> Some r
                        | None \<Rightarrow> Option.bind (split_on_expectation rest) (\<lambda>(args_part, expectation).
                            map_option (\<lambda>args. (expectation, args)) (tokenize_args args_part))))"

definition parse_multiline_for :: "(string \<Rightarrow> nat option) \<Rightarrow> string \<Rightarrow> ToolCall option" where
  "parse_multiline_for arity s =
     (case take_skill_name s of
        None \<Rightarrow> None
      | Some (skill, rest0) \<Rightarrow>
          if arity skill \<noteq> Some 1 then parse_multiline s
          else let rest = trim_start rest0
               in if \<not> quote_open_at_eol rest then None
                  else case split_on_expectation rest of
                    None \<Rightarrow> None
                  | Some (args_part, expectation) \<Rightarrow>
                      map_option (\<lambda>args. plain_call skill args (trim (first_line_of expectation)))
                        (case one_arg args_part of Some a \<Rightarrow> Some a | None \<Rightarrow> tokenize_args args_part))"

definition bare_args :: "string \<Rightarrow> nat \<Rightarrow> string list option" where
  "bare_args rest n =
     (if n = 1 then one_arg rest
      else Option.bind (verbatim_tokens rest) (\<lambda>_. tokenize_args rest))"

section \<open>White space at the ends\<close>

lemma ws_head_code: "is_ws (codes [c]) \<Longrightarrow> ws_head (c # s) = Suc 0"
  by (simp add: ws_head_def)

lemma ws_head_space [simp]: "ws_head (CHR '' '' # s) = Suc 0"
  by (rule ws_head_code) (simp add: codes_def)

text \<open>A text that opens with a printable ASCII character opens with no white space.\<close>

definition is_print :: "char \<Rightarrow> bool" where
  "is_print c = (33 \<le> (of_char c :: nat) \<and> (of_char c :: nat) < 128)"

lemma ws_head_print:
  assumes "is_print c"
  shows "ws_head (c # s) = 0"
proof -
  have none: "\<not> is_ws (codes (take k (c # s)))" for k
    using assms
    by (cases "codes (take k (c # s))" rule: is_ws.cases)
       (auto simp: codes_def is_print_def take_Cons' split: if_splits)
  show ?thesis by (simp only: ws_head_def none if_False)
qed

lemma ws_last_print:
  assumes "is_print c"
  shows "ws_last (s @ [c]) = 0"
proof -
  have none: "\<not> is_ws (codes (drop k (s @ [c])))" if "k \<le> length s" for k
  proof -
    have d: "drop k (s @ [c]) = drop k s @ [c]" using that by simp
    show ?thesis
      using assms unfolding d
      by (cases "codes (drop k s @ [c])" rule: is_ws.cases)
         (auto simp: codes_def is_print_def append_eq_Cons_conv Cons_eq_append_conv)
  qed
  show ?thesis
    unfolding ws_last_def by (subst (1 2 3) none) simp_all
qed

lemma trim_start_space: "trim_start (CHR '' '' # s) = trim_start s"
  by (subst trim_start.simps) simp

lemma trim_end_space: "trim_end (s @ '' '') = trim_end s"
proof -
  have "ws_last (s @ '' '') = 1" by (simp add: ws_last_def codes_def)
  then show ?thesis by (subst trim_end.simps) simp
qed

lemma trim_fixpoint:
  assumes "trim e = e"
  shows "trim_start e = e" and "ws_head e = 0" and "ws_last e = 0"
proof -
  obtain n where n: "trim_start e = drop n e" using trim_start_suffix by blast
  have "length e \<le> length (trim_start e)"
    using assms length_trim_end [of "trim_start e"] by (simp add: trim_def)
  then have "length e \<le> length e - n" using n by simp
  then have "n = 0 \<or> length e = 0" by arith
  then have "n = 0 \<or> e = []" by simp
  with n show t: "trim_start e = e" by auto
  show "ws_head e = 0" using ws_head_trim_start [of e] t by simp
  show "ws_last e = 0" using ws_last_trim_end [of e] assms t by (simp add: trim_def)
qed

lemma ws_last_after_space:
  assumes "e \<noteq> []" and "ws_last e = 0"
  shows "ws_last ((x @ '' '') @ e) = 0"
proof -
  have none: "\<not> is_ws (codes (drop (length e - k) e))" if "k \<in> {1, 2, 3}" for k
    using assms(2) that by (auto simp: ws_last_def split: if_splits)
  have "\<not> is_ws (codes (drop (length (w @ e) - k) (w @ e)))" if k: "k \<in> {1, 2, 3}" and w: "w = x @ '' ''" for k w
  proof (cases "k \<le> length e")
    case True
    then have "drop (length (w @ e) - k) (w @ e) = drop (length e - k) e" by simp
    then show ?thesis using none [OF k] by simp
  next
    case False
    define z where "z = drop (length w - (k - length e)) x"
    have "drop (length (w @ e) - k) (w @ e) = (z @ '' '') @ e"
      using False by (simp add: z_def w)
    then show ?thesis
      using assms(1)
      by (cases "codes ((z @ '' '') @ e)" rule: is_ws.cases)
         (auto simp: codes_def append_eq_Cons_conv Cons_eq_append_conv)
  qed
  then have n: "\<not> is_ws (codes (drop (length ((x @ '' '') @ e) - k) ((x @ '' '') @ e)))" if "k \<in> {1, 2, 3}" for k
    using that by blast
  show ?thesis unfolding ws_last_def by (simp only: n insert_iff refl simp_thms if_False)
qed

section \<open>Reading a rendered call\<close>

lemma unescape_simps [simp]:
  "unescape backslash = [backslash]" "unescape quote = [quote]"
  "unescape (CHR ''n'') = [CHR 0x0A]" "unescape (CHR ''t'') = [CHR 0x09]"
  by (simp_all add: unescape_def)

lemma quoted_escape: "quoted quote (concat (map escape_arg a) @ quote # r) = Some (a, r)"
  by (induction a) (simp_all add: escape_arg_def)

lemma is_quote_simps [simp]: "is_quote quote" "\<not> is_quote (CHR '' '')" "\<not> is_quote (CHR ''>'')"
  by (simp_all add: is_quote_def)

lemma ws_head_quote [simp]: "ws_head (quote # s) = 0"
  by (rule ws_head_print) (simp add: is_print_def)

lemma tokenize_space: "tokenize_loop (CHR '' '' # s) = tokenize_loop s"
  by (subst tokenize_loop.simps) simp

lemma tokenize_rendered: "tokenize_loop (render_args args) = Some args"
proof (induction args)
  case Nil
  then show ?case by (simp add: render_args_def tokenize_loop.simps)
next
  case (Cons a args)
  have "tokenize_loop (quote # concat (map escape_arg a) @ quote # render_args args) = Some (a # args)"
    by (subst tokenize_loop.simps) (simp add: quoted_escape Cons.IH)
  then show ?case by (simp add: render_args_def tokenize_space)
qed

lemma expectation_inside:
  "expectation_at (Some quote) False p (concat (map escape_arg a) @ quote # r)
   = map_option ((+) (Suc (length (concat (map escape_arg a))))) (expectation_at None False (Some quote) r)"
proof (induction a arbitrary: p)
  case Nil
  then show ?case by (cases "expectation_at None False (Some quote) r") simp_all
next
  case (Cons c a)
  then show ?case
    by (cases "expectation_at None False (Some quote) r") (simp_all add: escape_arg_def)
qed

lemma expectation_rendered:
  "args \<noteq> [] \<Longrightarrow> expectation_at None False p (render_args args @ r)
   = map_option ((+) (length (render_args args))) (expectation_at None False (Some quote) r)"
proof (induction args arbitrary: p)
  case (Cons a args)
  have r: "render_args (a # args) = CHR '' '' # quote # concat (map escape_arg a) @ quote # render_args args"
    by (simp add: render_args_def)
  show ?case
  proof (cases "args = []")
    case True
    then show ?thesis
      unfolding r by (cases "expectation_at None False (Some quote) r")
                     (simp_all add: expectation_inside render_args_def)
  next
    case False
    with Cons.IH [of "Some quote"] show ?thesis
      unfolding r by (cases "expectation_at None False (Some quote) r") (simp_all add: expectation_inside)
  qed
qed simp

lemma rendered_shape:
  assumes "args \<noteq> []"
  obtains m where "render_args args = CHR '' '' # quote # m @ [quote]"
proof -
  have "\<exists>m. render_args args = CHR '' '' # quote # m @ [quote]"
    using assms
  proof (induction args)
    case (Cons a args)
    show ?case
    proof (cases "args = []")
      case True
      then show ?thesis by (simp add: render_args_def)
    next
      case False
      with Cons.IH obtain m where "render_args args = CHR '' '' # quote # m @ [quote]" by blast
      then have "render_args (a # args)
          = CHR '' '' # quote # (concat (map escape_arg a) @ quote # CHR '' '' # quote # m) @ [quote]"
        by (simp add: render_args_def)
      then show ?thesis by blast
    qed
  qed simp
  then show ?thesis using that by blast
qed

lemma is_print_quote [simp]: "is_print quote"
  by (simp add: is_print_def)

lemma split_rendered:
  assumes "render_args args = CHR '' '' # quote # m @ [quote]" and "args \<noteq> []" and "trim e = e"
  shows "split_on_expectation (quote # m @ quote # '' > '' @ e) = Some (quote # m @ [quote], e)"
proof -
  have tl: "expectation_at None False (Some quote) ('' > '' @ e) = Some 1"
    by (simp add: is_ascii_whitespace_def)
  have "expectation_at None False (Some (CHR '' '')) (quote # m @ quote # '' > '' @ e)
        = Some (Suc (length (quote # m @ [quote])))"
    using expectation_rendered [OF assms(2), of None "'' > '' @ e"] tl unfolding assms(1) by simp
  then have at: "expectation_at None False None (quote # m @ quote # '' > '' @ e)
        = Some (Suc (length (quote # m @ [quote])))"
    by simp
  have l: "take (Suc (length (quote # m @ [quote]))) (quote # m @ quote # '' > '' @ e) = (quote # m @ [quote]) @ '' ''"
    by simp
  have r: "drop (Suc (Suc (length (quote # m @ [quote])))) (quote # m @ quote # '' > '' @ e) = CHR '' '' # e"
    by simp
  have te: "trim_end (quote # m @ [quote]) = quote # m @ [quote]"
    using ws_last_print [of quote "quote # m"] trim_end_id [of "(quote # m) @ [quote]"] by simp
  show ?thesis
    unfolding split_on_expectation_def at option.map l r trim_end_space te trim_start_space
    using trim_fixpoint(1) [OF assms(3)] by simp
qed

lemma take_valid_name:
  assumes "is_valid_skill_name skill"
  shows "take_skill_name (skill @ CHR '' '' # r) = Some (skill, CHR '' '' # r)"
proof -
  obtain c cs where s: "skill = c # cs" "is_lower c" "list_all is_name_char cs"
    using assms by (cases skill) (auto simp: is_valid_skill_name_def)
  have "\<not> is_name_char (CHR '' '')" by (simp add: is_name_char_def is_lower_def is_digit_def)
  with s show ?thesis
    by (simp add: take_skill_name_def takeWhile_append2 dropWhile_append2 list_all_iff)
qed

lemma tokenize_shape:
  assumes "render_args args = CHR '' '' # quote # m @ [quote]"
  shows "tokenize_args (quote # m @ [quote]) = Some args"
proof -
  have "trim_start (quote # m @ [quote]) = quote # m @ [quote]"
    by (rule trim_start_id) simp
  moreover have "trim_end (quote # m @ [quote]) = quote # m @ [quote]"
    using ws_last_print [of quote "quote # m"] trim_end_id [of "(quote # m) @ [quote]"] by simp
  ultimately have "trim (quote # m @ [quote]) = quote # m @ [quote]" by (simp add: trim_def)
  then show ?thesis
    using tokenize_rendered [of args] tokenize_space unfolding assms tokenize_args_def by metis
qed

section \<open>Whole lines\<close>

text \<open>
  A rendered line parses back to its skill, arguments and expectation, whatever bytes the arguments
  hold.
\<close>

lemma parse_rendered:
  assumes "is_valid_skill_name skill" and "args \<noteq> []" and "trim e = e" and "e \<noteq> []"
  shows "parse_line (render_call skill args @ '' > '' @ e) = Some (plain_call skill args e)"
proof -
  obtain m where m: "render_args args = CHR '' '' # quote # m @ [quote]"
    using rendered_shape [OF assms(2)] by blast
  define line where "line = render_call skill args @ '' > '' @ e"
  have line: "line = skill @ CHR '' '' # (quote # m @ quote # '' > '' @ e)"
    by (simp add: line_def render_call_def m)
  obtain c cs where s: "skill = c # cs" "is_lower c"
    using assms(1) by (cases skill) (auto simp: is_valid_skill_name_def)
  have "trim_start line = line"
    unfolding line s using s(2) by (intro trim_start_id) (simp add: ws_head_print is_print_def is_lower_def)
  moreover have "trim_end line = line"
    using ws_last_after_space [OF assms(4) trim_fixpoint(3) [OF assms(3)], of "render_call skill args @ '' >''"]
    by (intro trim_end_id) (simp add: line_def del: append_assoc, simp)
  ultimately have t: "trim line = line" by (simp add: trim_def)
  have ts: "trim_start (CHR '' '' # (quote # m @ quote # '' > '' @ e)) = quote # m @ quote # '' > '' @ e"
    unfolding trim_start_space by (rule trim_start_id) simp
  have "line \<noteq> []" by (simp add: line s)
  moreover have "take_skill_name line = Some (skill, CHR '' '' # (quote # m @ quote # '' > '' @ e))"
    unfolding line by (rule take_valid_name [OF assms(1)])
  ultimately show ?thesis
    unfolding line_def [symmetric] parse_line_def Let_def t
    using ts split_rendered [OF m assms(2,3)] tokenize_shape [OF m] assms(3) by simp
qed

text \<open>
  Without arguments the separator is the first byte the scan looks at, and a separator must follow
  white space: such a line is no call.
\<close>

lemma no_argument_call_rejected: "parse_line ''job-list > what is running'' = None"
  by code_simp

lemma take_skill_name_valid: "take_skill_name s = Some (n, r) \<Longrightarrow> is_valid_skill_name n"
  by (cases s) (auto simp: take_skill_name_def is_valid_skill_name_def Let_def list_all_iff
                     dest: set_takeWhileD split: if_splits)

lemma parse_line_valid: "parse_line l = Some tc \<Longrightarrow> is_valid_skill_name (tc_skill tc)"
  by (auto simp: parse_line_def Let_def plain_call_def dest!: take_skill_name_valid
           split: if_splits option.splits)

lemma parse_multiline_valid: "parse_multiline l = Some tc \<Longrightarrow> is_valid_skill_name (tc_skill tc)"
  by (auto simp: parse_multiline_def Let_def plain_call_def dest!: take_skill_name_valid
           split: if_splits option.splits)

lemma parse_line_for_valid: "parse_line_for arity l = Some tc \<Longrightarrow> is_valid_skill_name (tc_skill tc)"
  by (auto simp: parse_line_for_def Let_def plain_call_def dest!: take_skill_name_valid dest: parse_line_valid
           split: if_splits option.splits)

lemma parse_multiline_for_valid:
  "parse_multiline_for arity l = Some tc \<Longrightarrow> is_valid_skill_name (tc_skill tc)"
  by (auto simp: parse_multiline_for_def Let_def plain_call_def dest!: take_skill_name_valid
           dest: parse_multiline_valid split: if_splits option.splits)

end
