(* ===== verification/Call_Extract.thy ===== *)
theory Call_Extract
  imports Call_Line Retain
begin

text \<open>
  Finding the tool call in a reply, \<open>src/crates/agents/src/parse_tool_call.rs\<close>: the
  \<open><tool_call>\<close> wrapper of chat templates and its parameters, the JSON fence with its lenient
  reading, the line scan (\<open>extract_known\<close>, \<open>extract_for\<close>) and the sentence that explains a
  rejected attempt. Offsets into a text are modelled by the suffix they point at. The JSON crate
  (reading, printing, the position and text of its errors), \<open>{:?}\<close> and the test for non-ASCII
  letters and digits are parameters (record \<open>json_lib\<close>).
\<close>

record json_error =
  je_line :: nat
  je_column :: nat
  je_text :: string

record json_lib =
  jl_from_str :: "string \<Rightarrow> json_error + json"
  jl_print :: "json \<Rightarrow> string"
  jl_debug :: "string \<Rightarrow> string"
  jl_alnum :: "string \<Rightarrow> bool"

section \<open>Wrapper tags\<close>

datatype XmlTag = Envelope | FunctionOpen string | FunctionClose

definition is_word_char :: "char \<Rightarrow> bool" where
  "is_word_char c = (is_lower c \<or> is_upper c \<or> is_digit c \<or> c = CHR ''_'')"

definition eq_ignore_ascii_case :: "string \<Rightarrow> string \<Rightarrow> bool" where
  "eq_ignore_ascii_case s t = (to_ascii_lowercase s = to_ascii_lowercase t)"

fun name_span :: "string \<Rightarrow> string" where
  "name_span [] = []"
| "name_span (c # cs) =
     (if ws_head (c # cs) > 0 \<or> c = CHR ''>'' \<or> c = CHR ''<'' then [] else c # name_span cs)"

text \<open>
  The tag at the start of a text, with the text after its \<open>>\<close>: the word after \<open><\<close> or \<open></\<close>, then
  the whole.
\<close>

definition tag_body :: "bool \<Rightarrow> string \<Rightarrow> (XmlTag \<times> string) option" where
  "tag_body closing s =
     (let word = takeWhile is_word_char s;
          rest = trim_start (dropWhile is_word_char s)
      in if eq_ignore_ascii_case word ''tool_call''
         then map_option (\<lambda>r. (Envelope, r)) (strip_prefix ''>'' rest)
         else if \<not> eq_ignore_ascii_case word ''function'' then None
         else if closing then map_option (\<lambda>r. (FunctionClose, r)) (strip_prefix ''>'' rest)
         else case strip_prefix ''='' rest of
                None \<Rightarrow> None
              | Some e \<Rightarrow>
                  (let after_eq = trim_start e; name = name_span after_eq
                   in if name = [] then None
                      else map_option (\<lambda>r. (FunctionOpen name, r))
                             (strip_prefix ''>'' (trim_start (drop (length name) after_eq)))))"

definition xml_tag_at :: "string \<Rightarrow> (XmlTag \<times> string) option" where
  "xml_tag_at s0 =
     (case strip_prefix ''<'' s0 of
        None \<Rightarrow> None
      | Some s1 \<Rightarrow>
          (let s = trim_start s1
           in case strip_prefix ''/'' s of
                Some r \<Rightarrow> tag_body True (trim_start r)
              | None \<Rightarrow> tag_body False s))"

text \<open>Every tag of a text, in order (\<open>match_indices('<')\<close>), with the text after it.\<close>

fun xml_tags :: "string \<Rightarrow> (XmlTag \<times> string) list" where
  "xml_tags [] = []"
| "xml_tags (c # cs) =
     (case (if c = CHR ''<'' then xml_tag_at (c # cs) else None) of
        Some t \<Rightarrow> t # xml_tags cs
      | None \<Rightarrow> xml_tags cs)"

definition function_tags :: "string \<Rightarrow> (string \<times> string) list" where
  "function_tags s =
     List.map_filter (\<lambda>(t, r). case t of FunctionOpen n \<Rightarrow> Some (n, r) | _ \<Rightarrow> None) (xml_tags s)"

definition has_xml_wrapper :: "string \<Rightarrow> bool" where
  "has_xml_wrapper s = (xml_tags s \<noteq> [])"

definition skill_spelling :: "string \<Rightarrow> string" where
  "skill_spelling name = map (\<lambda>c. if c = CHR ''_'' then CHR ''-'' else c) (trim name)"

definition wrapper_functions :: "string \<Rightarrow> string list" where
  "wrapper_functions s = map (\<lambda>(n, _). skill_spelling n) (function_tags s)"

lemma strip_prefix_length: "strip_prefix p s = Some r \<Longrightarrow> length s = length p + length r"
  by (auto simp: strip_prefix_def starts_with_iff split: if_splits)

lemma length_trim_start: "length (trim_start s) \<le> length s"
  using trim_start_suffix [of s] by auto

lemma tag_body_shorter:
  assumes "tag_body closing s = Some (t, r)"
  shows "length r \<le> length s"
proof -
  define rest where "rest = trim_start (dropWhile is_word_char s)"
  have l: "length rest \<le> length s"
    using length_trim_start [of "dropWhile is_word_char s"] length_dropWhile_le [of is_word_char s]
    by (simp add: rest_def)
  have "strip_prefix ''>'' rest = Some r
        \<or> (\<exists>e n. strip_prefix ''='' rest = Some e \<and> strip_prefix ''>'' (trim_start (drop n (trim_start e))) = Some r)"
    using assms
    by (auto simp: tag_body_def Let_def rest_def [symmetric] split: if_splits option.splits)
  then show ?thesis
  proof
    assume "strip_prefix ''>'' rest = Some r"
    from strip_prefix_length [OF this] l show ?thesis by simp
  next
    assume "\<exists>e n. strip_prefix ''='' rest = Some e \<and> strip_prefix ''>'' (trim_start (drop n (trim_start e))) = Some r"
    then obtain e n where e: "strip_prefix ''='' rest = Some e"
      and r: "strip_prefix ''>'' (trim_start (drop n (trim_start e))) = Some r" by blast
    have "length (trim_start (drop n (trim_start e))) \<le> length e"
      using length_trim_start [of "drop n (trim_start e)"] length_trim_start [of e] by simp
    with strip_prefix_length [OF e] strip_prefix_length [OF r] l show ?thesis by simp
  qed
qed

lemma xml_tag_shorter:
  assumes "xml_tag_at s = Some (t, r)"
  shows "length r < length s"
proof -
  obtain s1 where s1: "strip_prefix ''<'' s = Some s1"
    using assms by (auto simp: xml_tag_at_def split: option.splits)
  have 2: "length (trim_start s1) < length s"
    using strip_prefix_length [OF s1] length_trim_start [of s1] by simp
  show ?thesis
  proof (cases "strip_prefix ''/'' (trim_start s1)")
    case None
    with assms s1 have "tag_body False (trim_start s1) = Some (t, r)" by (simp add: xml_tag_at_def)
    from tag_body_shorter [OF this] 2 show ?thesis by simp
  next
    case (Some u)
    with assms s1 have "tag_body True (trim_start u) = Some (t, r)" by (simp add: xml_tag_at_def)
    from tag_body_shorter [OF this] 2 length_trim_start [of u] strip_prefix_length [OF Some]
    show ?thesis by simp
  qed
qed

function unwrap_loop :: "string \<Rightarrow> string" where
  "unwrap_loop s =
     (case s of
        [] \<Rightarrow> []
      | c # cs \<Rightarrow>
          (case (if c = CHR ''<'' then xml_tag_at s else None) of
             Some (FunctionOpen name, r) \<Rightarrow> skill_spelling name @ '' '' @ unwrap_loop r
           | Some (Envelope, r) \<Rightarrow> CHR 0x0A # unwrap_loop r
           | Some (FunctionClose, r) \<Rightarrow> CHR 0x0A # unwrap_loop r
           | None \<Rightarrow> c # unwrap_loop cs))"
  by pat_completeness auto
termination
  by (relation "measure length") (auto dest!: xml_tag_shorter split: if_splits)

declare unwrap_loop.simps [simp del]

definition unwrap_xml_call :: "string \<Rightarrow> string" where
  "unwrap_xml_call s = (if \<not> has_xml_wrapper s then s else unwrap_loop s)"

section \<open>Parameters of a wrapped call\<close>

definition strip_suffix :: "string \<Rightarrow> string \<Rightarrow> string option" where
  "strip_suffix pat s = (if ends_with s pat then Some (take (length s - length pat) s) else None)"

definition strip_template_breaks :: "string \<Rightarrow> string" where
  "strip_template_breaks value =
     (let v = (case strip_prefix [CHR 0x0D, CHR 0x0A] value of
                 Some w \<Rightarrow> w
               | None \<Rightarrow> (case strip_prefix [CHR 0x0A] value of Some w \<Rightarrow> w | None \<Rightarrow> value))
      in (case strip_suffix [CHR 0x0D, CHR 0x0A] v of
            Some w \<Rightarrow> w
          | None \<Rightarrow> (case strip_suffix [CHR 0x0A] v of Some w \<Rightarrow> w | None \<Rightarrow> v)))"

definition min_find :: "string list \<Rightarrow> string \<Rightarrow> nat option" where
  "min_find tags s =
     (case List.map_filter (str_find s) tags of [] \<Rightarrow> None | i # is \<Rightarrow> Some (foldl min i is))"

text \<open>One block: the key, the value and the text after it.\<close>

definition xml_param :: "string \<Rightarrow> (string \<times> string \<times> string) option" where
  "xml_param rest =
     (case strip_prefix ''<parameter='' (trim_start rest) of
        None \<Rightarrow> None
      | Some after \<Rightarrow>
          (case split_once (CHR ''>'') after of
             None \<Rightarrow> None
           | Some (k, value_on) \<Rightarrow>
               (let key = trim k;
                    vn = (case str_find value_on ''</parameter>'' of
                            Some e \<Rightarrow> (take e value_on, drop (e + length ''</parameter>'') value_on)
                          | None \<Rightarrow>
                              (let e = (case min_find [''<parameter='', ''</function>'', ''</tool_call>''] value_on of
                                          Some e \<Rightarrow> e | None \<Rightarrow> length value_on)
                               in (take e value_on, drop e value_on)))
                in if key = [] then None else Some (key, strip_template_breaks (fst vn), snd vn))))"

lemma xml_param_shorter:
  assumes "xml_param s = Some (k, v, r)"
  shows "length r < length s"
proof -
  obtain a where a: "strip_prefix ''<parameter='' (trim_start s) = Some a"
    using assms by (auto simp: xml_param_def split: option.splits)
  obtain k' b where b: "split_once (CHR ''>'') a = Some (k', b)"
    using assms a by (auto simp: xml_param_def split: option.splits)
  have "length b \<le> length a" using b by (auto simp: split_once_def)
  moreover have "length r \<le> length b"
    using assms by (auto simp: xml_param_def a b Let_def split: option.splits if_splits)
  moreover have "length a < length s"
    using strip_prefix_length [OF a] length_trim_start [of s] by simp
  ultimately show ?thesis by simp
qed

function xml_params :: "string \<Rightarrow> (string \<times> string) list" where
  "xml_params rest =
     (case xml_param rest of None \<Rightarrow> [] | Some (k, v, r) \<Rightarrow> (k, v) # xml_params r)"
  by pat_completeness auto
termination
  by (relation "measure length") (auto dest: xml_param_shorter)

declare xml_params.simps [simp del]

definition params_expectation :: "(string \<times> string) list \<Rightarrow> string" where
  "params_expectation params =
     foldl (\<lambda>e (k, v). if k = ''expectation'' then trim v else e) [] params"

fun first_param_call :: "(string \<times> string) list \<Rightarrow> ToolCall option" where
  "first_param_call [] = None"
| "first_param_call ((name, r) # ts) =
     (let params = xml_params r; skill = skill_spelling name;
          named = filter (\<lambda>(k, v). k \<noteq> ''expectation'') params
      in if params = [] then first_param_call ts
         else if \<not> is_valid_skill_name skill then None
         else Some \<lparr>tc_skill = skill, tc_raw_args = map snd named,
                    tc_expectation = params_expectation params,
                    tc_args_json = None, tc_named = named\<rparr>)"

definition extract_xml_params :: "string \<Rightarrow> ToolCall option" where
  "extract_xml_params s = first_param_call (function_tags s)"

section \<open>The JSON fence\<close>

abbreviation fence :: string where "fence \<equiv> ''```''"

text \<open>The language and the body of the first fence of a text.\<close>

definition fence_at :: "string \<Rightarrow> (string \<times> string) option" where
  "fence_at s =
     (case str_find s fence of
        None \<Rightarrow> None
      | Some i \<Rightarrow> map_option (\<lambda>(lang, r). (trim lang, r)) (split_once (CHR 0x0A) (drop (i + 3) s)))"

lemma fence_at_shorter: "fence_at s = Some (l, r) \<Longrightarrow> length r < length s"
proof -
  assume a: "fence_at s = Some (l, r)"
  then obtain i where i: "str_find s fence = Some i" by (auto simp: fence_at_def split: option.splits)
  then obtain pre post where "s = pre @ fence @ post" "length pre = i" using str_find_Some by blast
  with a i show ?thesis by (auto simp: fence_at_def split_once_def)
qed

function json_fence_body :: "string \<Rightarrow> string option" where
  "json_fence_body s =
     (case fence_at s of
        None \<Rightarrow> None
      | Some (lang, r) \<Rightarrow>
          if \<not> eq_ignore_ascii_case lang ''tool_call'' then json_fence_body r
          else map_option (\<lambda>i. take i r) (str_find r fence))"
  by pat_completeness auto
termination
  by (relation "measure length") (auto dest: fence_at_shorter)

declare json_fence_body.simps [simp del]

subsection \<open>Repairing a body\<close>

definition hex_digit :: "nat \<Rightarrow> char" where
  "hex_digit n = (if n < 10 then char_of (48 + n) else char_of (87 + n))"

text \<open>\<open>{:04x}\<close> of a control character, and the escape a raw one gets inside a string.\<close>

definition hex04 :: "nat \<Rightarrow> string" where
  "hex04 n = [hex_digit (n div 4096 mod 16), hex_digit (n div 256 mod 16),
              hex_digit (n div 16 mod 16), hex_digit (n mod 16)]"

definition is_control :: "char \<Rightarrow> bool" where
  "is_control c = ((of_char c :: nat) < 32)"

definition escape_control :: "char \<Rightarrow> string" where
  "escape_control c =
     (if c = CHR 0x0A then [backslash, CHR ''n'']
      else if c = CHR 0x0D then [backslash, CHR ''r'']
      else if c = CHR 0x09 then [backslash, CHR ''t'']
      else [backslash, CHR ''u''] @ hex04 (of_char c))"

record repair =
  rj_open :: "char list"
  rj_mismatched :: bool
  rj_in_string :: bool
  rj_escaped :: bool

definition repair_init :: repair where
  "repair_init = \<lparr>rj_open = [], rj_mismatched = False, rj_in_string = False, rj_escaped = False\<rparr>"

text \<open>One character: what is written for it and the state after it. The open brackets are a stack
  with its top first.\<close>

definition repair_step :: "repair \<Rightarrow> char \<Rightarrow> string \<times> repair" where
  "repair_step st c =
     (if rj_in_string st
      then if rj_escaped st then ([c], st\<lparr>rj_escaped := False\<rparr>)
           else if c = backslash then ([c], st\<lparr>rj_escaped := True\<rparr>)
           else if c = dquote then ([c], st\<lparr>rj_in_string := False\<rparr>)
           else if is_control c then (escape_control c, st)
           else ([c], st)
      else if c = dquote then ([c], st\<lparr>rj_in_string := True\<rparr>)
      else if c = CHR ''{'' then ([c], st\<lparr>rj_open := CHR ''}'' # rj_open st\<rparr>)
      else if c = CHR ''['' then ([c], st\<lparr>rj_open := CHR '']'' # rj_open st\<rparr>)
      else if c = CHR ''}'' \<or> c = CHR '']''
      then ([c], st\<lparr>rj_open := tl (rj_open st),
                   rj_mismatched := (rj_mismatched st \<or> rj_open st = [] \<or> hd (rj_open st) \<noteq> c)\<rparr>)
      else ([c], st))"

fun repair_loop :: "repair \<Rightarrow> string \<Rightarrow> string \<times> repair" where
  "repair_loop st [] = ([], st)"
| "repair_loop st (c # cs) =
     (case repair_step st c of (out, st') \<Rightarrow> apfst (append out) (repair_loop st' cs))"

definition closers :: "repair \<Rightarrow> string" where
  "closers st = (if \<not> rj_in_string st \<and> \<not> rj_mismatched st then rj_open st else [])"

definition repair_json :: "string \<Rightarrow> string" where
  "repair_json body = (case repair_loop repair_init body of (out, st) \<Rightarrow> out @ closers st)"

subsection \<open>Reading a body\<close>

text \<open>
  \<open>text_before\<close>: the byte where line \<open>n\<close> starts, then the two loops to a character boundary
  (those of \<open>utf8_head\<close> and \<open>utf8_tail\<close>).
\<close>

fun line_start :: "nat \<Rightarrow> string \<Rightarrow> nat" where
  "line_start 0 s = 0"
| "line_start (Suc n) [] = 0"
| "line_start (Suc n) s =
     (let l = takeWhile (\<lambda>c. c \<noteq> CHR 0x0A) s
      in if length l = length s then length l
         else Suc (length l) + line_start n (drop (Suc (length l)) s))"

definition text_before :: "string \<Rightarrow> nat \<Rightarrow> nat \<Rightarrow> string" where
  "text_before body line column =
     (let ls = line_start (line - 1) body;
          e = head_end body (min (ls + column) (length body));
          st = tail_start body (min (max (e - 40) ls) e)
      in (if st > ls then ellipsis else []) @ drop st (take e body))"

definition json_error_reason :: "string \<Rightarrow> json_error \<Rightarrow> string" where
  "json_error_reason body e =
     (let before = text_before body (je_line e) (je_column e);
          at = (if before = [] then [] else '', right after `'' @ before @ ''`'')
      in ''whose JSON does not parse: '' @ je_text e @ at
         @ '' (inside a JSON string write every `'' @ [dquote] @ ''` as `'' @ [backslash, dquote]
         @ ''` and every `'' @ [backslash] @ ''` as `'' @ [backslash, backslash] @ ''`)'')"

definition parse_json_lenient :: "json_lib \<Rightarrow> string \<Rightarrow> string + json" where
  "parse_json_lenient jl body =
     (case jl_from_str jl body of
        Inr v \<Rightarrow> Inr v
      | Inl e \<Rightarrow>
          (let fixed = repair_json body
           in if fixed = body then Inl (json_error_reason body e)
              else case jl_from_str jl fixed of
                     Inr v \<Rightarrow> Inr v
                   | Inl e' \<Rightarrow> Inl (json_error_reason fixed e')))"

definition raw_values :: "json_lib \<Rightarrow> json \<Rightarrow> string list" where
  "raw_values jl args =
     (case args of
        JObject m \<Rightarrow> map (\<lambda>(k, v). case v of JString s \<Rightarrow> s | other \<Rightarrow> jl_print jl other) m
      | _ \<Rightarrow> [])"

definition or_get :: "string \<Rightarrow> string \<Rightarrow> json \<Rightarrow> json option" where
  "or_get k k' v = (case json_get k v of Some x \<Rightarrow> Some x | None \<Rightarrow> json_get k' v)"

definition body_call :: "json_lib \<Rightarrow> string \<Rightarrow> json \<Rightarrow> ToolCall" where
  "body_call jl skill v =
     (let args0 = (case or_get ''args'' ''arguments'' v of Some a \<Rightarrow> a | None \<Rightarrow> JNull);
          e0 = (case Option.bind (json_get ''expectation'' v) as_str of Some e \<Rightarrow> e | None \<Rightarrow> []);
          (args, e) =
            (if e0 \<noteq> [] then (args0, e0)
             else case args0 of
                    JObject m \<Rightarrow>
                      (JObject (filter (\<lambda>(k, _). k \<noteq> ''expectation'') m),
                       (case map_of m ''expectation'' of Some (JString inner) \<Rightarrow> inner | _ \<Rightarrow> e0))
                  | _ \<Rightarrow> (args0, e0))
      in \<lparr>tc_skill = skill, tc_raw_args = raw_values jl args, tc_expectation = e,
          tc_args_json = Some args, tc_named = []\<rparr>)"

definition parse_json_body :: "json_lib \<Rightarrow> string \<Rightarrow> string + ToolCall" where
  "parse_json_body jl body =
     (case parse_json_lenient jl (trim body) of
        Inl e \<Rightarrow> Inl e
      | Inr v \<Rightarrow>
          (case v of
             JObject m \<Rightarrow>
               (case Option.bind (or_get ''skill'' ''name'' v) as_str of
                  None \<Rightarrow> Inl ''whose JSON has no `skill` name''
                | Some name \<Rightarrow>
                    (let skill = skill_spelling name
                     in if \<not> is_valid_skill_name skill
                        then Inl (''whose `skill` ('' @ jl_debug jl skill @ '') is not a skill name'')
                        else Inr (body_call jl skill v)))
           | _ \<Rightarrow> Inl ''whose JSON is not an object''))"

definition ok_call :: "string + ToolCall \<Rightarrow> ToolCall option" where
  "ok_call r = (case r of Inr tc \<Rightarrow> Some tc | Inl _ \<Rightarrow> None)"

definition extract_json_fence :: "json_lib \<Rightarrow> string \<Rightarrow> ToolCall option" where
  "extract_json_fence jl s =
     Option.bind (json_fence_body s) (\<lambda>body. ok_call (parse_json_body jl body))"

definition extract_json_envelope :: "json_lib \<Rightarrow> string \<Rightarrow> ToolCall option" where
  "extract_json_envelope jl s =
     (case (position (\<lambda>c. c = CHR ''{'') s, rposition (\<lambda>c. c = CHR ''}'') s) of
        (Some a, Some b) \<Rightarrow>
          if b \<le> a then None else ok_call (parse_json_body jl (drop a (take (Suc b) s)))
      | _ \<Rightarrow> None)"

section \<open>The line scan\<close>

definition strip_fence_indent :: "string \<Rightarrow> string" where
  "strip_fence_indent line =
     (let t = trim_start line in if starts_with t fence then [] else t)"

text \<open>
  The loop over \<open>split('\n')\<close>: \<open>one\<close> reads the line, \<open>many\<close> the text from the line's first
  character on; a call counts only when its skill is known.
\<close>

definition scan_line ::
  "(string \<Rightarrow> ToolCall option) \<Rightarrow> (string \<Rightarrow> ToolCall option) \<Rightarrow> (string \<Rightarrow> bool) \<Rightarrow> string \<Rightarrow> string
   \<Rightarrow> ToolCall option" where
  "scan_line one many is_known line s =
     (let trimmed = strip_fence_indent line;
          known = (\<lambda>tc. if is_known (tc_skill tc) then Some tc else None)
      in case one trimmed of
           Some tc \<Rightarrow> known tc
         | None \<Rightarrow>
             if trimmed \<noteq> []
             then Option.bind (many (drop (length line - length (trim_start line)) s)) known
             else None)"

function scan_lines ::
  "(string \<Rightarrow> ToolCall option) \<Rightarrow> (string \<Rightarrow> ToolCall option) \<Rightarrow> (string \<Rightarrow> bool) \<Rightarrow> string
   \<Rightarrow> ToolCall option" where
  "scan_lines one many is_known s =
     (let line = takeWhile (\<lambda>c. c \<noteq> CHR 0x0A) s
      in case scan_line one many is_known line s of
           Some tc \<Rightarrow> Some tc
         | None \<Rightarrow> if length line = length s then None
                   else scan_lines one many is_known (drop (Suc (length line)) s))"
  by pat_completeness auto
termination
proof (relation "measure (\<lambda>(one, many, k, s). length s)", goal_cases)
  case (2 one many k s line)
  then show ?case using length_takeWhile_le [of "\<lambda>c. c \<noteq> CHR 0x0A" s] by auto
qed simp

declare scan_lines.simps [simp del]

definition extract_known :: "json_lib \<Rightarrow> (string \<Rightarrow> bool) \<Rightarrow> string \<Rightarrow> ToolCall option" where
  "extract_known jl is_known s0 =
     (let wrapped = has_xml_wrapper s0; s = unwrap_xml_call s0
      in case extract_json_fence jl s of
           Some tc \<Rightarrow> Some tc
         | None \<Rightarrow>
             (case (if wrapped then extract_json_envelope jl s else None) of
                Some tc \<Rightarrow> Some tc
              | None \<Rightarrow> scan_lines parse_line parse_multiline is_known s))"

definition extract_any :: "json_lib \<Rightarrow> string \<Rightarrow> ToolCall option" where
  "extract_any jl s = extract_known jl (\<lambda>_. True) s"

section \<open>Calls without an expectation\<close>

definition function_body_call :: "(string \<Rightarrow> nat option) \<Rightarrow> string \<Rightarrow> string \<Rightarrow> ToolCall option" where
  "function_body_call arity name rest =
     (let skill = skill_spelling name
      in case arity skill of
           None \<Rightarrow> None
         | Some n \<Rightarrow>
             (case min_find [''</function>'', ''</tool_call>''] rest of
                None \<Rightarrow> None
              | Some close \<Rightarrow>
                  (let body = trim (take close rest); line = skill @ '' '' @ body
                   in if body = [] \<or> contains body ''<function='' \<or> starts_with body ''<parameter='' then None
                      else case (if contains body [CHR 0x0A] then parse_multiline_for arity line
                                 else parse_line_for arity line) of
                             Some tc \<Rightarrow> Some tc
                           | None \<Rightarrow>
                               (case bare_args body n of
                                  Some args \<Rightarrow> Some (plain_call skill args [])
                                | None \<Rightarrow> if n = 1 \<and> \<not> is_quote (hd body)
                                          then Some (plain_call skill [body] []) else None))))"

definition extract_function_body :: "(string \<Rightarrow> nat option) \<Rightarrow> string \<Rightarrow> ToolCall option" where
  "extract_function_body arity s = find_map (\<lambda>(name, r). function_body_call arity name r) (function_tags s)"

definition bare_line :: "(string \<Rightarrow> nat option) \<Rightarrow> string \<Rightarrow> ToolCall option" where
  "bare_line arity line =
     Option.bind
       (case take_skill_name line of
          Some split \<Rightarrow> Some split
        | None \<Rightarrow> if is_valid_skill_name line then Some (line, []) else None)
       (\<lambda>(skill, rest0).
          Option.bind (arity skill) (\<lambda>n.
            let rest = trim rest0
            in if rest = [] then Some (plain_call skill [] [])
               else map_option (\<lambda>args. plain_call skill args []) (bare_args rest n)))"

definition opened_by :: "string list \<Rightarrow> string \<Rightarrow> bool" where
  "opened_by functions l =
     list_ex (\<lambda>f. case strip_prefix f l of None \<Rightarrow> False | Some r \<Rightarrow> r = [] \<or> ws_head r > 0) functions"

definition bare_call :: "string \<Rightarrow> string list \<Rightarrow> (string \<Rightarrow> nat option) \<Rightarrow> ToolCall option" where
  "bare_call s functions arity =
     (let lines = filter (\<lambda>l. l \<noteq> []) (map (\<lambda>l. trim (strip_fence_indent l)) (str_lines s));
          candidates = (if functions = [] then (if lines = [] then [] else [last lines])
                        else filter (opened_by functions) lines)
      in find_map (bare_line arity) candidates)"

definition extract_for :: "json_lib \<Rightarrow> (string \<Rightarrow> nat option) \<Rightarrow> string \<Rightarrow> ToolCall option" where
  "extract_for jl arity s0 =
     (case extract_xml_params s0 of
        Some tc \<Rightarrow> Some tc
      | None \<Rightarrow>
          (let wrapped = has_xml_wrapper s0; functions = wrapper_functions s0; s = unwrap_xml_call s0
           in case extract_json_fence jl s of
                Some tc \<Rightarrow> Some tc
              | None \<Rightarrow>
                  (case (if wrapped then extract_json_envelope jl s else None) of
                     Some tc \<Rightarrow> Some tc
                   | None \<Rightarrow>
                       (case scan_lines (parse_line_for arity) (parse_multiline_for arity)
                               (\<lambda>k. arity k \<noteq> None) s of
                          Some tc \<Rightarrow> Some tc
                        | None \<Rightarrow>
                            (case extract_function_body arity s0 of
                               Some tc \<Rightarrow> Some tc
                             | None \<Rightarrow> bare_call s functions arity)))))"

section \<open>Explaining a rejected attempt\<close>

definition trim_ticks :: "string \<Rightarrow> string" where
  "trim_ticks s =
     (let t = dropWhile (\<lambda>c. c = CHR 0x60) s in rev (dropWhile (\<lambda>c. c = CHR 0x60) (rev t)))"

definition last_drafted_call :: "string \<Rightarrow> (string \<Rightarrow> bool) \<Rightarrow> string option" where
  "last_drafted_call reasoning is_known =
     find (\<lambda>l. case parse_line l of None \<Rightarrow> False | Some tc \<Rightarrow> is_known (tc_skill tc))
       (filter (\<lambda>l. l \<noteq> [] \<and> length l \<le> 8192)
         (map (\<lambda>l. trim (trim_ticks (trim l))) (rev (str_lines reasoning))))"

definition looks_like_attempt :: "string \<Rightarrow> bool" where
  "looks_like_attempt s =
     (contains s ''```tool_call'' \<or> has_xml_wrapper s
      \<or> (contains s ([dquote] @ ''skill'' @ [dquote]) \<or> contains s ([quote] @ ''skill'' @ [quote]))
        \<and> (contains s ([dquote] @ ''args'' @ [dquote]) \<or> contains s ([quote] @ ''args'' @ [quote])))"

definition char_alnum :: "(string \<Rightarrow> bool) \<Rightarrow> string \<Rightarrow> bool" where
  "char_alnum alnum ch =
     (case ch of [c] \<Rightarrow> is_lower c \<or> is_upper c \<or> is_digit c | _ \<Rightarrow> alnum ch)"

text \<open>The loop over the characters: inside a code span or not, the character before.\<close>

fun call_marks :: "(string \<Rightarrow> bool) \<Rightarrow> bool \<Rightarrow> string option \<Rightarrow> string list \<Rightarrow> bool" where
  "call_marks alnum in_code before [] = False"
| "call_marks alnum in_code before (c # cs) =
     (let after = (case cs of [] \<Rightarrow> None | d # _ \<Rightarrow> Some d);
          is_alnum = (\<lambda>x. case x of None \<Rightarrow> False | Some d \<Rightarrow> char_alnum alnum d);
          open_ws = (\<lambda>x. case x of None \<Rightarrow> True | Some d \<Rightarrow> is_ws (codes d))
      in if c = [CHR 0x60] then call_marks alnum (\<not> in_code) (Some c) cs
         else if in_code then call_marks alnum in_code (Some c) cs
         else if c = [dquote] then True
         else if c = [quote] \<and> \<not> (is_alnum before \<and> is_alnum after) then True
         else if c = ''>'' \<and> open_ws before \<and> open_ws after then True
         else call_marks alnum in_code (Some c) cs)"

definition has_call_marks :: "(string \<Rightarrow> bool) \<Rightarrow> string \<Rightarrow> bool" where
  "has_call_marks alnum rest = call_marks alnum False None (chars rest)"

definition line_reason :: "json_lib \<Rightarrow> (string \<Rightarrow> bool) \<Rightarrow> string \<Rightarrow> string option" where
  "line_reason jl is_known line =
     (case take_skill_name (strip_fence_indent line) of
        None \<Rightarrow> None
      | Some (name, rest0) \<Rightarrow>
          if \<not> is_known name \<or> \<not> has_call_marks (jl_alnum jl) rest0 then None
          else let rest = trim_start rest0
               in Some (''a `'' @ name @
                    (if split_on_expectation rest = None
                     then if quote_open_at_eol rest
                          then ''` line whose quoted argument is never closed (a quote of the same kind inside an argument must be escaped, as `''
                               @ [backslash, quote] @ ''` inside '' @ [quote] @ ellipsis @ [quote] @ '')''
                          else ''` line with no ` > <expectation>` part''
                     else ''` line whose arguments are not correctly quoted'')))"

definition rejected_attempt :: "json_lib \<Rightarrow> (string \<Rightarrow> bool) \<Rightarrow> string \<Rightarrow> string option" where
  "rejected_attempt jl is_known s0 =
     (let wrapped = has_xml_wrapper s0; s = unwrap_xml_call s0
      in if contains s ''```tool_call''
         then Some (''a ```tool_call block '' @
                (case json_fence_body s of
                   Some body \<Rightarrow> (case parse_json_body jl body of
                                   Inl why \<Rightarrow> why | Inr _ \<Rightarrow> ''whose body could not be read'')
                 | None \<Rightarrow> ''with no closing ``` line after its JSON''))
         else case find_map (line_reason jl is_known) (str_lines s) of
                Some r \<Rightarrow> Some r
              | None \<Rightarrow>
                  if wrapped
                  then Some (''a `<tool_call>` / `<function='' @ ellipsis
                         @ ''>` wrapper whose call the parser could not read (the skill name and its quoted arguments belong on one line, followed by ` > <expectation>`)'')
                  else if looks_like_attempt s
                  then Some ''a JSON object with `skill`/`args` keys outside a ```tool_call fence''
                  else None)"

section \<open>Repairing\<close>

lemma repair_loop_append:
  "repair_loop st (a @ b) = (case repair_loop st a of (o1, st') \<Rightarrow> apfst (append o1) (repair_loop st' b))"
  by (induction a arbitrary: st) (auto simp: apfst_def map_prod_def split: prod.splits)

lemma hex_digit_plain:
  assumes "n < 16"
  shows "hex_digit n \<noteq> backslash" "hex_digit n \<noteq> dquote" "\<not> is_control (hex_digit n)"
proof -
  have "of_char (hex_digit n) = (if n < 10 then 48 + n else 87 + n :: nat)"
    using assms by (simp add: hex_digit_def)
  then have "48 \<le> (of_char (hex_digit n) :: nat)" "(of_char (hex_digit n) :: nat) \<noteq> 92" using assms by auto
  then show "hex_digit n \<noteq> backslash" "hex_digit n \<noteq> dquote" "\<not> is_control (hex_digit n)"
    by (auto simp: is_control_def)
qed

lemma repair_hex:
  assumes "rj_in_string st" "\<not> rj_escaped st"
  shows "repair_loop st (hex04 n) = (hex04 n, st)"
  using assms by (simp add: hex04_def repair_step_def hex_digit_plain)

lemma repair_loop_control:
  assumes "rj_in_string st" "\<not> rj_escaped st"
  shows "repair_loop st (escape_control c) = (escape_control c, st)"
proof -
  have st: "st\<lparr>rj_escaped := False\<rparr> = st" using assms(2) by simp
  show ?thesis
    using assms repair_hex [OF assms, of "of_char c"]
    by (auto simp: escape_control_def repair_step_def st)
qed

lemma repair_step_stable: "repair_step st c = (out, st') \<Longrightarrow> repair_loop st out = (out, st')"
  by (cases "rj_in_string st \<and> \<not> rj_escaped st \<and> c \<noteq> backslash \<and> c \<noteq> dquote \<and> is_control c")
     (auto simp: repair_step_def repair_loop_control split: if_splits)

lemma repair_loop_stable: "repair_loop st s = (out, st') \<Longrightarrow> repair_loop st out = (out, st')"
proof (induction s arbitrary: st out st')
  case (Cons c s)
  obtain o1 st1 where 1: "repair_step st c = (o1, st1)" by (cases "repair_step st c")
  obtain o2 st2 where 2: "repair_loop st1 s = (o2, st2)" by (cases "repair_loop st1 s")
  with 1 Cons.prems have "out = o1 @ o2" "st' = st2" by auto
  with Cons.IH [OF 2] repair_step_stable [OF 1] show ?case by (simp add: repair_loop_append)
qed simp

definition closing :: "char \<Rightarrow> bool" where
  "closing c = (c = CHR ''}'' \<or> c = CHR '']'')"

lemma repair_step_closing:
  assumes "list_all closing (rj_open st)"
  shows "list_all closing (rj_open (snd (repair_step st c)))"
proof -
  have "list_all closing (tl (rj_open st))" using assms by (cases "rj_open st") simp_all
  with assms show ?thesis by (simp add: repair_step_def closing_def)
qed

lemma repair_open_closing:
  "list_all closing (rj_open st) \<Longrightarrow> list_all closing (rj_open (snd (repair_loop st s)))"
proof (induction s arbitrary: st)
  case (Cons c s)
  then show ?case
    using repair_step_closing [of st c] by (cases "repair_step st c") (simp add: snd_apfst)
qed simp

lemma repair_closers:
  assumes "list_all closing xs" "rj_open st = xs" "\<not> rj_in_string st"
  shows "repair_loop st xs = (xs, st\<lparr>rj_open := []\<rparr>)"
  using assms
proof (induction xs arbitrary: st)
  case (Cons x xs)
  then have "repair_step st x = ([x], st\<lparr>rj_open := xs\<rparr>)"
    by (auto simp: repair_step_def closing_def)
  with Cons.prems Cons.IH [of "st\<lparr>rj_open := xs\<rparr>"] show ?case by simp
qed simp

text \<open>The state a second reading of the repaired body ends in.\<close>

lemma repair_again:
  assumes "repair_loop repair_init b = (out, st)"
  shows "repair_loop repair_init (repair_json b)
         = (repair_json b, if \<not> rj_in_string st \<and> \<not> rj_mismatched st then st\<lparr>rj_open := []\<rparr> else st)"
proof -
  have "list_all closing (rj_open st)"
    using repair_open_closing [of repair_init b] assms by (simp add: repair_init_def)
  then show ?thesis
    using repair_loop_stable [OF assms] repair_closers [of "rj_open st" st] assms
    by (simp add: repair_json_def closers_def repair_loop_append)
qed

section \<open>Where a call comes from\<close>

lemma scan_line_known: "scan_line one many k l s = Some tc \<Longrightarrow> k (tc_skill tc)"
  by (auto simp: scan_line_def Let_def split: option.splits if_splits bind_splits)

lemma scan_lines_known: "scan_lines one many k s = Some tc \<Longrightarrow> k (tc_skill tc)"
proof (induction one many k s rule: scan_lines.induct)
  case (1 one many k s)
  define l where "l = takeWhile (\<lambda>c. c \<noteq> CHR 0x0A) s"
  show ?case
  proof (cases "scan_line one many k l s")
    case None
    with "1.prems" have "length l \<noteq> length s" "scan_lines one many k (drop (Suc (length l)) s) = Some tc"
      by (simp_all add: scan_lines.simps [of one many k s] Let_def l_def [symmetric] split: if_splits)
    with "1.IH" [OF l_def None] show ?thesis by simp
  next
    case (Some tc')
    with "1.prems" have "tc' = tc"
      by (simp add: scan_lines.simps [of one many k s] Let_def l_def [symmetric])
    with Some show ?thesis by (blast dest: scan_line_known)
  qed
qed

lemma parse_json_body_valid:
  "ok_call (parse_json_body jl b) = Some tc \<Longrightarrow> is_valid_skill_name (tc_skill tc) \<and> tc_args_json tc \<noteq> None"
  by (auto simp: ok_call_def parse_json_body_def Let_def body_call_def
           split: sum.splits option.splits json.splits if_splits prod.splits)

lemma fence_valid:
  "extract_json_fence jl s = Some tc \<Longrightarrow> is_valid_skill_name (tc_skill tc) \<and> tc_args_json tc \<noteq> None"
  by (auto simp: extract_json_fence_def bind_eq_Some_conv dest: parse_json_body_valid)

lemma envelope_valid:
  "extract_json_envelope jl s = Some tc \<Longrightarrow> is_valid_skill_name (tc_skill tc) \<and> tc_args_json tc \<noteq> None"
  by (auto simp: extract_json_envelope_def dest: parse_json_body_valid split: option.splits if_splits)

lemma first_param_valid: "first_param_call ts = Some tc \<Longrightarrow> is_valid_skill_name (tc_skill tc) \<and> ts \<noteq> []"
  by (induction ts rule: first_param_call.induct) (auto simp: Let_def split: if_splits)

lemma function_tags_wrapper: "function_tags s \<noteq> [] \<Longrightarrow> has_xml_wrapper s"
  by (auto simp: function_tags_def has_xml_wrapper_def List.map_filter_simps)

lemma find_map_Some: "find_map f xs = Some y \<Longrightarrow> \<exists>x \<in> set xs. f x = Some y"
  by (induction xs) (auto split: option.splits)

lemma function_body_valid:
  "function_body_call arity n r = Some tc \<Longrightarrow> is_valid_skill_name (tc_skill tc) \<or> arity (tc_skill tc) \<noteq> None"
  by (auto simp: function_body_call_def Let_def plain_call_def
           dest: parse_line_for_valid parse_multiline_for_valid split: option.splits if_splits)

lemma bare_line_known: "bare_line arity l = Some tc \<Longrightarrow> arity (tc_skill tc) \<noteq> None"
  by (auto simp: bare_line_def Let_def plain_call_def bind_eq_Some_conv split: option.splits if_splits)

lemma bare_call_known: "bare_call s fs arity = Some tc \<Longrightarrow> arity (tc_skill tc) \<noteq> None"
  unfolding bare_call_def Let_def using find_map_Some bare_line_known by metis

section \<open>Rendered calls in a reply\<close>

lemma no_tags: "CHR ''<'' \<notin> set s \<Longrightarrow> xml_tags s = []"
  by (induction s) auto

lemma str_find_absent:
  assumes "c \<in> set pat" and "c \<notin> set s"
  shows "str_find s pat = None"
proof (rule ccontr)
  assume "str_find s pat \<noteq> None"
  then obtain pre post where "s = pre @ pat @ post" using str_find_Some by blast
  with assms show False by auto
qed

lemma no_fence: "CHR 0x60 \<notin> set s \<Longrightarrow> extract_json_fence jl s = None"
  by (simp add: extract_json_fence_def json_fence_body.simps [of s] fence_at_def str_find_absent [of "CHR 0x60"])

lemma takeWhile_all: "(\<And>x. x \<in> set xs \<Longrightarrow> P x) \<Longrightarrow> takeWhile P xs = xs"
  by (simp add: takeWhile_eq_all_conv)

lemma escape_no_newline: "CHR 0x0A \<notin> set (concat (map escape_arg a))"
  by (induction a) (simp_all add: escape_arg_def)

lemma render_no_newline:
  assumes "is_valid_skill_name skill"
  shows "CHR 0x0A \<notin> set (render_call skill args)"
proof -
  have "CHR 0x0A \<notin> set skill"
    using assms by (cases skill) (auto simp: is_valid_skill_name_def list_all_iff is_name_char_def is_lower_def is_digit_def)
  moreover have "CHR 0x0A \<notin> set (render_args args)"
    using escape_no_newline by (induction args) (auto simp: render_args_def)
  ultimately show ?thesis by (simp add: render_call_def)
qed

section \<open>Properties\<close>


definition demo_json :: json_lib where
  "demo_json = \<lparr>jl_from_str = (\<lambda>_. Inl \<lparr>je_line = 1, je_column = 0, je_text = []\<rparr>),
     jl_print = (\<lambda>_. []), jl_debug = id, jl_alnum = (\<lambda>_. False)\<rparr>"


text \<open>
  An unregistered skill is dispatched only on an explicit call. Whatever the reply, the call the
  live loop extracts names a registered skill, or it has a well-formed skill name and came from a
  JSON body (its \<open>args\<close> object is kept) or from a reply with a wrapper tag: prose that happens to
  look like a call line never does.
\<close>

theorem extracted_skill_registered:
  assumes "extract_for jl arity s = Some tc"
  shows "arity (tc_skill tc) \<noteq> None
         \<or> is_valid_skill_name (tc_skill tc) \<and> (tc_args_json tc \<noteq> None \<or> has_xml_wrapper s)"
proof (cases "extract_xml_params s")
  case (Some tc')
  then have "is_valid_skill_name (tc_skill tc')" "has_xml_wrapper s"
    using first_param_valid function_tags_wrapper by (auto simp: extract_xml_params_def)
  then show ?thesis using assms Some by (simp add: extract_for_def)
next
  case None
  define u where "u = unwrap_xml_call s"
  consider "extract_json_fence jl u = Some tc" | "extract_json_envelope jl u = Some tc"
    | "scan_lines (parse_line_for arity) (parse_multiline_for arity) (\<lambda>k. arity k \<noteq> None) u = Some tc"
    | "extract_function_body arity s = Some tc" | "bare_call u (wrapper_functions s) arity = Some tc"
    using assms None by (auto simp: extract_for_def Let_def u_def split: option.splits if_splits)
  then show ?thesis
  proof cases
    case 1
    then show ?thesis by (blast dest: fence_valid)
  next
    case 2
    then show ?thesis by (blast dest: envelope_valid)
  next
    case 3
    then show ?thesis by (blast dest: scan_lines_known)
  next
    case 4
    then obtain n r where "(n, r) \<in> set (function_tags s)" "function_body_call arity n r = Some tc"
      using find_map_Some by (fastforce simp: extract_function_body_def)
    moreover from this have "has_xml_wrapper s" by (intro function_tags_wrapper) auto
    ultimately show ?thesis by (blast dest: function_body_valid)
  next
    case 5
    then show ?thesis by (blast dest: bare_call_known)
  qed
qed

theorem extracted_skill_registered_witness:
  "\<exists>tc n. extract_for demo_json [''read-file'' \<mapsto> 1] ''read-file 'wk.txt' > x'' = Some tc
          \<and> [''read-file'' \<mapsto> (1::nat)] (tc_skill tc) = Some n"
proof -
  have e: "extract_for demo_json [''read-file'' \<mapsto> 1] ''read-file 'wk.txt' > x'' = Some (plain_call ''read-file'' [''wk.txt''] ''x'')"
    by code_simp
  have "\<not> has_xml_wrapper ''read-file 'wk.txt' > x''" by code_simp
  with extracted_skill_registered [OF e] e show ?thesis by (auto simp: plain_call_def)
qed

text \<open>
  Repairing a JSON body is stable. A repaired body is its own repair, so the reason given for a
  body that still does not parse is about a defect the repair cannot remove; and unless a string is
  left open or a bracket is mismatched, the repaired body leaves no bracket open.
\<close>

theorem repair_json_stable:
  "repair_json (repair_json b) = repair_json b
   \<and> (let st = snd (repair_loop repair_init (repair_json b))
      in rj_in_string st \<or> rj_mismatched st \<or> rj_open st = [])"
proof -
  obtain out st where l: "repair_loop repair_init b = (out, st)" by (cases "repair_loop repair_init b")
  show ?thesis
    using repair_again [OF l] by (simp add: repair_json_def [of "repair_json b"] closers_def)
qed

text \<open>
  A call of a skill that takes no argument, written the way the skill guidance of \<open>run-cli\<close> shows
  it, is not extracted, and the correction sent to the model says the expectation is missing.
\<close>

lemma no_argument_call_lost:
  "extract_for demo_json [''job-list'' \<mapsto> 0] ''job-list > what is running'' = None
   \<and> rejected_attempt demo_json (\<lambda>k. k = ''job-list'') ''job-list > what is running''
     = Some ''a `job-list` line with no ` > <expectation>` part''"
proof
  show "extract_for demo_json [''job-list'' \<mapsto> 0] ''job-list > what is running'' = None" by code_simp
  show "rejected_attempt demo_json (\<lambda>k. k = ''job-list'') ''job-list > what is running''
     = Some ''a `job-list` line with no ` > <expectation>` part''" by code_simp
qed

end
