(* ===== verification/Work_Paths.thy ===== *)
theory Work_Paths
  imports Sica_Prelude "HOL-Library.Sublist"
begin

text \<open>
  Paths of the file skills: \<open>resolve\<close>, \<open>resolve_read\<close> and \<open>skill_doc_path\<close> of
  \<open>src/crates/agents/src/builtins.rs\<close>, over \<open>std::path\<close> with the rules of a Unix host. A
  \<open>PathBuf\<close> is its text; \<open>components\<close>, \<open>path_join\<close> and \<open>path_starts_with\<close> are the operations
  of the same name, which work component by component and never look at the disk. Whether a file
  exists and how a text is printed by \<open>{:?}\<close> are parameters.
\<close>

section \<open>Components\<close>

type_synonym pathbuf = string

datatype Component = RootDir | CurDir | ParentDir | Normal string

definition is_absolute :: "pathbuf \<Rightarrow> bool" where
  "is_absolute p = starts_with p ''/''"

definition segments :: "pathbuf \<Rightarrow> string list" where
  "segments p = split_by (\<lambda>c. c = CHR ''/'') p"

definition component_of :: "string \<Rightarrow> Component option" where
  "component_of s =
     (if s = [] \<or> s = ''.'' then None else if s = ''..'' then Some ParentDir else Some (Normal s))"

text \<open>Repeated separators and inner dots vanish; a leading dot stays.\<close>

definition components :: "pathbuf \<Rightarrow> Component list" where
  "components p =
     (if is_absolute p then [RootDir] else if hd (segments p) = ''.'' then [CurDir] else [])
     @ List.map_filter component_of (segments p)"

definition path_join :: "pathbuf \<Rightarrow> pathbuf \<Rightarrow> pathbuf" where
  "path_join r p =
     (if is_absolute p then p
      else if r \<noteq> [] \<and> last r \<noteq> CHR ''/'' then r @ ''/'' @ p
      else r @ p)"

definition path_starts_with :: "pathbuf \<Rightarrow> pathbuf \<Rightarrow> bool" where
  "path_starts_with p base = prefix (components base) (components p)"

section \<open>Resolving the path of a call\<close>

text \<open>The loop over the components; the result says whether the depth ever falls below zero.\<close>

fun stays_below :: "int \<Rightarrow> Component list \<Rightarrow> bool" where
  "stays_below d [] = True"
| "stays_below d (Normal s # cs) = stays_below (d + 1) cs"
| "stays_below d (ParentDir # cs) = (if d - 1 < 0 then False else stays_below (d - 1) cs)"
| "stays_below d (RootDir # cs) = stays_below d cs"
| "stays_below d (CurDir # cs) = stays_below d cs"

definition resolve :: "(string \<Rightarrow> string) \<Rightarrow> pathbuf \<Rightarrow> string \<Rightarrow> string + pathbuf" where
  "resolve dbg root p =
     (if is_absolute p then Inr p
      else if stays_below 0 (components p) then Inr (path_join root p)
      else Inl (''path '' @ dbg p @ '' escapes workspace via `..`''))"

definition SKILL_DOCS_DIR :: string where "SKILL_DOCS_DIR = ''skills''"

fun push_normals :: "pathbuf \<Rightarrow> Component list \<Rightarrow> pathbuf option" where
  "push_normals doc [] = Some doc"
| "push_normals doc (Normal s # cs) = push_normals (path_join doc s) cs"
| "push_normals doc (c # cs) = None"

definition skill_doc_path :: "(pathbuf \<Rightarrow> bool) \<Rightarrow> pathbuf \<Rightarrow> string \<Rightarrow> pathbuf option" where
  "skill_doc_path exists skills p =
     (case filter (\<lambda>c. c \<noteq> CurDir) (components p) of
        Normal first # parts \<Rightarrow>
          if to_ascii_lowercase first = SKILL_DOCS_DIR
          then Option.bind (push_normals skills parts) (\<lambda>doc. if exists doc then Some doc else None)
          else None
      | _ \<Rightarrow> None)"

definition resolve_read ::
  "(string \<Rightarrow> string) \<Rightarrow> (pathbuf \<Rightarrow> bool) \<Rightarrow> pathbuf \<Rightarrow> pathbuf \<Rightarrow> string \<Rightarrow> string + (pathbuf \<times> bool)" where
  "resolve_read dbg exists root skills p =
     (case resolve dbg root p of
        Inl e \<Rightarrow> Inl e
      | Inr resolved \<Rightarrow>
          if \<not> exists resolved
          then case skill_doc_path exists skills p of
                 Some doc \<Rightarrow> Inr (doc, True)
               | None \<Rightarrow> Inr (resolved, False)
          else Inr (resolved, False))"

section \<open>Where a path leads\<close>

text \<open>
  The reference: the directory a component list names when every \<open>..\<close> undoes the name before it
  (no symbolic links), as a stack of names from the root; \<open>..\<close> at the root stays there.
\<close>

fun landing :: "string list \<Rightarrow> Component list \<Rightarrow> string list" where
  "landing st [] = st"
| "landing st (Normal s # cs) = landing (st @ [s]) cs"
| "landing st (ParentDir # cs) = landing (butlast st) cs"
| "landing st (RootDir # cs) = landing [] cs"
| "landing st (CurDir # cs) = landing st cs"

definition plain :: "Component list \<Rightarrow> bool" where
  "plain cs = (ParentDir \<notin> set cs)"

lemma map_filter_components: "set (List.map_filter component_of xs) \<subseteq> {ParentDir} \<union> range Normal"
  by (auto simp: List.map_filter_def component_of_def split: if_splits)

lemma map_filter_append [simp]:
  "List.map_filter f (xs @ ys) = List.map_filter f xs @ List.map_filter f ys"
  by (simp add: List.map_filter_def)

lemma is_absolute_iff: "is_absolute p \<longleftrightarrow> (\<exists>q. p = CHR ''/'' # q)"
  by (cases p) (auto simp: is_absolute_def)

lemma is_absolute_append: "r \<noteq> [] \<Longrightarrow> is_absolute (r @ p) = is_absolute r"
  by (cases r) (simp_all add: is_absolute_def)

lemma components_join:
  assumes "is_absolute r" and "\<not> is_absolute p"
  shows "components (path_join r p) = components r @ List.map_filter component_of (segments p)"
proof (cases "last r = CHR ''/''")
  case False
  have "segments (r @ ''/'' @ p) = segments r @ segments p"
    by (simp add: segments_def split_by_append)
  moreover have r: "r \<noteq> []" using assms by (auto simp: is_absolute_def)
  ultimately show ?thesis
    using False assms by (simp add: path_join_def components_def is_absolute_append map_filter_append)
next
  case True
  have r: "r \<noteq> []" using assms by (auto simp: is_absolute_def)
  then obtain a where a: "r = a @ [CHR ''/'']" using True by (metis append_butlast_last_id)
  have "segments (r @ p) = segments a @ segments p"
    by (simp add: a segments_def split_by_append)
  moreover have "segments r = segments a @ [[]]"
    using split_by_append [of "\<lambda>c. c = CHR ''/''" "CHR ''/''" a "[]"] by (simp add: a segments_def)
  ultimately show ?thesis
    using True r assms
    by (simp add: path_join_def components_def is_absolute_append map_filter_append List.map_filter_simps component_of_def)
qed

lemma landing_append: "landing st (cs @ ds) = landing (landing st cs) ds"
  by (induction st cs rule: landing.induct) simp_all

lemma landing_plain:
  "plain cs \<Longrightarrow> RootDir \<notin> set cs \<Longrightarrow> prefix st (landing st cs)"
proof (induction st cs rule: landing.induct)
  case (2 st s cs)
  then show ?case by (auto simp: plain_def dest: append_prefixD)
qed (auto simp: plain_def)

text \<open>A relative path that the loop accepts never leaves the directory it starts in.\<close>

lemma stays_below_landing:
  assumes "stays_below (int (length ys)) cs" and "RootDir \<notin> set cs"
  shows "prefix st (landing (st @ ys) cs)"
  using assms
proof (induction cs arbitrary: ys)
  case Nil
  then show ?case by simp
next
  case (Cons c cs)
  show ?case
  proof (cases c)
    case (Normal s)
    with Cons.prems Cons.IH [of "ys @ [s]"] show ?thesis by (simp add: add.commute)
  next
    case ParentDir
    with Cons.prems have "ys \<noteq> []" by (auto split: if_splits)
    with ParentDir Cons.prems Cons.IH [of "butlast ys"] show ?thesis
      by (simp add: butlast_append of_nat_diff Suc_leI split: if_splits)
  qed (use Cons in simp_all)
qed

lemma stays_below_filter:
  "stays_below d (components p) \<Longrightarrow> \<not> is_absolute p
   \<Longrightarrow> stays_below d (List.map_filter component_of (segments p))"
  by (simp add: components_def split: if_splits)

end
