(* ===== verification/Tool_Policies.thy ===== *)
theory Tool_Policies
  imports Work_Paths Loop_Guard
begin

text \<open>
  The policies of \<open>src/crates/agents/src/pipeline.rs\<close>: permission modes, plan mode,
  read-before-edit and the repeat reminder, each an instance of \<open>ToolPolicy\<close>. The methods of a
  policy thread a state: what a session has observed of its files, the repeat tracker, and the
  disk as the host shows it. The hash, \<open>{:?}\<close>, the JSON printer and the test for non-ASCII
  letters and digits are parameters (record \<open>host\<close>).
\<close>

section \<open>The pipeline's vocabulary\<close>

datatype PreDecision =
    Allow
  | AllowWith "string list"
  | Deny string
  | Ask string

datatype PostDecision =
    Accept string "string list"
  | BlockWith string "string list"

record SkillOutcome =
  so_ok :: bool
  so_summary :: string

record CallView =
  cv_skill :: string
  cv_args :: json
  cv_preview :: string
  cv_depth :: nat
  cv_session :: "nat option"

record 's ToolPolicy =
  pre_execute :: "CallView \<Rightarrow> 's \<Rightarrow> PreDecision \<times> 's"
  guard :: "CallView \<Rightarrow> 's \<Rightarrow> string option"
  post_execute :: "CallView \<Rightarrow> SkillOutcome \<Rightarrow> 's \<Rightarrow> PostDecision \<times> 's"

text \<open>The blanket methods of the trait.\<close>

definition default_policy :: "'s ToolPolicy" where
  "default_policy =
     \<lparr>pre_execute = (\<lambda>_ s. (Allow, s)), guard = (\<lambda>_ _. None),
      post_execute = (\<lambda>_ out s. (Accept (so_summary out) [], s))\<rparr>"

record host =
  h_digest :: "string \<Rightarrow> nat"
  h_debug :: "string \<Rightarrow> string"
  h_ser :: json_printer
  h_alnum :: "string \<Rightarrow> bool"

record policy_state =
  ps_seen :: "Component list \<Rightarrow> nat option"
  ps_tracker :: RepeatTracker
  ps_disk :: "pathbuf \<Rightarrow> string option"

definition str_arg :: "string \<Rightarrow> CallView \<Rightarrow> string option" where
  "str_arg k v = Option.bind (json_get k (cv_args v)) as_str"

definition command_of :: "CallView \<Rightarrow> string" where
  "command_of v = (case str_arg ''command'' v of Some c \<Rightarrow> c | None \<Rightarrow> [])"

section \<open>Shell commands\<close>

definition READ_ONLY_PREFIXES :: "string list" where
  "READ_ONLY_PREFIXES =
     [''dir'', ''echo'', ''type'', ''git status'', ''git diff'', ''git log'', ''git show'', ''git branch'',
      ''git remote'', ''rg'', ''find'', ''findstr'', ''where'', ''whoami'', ''hostname'', ''set'',
      ''ls'', ''cat'', ''head'', ''tail'', ''wc'', ''pwd'', ''node --version'', ''npm --version'',
      ''python --version'', ''cargo --version'', ''rustc --version'']"

definition is_read_only_command :: "string \<Rightarrow> bool" where
  "is_read_only_command cmd =
     (let c = to_lowercase (trim cmd)
      in if c = [] then False
         else if contains c ''&&'' \<or> contains c ''||'' \<or> contains c '';'' \<or> contains c ''|'' \<or> contains c ''>''
         then False
         else list_ex (\<lambda>p. c = p \<or> starts_with c (p @ '' '')) READ_ONLY_PREFIXES)"

definition is_alphanumeric :: "(string \<Rightarrow> bool) \<Rightarrow> string \<Rightarrow> bool" where
  "is_alphanumeric alnum ch =
     (case codes ch of
        [b] \<Rightarrow> (48 \<le> b \<and> b \<le> 57) \<or> (65 \<le> b \<and> b \<le> 90) \<or> (97 \<le> b \<and> b \<le> 122)
      | _ \<Rightarrow> alnum ch)"

definition shell_tokens :: "(string \<Rightarrow> bool) \<Rightarrow> string \<Rightarrow> string list" where
  "shell_tokens alnum c =
     filter (\<lambda>t. t \<noteq> [])
       (map concat
         (split_by (\<lambda>ch. \<not> is_alphanumeric alnum ch \<and> ch \<noteq> ''-'' \<and> ch \<noteq> ''_'' \<and> ch \<noteq> ''.'') (chars c)))"

definition DESTRUCTIVE_WORDS :: "string list" where
  "DESTRUCTIVE_WORDS =
     [''rm'', ''del'', ''erase'', ''rd'', ''rmdir'', ''deltree'', ''format'', ''mkfs'', ''dd'',
      ''remove-item'', ''ri'', ''clear-recyclebin'']"

definition looks_destructive :: "(string \<Rightarrow> bool) \<Rightarrow> string \<Rightarrow> bool" where
  "looks_destructive alnum cmd =
     (let c = to_lowercase (trim cmd)
      in if c = [] then False
         else if list_ex (\<lambda>t. t \<in> set DESTRUCTIVE_WORDS) (shell_tokens alnum c) then True
         else contains c ''--force'' \<or> contains c ''reset --hard'' \<or> contains c ''clean -fd'')"

section \<open>Permission modes\<close>

definition is_write_skill :: "string \<Rightarrow> bool" where
  "is_write_skill s = (s \<in> {''write-file'', ''edit-file'', ''skill-creator''})"

definition is_shell_skill :: "string \<Rightarrow> bool" where
  "is_shell_skill s = (s \<in> {''run-cli'', ''run-pwsh''})"

definition permission_pre :: "host \<Rightarrow> PermissionMode \<Rightarrow> pathbuf \<Rightarrow> CallView \<Rightarrow> PreDecision" where
  "permission_pre h mode root v =
     (case mode of
        DangerFullAccess \<Rightarrow> Allow
      | ReadOnly \<Rightarrow>
          if is_write_skill (cv_skill v)
          then Deny (''[permission: write denied under read-only mode '' @ em_dash
                     @ '' ask the user to switch modes]'')
          else if is_shell_skill (cv_skill v) \<and> \<not> is_read_only_command (command_of v)
          then Deny (''[permission: shell denied under read-only mode '' @ em_dash
                     @ '' only read-only commands (dir, git status, rg, '' @ ellipsis
                     @ '') run; ask the user to switch modes]'')
          else Allow
      | WorkspaceWrite \<Rightarrow>
          if is_write_skill (cv_skill v)
          then (case str_arg ''path'' v of
                  None \<Rightarrow> Allow
                | Some p \<Rightarrow>
                    (case resolve (h_debug h) root p of
                       Inr r \<Rightarrow>
                         if \<not> path_starts_with r root
                         then Deny (''[permission: write denied '' @ em_dash @ '' '' @ h_debug h p
                                    @ '' is outside the workspace; ask the user to switch modes]'')
                         else Allow
                     | Inl e \<Rightarrow> Deny (''[permission: bad path '' @ em_dash @ '' '' @ e @ '']'')))
          else if is_shell_skill (cv_skill v) \<and> looks_destructive (h_alnum h) (command_of v)
          then Ask (''shell command looks destructive: `'' @ command_of v @ ''` '' @ em_dash
                    @ '' approve once to run it'')
          else Allow)"

definition permission_policy :: "host \<Rightarrow> PermissionMode \<Rightarrow> pathbuf \<Rightarrow> 's ToolPolicy" where
  "permission_policy h mode root =
     default_policy\<lparr>pre_execute := (\<lambda>v s. (permission_pre h mode root v, s))\<rparr>"

section \<open>Plan mode\<close>

definition PLAN_REFUSAL :: string where
  "PLAN_REFUSAL = ''plan mode: only non-mutating tools are available; finish with exit-plan-mode''"

definition plan_mode_pre :: "bool \<Rightarrow> CallView \<Rightarrow> PreDecision" where
  "plan_mode_pre active v =
     (if \<not> active then Allow
      else if cv_skill v = ''exit-plan-mode'' then Allow
      else if is_write_skill (cv_skill v) then Deny PLAN_REFUSAL
      else if is_shell_skill (cv_skill v) \<and> \<not> is_read_only_command (command_of v) then Deny PLAN_REFUSAL
      else Allow)"

definition plan_mode_policy :: "bool \<Rightarrow> 's ToolPolicy" where
  "plan_mode_policy active = default_policy\<lparr>pre_execute := (\<lambda>v s. (plan_mode_pre active v, s))\<rparr>"

section \<open>Read before edit\<close>

definition resolved_arg :: "host \<Rightarrow> pathbuf \<Rightarrow> CallView \<Rightarrow> pathbuf option" where
  "resolved_arg h root v =
     (case str_arg ''path'' v of
        None \<Rightarrow> None
      | Some p \<Rightarrow> (case resolve (h_debug h) root p of Inr r \<Rightarrow> Some r | Inl _ \<Rightarrow> None))"

definition read_before_edit_pre ::
  "host \<Rightarrow> pathbuf \<Rightarrow> CallView \<Rightarrow> 'a policy_state_scheme \<Rightarrow> PreDecision" where
  "read_before_edit_pre h root v s =
     (if cv_skill v \<noteq> ''write-file'' \<and> cv_skill v \<noteq> ''edit-file'' then Allow
      else case resolved_arg h root v of
        None \<Rightarrow> Allow
      | Some r \<Rightarrow>
          (case map_option (h_digest h) (ps_disk s r) of
             None \<Rightarrow> Allow
           | Some current \<Rightarrow>
               (case ps_seen s (components r) of
                  None \<Rightarrow> Deny (''read the file first '' @ em_dash @ '' '' @ r
                                @ '' exists and you have not observed it'')
                | Some sn \<Rightarrow>
                    if sn \<noteq> current
                    then Deny (''file changed on disk since you read '' @ r @ '' '' @ em_dash
                               @ '' read it again'')
                    else Allow)))"

definition read_before_edit_post ::
  "host \<Rightarrow> pathbuf \<Rightarrow> CallView \<Rightarrow> SkillOutcome \<Rightarrow> 'a policy_state_scheme \<Rightarrow> 'a policy_state_scheme" where
  "read_before_edit_post h root v out s =
     (if so_ok out \<and> cv_skill v \<in> {''read-file'', ''write-file'', ''edit-file''}
      then case resolved_arg h root v of
             None \<Rightarrow> s
           | Some r \<Rightarrow>
               (case ps_disk s r of
                  None \<Rightarrow> s
                | Some bytes \<Rightarrow> s\<lparr>ps_seen := (ps_seen s)(components r \<mapsto> h_digest h bytes)\<rparr>)
      else s)"

definition read_before_edit :: "host \<Rightarrow> pathbuf \<Rightarrow> 'a policy_state_scheme ToolPolicy" where
  "read_before_edit h root =
     default_policy\<lparr>pre_execute := (\<lambda>v s. (read_before_edit_pre h root v s, s)),
       post_execute := (\<lambda>v out s. (Accept (so_summary out) [], read_before_edit_post h root v out s))\<rparr>"

section \<open>The repeat reminder\<close>

definition repeat_reminder :: "host \<Rightarrow> 'a policy_state_scheme ToolPolicy" where
  "repeat_reminder h =
     default_policy\<lparr>post_execute := (\<lambda>v out s.
       (case observe (h_ser h) (cv_skill v) (cv_args v) (ps_tracker s) of
          (extra, t) \<Rightarrow> (Accept (so_summary out) (case extra of None \<Rightarrow> [] | Some n \<Rightarrow> [n]),
                         s\<lparr>ps_tracker := t\<rparr>)))\<rparr>"

lemmas policy_defs = permission_policy_def plan_mode_policy_def read_before_edit_def
  repeat_reminder_def default_policy_def

end
