(* ===== verification/Tool_Run.thy ===== *)
theory Tool_Run
  imports Tool_Policies Call_Line
begin

text \<open>
  One guarded tool call, \<open>src/crates/agents/src/subagent.rs\<close>: the depth and interrupt checks, the
  policy chain before the body, the approval, the body against its timeout and the interrupt,
  spilling, the chain after it, the focused summary and the closing events. What runs outside the
  program is a parameter of a call (record \<open>run_env\<close>): the body of the skill, what the interrupt
  token says at each of its four looks, the human's answer, the summariser's answer, whether the
  spill file could be written, the clock and the JSON printer. The event sink, the fork seed and the
  run notifier are handles without behaviour here. Spilling is \<open>src/crates/agents/src/spill.rs\<close>.
\<close>

section \<open>Spilling\<close>

definition SPILL_THRESHOLD :: nat where "SPILL_THRESHOLD = 49152"
definition HEAD_BYTES :: nat where "HEAD_BYTES = 4096"
definition TAIL_BYTES :: nat where "TAIL_BYTES = 1024"

definition spill_digest :: "string \<Rightarrow> pathbuf \<Rightarrow> string" where
  "spill_digest full path =
     (let window = head_tail full HEAD_BYTES TAIL_BYTES;
          recovery = ''full output ('' @ dec (length full) @ '' bytes) saved to '' @ path
                     @ ''; use read-file '' @ [CHR 0x27] @ path @ [CHR 0x27] @ '' to inspect it''
      in render window (notice (tw_omitted window) recovery))"

definition spill_pointer :: "pathbuf \<Rightarrow> string" where
  "spill_pointer path = ''[full raw output saved to '' @ path @ '']''"

definition sanitize :: "string \<Rightarrow> string" where
  "sanitize s =
     (let out = map (\<lambda>ch. case ch of
                        [c] \<Rightarrow> if is_lower c \<or> is_upper c \<or> is_digit c \<or> c = CHR ''-'' \<or> c = CHR ''_''
                              then c else CHR ''_''
                      | _ \<Rightarrow> CHR ''_'') (chars s)
      in if out = [] then ''_'' else out)"

text \<open>The path \<open>spill::write\<close> writes to; \<open>clock\<close> is in seconds.\<close>

definition spill_path :: "pathbuf \<Rightarrow> string \<Rightarrow> string \<Rightarrow> nat \<Rightarrow> nat \<Rightarrow> pathbuf" where
  "spill_path base label skill clock tid =
     path_join (path_join base (sanitize label)) (sanitize skill @ ''-'' @ dec clock @ ''-'' @ dec tid @ ''.txt'')"

section \<open>Calls, sub-agents and what they report\<close>

datatype tool_event =
    LogLine string string
  | ToolCallStarted nat "nat option" nat string string string string nat
  | ToolCallFinished nat bool string string nat

record ToolFailureReport =
  fr_skill :: string
  fr_preview :: string
  fr_summary :: string
  fr_depth :: nat
  fr_session :: "nat option"

record ApprovalRecord =
  ar_skill :: string
  ar_preview :: string
  ar_decision :: string

record RunReport =
  rr_outcome :: SkillOutcome
  rr_notices :: "string list"
  rr_approval :: "ApprovalRecord option"

record 's SubAgent =
  sa_depth :: nat
  sa_parent_id :: "nat option"
  sa_max_depth :: nat
  sa_failure_sink :: bool
  sa_summarizer :: bool
  sa_cancel :: bool
  sa_spill_label :: "string option"
  sa_policies :: "'s ToolPolicy list"
  sa_brokers :: bool
  sa_session_id :: "nat option"
  sa_plan_active :: bool
  sa_cwd :: "pathbuf option"
  sa_log_seq :: "nat option"
  sa_run_seq :: "nat option"
  sa_ask_denied :: bool

definition root_agent :: "'s SubAgent" where
  "root_agent = \<lparr>sa_depth = 0, sa_parent_id = None, sa_max_depth = 4, sa_failure_sink = False,
     sa_summarizer = False, sa_cancel = False, sa_spill_label = None, sa_policies = [],
     sa_brokers = False, sa_session_id = None, sa_plan_active = False, sa_cwd = None,
     sa_log_seq = None, sa_run_seq = None, sa_ask_denied = False\<rparr>"

text \<open>\<open>depth\<close> is a \<open>u8\<close> and saturates.\<close>

definition child :: "'s SubAgent \<Rightarrow> nat \<Rightarrow> 's SubAgent" where
  "child a parent =
     a\<lparr>sa_depth := min 255 (sa_depth a + 1), sa_parent_id := Some parent,
       sa_log_seq := None, sa_run_seq := sa_log_seq a\<rparr>"

record invocation =
  iv_skill :: string
  iv_args :: json
  iv_raw_args :: "string list"
  iv_expectation :: string

record 's run_env =
  rv_cancelled :: "nat \<Rightarrow> bool"
  rv_interrupted :: bool
  rv_answer :: "string \<Rightarrow> bool"
  rv_body :: "json \<Rightarrow> 's SubAgent \<Rightarrow> 's \<Rightarrow> SkillOutcome option \<times> 's"
  rv_timeout :: nat
  rv_spill_write :: "string \<Rightarrow> pathbuf option"
  rv_focused :: "string \<Rightarrow> string option"
  rv_elapsed :: nat
  rv_print :: "json \<Rightarrow> string"

record 's run_state =
  ru_state :: 's
  ru_next_id :: nat
  ru_events :: "tool_event list"
  ru_failures :: "ToolFailureReport list"

section \<open>The policy chain\<close>

text \<open>The first answer that is not an allow, and the context collected before it.\<close>

fun pre_chain :: "'s ToolPolicy list \<Rightarrow> CallView \<Rightarrow> 's \<Rightarrow> PreDecision option \<times> string list \<times> 's" where
  "pre_chain [] v s = (None, [], s)"
| "pre_chain (p # ps) v s =
     (case pre_execute p v s of
        (Allow, s') \<Rightarrow> pre_chain ps v s'
      | (AllowWith extra, s') \<Rightarrow>
          (case pre_chain ps v s' of (d, ctx, s'') \<Rightarrow> (d, extra @ ctx, s''))
      | (other, s') \<Rightarrow> (Some other, [], s'))"

definition first_guard :: "'s ToolPolicy list \<Rightarrow> CallView \<Rightarrow> 's \<Rightarrow> string option" where
  "first_guard ps v s = find_map (\<lambda>p. guard p v s) ps"

definition guarded :: "'s ToolPolicy list \<Rightarrow> CallView \<Rightarrow> 's \<Rightarrow> PreDecision \<Rightarrow> PreDecision" where
  "guarded ps v s d =
     (case d of
        Allow \<Rightarrow> (case first_guard ps v s of Some reason \<Rightarrow> Deny reason | None \<Rightarrow> d)
      | Ask _ \<Rightarrow> (case first_guard ps v s of Some reason \<Rightarrow> Deny reason | None \<Rightarrow> d)
      | _ \<Rightarrow> d)"

definition approval_record :: "CallView \<Rightarrow> string \<Rightarrow> ApprovalRecord" where
  "approval_record v d = \<lparr>ar_skill = cv_skill v, ar_preview = cv_preview v, ar_decision = d\<rparr>"

text \<open>The verdict after the guards: the denial text, the audit and the lines logged.\<close>

definition settle ::
  "'s SubAgent \<Rightarrow> (string \<Rightarrow> bool) \<Rightarrow> CallView \<Rightarrow> PreDecision
   \<Rightarrow> string option \<times> ApprovalRecord option \<times> tool_event list" where
  "settle a answer v d =
     (case d of
        Allow \<Rightarrow> (None, None, [])
      | AllowWith _ \<Rightarrow> (None, None, [])
      | Deny reason \<Rightarrow> (Some reason, None, [])
      | Ask reason \<Rightarrow>
          if sa_ask_denied a
          then (Some (''approval refused ('' @ reason @ ''): this session's approval policy is `never`, so nothing is asked ''
                      @ em_dash @ '' use a read-only alternative or report the need''),
                Some (approval_record v ''denied''),
                [LogLine ''WARN'' (''approval: `'' @ cv_skill v @ ''` denied '' @ em_dash
                   @ '' this session's approval policy is `never` ('' @ reason @ '')'')])
          else let reachable = (sa_brokers a \<and> sa_session_id a \<noteq> None);
                   allowed = (reachable \<and> answer reason)
               in if allowed
                  then (None, Some (approval_record v ''allowed-once''),
                        [LogLine ''INFO'' (''approval: `'' @ cv_skill v @ ''` allowed once'')])
                  else (Some (''approval denied ('' @ reason @ '') '' @ em_dash
                              @ '' change approach, use a read-only alternative, or ask the user''),
                        Some (approval_record v ''denied''),
                        [LogLine ''WARN'' (''approval: `'' @ cv_skill v @ ''` denied (''
                           @ (if reachable then ''no allow arrived'' else ''no approval path for this call'') @ '')'')]))"

definition pre_decision ::
  "'s SubAgent \<Rightarrow> (string \<Rightarrow> bool) \<Rightarrow> CallView \<Rightarrow> 's
   \<Rightarrow> string option \<times> ApprovalRecord option \<times> string list \<times> tool_event list \<times> 's" where
  "pre_decision a answer v s =
     (case pre_chain (sa_policies a) v s of
        (verdict, ctx, s') \<Rightarrow>
          (case settle a answer v
                  (guarded (sa_policies a) v s' (case verdict of Some d \<Rightarrow> d | None \<Rightarrow> Allow)) of
             (denial, record, evs) \<Rightarrow> (denial, record, ctx, evs, s')))"

fun post_chain ::
  "'s ToolPolicy list \<Rightarrow> CallView \<Rightarrow> SkillOutcome \<Rightarrow> string \<Rightarrow> string list \<Rightarrow> bool \<Rightarrow> 's
   \<Rightarrow> string \<times> string list \<times> bool \<times> 's" where
  "post_chain [] v out summary extra blocked s = (summary, extra, blocked, s)"
| "post_chain (p # ps) v out summary extra blocked s =
     (case post_execute p v out s of
        (Accept sm ec, s') \<Rightarrow>
          post_chain ps v out (if blocked then summary else sm) (extra @ ec) blocked s'
      | (BlockWith fb ec, s') \<Rightarrow>
          post_chain ps v out (if blocked then summary else fb) (extra @ ec) True s')"

section \<open>The run\<close>

definition short_line :: "string \<Rightarrow> string" where
  "short_line s =
     (let one = map (\<lambda>c. if c = CHR 0x0A then CHR '' '' else c) s
      in if chars_count one \<le> 160 then one else take_chars 160 one @ ellipsis)"

definition UI_ARGS_JSON_MAX :: nat where "UI_ARGS_JSON_MAX = 65536"
definition UI_OUTPUT_MAX :: nat where "UI_OUTPUT_MAX = 262144"

definition ui_args_json :: "(json \<Rightarrow> string) \<Rightarrow> json \<Rightarrow> string" where
  "ui_args_json print args =
     (let t = print args in if length t > UI_ARGS_JSON_MAX then [] else t)"

definition ui_output :: "string \<Rightarrow> string" where
  "ui_output summary =
     (if length summary \<le> UI_OUTPUT_MAX then summary
      else let w = head_tail summary (UI_OUTPUT_MAX * 3 div 4) (UI_OUTPUT_MAX div 4)
           in tw_head w @ [CHR 0x0A] @ notice (tw_omitted w) [] @ [CHR 0x0A] @ tw_tail w)"

definition run_line :: "'s SubAgent \<Rightarrow> nat \<Rightarrow> string \<Rightarrow> string" where
  "run_line a tid rest = ''sub-agent[depth='' @ dec (sa_depth a) @ '', id='' @ dec tid @ rest"

definition emit :: "tool_event list \<Rightarrow> 's run_state \<Rightarrow> 's run_state" where
  "emit evs w = w\<lparr>ru_events := ru_events w @ evs\<rparr>"

definition finish_call ::
  "'s SubAgent \<Rightarrow> 's run_env \<Rightarrow> nat \<Rightarrow> string \<Rightarrow> string \<Rightarrow> SkillOutcome \<Rightarrow> bool \<Rightarrow> string
   \<Rightarrow> 's run_state \<Rightarrow> 's run_state" where
  "finish_call a env tid skill preview out veto output w =
     (let w1 = emit
            [LogLine (if so_ok out then ''INFO'' else ''WARN'')
               (run_line a tid (''] '' @ (if so_ok out then ''ok'' else ''err'') @ '' `'' @ skill @ ''` ''
                 @ em_dash @ '' '' @ short_line (so_summary out))),
             ToolCallFinished tid (so_ok out) (so_summary out) output (rv_elapsed env)] w
      in if \<not> so_ok out \<and> \<not> veto \<and> \<not> (sa_cancel a \<and> rv_cancelled env 3) \<and> sa_failure_sink a
         then w1\<lparr>ru_failures := ru_failures w1 @
                [\<lparr>fr_skill = skill, fr_preview = preview, fr_summary = so_summary out,
                  fr_depth = sa_depth a, fr_session = sa_session_id a\<rparr>]\<rparr>
         else w1)"

definition spill ::
  "'s SubAgent \<Rightarrow> 's run_env \<Rightarrow> string \<Rightarrow> nat \<Rightarrow> SkillOutcome \<Rightarrow> pathbuf option \<times> SkillOutcome \<times> tool_event list" where
  "spill a env skill tid out =
     (if sa_spill_label a = None \<or> \<not> so_ok out \<or> (sa_cancel a \<and> rv_cancelled env 1)
         \<or> skill = ''read-file'' \<or> length (so_summary out) \<le> SPILL_THRESHOLD
      then (None, out, [])
      else case rv_spill_write env (so_summary out) of
             None \<Rightarrow> (None, out, [])
           | Some path \<Rightarrow>
               (Some path, out\<lparr>so_summary := spill_digest (so_summary out) path\<rparr>,
                [LogLine ''INFO'' (run_line a tid (''] `'' @ skill @ ''` output (''
                   @ dec (length (so_summary out)) @ '' bytes) spilled to '' @ path))]))"

definition READ_FILE_CAP_MARK :: string where "READ_FILE_CAP_MARK = ''[read-file: output capped''"
definition SUMMARIZE_THRESHOLD :: nat where "SUMMARIZE_THRESHOLD = 2000"

text \<open>The focused summary of a long result; the spill path and the read-on line survive it.\<close>

definition focus :: "'s SubAgent \<Rightarrow> 's run_env \<Rightarrow> string \<Rightarrow> pathbuf option \<Rightarrow> SkillOutcome \<Rightarrow> SkillOutcome" where
  "focus a env expectation spilled out =
     (if so_ok out \<and> \<not> (sa_cancel a \<and> rv_cancelled env 2) \<and> trim expectation \<noteq> []
         \<and> length (so_summary out) > SUMMARIZE_THRESHOLD \<and> sa_summarizer a
      then let read_on = find (\<lambda>l. starts_with l READ_FILE_CAP_MARK) (rev (str_lines (so_summary out)))
           in case rv_focused env (so_summary out) of
                None \<Rightarrow> out
              | Some f \<Rightarrow>
                  (let f1 = (case spilled of None \<Rightarrow> f | Some path \<Rightarrow> f @ [CHR 0x0A] @ spill_pointer path);
                       f2 = (case read_on of
                               None \<Rightarrow> f1
                             | Some l \<Rightarrow> if contains f1 l then f1 else f1 @ [CHR 0x0A] @ l)
                   in out\<lparr>so_summary := f2\<rparr>)
      else out)"

definition body_outcome :: "'s SubAgent \<Rightarrow> 's run_env \<Rightarrow> string \<Rightarrow> SkillOutcome option \<Rightarrow> SkillOutcome" where
  "body_outcome a env skill res =
     (if sa_cancel a \<and> rv_interrupted env
      then \<lparr>so_ok = False, so_summary = ''`'' @ skill @ ''` interrupted''\<rparr>
      else case res of
             Some out \<Rightarrow> out
           | None \<Rightarrow> \<lparr>so_ok = False,
               so_summary = ''`'' @ skill @ ''` timed out after '' @ dec (rv_timeout env) @ ''s (pipeline limit) ''
                 @ em_dash @ '' the call was abandoned; narrow the work or split it into smaller calls''\<rparr>)"

definition failed_report :: "string \<Rightarrow> RunReport" where
  "failed_report summary =
     \<lparr>rr_outcome = \<lparr>so_ok = False, so_summary = summary\<rparr>, rr_notices = [], rr_approval = None\<rparr>"

definition arrow :: string where "arrow = [CHR 0xE2, CHR 0x86, CHR 0x92]"

text \<open>The events before the pipeline.\<close>

definition open_call :: "'s SubAgent \<Rightarrow> 's run_env \<Rightarrow> invocation \<Rightarrow> nat \<Rightarrow> tool_event list" where
  "open_call a env iv tid =
     (let preview = render_call (iv_skill iv) (iv_raw_args iv)
      in [LogLine ''INFO'' (run_line a tid
            ((case sa_parent_id a of None \<Rightarrow> [] | Some p \<Rightarrow> '', parent='' @ dec p) @ ''] '' @ arrow @ '' '' @ preview
             @ (if trim (iv_expectation iv) = [] then [] else '' > '' @ iv_expectation iv))),
          ToolCallStarted tid (sa_parent_id a) (sa_depth a) (iv_skill iv) preview (iv_expectation iv)
            (ui_args_json (rv_print env) (iv_args iv)) (case sa_log_seq a of None \<Rightarrow> 0 | Some n \<Rightarrow> n)])"

text \<open>A denied call: the chain after it still runs, the body does not.\<close>

definition run_denied ::
  "'s SubAgent \<Rightarrow> 's run_env \<Rightarrow> CallView \<Rightarrow> nat \<Rightarrow> string \<Rightarrow> ApprovalRecord option \<Rightarrow> string list
   \<Rightarrow> 's run_state \<Rightarrow> RunReport \<times> 's run_state" where
  "run_denied a env v tid denied approval ctx w =
     (let out0 = \<lparr>so_ok = False, so_summary = denied\<rparr>
      in case post_chain (sa_policies a) v out0 denied [] False (ru_state w) of
           (summary, extra, blocked, s') \<Rightarrow>
             (let out = \<lparr>so_ok = False, so_summary = (if blocked then summary else denied)\<rparr>
              in (\<lparr>rr_outcome = out, rr_notices = ctx @ extra, rr_approval = approval\<rparr>,
                  finish_call a env tid (cv_skill v) (cv_preview v) out True (ui_output (so_summary out))
                    (w\<lparr>ru_state := s'\<rparr>))))"

definition run_allowed ::
  "'s SubAgent \<Rightarrow> 's run_env \<Rightarrow> invocation \<Rightarrow> CallView \<Rightarrow> nat \<Rightarrow> ApprovalRecord option \<Rightarrow> string list
   \<Rightarrow> 's run_state \<Rightarrow> RunReport \<times> 's run_state" where
  "run_allowed a env iv v tid approval ctx w =
     (case rv_body env (iv_args iv) (child a tid) (ru_state w) of
        (res, s1) \<Rightarrow>
          (case spill a env (cv_skill v) tid (body_outcome a env (cv_skill v) res) of
             (spilled, out0, evs) \<Rightarrow>
               (case post_chain (sa_policies a) v out0 (so_summary out0) [] False s1 of
                  (summary, extra, blocked, s2) \<Rightarrow>
                    (let out1 = (if blocked then \<lparr>so_ok = False, so_summary = summary\<rparr>
                                 else out0\<lparr>so_summary := summary\<rparr>);
                         output = ui_output (so_summary out1);
                         out = focus a env (iv_expectation iv) spilled out1
                     in (\<lparr>rr_outcome = out, rr_notices = ctx @ extra, rr_approval = approval\<rparr>,
                         finish_call a env tid (cv_skill v) (cv_preview v) out blocked output
                           (emit evs (w\<lparr>ru_state := s2\<rparr>)))))))"

definition call_view :: "'s SubAgent \<Rightarrow> invocation \<Rightarrow> CallView" where
  "call_view a iv =
     \<lparr>cv_skill = iv_skill iv, cv_args = iv_args iv, cv_preview = render_call (iv_skill iv) (iv_raw_args iv),
      cv_depth = sa_depth a, cv_session = sa_session_id a\<rparr>"

definition run_report ::
  "'s SubAgent \<Rightarrow> 's run_env \<Rightarrow> invocation \<Rightarrow> 's run_state \<Rightarrow> RunReport \<times> 's run_state" where
  "run_report a env iv w =
     (if sa_depth a \<ge> sa_max_depth a
      then (failed_report (''sub-agent depth limit ('' @ dec (sa_max_depth a) @ '') reached''),
            emit [LogLine ''WARN'' (''sub-agent[depth='' @ dec (sa_depth a) @ ''] depth limit (''
                    @ dec (sa_max_depth a) @ '') reached for skill `'' @ iv_skill iv @ ''` '' @ em_dash @ '' aborting'')] w)
      else if sa_cancel a \<and> rv_cancelled env 0
      then (failed_report ''interrupted before the tool call started'', w)
      else let tid = ru_next_id w; v = call_view a iv;
               w1 = emit (open_call a env iv tid) (w\<lparr>ru_next_id := Suc tid\<rparr>)
           in case pre_decision a (rv_answer env) v (ru_state w1) of
                (denial, approval, ctx, evs, s') \<Rightarrow>
                  (let w2 = emit evs (w1\<lparr>ru_state := s'\<rparr>)
                   in case denial of
                        Some denied \<Rightarrow> run_denied a env v tid denied approval ctx w2
                      | None \<Rightarrow> run_allowed a env iv v tid approval ctx w2))"

text \<open>The policies of a session's own dispatch, in \<open>ChatHub\<close>'s order; the hook policy comes last,
  when hooks are configured.\<close>

definition session_policies ::
  "host \<Rightarrow> PermissionMode \<Rightarrow> bool \<Rightarrow> pathbuf \<Rightarrow> pathbuf \<Rightarrow> 'a policy_state_scheme ToolPolicy list
   \<Rightarrow> 'a policy_state_scheme ToolPolicy list" where
  "session_policies h mode planning root reader_root hooks =
     [permission_policy h mode root, plan_mode_policy planning, read_before_edit h reader_root,
      repeat_reminder h] @ hooks"

section \<open>The chain in general\<close>

lemma pre_chain_append:
  "pre_chain (ps @ qs) v s =
     (case pre_chain ps v s of
        (Some d, ctx, s') \<Rightarrow> (Some d, ctx, s')
      | (None, ctx, s') \<Rightarrow> (case pre_chain qs v s' of (d, ctx', s'') \<Rightarrow> (d, ctx @ ctx', s'')))"
  by (induction ps arbitrary: s) (auto split: prod.splits PreDecision.splits option.splits)

lemma pre_chain_verdict: "pre_chain ps v s = (Some d, ctx, s') \<Longrightarrow> (\<exists>r. d = Deny r) \<or> (\<exists>r. d = Ask r)"
  by (induction ps arbitrary: s ctx) (auto split: prod.splits PreDecision.splits)

lemma guarded_Deny [simp]: "guarded ps v s (Deny r) = Deny r"
  by (simp add: guarded_def)

text \<open>A call passes the approval step only on a yes, and the audit says so.\<close>

lemma settle_Ask:
  "settle a answer v (Ask r) = (None, audit, evs) \<Longrightarrow>
     audit = Some (approval_record v ''allowed-once'') \<and> answer r \<and> \<not> sa_ask_denied a
     \<and> sa_brokers a \<and> sa_session_id a \<noteq> None"
  by (auto simp: settle_def Let_def split: if_splits)

lemma guarded_Ask: "(\<exists>r'. guarded ps v s (Ask r) = Deny r') \<or> guarded ps v s (Ask r) = Ask r"
  by (simp add: guarded_def split: option.splits)

text \<open>
  The interface the pipeline relies on: a policy that refuses the calls of a certain kind whatever
  the state. Wherever such a policy stands in the chain, a call of that kind runs only if an
  earlier policy asked and a human allowed it; at the head of the chain it never runs.
\<close>

locale refusing_policy =
  fixes p :: "'s ToolPolicy" and bad :: "CallView \<Rightarrow> bool"
  assumes refuses: "bad v \<Longrightarrow> \<exists>r. pre_execute p v s = (Deny r, s)"
begin

lemma chain_not_silent:
  assumes "bad v" and "p \<in> set ps"
  shows "\<exists>d ctx s'. pre_chain ps v s = (Some d, ctx, s')"
  using assms(2)
proof (induction ps arbitrary: s)
  case (Cons q qs)
  show ?case
  proof (cases "q = p")
    case True
    then show ?thesis using refuses [OF assms(1), of s] by auto
  next
    case False
    then have ih: "\<exists>d ctx s'. pre_chain qs v t = (Some d, ctx, s')" for t
      using Cons by simp
    obtain d t where "pre_execute q v s = (d, t)" by (cases "pre_execute q v s")
    with ih [of t] show ?thesis by (cases d) auto
  qed
qed simp

lemma runs_only_if_allowed:
  assumes "bad v" and "p \<in> set (sa_policies a)"
    and "pre_decision a answer v s = (None, audit, ctx, evs, s')"
  shows "audit = Some (approval_record v ''allowed-once'') \<and> (\<exists>r. answer r) \<and> \<not> sa_ask_denied a"
proof -
  obtain d c t where d: "pre_chain (sa_policies a) v s = (Some d, c, t)"
    using chain_not_silent [OF assms(1,2)] by blast
  define g where "g = guarded (sa_policies a) v t d"
  have st: "settle a answer v g = (None, audit, evs)"
    using assms(3) d by (auto simp: pre_decision_def g_def split: prod.splits)
  have "\<not> (\<exists>r. g = Deny r)" using st by (auto simp: settle_def)
  moreover from this obtain r0 where "d = Ask r0"
    using pre_chain_verdict [OF d] by (auto simp: g_def)
  ultimately obtain r where "g = Ask r"
    using guarded_Ask [of "sa_policies a" v t r0] by (auto simp: g_def)
  with st settle_Ask [of a answer v r] show ?thesis by blast
qed

lemma head_never_runs:
  assumes "bad v" and "sa_policies a = p # qs"
  shows "\<exists>r audit ctx evs s'. pre_decision a answer v s = (Some r, audit, ctx, evs, s')"
proof -
  obtain r where r: "pre_execute p v s = (Deny r, s)" using refuses [OF assms(1)] by blast
  then have "pre_chain (sa_policies a) v s = (Some (Deny r), [], s)" by (simp add: assms(2))
  then show ?thesis by (simp add: pre_decision_def settle_def)
qed

end

text \<open>A call that changes files through a write skill or an unlisted shell command.\<close>

definition mutating :: "CallView \<Rightarrow> bool" where
  "mutating v = (is_write_skill (cv_skill v)
                 \<or> is_shell_skill (cv_skill v) \<and> \<not> is_read_only_command (command_of v))"

interpretation read_only: refusing_policy "permission_policy h ReadOnly root" mutating for h root
  by unfold_locales (auto simp: mutating_def policy_defs permission_pre_def)

interpretation planning: refusing_policy "plan_mode_policy True" mutating
  by unfold_locales
     (auto simp: policy_defs plan_mode_pre_def mutating_def is_write_skill_def is_shell_skill_def)

text \<open>Writes that the workspace check refuses.\<close>

definition outside :: "host \<Rightarrow> pathbuf \<Rightarrow> CallView \<Rightarrow> bool" where
  "outside h root v =
     (is_write_skill (cv_skill v)
      \<and> (case str_arg ''path'' v of
           None \<Rightarrow> False
         | Some p \<Rightarrow> (case resolve (h_debug h) root p of
                        Inl _ \<Rightarrow> True | Inr r \<Rightarrow> \<not> path_starts_with r root)))"

interpretation workspace: refusing_policy "permission_policy h WorkspaceWrite root" "outside h root" for h root
  by unfold_locales
     (auto simp: outside_def policy_defs permission_pre_def split: option.splits sum.splits)

section \<open>Denied runs\<close>

lemma finish_call_state [simp]: "ru_state (finish_call a env tid sk pv out veto o1 w) = ru_state w"
  by (simp add: finish_call_def emit_def Let_def)

lemma finish_call_veto [simp]: "ru_failures (finish_call a env tid sk pv out True o1 w) = ru_failures w"
  by (simp add: finish_call_def emit_def Let_def)

lemma emit_simps [simp]:
  "ru_state (emit evs w) = ru_state w" "ru_failures (emit evs w) = ru_failures w"
  "ru_events (emit evs w) = ru_events w @ evs" "ru_next_id (emit evs w) = ru_next_id w"
  by (simp_all add: emit_def)

lemma run_denied_report:
  "run_denied a env v tid denied approval ctx w = (rep, w') \<Longrightarrow>
     \<not> so_ok (rr_outcome rep) \<and> ru_failures w' = ru_failures w"
  by (auto simp: run_denied_def Let_def split: prod.splits)

lemma run_denied_body: "run_denied a (env\<lparr>rv_body := b\<rparr>) = run_denied a env"
  by (intro ext) (simp add: run_denied_def finish_call_def)

text \<open>When the chain denies, the run is the same whatever the body does.\<close>

lemma denied_run:
  assumes "\<And>s. \<exists>r audit ctx evs s'. pre_decision a (rv_answer env) (call_view a iv) s = (Some r, audit, ctx, evs, s')"
  shows "run_report a (env\<lparr>rv_body := b\<rparr>) iv w = run_report a env iv w"
    and "\<not> so_ok (rr_outcome (fst (run_report a env iv w)))"
    and "ru_failures (snd (run_report a env iv w)) = ru_failures w"
proof -
  obtain r audit ctx evs s' where
    d: "pre_decision a (rv_answer env) (call_view a iv) (ru_state w) = (Some r, audit, ctx, evs, s')"
    using assms by blast
  show "run_report a (env\<lparr>rv_body := b\<rparr>) iv w = run_report a env iv w"
    using d by (simp add: run_report_def run_denied_body Let_def open_call_def)
  let ?D = "\<lambda>w2. run_denied a env (call_view a iv) (ru_next_id w) r audit ctx w2"
  have rep: "\<not> so_ok (rr_outcome (fst (?D w2))) \<and> ru_failures (snd (?D w2)) = ru_failures w2" for w2
    using run_denied_report [of a env "call_view a iv" "ru_next_id w" r audit ctx w2] by (cases "?D w2") auto
  show "\<not> so_ok (rr_outcome (fst (run_report a env iv w)))"
    and "ru_failures (snd (run_report a env iv w)) = ru_failures w"
    using d rep by (auto simp: run_report_def failed_report_def Let_def)
qed

end
