(* ===== verification/Pipeline_Safety.thy ===== *)
theory Pipeline_Safety
  imports Tool_Run
begin

text \<open>
  What the tool pipeline guarantees for a session's own calls: read-only mode, plan mode, the
  workspace fence, read-before-edit, and the events a call leaves. The chain of policies is the one
  \<open>ChatHub\<close> builds (\<open>session_policies\<close>); the statements on runs compare two skill bodies, so a
  run that does not depend on the body did not run it.
\<close>

section \<open>Samples\<close>

definition demo_host :: host where
  "demo_host = \<lparr>h_digest = length, h_debug = (\<lambda>s. s), h_ser = (\<lambda>_. ''{}''), h_alnum = (\<lambda>_. False)\<rparr>"

definition demo_policy_state :: policy_state where
  "demo_policy_state = \<lparr>ps_seen = Map.empty, ps_tracker = tracker_default, ps_disk = [''/w/a'' \<mapsto> ''old'']\<rparr>"

definition demo_run :: "policy_state run_state" where
  "demo_run = \<lparr>ru_state = demo_policy_state, ru_next_id = 7, ru_events = [], ru_failures = []\<rparr>"

definition demo_run_env :: "policy_state run_env" where
  "demo_run_env = \<lparr>rv_cancelled = (\<lambda>_. False), rv_interrupted = False, rv_answer = (\<lambda>_. True),
     rv_body = (\<lambda>_ _ s. (Some \<lparr>so_ok = True, so_summary = ''done''\<rparr>, s)), rv_timeout = 120,
     rv_spill_write = (\<lambda>_. None), rv_focused = (\<lambda>_. None), rv_elapsed = 3, rv_print = (\<lambda>_. ''{}'')\<rparr>"

definition demo_agent :: "PermissionMode \<Rightarrow> bool \<Rightarrow> policy_state SubAgent" where
  "demo_agent mode planning =
     root_agent\<lparr>sa_policies := session_policies demo_host mode planning ''/w'' ''/w'' [],
       sa_brokers := True, sa_session_id := Some 1, sa_failure_sink := True\<rparr>"

definition write_call :: "string \<Rightarrow> invocation" where
  "write_call p = \<lparr>iv_skill = ''write-file'', iv_args = JObject [(''path'', JString p)],
                   iv_raw_args = [p], iv_expectation = ''ok''\<rparr>"

definition shell_call :: "string \<Rightarrow> invocation" where
  "shell_call c = \<lparr>iv_skill = ''run-cli'', iv_args = JObject [(''command'', JString c)],
                   iv_raw_args = [c], iv_expectation = ''ok''\<rparr>"

section \<open>Modes\<close>

lemma session_policies_Cons:
  "session_policies h mode planning root rr hooks =
     permission_policy h mode root # plan_mode_policy planning # read_before_edit h rr # repeat_reminder h # hooks"
  by (simp add: session_policies_def)

text \<open>
  C5: Read-only mode never runs a mutating call. Under read-only mode a call of a write skill, or of
  a shell skill with a command that is not on the read-only list, fails without its body being run
  (the whole result is the same for every body), whatever the hooks and the approvals say, and it is
  not reported as a tool defect.
\<close>

theorem read_only_never_mutates:
  assumes "sa_policies a = session_policies h ReadOnly planning root rr hooks"
    and "mutating (call_view a iv)"
  shows "run_report a (env\<lparr>rv_body := b\<rparr>) iv w = run_report a env iv w
         \<and> \<not> so_ok (rr_outcome (fst (run_report a env iv w)))
         \<and> ru_failures (snd (run_report a env iv w)) = ru_failures w"
proof -
  note sp = assms(1) [unfolded session_policies_Cons]
  show ?thesis using denied_run [OF read_only.head_never_runs [OF assms(2) sp]] by blast
qed

theorem read_only_never_mutates_witness:
  "mutating (call_view (demo_agent ReadOnly False) (shell_call ''cargo build''))
   \<and> run_report (demo_agent ReadOnly False) (demo_run_env\<lparr>rv_body := (\<lambda>_ _ s. (None, s))\<rparr>) (shell_call ''cargo build'') demo_run
     = run_report (demo_agent ReadOnly False) demo_run_env (shell_call ''cargo build'') demo_run"
proof -
  have m: "mutating (call_view (demo_agent ReadOnly False) (shell_call ''cargo build''))" by code_simp
  have p: "sa_policies (demo_agent ReadOnly False) = session_policies demo_host ReadOnly False ''/w'' ''/w'' []"
    by (simp add: demo_agent_def)
  show ?thesis using m read_only_never_mutates [OF p m] by blast
qed

text \<open>
  C18: Plan mode needs a human for a mutating call. While plan mode is active, in any permission mode,
  a mutating call either fails without its body being run, or the report carries the audit of a human
  who allowed this very call once; with the approval policy \<open>never\<close> it always fails.
\<close>

theorem planning_blocks_mutation:
  assumes "sa_policies a = session_policies h mode True root rr hooks"
    and "mutating (call_view a iv)"
  shows "(run_report a (env\<lparr>rv_body := b\<rparr>) iv w = run_report a env iv w
          \<and> \<not> so_ok (rr_outcome (fst (run_report a env iv w))))
         \<or> \<not> sa_ask_denied a
           \<and> rr_approval (fst (run_report a env iv w)) = Some (approval_record (call_view a iv) ''allowed-once'')"
proof -
  have p: "plan_mode_policy True \<in> set (sa_policies a)" by (simp add: assms(1) session_policies_Cons)
  show ?thesis
  proof (cases "fst (pre_decision a (rv_answer env) (call_view a iv) (ru_state w))")
    case (Some r)
    then obtain audit ctx evs s' where d:
      "pre_decision a (rv_answer env) (call_view a iv) (ru_state w) = (Some r, audit, ctx, evs, s')"
      by (metis prod.collapse)
    then show ?thesis
      using run_denied_report [of a env "call_view a iv" "ru_next_id w" r audit ctx]
      by (auto simp: run_report_def run_denied_body Let_def open_call_def failed_report_def
               intro: prod.collapse [symmetric])
  next
    case None
    then obtain audit ctx evs s' where d:
      "pre_decision a (rv_answer env) (call_view a iv) (ru_state w) = (None, audit, ctx, evs, s')"
      by (metis prod.collapse)
    from planning.runs_only_if_allowed [OF assms(2) p d]
    show ?thesis
      using d by (auto simp: run_report_def run_allowed_def Let_def failed_report_def open_call_def split: prod.splits)
  qed
qed

text \<open>The workspace fence: where an allowed write lands.\<close>

lemma components_absolute:
  "is_absolute p \<Longrightarrow> components p = RootDir # List.map_filter component_of (segments p)"
  by (simp add: components_def)

lemma no_root_inside: "RootDir \<notin> set (List.map_filter component_of xs)"
  using map_filter_components [of xs] by auto

lemma fence_absolute:
  assumes "is_absolute p" and "is_absolute root" and "path_starts_with p root" and "plain (components p)"
  shows "prefix (landing [] (components root)) (landing [] (components p))"
proof -
  obtain zs where z: "components p = components root @ zs"
    using assms(3) by (auto simp: path_starts_with_def prefix_def)
  then have "plain zs" using assms(4) by (simp add: plain_def)
  moreover have "List.map_filter component_of (segments p) = List.map_filter component_of (segments root) @ zs"
    using z assms(1,2) by (simp add: components_absolute)
  then have "RootDir \<notin> set zs" using no_root_inside [of "segments p"] by auto
  ultimately show ?thesis by (simp add: z landing_append landing_plain)
qed

lemma fence_relative:
  assumes "\<not> is_absolute p" and "is_absolute root" and "resolve dbg root p = Inr r"
  shows "prefix (landing [] (components root)) (landing [] (components r))"
proof -
  have r: "r = path_join root p" and st: "stays_below 0 (components p)"
    using assms by (auto simp: resolve_def split: if_splits)
  have "stays_below (int (length [])) (List.map_filter component_of (segments p))"
    using stays_below_filter [OF st assms(1)] by simp
  from stays_below_landing [OF this no_root_inside, of "landing [] (components root)"]
  show ?thesis by (simp add: r components_join [OF assms(2,1)] landing_append)
qed

text \<open>
  C19: Workspace-write keeps file writes in the workspace. In workspace-write mode, a write skill whose
  \<open>path\<close> argument is relative, or absolute without \<open>..\<close>, passes the pipeline only if the path it
  resolves to lies (lexically) in the workspace directory.
\<close>

theorem workspace_write_contained:
  assumes "sa_policies a = session_policies h WorkspaceWrite planning root rr hooks"
    and "is_write_skill (cv_skill v)" and "str_arg ''path'' v = Some p"
    and "is_absolute root" and "\<not> is_absolute p \<or> plain (components p)"
    and "pre_decision a answer v s = (None, audit, ctx, evs, s')"
  shows "\<exists>r. resolve (h_debug h) root p = Inr r
             \<and> prefix (landing [] (components root)) (landing [] (components r))"
proof -
  have "\<not> outside h root v"
  proof
    assume "outside h root v"
    from workspace.head_never_runs [OF this, of a _ answer s] assms(1,6)
    show False unfolding session_policies_Cons by auto
  qed
  then obtain r where r: "resolve (h_debug h) root p = Inr r" "path_starts_with r root"
    using assms(2,3) by (auto simp: outside_def split: sum.splits)
  show ?thesis
  proof (cases "is_absolute p")
    case True
    then have "r = p" using r(1) by (simp add: resolve_def)
    with True r assms(4,5) fence_absolute show ?thesis by auto
  next
    case False
    with r(1) assms(4) fence_relative show ?thesis by blast
  qed
qed

theorem workspace_write_contained_witness:
  "\<exists>r. resolve (\<lambda>s. s) ''/w'' ''sub/../b'' = Inr r
       \<and> prefix (landing [] (components ''/w'')) (landing [] (components r))"
proof -
  let ?a = "demo_agent WorkspaceWrite False" and ?v = "call_view (demo_agent WorkspaceWrite False) (write_call ''sub/../b'')"
  have p: "sa_policies ?a = session_policies demo_host WorkspaceWrite False ''/w'' ''/w'' []"
    by (simp add: demo_agent_def)
  obtain d audit ctx evs s' where pd: "pre_decision ?a (\<lambda>_. False) ?v demo_policy_state = (d, audit, ctx, evs, s')"
    by (metis prod.collapse)
  have "fst (pre_decision ?a (\<lambda>_. False) ?v demo_policy_state) = None" by code_simp
  with pd have "pre_decision ?a (\<lambda>_. False) ?v demo_policy_state = (None, audit, ctx, evs, s')" by simp
  moreover have "is_write_skill (cv_skill ?v)" "str_arg ''path'' ?v = Some ''sub/../b''" "is_absolute ''/w''"
    "\<not> is_absolute ''sub/../b'' \<or> plain (components ''sub/../b'')" by code_simp+
  ultimately show ?thesis
    using workspace_write_contained [OF p, of ?v "''sub/../b''"] by (simp add: demo_host_def)
qed

text \<open>
  An absolute path is compared component by component without being normalised, so one that climbs
  out with \<open>..\<close> passes the fence although it leads elsewhere.
\<close>

lemma absolute_dotdot_escapes:
  "permission_pre demo_host WorkspaceWrite ''/w'' (call_view (demo_agent WorkspaceWrite False) (write_call ''/w/../etc/x'')) = Allow
   \<and> landing [] (components ''/w/../etc/x'') = [''etc'', ''x'']"
  by (intro conjI) code_simp+

text \<open>A single \<open>&\<close> or a line break also chains commands, and passes as read-only.\<close>

lemma chained_command_passes:
  "is_read_only_command ''dir & cargo clean'' \<and> is_read_only_command (''ls'' @ '' x'' @ [CHR 0x0A] @ ''cargo clean'')"
  by (intro conjI) code_simp+

text \<open>In plan mode a destructive command is asked about, and passes once allowed.\<close>

lemma plan_mode_ask_passes:
  "mutating (call_view (demo_agent WorkspaceWrite True) (shell_call ''rm x''))
   \<and> fst (pre_decision (demo_agent WorkspaceWrite True) (\<lambda>_. True)
            (call_view (demo_agent WorkspaceWrite True) (shell_call ''rm x'')) demo_policy_state) = None"
  by (intro conjI) code_simp+

theorem planning_blocks_mutation_witness:
  "\<not> so_ok (rr_outcome (fst (run_report ((demo_agent WorkspaceWrite True)\<lparr>sa_ask_denied := True\<rparr>) demo_run_env
       (shell_call ''rm x'') demo_run)))"
proof -
  let ?a = "(demo_agent WorkspaceWrite True)\<lparr>sa_ask_denied := True\<rparr>"
  have p: "sa_policies ?a = session_policies demo_host WorkspaceWrite True ''/w'' ''/w'' []"
    by (simp add: demo_agent_def)
  have m: "mutating (call_view ?a (shell_call ''rm x''))" by code_simp
  from planning_blocks_mutation [OF p m, where env = demo_run_env and w = demo_run]
  show ?thesis by simp
qed

section \<open>Events\<close>

definition lifecycle :: "tool_event list \<Rightarrow> tool_event list" where
  "lifecycle es = filter (\<lambda>e. case e of LogLine _ _ \<Rightarrow> False | _ \<Rightarrow> True) es"

lemma lifecycle_simps [simp]:
  "lifecycle [] = []" "lifecycle (es @ fs) = lifecycle es @ lifecycle fs"
  "lifecycle (LogLine l m # es) = lifecycle es"
  "lifecycle (ToolCallStarted i p d n pv ex aj cs # es) = ToolCallStarted i p d n pv ex aj cs # lifecycle es"
  "lifecycle (ToolCallFinished i k sm ot ms # es) = ToolCallFinished i k sm ot ms # lifecycle es"
  by (simp_all add: lifecycle_def)

lemma lifecycle_settle: "settle a answer v d = (r, audit, evs) \<Longrightarrow> lifecycle evs = []"
  by (auto simp: settle_def Let_def split: PreDecision.splits if_splits)

lemma lifecycle_pre: "pre_decision a answer v s = (r, audit, ctx, evs, s') \<Longrightarrow> lifecycle evs = []"
  by (auto simp: pre_decision_def dest: lifecycle_settle split: prod.splits)

lemma lifecycle_spill: "spill a env sk tid out = (pth, out', evs) \<Longrightarrow> lifecycle evs = []"
  by (auto simp: spill_def split: if_splits option.splits)

lemma finish_call_events:
  "\<exists>es. ru_events (finish_call a env tid sk pv out veto ot w) = ru_events w @ es
        \<and> lifecycle es = [ToolCallFinished tid (so_ok out) (so_summary out) ot (rv_elapsed env)]"
  by (simp add: finish_call_def Let_def)

lemma finish_call_id [simp]: "ru_next_id (finish_call a env tid sk pv out veto ot w) = ru_next_id w"
  by (simp add: finish_call_def Let_def)

definition closes :: "nat \<Rightarrow> RunReport \<Rightarrow> tool_event \<Rightarrow> bool" where
  "closes tid rep e =
     (case e of ToolCallFinished i k sm _ _ \<Rightarrow>
        i = tid \<and> k = so_ok (rr_outcome rep) \<and> sm = so_summary (rr_outcome rep) | _ \<Rightarrow> False)"

lemma run_denied_events:
  "run_denied a env v tid denied approval ctx w = (rep, w') \<Longrightarrow>
     ru_next_id w' = ru_next_id w
     \<and> (\<exists>es e. ru_events w' = ru_events w @ es \<and> lifecycle es = [e] \<and> closes tid rep e)"
  by (auto simp: run_denied_def Let_def closes_def finish_call_def split: prod.splits)

lemma run_allowed_events:
  assumes "run_allowed a env iv v tid approval ctx w = (rep, w')"
  shows "ru_next_id w' = ru_next_id w
         \<and> (\<exists>es e. ru_events w' = ru_events w @ es \<and> lifecycle es = [e] \<and> closes tid rep e)"
proof -
  obtain res s1 where b: "rv_body env (iv_args iv) (child a tid) (ru_state w) = (res, s1)"
    by (cases "rv_body env (iv_args iv) (child a tid) (ru_state w)")
  obtain pth out0 evs where sp: "spill a env (cv_skill v) tid (body_outcome a env (cv_skill v) res) = (pth, out0, evs)"
    by (cases "spill a env (cv_skill v) tid (body_outcome a env (cv_skill v) res)")
  obtain sm ex bl s2 where pc: "post_chain (sa_policies a) v out0 (so_summary out0) [] False s1 = (sm, ex, bl, s2)"
    by (cases "post_chain (sa_policies a) v out0 (so_summary out0) [] False s1")
  define out where "out = focus a env (iv_expectation iv) pth
    (if bl then \<lparr>so_ok = False, so_summary = sm\<rparr> else out0\<lparr>so_summary := sm\<rparr>)"
  define ot where "ot = ui_output (so_summary (if bl then \<lparr>so_ok = False, so_summary = sm\<rparr> else out0\<lparr>so_summary := sm\<rparr>))"
  have r: "rep = \<lparr>rr_outcome = out, rr_notices = ctx @ ex, rr_approval = approval\<rparr>"
    and w: "w' = finish_call a env tid (cv_skill v) (cv_preview v) out bl ot (emit evs (w\<lparr>ru_state := s2\<rparr>))"
    using assms by (auto simp: run_allowed_def b sp pc Let_def out_def ot_def)
  obtain es where es: "ru_events w' = (ru_events w @ evs) @ es"
      "lifecycle es = [ToolCallFinished tid (so_ok out) (so_summary out) ot (rv_elapsed env)]"
    using finish_call_events [of a env tid "cv_skill v" "cv_preview v" out bl ot "emit evs (w\<lparr>ru_state := s2\<rparr>)"]
    by (auto simp: w)
  then have "ru_events w' = ru_events w @ (evs @ es)" "closes tid rep (ToolCallFinished tid (so_ok out) (so_summary out) ot (rv_elapsed env))"
    "lifecycle (evs @ es) = [ToolCallFinished tid (so_ok out) (so_summary out) ot (rv_elapsed env)]"
    using lifecycle_spill [OF sp] by (simp_all add: closes_def r)
  then show ?thesis unfolding w by (simp only: finish_call_id emit_simps) auto
qed


section \<open>Read before edit\<close>

text \<open>
  The life of a session's files: the disk changes in any way (a body, another process), and after a
  call the policy observes. \<open>obs\<close> records what the last observation of a path found.
\<close>

inductive files_reach :: "host \<Rightarrow> pathbuf \<Rightarrow> policy_state \<Rightarrow> (Component list \<Rightarrow> string option) \<Rightarrow> bool"
  for h root where
  start: "ps_seen s = Map.empty \<Longrightarrow> files_reach h root s Map.empty"
| disk: "files_reach h root s obs \<Longrightarrow> files_reach h root (s\<lparr>ps_disk := d\<rparr>) obs"
| observed: "files_reach h root s obs \<Longrightarrow> resolved_arg h root v = Some r \<Longrightarrow> ps_disk s r = Some bytes
     \<Longrightarrow> so_ok out \<Longrightarrow> cv_skill v \<in> {''read-file'', ''write-file'', ''edit-file''}
     \<Longrightarrow> files_reach h root (read_before_edit_post h root v out s) (obs(components r \<mapsto> bytes))"
| unobserved: "files_reach h root s obs \<Longrightarrow>
       \<not> so_ok out \<or> cv_skill v \<notin> {''read-file'', ''write-file'', ''edit-file''}
       \<or> (\<forall>r. resolved_arg h root v = Some r \<longrightarrow> ps_disk s r = None)
     \<Longrightarrow> files_reach h root (read_before_edit_post h root v out s) obs"

lemma seen_is_digest:
  "files_reach h root s obs \<Longrightarrow> ps_seen s c = map_option (h_digest h) (obs c)"
  by (induction arbitrary: c rule: files_reach.induct)
     (auto simp: read_before_edit_post_def split: option.splits)

text \<open>
  C32: A file is edited only at the version last seen. Whatever happened to the disk in between, when
  read-before-edit lets a write or an edit of an existing file through, the session has observed that
  path before (a successful read, write or edit), and what it found then has the hash of what is on
  disk now.
\<close>

theorem edit_only_observed_version:
  assumes "files_reach h root s obs"
    and "cv_skill v = ''write-file'' \<or> cv_skill v = ''edit-file''"
    and "resolved_arg h root v = Some r" and "ps_disk s r = Some bytes"
    and "read_before_edit_pre h root v s = Allow"
  shows "\<exists>old. obs (components r) = Some old \<and> h_digest h old = h_digest h bytes"
  using assms(2-5) seen_is_digest [OF assms(1), of "components r"]
  by (auto simp: read_before_edit_pre_def split: option.splits if_splits)

theorem edit_only_observed_version_witness:
  "\<exists>old. [components ''/w/a'' \<mapsto> ''old''] (components ''/w/a'') = Some old \<and> h_digest demo_host old = h_digest demo_host ''old''"
proof -
  let ?v = "\<lambda>sk. \<lparr>cv_skill = sk, cv_args = JObject [(''path'', JString ''a'')], cv_preview = [], cv_depth = 0, cv_session = None\<rparr>"
  let ?s = "read_before_edit_post demo_host ''/w'' (?v ''read-file'') \<lparr>so_ok = True, so_summary = []\<rparr> demo_policy_state"
  have r: "resolved_arg demo_host ''/w'' (?v sk) = Some ''/w/a''" for sk
    by (simp add: resolved_arg_def str_arg_def resolve_def is_absolute_def path_join_def components_def
        segments_def List.map_filter_simps component_of_def)
  have d: "ps_disk demo_policy_state ''/w/a'' = Some ''old''" by (simp add: demo_policy_state_def)
  have "files_reach demo_host ''/w'' demo_policy_state Map.empty"
    by (rule files_reach.start) (simp add: demo_policy_state_def)
  from files_reach.observed [OF this r d, of "\<lparr>so_ok = True, so_summary = []\<rparr>"]
  have reach: "files_reach demo_host ''/w'' ?s [components ''/w/a'' \<mapsto> ''old'']" by simp
  have d': "ps_disk ?s ''/w/a'' = Some ''old''"
    using d by (simp add: read_before_edit_post_def r)
  have "read_before_edit_pre demo_host ''/w'' (?v ''edit-file'') ?s = Allow"
    using d by (simp add: read_before_edit_pre_def read_before_edit_post_def r)
  from edit_only_observed_version [OF reach _ r d' this] show ?thesis by simp
qed

end
