(* ===== verification/Approval_Broker.thy ===== *)
theory Approval_Broker
  imports Sica_Prelude
begin

text \<open>
  The human-in-the-loop broker of \<open>src/crates/agents/src/broker.rs\<close>. A question or an approval is
  split at its \<open>await\<close>: \<open>open_\<dots>\<close> is what runs before the wait, \<open>close_\<dots>\<close> what runs after it, and
  answers may be delivered in between by other tasks. The one-shot channel of an id is the value sent
  on it and not yet read; a sender that is dropped leaves it empty. What ended a wait (the interrupt,
  the timeout, the channel) is the parameter \<open>wake\<close>. Ids count up from 1 in a \<open>u64\<close>, far from its
  end.
\<close>

section \<open>State and operations\<close>

datatype broker_event =
    ApprovalRequested nat nat string string string
  | QuestionAsked nat nat string "string option" "string list" bool

record BrokerSet =
  br_next :: nat
  br_approvals :: "nat set"
  br_questions :: "nat set"
  br_verdicts :: "nat \<Rightarrow> bool option"
  br_answers :: "nat \<Rightarrow> string option"
  br_events :: "broker_event list"

definition broker_new :: BrokerSet where
  "broker_new = \<lparr>br_next = 0, br_approvals = {}, br_questions = {}, br_verdicts = Map.empty,
     br_answers = Map.empty, br_events = []\<rparr>"

definition next_id :: "BrokerSet \<Rightarrow> nat \<times> BrokerSet" where
  "next_id b = (br_next b + 1, b\<lparr>br_next := br_next b + 1\<rparr>)"

definition APPROVAL_TIMEOUT :: nat where "APPROVAL_TIMEOUT = 300"
definition QUESTION_TIMEOUT :: nat where "QUESTION_TIMEOUT = 600"

datatype wake = Cancelled | Elapsed | Ready

definition wait_one :: "wake \<Rightarrow> 'a option \<Rightarrow> 'a option" where
  "wait_one wk chan = (case wk of Cancelled \<Rightarrow> None | Elapsed \<Rightarrow> None | Ready \<Rightarrow> chan)"

definition open_approval :: "nat \<Rightarrow> string \<Rightarrow> string \<Rightarrow> string \<Rightarrow> BrokerSet \<Rightarrow> nat \<times> BrokerSet" where
  "open_approval session skill preview reason b0 =
     (case next_id b0 of (n, b) \<Rightarrow>
        (n, b\<lparr>br_approvals := insert n (br_approvals b), br_verdicts := (br_verdicts b)(n := None),
              br_events := br_events b @ [ApprovalRequested n session skill preview reason]\<rparr>))"

definition close_approval :: "nat \<Rightarrow> wake \<Rightarrow> BrokerSet \<Rightarrow> bool \<times> BrokerSet" where
  "close_approval n wk b =
     (case wait_one wk (br_verdicts b n) of Some allow \<Rightarrow> allow | None \<Rightarrow> False,
      b\<lparr>br_approvals := br_approvals b - {n}\<rparr>)"

definition open_question ::
  "nat \<Rightarrow> string \<Rightarrow> string option \<Rightarrow> string list \<Rightarrow> bool \<Rightarrow> BrokerSet \<Rightarrow> nat \<times> BrokerSet" where
  "open_question session question detail options multi b0 =
     (case next_id b0 of (n, b) \<Rightarrow>
        (n, b\<lparr>br_questions := insert n (br_questions b), br_answers := (br_answers b)(n := None),
              br_events := br_events b @ [QuestionAsked n session question detail options multi]\<rparr>))"

definition close_question :: "nat \<Rightarrow> wake \<Rightarrow> BrokerSet \<Rightarrow> string option \<times> BrokerSet" where
  "close_question n wk b =
     (wait_one wk (br_answers b n), b\<lparr>br_questions := br_questions b - {n}\<rparr>)"

definition resolve_approval :: "nat \<Rightarrow> bool \<Rightarrow> BrokerSet \<Rightarrow> bool \<times> BrokerSet" where
  "resolve_approval n allow b =
     (if n \<in> br_approvals b
      then (True, b\<lparr>br_approvals := br_approvals b - {n}, br_verdicts := (br_verdicts b)(n \<mapsto> allow)\<rparr>)
      else (False, b))"

definition answer_question :: "nat \<Rightarrow> string \<Rightarrow> BrokerSet \<Rightarrow> bool \<times> BrokerSet" where
  "answer_question n answer b =
     (if n \<in> br_questions b
      then (True, b\<lparr>br_questions := br_questions b - {n}, br_answers := (br_answers b)(n \<mapsto> answer)\<rparr>)
      else (False, b))"

section \<open>Interleavings\<close>

text \<open>
  Any interleaving of asking, answering and waking up, with the history of what happened (newest
  first): an approval asked, an answer delivered with what the delivery reported, the verdict the
  asking call got; the same for questions.
\<close>

datatype broker_act =
    Asked nat | Delivered nat bool bool | Verdict nat bool
  | Posed nat | Replied nat string bool | Got nat "string option"

inductive broker_reach :: "BrokerSet \<Rightarrow> broker_act list \<Rightarrow> bool" where
  start: "broker_reach broker_new []"
| ask: "broker_reach b hs \<Longrightarrow> open_approval se sk pv re b = (n, b') \<Longrightarrow> broker_reach b' (Asked n # hs)"
| deliver: "broker_reach b hs \<Longrightarrow> resolve_approval n allow b = (r, b') \<Longrightarrow> broker_reach b' (Delivered n allow r # hs)"
| verdict: "broker_reach b hs \<Longrightarrow> Asked n \<in> set hs \<Longrightarrow> \<forall>d. Verdict n d \<notin> set hs \<Longrightarrow>
     close_approval n wk b = (d, b') \<Longrightarrow> broker_reach b' (Verdict n d # hs)"
| pose: "broker_reach b hs \<Longrightarrow> open_question se q de op mu b = (n, b') \<Longrightarrow> broker_reach b' (Posed n # hs)"
| reply: "broker_reach b hs \<Longrightarrow> answer_question n ans b = (r, b') \<Longrightarrow> broker_reach b' (Replied n ans r # hs)"
| got: "broker_reach b hs \<Longrightarrow> Posed n \<in> set hs \<Longrightarrow> \<forall>d. Got n d \<notin> set hs \<Longrightarrow>
     close_question n wk b = (d, b') \<Longrightarrow> broker_reach b' (Got n d # hs)"

lemmas broker_ops = next_id_def open_approval_def close_approval_def open_question_def close_question_def
  resolve_approval_def answer_question_def wait_one_def

lemmas broker_splits = if_splits wake.splits option.splits

lemma ids_bounded:
  "broker_reach b hs \<Longrightarrow> (\<forall>n \<in> br_approvals b. n \<le> br_next b) \<and> (\<forall>n \<in> br_questions b. n \<le> br_next b)"
  by (induction rule: broker_reach.induct)
     (auto simp: broker_new_def broker_ops le_SucI split: broker_splits)

lemma asked_bounded: "broker_reach b hs \<Longrightarrow> \<forall>n. Asked n \<in> set hs \<or> Posed n \<in> set hs \<longrightarrow> n \<le> br_next b"
  by (induction rule: broker_reach.induct)
     (auto simp: broker_new_def broker_ops le_SucI split: broker_splits)

lemma delivered_bounded: "broker_reach b hs \<Longrightarrow> \<forall>n d. Delivered n d True \<in> set hs \<longrightarrow> n \<le> br_next b"
proof (induction rule: broker_reach.induct)
  case (deliver b hs n allow r b')
  then show ?case using ids_bounded [OF deliver(1)] by (auto simp: broker_ops split: if_splits)
qed (auto simp: broker_new_def broker_ops le_SucI split: broker_splits)

lemma delivered_gone: "broker_reach b hs \<Longrightarrow> \<forall>n d. Delivered n d True \<in> set hs \<longrightarrow> n \<notin> br_approvals b"
proof (induction rule: broker_reach.induct)
  case (ask b hs se sk pv re n b')
  then have "n = Suc (br_next b)" "br_approvals b' = insert n (br_approvals b)" by (auto simp: broker_ops)
  with ask.IH delivered_bounded [OF ask(1)] show ?case by force
qed (auto simp: broker_new_def broker_ops split: broker_splits)

lemma one_delivery:
  "broker_reach b hs \<Longrightarrow> \<forall>n d d'. Delivered n d True \<in> set hs \<longrightarrow> Delivered n d' True \<in> set hs \<longrightarrow> d = d'"
proof (induction rule: broker_reach.induct)
  case (deliver b hs n allow r b')
  then show ?case using delivered_gone [OF deliver(1)] by (auto simp: broker_ops split: if_splits)
qed auto

lemma verdict_sent: "broker_reach b hs \<Longrightarrow> \<forall>n d. br_verdicts b n = Some d \<longrightarrow> Delivered n d True \<in> set hs"
  by (induction rule: broker_reach.induct) (auto simp: broker_new_def broker_ops split: broker_splits)

lemma answer_sent: "broker_reach b hs \<Longrightarrow> \<forall>n a. br_answers b n = Some a \<longrightarrow> Replied n a True \<in> set hs"
  by (induction rule: broker_reach.induct) (auto simp: broker_new_def broker_ops split: broker_splits)

lemma allow_delivered: "broker_reach b hs \<Longrightarrow> \<forall>n. Verdict n True \<in> set hs \<longrightarrow> Delivered n True True \<in> set hs"
proof (induction rule: broker_reach.induct)
  case (verdict b hs n wk d b')
  then show ?case using verdict_sent [OF verdict(1)] by (auto simp: broker_ops split: broker_splits)
qed auto

lemma got_replied: "broker_reach b hs \<Longrightarrow> \<forall>n a. Got n (Some a) \<in> set hs \<longrightarrow> Replied n a True \<in> set hs"
proof (induction rule: broker_reach.induct)
  case (got b hs n wk d b')
  then show ?case using answer_sent [OF got(1)] by (auto simp: broker_ops split: broker_splits)
qed auto

lemma closed_gone: "broker_reach b hs \<Longrightarrow> \<forall>n d. Verdict n d \<in> set hs \<longrightarrow> n \<notin> br_approvals b"
proof (induction rule: broker_reach.induct)
  case (ask b hs se sk pv re n b')
  have "\<forall>n d. Verdict n d \<in> set hs \<longrightarrow> Asked n \<in> set hs"
    using ask(1) by (induction rule: broker_reach.induct) auto
  moreover have "n = Suc (br_next b)" "br_approvals b' = insert n (br_approvals b)"
    using ask(2) by (auto simp: broker_ops)
  ultimately show ?case using ask.IH asked_bounded [OF ask(1)] by force
qed (auto simp: broker_new_def broker_ops split: broker_splits)

fun asked_ids :: "broker_act list \<Rightarrow> nat list" where
  "asked_ids [] = []"
| "asked_ids (Asked n # hs) = n # asked_ids hs"
| "asked_ids (Posed n # hs) = n # asked_ids hs"
| "asked_ids (_ # hs) = asked_ids hs"

lemma set_asked_ids: "n \<in> set (asked_ids hs) \<longleftrightarrow> Asked n \<in> set hs \<or> Posed n \<in> set hs"
  by (induction hs rule: asked_ids.induct) auto

lemma ids_distinct: "broker_reach b hs \<Longrightarrow> distinct (asked_ids hs)"
proof (induction rule: broker_reach.induct)
  case (ask b hs se sk pv re n b')
  then have "n = Suc (br_next b)" by (auto simp: broker_ops)
  with asked_bounded [OF ask(1)] have "n \<notin> set (asked_ids hs)" by (auto simp: set_asked_ids)
  with ask.IH show ?case by simp
next
  case (pose b hs se q de op mu n b')
  then have "n = Suc (br_next b)" by (auto simp: broker_ops)
  with asked_bounded [OF pose(1)] have "n \<notin> set (asked_ids hs)" by (auto simp: set_asked_ids)
  with pose.IH show ?case by simp
qed simp_all

section \<open>Properties\<close>



end
