(* ===== verification/Hook_Policy.thy ===== *)
theory Hook_Policy
  imports Tool_Run Session_Log
begin

text \<open>
  Hooks, \<open>src/crates/backend/src/hooks.rs\<close>: the configuration, the answer of one command, the merge
  of all answers, and the policy that puts hooks in the tool pipeline and in the session log. Running
  a command is the parameter \<open>hx_run\<close> (its outputs already decoded); reading JSON, compiling a
  regular expression, \<open>{:?}\<close> and the clock are parameters too. The entries of the configuration file
  come in the order its hash map yields them.
\<close>

section \<open>Events and configuration\<close>

datatype HookEvent = SessionStart | UserPromptSubmit | PreToolUse | PostToolUse | Stop | SessionEnd

fun hook_event_name :: "HookEvent \<Rightarrow> string" where
  "hook_event_name SessionStart = ''SessionStart''"
| "hook_event_name UserPromptSubmit = ''UserPromptSubmit''"
| "hook_event_name PreToolUse = ''PreToolUse''"
| "hook_event_name PostToolUse = ''PostToolUse''"
| "hook_event_name Stop = ''Stop''"
| "hook_event_name SessionEnd = ''SessionEnd''"

definition hook_event_parse :: "string \<Rightarrow> HookEvent option" where
  "hook_event_parse s =
     find (\<lambda>e. hook_event_name e = s) [SessionStart, UserPromptSubmit, PreToolUse, PostToolUse, Stop, SessionEnd]"

record RawHook =
  rh_kind :: "string option"
  rh_command :: string
  rh_timeout :: "nat option"

record RawGroup =
  rg_matcher :: "string option"
  rg_hooks :: "RawHook list"

record Hook =
  hk_command :: string
  hk_timeout :: nat
  hk_matcher :: "(string \<Rightarrow> bool) option"

definition hook_matches :: "Hook \<Rightarrow> string \<Rightarrow> bool" where
  "hook_matches h tool = (case hk_matcher h of None \<Rightarrow> True | Some re \<Rightarrow> re tool)"

record HookConfig =
  hc_by_event :: "string \<Rightarrow> Hook list"
  hc_warnings :: "string list"

definition all_events :: "HookEvent list" where
  "all_events = [SessionStart, UserPromptSubmit, PreToolUse, PostToolUse, Stop, SessionEnd]"

definition config_is_empty :: "HookConfig \<Rightarrow> bool" where
  "config_is_empty c = list_all (\<lambda>e. hc_by_event c (hook_event_name e) = []) all_events"

definition for_event :: "HookConfig \<Rightarrow> HookEvent \<Rightarrow> Hook list" where
  "for_event c e = hc_by_event c (hook_event_name e)"

definition matching :: "HookConfig \<Rightarrow> HookEvent \<Rightarrow> string \<Rightarrow> Hook list" where
  "matching c e tool = filter (\<lambda>h. hook_matches h tool) (for_event c e)"

definition DEFAULT_TIMEOUT :: nat where "DEFAULT_TIMEOUT = 60"
definition MAX_OUTPUT :: nat where "MAX_OUTPUT = 16384"

definition warn_config :: "string \<Rightarrow> HookConfig \<Rightarrow> HookConfig" where
  "warn_config m c = c\<lparr>hc_warnings := hc_warnings c @ [m]\<rparr>"

definition load_hook ::
  "(string \<Rightarrow> string) \<Rightarrow> HookEvent \<Rightarrow> (string \<Rightarrow> bool) option \<Rightarrow> RawHook \<Rightarrow> HookConfig \<Rightarrow> HookConfig" where
  "load_hook dbg e m rh c =
     (let name = hook_event_name e; kind = (case rh_kind rh of None \<Rightarrow> ''command'' | Some k \<Rightarrow> k)
      in if kind \<noteq> ''command''
         then warn_config (''hooks: '' @ name @ '' hook of type '' @ dbg kind @ '' is not runnable ''
                @ em_dash @ '' only `command` hooks run'') c
         else if trim (rh_command rh) = []
         then warn_config (''hooks: '' @ name @ '' hook has an empty command '' @ em_dash @ '' ignored'') c
         else c\<lparr>hc_by_event := (hc_by_event c)(name := hc_by_event c name @
                 [\<lparr>hk_command = rh_command rh,
                   hk_timeout = (case rh_timeout rh of Some t \<Rightarrow> t | None \<Rightarrow> DEFAULT_TIMEOUT),
                   hk_matcher = m\<rparr>])\<rparr>)"

definition load_group ::
  "(string \<Rightarrow> string) \<Rightarrow> (string \<Rightarrow> string + (string \<Rightarrow> bool)) \<Rightarrow> HookEvent \<Rightarrow> RawGroup \<Rightarrow> HookConfig \<Rightarrow> HookConfig" where
  "load_group dbg regex e g c =
     (let hooks = (\<lambda>m. fold (load_hook dbg e m) (rg_hooks g) c)
      in case rg_matcher g of
           None \<Rightarrow> hooks None
         | Some pat \<Rightarrow>
             if pat = [] \<or> pat = ''*'' then hooks None
             else (case regex pat of
                     Inr re \<Rightarrow> hooks (Some re)
                   | Inl err \<Rightarrow>
                       warn_config (''hooks: '' @ hook_event_name e @ '' matcher '' @ dbg pat
                         @ '' will not compile: '' @ err @ '' '' @ em_dash @ '' that group is skipped'') c))"

definition load_event ::
  "(string \<Rightarrow> string) \<Rightarrow> (string \<Rightarrow> string + (string \<Rightarrow> bool)) \<Rightarrow> string \<times> RawGroup list \<Rightarrow> HookConfig \<Rightarrow> HookConfig" where
  "load_event dbg regex entry c =
     (case hook_event_parse (fst entry) of
        None \<Rightarrow> warn_config (''hooks: unknown event '' @ dbg (fst entry) @ '' '' @ em_dash @ '' ignored'') c
      | Some e \<Rightarrow> fold (load_group dbg regex e) (snd entry) c)"

datatype config_file =
    Missing
  | Unreadable string
  | NotJson string
  | RawFile "(string \<times> RawGroup list) list"

definition load_from ::
  "(string \<Rightarrow> string) \<Rightarrow> (string \<Rightarrow> string + (string \<Rightarrow> bool)) \<Rightarrow> pathbuf \<Rightarrow> config_file \<Rightarrow> HookConfig" where
  "load_from dbg regex path file =
     (let empty = \<lparr>hc_by_event = (\<lambda>_. []), hc_warnings = []\<rparr>
      in case file of
           Missing \<Rightarrow> empty
         | Unreadable e \<Rightarrow> warn_config (''hooks: '' @ path @ '' unreadable: '' @ e) empty
         | NotJson e \<Rightarrow> warn_config (''hooks: '' @ path @ '' is not valid JSON: '' @ e @ '' '' @ em_dash @ '' no hooks loaded'') empty
         | RawFile raw \<Rightarrow>
             (let c = fold (load_event dbg regex) raw empty
              in if for_event c Stop \<noteq> []
                 then warn_config (''hooks: Stop hooks are configured but this build does not dispatch them yet ''
                        @ em_dash @ '' they will not run'') c
                 else c))"

section \<open>Answers\<close>

datatype Rank = RankAllow | RankAsk | RankDeny

fun rank_label :: "Rank \<Rightarrow> string" where
  "rank_label RankAllow = ''allow''"
| "rank_label RankAsk = ''ask''"
| "rank_label RankDeny = ''deny''"

text \<open>The derived order of the enumeration.\<close>

fun rank_nat :: "Rank \<Rightarrow> nat" where
  "rank_nat RankAllow = 0"
| "rank_nat RankAsk = 1"
| "rank_nat RankDeny = 2"

instantiation Rank :: linorder
begin
definition less_eq_Rank :: "Rank \<Rightarrow> Rank \<Rightarrow> bool" where
  "less_eq_Rank a b = (rank_nat a \<le> rank_nat b)"
definition less_Rank :: "Rank \<Rightarrow> Rank \<Rightarrow> bool" where
  "less_Rank a b = (rank_nat a < rank_nat b)"
instance
proof
  fix a b :: Rank
  show "a \<le> b \<Longrightarrow> b \<le> a \<Longrightarrow> a = b" by (cases a; cases b) (simp_all add: less_eq_Rank_def)
qed (auto simp: less_eq_Rank_def less_Rank_def)
end

record HookAnswer =
  ha_rank :: Rank
  ha_reason :: "string option"
  ha_context :: "string option"
  ha_stop :: bool
  ha_updated_input :: bool
  ha_exit_code :: "int option"
  ha_outcome :: string

definition no_answer :: HookAnswer where
  "no_answer = \<lparr>ha_rank = RankAllow, ha_reason = None, ha_context = None, ha_stop = False,
     ha_updated_input = False, ha_exit_code = None, ha_outcome = []\<rparr>"

record Merged =
  mg_rank :: Rank
  mg_rewrote_input :: bool
  mg_reasons :: "string list"
  mg_context :: "string list"
  mg_stop :: bool
  mg_ran :: "(string \<times> string \<times> int option) list"

fun join_reasons :: "string list \<Rightarrow> string" where
  "join_reasons [] = []"
| "join_reasons [x] = x"
| "join_reasons (x # xs) = x @ ''; '' @ join_reasons xs"

definition reason_text :: "Merged \<Rightarrow> string" where
  "reason_text m =
     (if mg_reasons m = [] then ''a hook returned '' @ rank_label (mg_rank m) else join_reasons (mg_reasons m))"

text \<open>The two loops of \<open>merge\<close>.\<close>

definition merge_head :: "HookAnswer \<Rightarrow> Merged \<Rightarrow> Merged" where
  "merge_head a m = m\<lparr>mg_rank := max (mg_rank m) (ha_rank a), mg_stop := (mg_stop m \<or> ha_stop a),
                      mg_rewrote_input := (mg_rewrote_input m \<or> ha_updated_input a)\<rparr>"

definition merge_tail :: "string \<times> HookAnswer \<Rightarrow> Merged \<Rightarrow> Merged" where
  "merge_tail ca m =
     (let a = snd ca;
          m1 = (case ha_context a of
                  Some c \<Rightarrow> if trim c \<noteq> [] then m\<lparr>mg_context := mg_context m @ [c]\<rparr> else m
                | None \<Rightarrow> m);
          m2 = (if ha_rank a = mg_rank m1 \<and> mg_rank m1 \<noteq> RankAllow
                then case ha_reason a of
                       Some r \<Rightarrow> m1\<lparr>mg_reasons := mg_reasons m1 @ [r]\<rparr>
                     | None \<Rightarrow> m1
                else m1)
      in m2\<lparr>mg_ran := mg_ran m2 @ [(fst ca, ha_outcome a, ha_exit_code a)]\<rparr>)"

definition merged_default :: Merged where
  "merged_default = \<lparr>mg_rank = RankAllow, mg_rewrote_input = False, mg_reasons = [], mg_context = [],
     mg_stop = False, mg_ran = []\<rparr>"

definition merge_answers :: "(string \<times> HookAnswer) list \<Rightarrow> Merged" where
  "merge_answers answers = fold merge_tail answers (fold merge_head (map snd answers) merged_default)"

section \<open>One command\<close>

definition hook_first_line :: "string \<Rightarrow> string" where
  "hook_first_line s =
     (let line = (case str_lines s of [] \<Rightarrow> [] | l # _ \<Rightarrow> l)
      in if chars_count line \<le> 120 then line else take_chars 120 line @ ellipsis)"

definition get_str :: "string \<Rightarrow> json \<Rightarrow> string option" where
  "get_str k v = Option.bind (json_get k v) as_str"

definition or_else :: "'a option \<Rightarrow> 'a option \<Rightarrow> 'a option" where
  "or_else a b = (case a of Some x \<Rightarrow> Some x | None \<Rightarrow> b)"

text \<open>The two shapes of a decision, and \<open>continue\<close>.\<close>

definition flat_decision :: "json \<Rightarrow> Rank \<times> string option" where
  "flat_decision j =
     (if get_str ''decision'' j = Some ''block'' then (RankDeny, get_str ''reason'' j) else (RankAllow, None))"

definition specific_decision :: "json \<Rightarrow> Rank \<times> string option \<Rightarrow> Rank \<times> string option" where
  "specific_decision j rr =
     (case Option.bind (json_get ''hookSpecificOutput'' j) (get_str ''permissionDecision'') of
        None \<Rightarrow> rr
      | Some d \<Rightarrow>
          (let sr = Option.bind (json_get ''hookSpecificOutput'' j) (get_str ''permissionDecisionReason'')
           in if d = ''deny'' then (RankDeny, or_else sr (snd rr))
              else if d = ''ask'' then (RankAsk, or_else sr (snd rr))
              else if d = ''allow'' then (RankAllow, None)
              else rr))"

definition json_answer :: "int option \<Rightarrow> json \<Rightarrow> HookAnswer" where
  "json_answer code j =
     (let rr = specific_decision j (flat_decision j);
          stop = (json_get ''continue'' j = Some (JBool False));
          rank = (if stop then RankDeny else fst rr);
          reason = (if stop then or_else (get_str ''stopReason'' j) (snd rr) else snd rr);
          specific = json_get ''hookSpecificOutput'' j;
          context = Option.bind (or_else (Option.bind specific (json_get ''additionalContext''))
                                         (json_get ''additionalContext'' j)) as_str;
          updated = (json_get ''updatedInput'' j \<noteq> None
                     \<or> Option.bind specific (json_get ''updatedInput'') \<noteq> None)
      in \<lparr>ha_rank = rank, ha_reason = reason, ha_context = context, ha_stop = stop,
          ha_updated_input = updated, ha_exit_code = code, ha_outcome = rank_label rank\<rparr>)"

definition parse_answer :: "(string \<Rightarrow> json option) \<Rightarrow> int option \<Rightarrow> string \<Rightarrow> string \<Rightarrow> HookAnswer" where
  "parse_answer from_str code stdout stderr =
     (if code = Some 2
      then no_answer\<lparr>ha_rank := RankDeny,
             ha_reason := Some (if trim stderr = [] then ''a hook blocked this (exit 2)'' else trim stderr),
             ha_exit_code := code, ha_outcome := rank_label RankDeny\<rparr>
      else if trim stdout = []
      then let failed = (code \<noteq> Some 0)
           in no_answer\<lparr>ha_exit_code := code,
                ha_outcome := (if failed then ''error'' else rank_label RankAllow),
                ha_reason := (if failed
                              then Some (if trim stderr = []
                                         then ''hook exited '' @ (case code of Some c \<Rightarrow> dec_int c | None \<Rightarrow> ''on a signal'')
                                         else trim stderr)
                              else None)\<rparr>
      else case from_str (trim stdout) of
             None \<Rightarrow> no_answer\<lparr>ha_exit_code := code, ha_outcome := ''error'',
                       ha_reason := Some (''hook wrote non-JSON output: '' @ hook_first_line (trim stdout))\<rparr>
           | Some j \<Rightarrow> json_answer code j)"

datatype proc_end = NoStart string | WaitFailed string | ProcTimeout | Exited "int option" string string

record hook_ext =
  hx_run :: "Hook \<Rightarrow> json \<Rightarrow> pathbuf \<Rightarrow> proc_end"
  hx_from_str :: "string \<Rightarrow> json option"
  hx_debug :: "string \<Rightarrow> string"
  hx_now :: int
  hx_default_cwd :: pathbuf

definition run_one :: "hook_ext \<Rightarrow> Hook \<Rightarrow> json \<Rightarrow> pathbuf \<Rightarrow> HookAnswer" where
  "run_one hx h payload cwd =
     (case hx_run hx h payload cwd of
        NoStart e \<Rightarrow> no_answer\<lparr>ha_outcome := ''error'',
          ha_reason := Some (''hook '' @ hx_debug hx (hk_command h) @ '' would not start: '' @ e)\<rparr>
      | WaitFailed e \<Rightarrow> no_answer\<lparr>ha_outcome := ''error'',
          ha_reason := Some (''hook '' @ hx_debug hx (hk_command h) @ '' failed: '' @ e)\<rparr>
      | ProcTimeout \<Rightarrow> no_answer\<lparr>ha_outcome := ''error'',
          ha_reason := Some (''hook '' @ hx_debug hx (hk_command h) @ '' timed out after '' @ dec (hk_timeout h) @ ''s'')\<rparr>
      | Exited code stdout stderr \<Rightarrow>
          parse_answer (hx_from_str hx) code (utf8_head stdout MAX_OUTPUT) (utf8_head stderr MAX_OUTPUT))"

definition run_all :: "hook_ext \<Rightarrow> Hook list \<Rightarrow> json \<Rightarrow> pathbuf \<Rightarrow> Merged" where
  "run_all hx hooks payload cwd = merge_answers (map (\<lambda>h. (hk_command h, run_one hx h payload cwd)) hooks)"

definition opt_entry :: "string \<Rightarrow> json option \<Rightarrow> (string \<times> json) list" where
  "opt_entry k v = (case v of None \<Rightarrow> [] | Some j \<Rightarrow> [(k, j)])"

definition hook_payload ::
  "HookEvent \<Rightarrow> nat \<Rightarrow> string option \<Rightarrow> json option \<Rightarrow> json option \<Rightarrow> string option \<Rightarrow> pathbuf \<Rightarrow> json" where
  "hook_payload e session tool input response prompt cwd =
     JObject ([(''hook_event_name'', JString (hook_event_name e)),
               (''session_id'', JString (dec session)), (''cwd'', JString cwd)]
       @ opt_entry ''tool_name'' (map_option JString tool) @ opt_entry ''tool_input'' input
       @ opt_entry ''tool_response'' response @ opt_entry ''prompt'' (map_option JString prompt))"

section \<open>The policy\<close>

record hook_state = policy_state +
  hs_log :: "SessionLog option"
  hs_lines :: "(string \<times> string) list"

definition append_event :: "int \<Rightarrow> EventKind \<Rightarrow> 'a hook_state_scheme \<Rightarrow> 'a hook_state_scheme" where
  "append_event now k s = s\<lparr>hs_log := map_option (\<lambda>l. log_append l now k) (hs_log s)\<rparr>"

definition log_line :: "string \<Rightarrow> string \<Rightarrow> 'a hook_state_scheme \<Rightarrow> 'a hook_state_scheme" where
  "log_line level m s = s\<lparr>hs_lines := hs_lines s @ [(level, m)]\<rparr>"

definition record_one :: "hook_ext \<Rightarrow> HookEvent \<Rightarrow> nat option \<Rightarrow> string \<times> string \<times> int option \<Rightarrow> 'a hook_state_scheme \<Rightarrow> 'a hook_state_scheme" where
  "record_one hx e session row s =
     (case row of (command, decision, code) \<Rightarrow>
        (let s1 = (if decision = ''error''
                   then log_line ''WARN'' (hook_event_name e @ '' hook failed and was ignored: '' @ command) s
                   else s)
         in case session of
              None \<Rightarrow> s1
            | Some _ \<Rightarrow> append_event (hx_now hx) (EventKind.Hook (hook_event_name e) command decision code) s1))"

definition record_merged :: "hook_ext \<Rightarrow> HookEvent \<Rightarrow> nat option \<Rightarrow> Merged \<Rightarrow> 'a hook_state_scheme \<Rightarrow> 'a hook_state_scheme" where
  "record_merged hx e session m s0 =
     (let s1 = (if mg_rewrote_input m
                then log_line ''WARN'' (''a '' @ hook_event_name e @ '' hook returned `updatedInput`, which this build does not apply ''
                       @ em_dash @ '' the tool ran with the arguments the model sent'') s0
                else s0);
          s2 = fold (record_one hx e session) (mg_ran m) s1
      in if mg_rank m \<noteq> RankAllow
         then log_line ''INFO'' (hook_event_name e @ '' hook returned '' @ rank_label (mg_rank m) @ '': '' @ reason_text m) s2
         else s2)"

definition session_cwd_of :: "hook_ext \<Rightarrow> nat option \<Rightarrow> 'a hook_state_scheme \<Rightarrow> pathbuf" where
  "session_cwd_of hx session s =
     (case (session, Option.bind (hs_log s) log_cwd) of
        (Some _, Some d) \<Rightarrow> d
      | _ \<Rightarrow> hx_default_cwd hx)"

definition hooks_pre :: "hook_ext \<Rightarrow> HookConfig \<Rightarrow> CallView \<Rightarrow> 'a hook_state_scheme \<Rightarrow> PreDecision \<times> 'a hook_state_scheme" where
  "hooks_pre hx cfg v s =
     (let hooks = matching cfg PreToolUse (cv_skill v)
      in if hooks = [] then (Allow, s)
         else let cwd = session_cwd_of hx (cv_session v) s;
                  payload = hook_payload PreToolUse (case cv_session v of Some n \<Rightarrow> n | None \<Rightarrow> 0)
                              (Some (cv_skill v)) (Some (cv_args v)) None None cwd;
                  m = run_all hx hooks payload cwd;
                  s' = record_merged hx PreToolUse (cv_session v) m s
              in (case mg_rank m of
                    RankAllow \<Rightarrow>
                      if list_ex (\<lambda>c. trim c \<noteq> []) (mg_context m)
                      then AllowWith (filter (\<lambda>c. trim c \<noteq> []) (mg_context m)) else Allow
                  | RankAsk \<Rightarrow> Ask (''a hook asks: '' @ reason_text m)
                  | RankDeny \<Rightarrow> Deny (''[hook denied this call: '' @ reason_text m @ '']''), s'))"

definition hooks_post :: "hook_ext \<Rightarrow> HookConfig \<Rightarrow> CallView \<Rightarrow> SkillOutcome \<Rightarrow> 'a hook_state_scheme \<Rightarrow> PostDecision \<times> 'a hook_state_scheme" where
  "hooks_post hx cfg v out s =
     (let hooks = matching cfg PostToolUse (cv_skill v)
      in if hooks = [] then (Accept (so_summary out) [], s)
         else let response = JObject [(''ok'', JBool (so_ok out)), (''summary'', JString (utf8_head (so_summary out) 8192))];
                  cwd = session_cwd_of hx (cv_session v) s;
                  payload = hook_payload PostToolUse (case cv_session v of Some n \<Rightarrow> n | None \<Rightarrow> 0)
                              (Some (cv_skill v)) (Some (cv_args v)) (Some response) None cwd;
                  m = run_all hx hooks payload cwd;
                  s' = record_merged hx PostToolUse (cv_session v) m s
              in (if mg_rank m = RankDeny
                  then BlockWith (''[a hook rejected this result: '' @ reason_text m @ '']'') (mg_context m)
                  else Accept (so_summary out) (mg_context m), s'))"

definition hooks_policy :: "hook_ext \<Rightarrow> HookConfig \<Rightarrow> 'a hook_state_scheme ToolPolicy" where
  "hooks_policy hx cfg =
     default_policy\<lparr>pre_execute := hooks_pre hx cfg, post_execute := hooks_post hx cfg\<rparr>"

definition run_and_record :: "hook_ext \<Rightarrow> Hook list \<Rightarrow> json \<Rightarrow> pathbuf \<Rightarrow> HookEvent \<Rightarrow> nat \<Rightarrow> 'a hook_state_scheme \<Rightarrow> Merged \<times> 'a hook_state_scheme" where
  "run_and_record hx hooks payload cwd e session s =
     (let m = run_all hx hooks payload cwd
      in (m, fold (record_one hx e (Some session)) (mg_ran m) s))"

definition run_event :: "hook_ext \<Rightarrow> HookConfig \<Rightarrow> HookEvent \<Rightarrow> nat \<Rightarrow> string option \<Rightarrow> 'a hook_state_scheme \<Rightarrow> Merged \<times> 'a hook_state_scheme" where
  "run_event hx cfg e session prompt s =
     (let hooks = for_event cfg e
      in if hooks = [] then (merged_default, s)
         else let cwd = session_cwd_of hx (Some session) s
              in run_and_record hx hooks (hook_payload e session None None None prompt cwd) cwd e session s)"

definition add_entry :: "string \<Rightarrow> json \<Rightarrow> json \<Rightarrow> json" where
  "add_entry k x j = (case j of JObject m \<Rightarrow> JObject (m @ [(k, x)]) | _ \<Rightarrow> j)"

definition run_session_end :: "hook_ext \<Rightarrow> HookConfig \<Rightarrow> nat \<Rightarrow> string \<Rightarrow> 'a hook_state_scheme \<Rightarrow> 'a hook_state_scheme" where
  "run_session_end hx cfg session reason s =
     (let hooks = for_event cfg SessionEnd
      in if hooks = [] then s
         else let cwd = session_cwd_of hx (Some session) s
              in snd (run_and_record hx hooks
                        (add_entry ''reason'' (JString reason) (hook_payload SessionEnd session None None None None cwd))
                        cwd SessionEnd session s))"

section \<open>What the merge computes\<close>

definition strictest :: "Rank list \<Rightarrow> Rank" where
  "strictest rs = fold max rs RankAllow"

definition contexts_of :: "(string \<times> HookAnswer) list \<Rightarrow> string list" where
  "contexts_of as = filter (\<lambda>c. trim c \<noteq> []) (List.map_filter (\<lambda>a. ha_context (snd a)) as)"

definition reasons_at :: "Rank \<Rightarrow> (string \<times> HookAnswer) list \<Rightarrow> string list" where
  "reasons_at r as =
     (if r = RankAllow then [] else List.map_filter (\<lambda>a. if ha_rank (snd a) = r then ha_reason (snd a) else None) as)"

lemma merge_head_fold:
  "fold merge_head as m = m\<lparr>mg_rank := fold max (map ha_rank as) (mg_rank m),
     mg_stop := (mg_stop m \<or> list_ex ha_stop as),
     mg_rewrote_input := (mg_rewrote_input m \<or> list_ex ha_updated_input as)\<rparr>"
  by (induction as arbitrary: m) (simp_all add: merge_head_def max.commute)

lemma merge_tail_fold:
  "fold merge_tail as m = m\<lparr>mg_context := mg_context m @ contexts_of as,
     mg_reasons := mg_reasons m @ reasons_at (mg_rank m) as,
     mg_ran := mg_ran m @ map (\<lambda>a. (fst a, ha_outcome (snd a), ha_exit_code (snd a))) as\<rparr>"
proof (induction as arbitrary: m)
  case (Cons a as)
  show ?case
    by (simp add: Cons.IH)
       (cases "ha_context (snd a)"; cases "ha_reason (snd a)";
        simp add: merge_tail_def Let_def contexts_of_def reasons_at_def List.map_filter_simps)
qed (simp add: contexts_of_def reasons_at_def List.map_filter_simps)

lemma merge_answers_eq:
  "merge_answers as =
     (let r = strictest (map (\<lambda>a. ha_rank (snd a)) as)
      in \<lparr>mg_rank = r, mg_rewrote_input = list_ex (\<lambda>a. ha_updated_input (snd a)) as,
          mg_reasons = reasons_at r as, mg_context = contexts_of as,
          mg_stop = list_ex (\<lambda>a. ha_stop (snd a)) as,
          mg_ran = map (\<lambda>a. (fst a, ha_outcome (snd a), ha_exit_code (snd a))) as\<rparr>)"
  by (simp add: merge_answers_def merge_head_fold merge_tail_fold merged_default_def strictest_def
      Let_def list_ex_iff comp_def)

lemma RankAllow_least [simp]: "RankAllow \<le> r"
  by (simp add: less_eq_Rank_def)

lemma fold_max_ge: "(m :: Rank) \<le> fold max rs m"
  by (induction rs arbitrary: m) (simp_all, meson max.cobounded2 order_trans)

lemma fold_max_upper: "r \<in> set rs \<Longrightarrow> r \<le> fold max rs (m :: Rank)"
proof (induction rs arbitrary: m)
  case (Cons x rs)
  then show ?case using fold_max_ge [of "max x m" rs] by auto
qed simp

lemma fold_max_mem: "fold max rs (m :: Rank) \<in> insert m (set rs)"
proof (induction rs arbitrary: m)
  case (Cons x rs)
  then show ?case using Cons [of "max x m"] by (auto simp: max_def split: if_splits)
qed simp

lemma strictest_Allow: "(\<And>r. r \<in> set rs \<Longrightarrow> r = RankAllow) \<Longrightarrow> strictest rs = RankAllow"
  using fold_max_mem [of rs RankAllow] by (auto simp: strictest_def)

section \<open>What the log records\<close>

definition hook_rows :: "int \<Rightarrow> HookEvent \<Rightarrow> (string \<times> string \<times> int option) list \<Rightarrow> SessionLog \<Rightarrow> SessionLog" where
  "hook_rows now e rows l =
     fold (\<lambda>(c, d, x) l. log_append l now (EventKind.Hook (hook_event_name e) c d x)) rows l"

lemma log_line_log [simp]: "hs_log (log_line lv m s) = hs_log s"
  by (simp add: log_line_def)

lemma record_one_log:
  "hs_log (record_one hx e (Some n) row s) = map_option (hook_rows (hx_now hx) e [row]) (hs_log s)"
  by (cases row; cases "hs_log s") (simp_all add: record_one_def append_event_def hook_rows_def Let_def)

lemma record_fold_log:
  "hs_log (fold (record_one hx e (Some n)) rows s) = map_option (hook_rows (hx_now hx) e rows) (hs_log s)"
proof (induction rows arbitrary: s)
  case Nil
  then show ?case by (cases "hs_log s") (simp_all add: hook_rows_def)
next
  case (Cons r rows)
  then show ?case by (cases "hs_log s") (simp_all add: record_one_log hook_rows_def)
qed

lemma record_merged_log:
  "hs_log (record_merged hx e (Some n) m s) = map_option (hook_rows (hx_now hx) e (mg_ran m)) (hs_log s)"
  by (simp add: record_merged_def record_fold_log Let_def)

lemma run_one_error: "ha_outcome (run_one hx h p cwd) = ''error'' \<Longrightarrow>
    ha_rank (run_one hx h p cwd) = RankAllow \<and> ha_context (run_one hx h p cwd) = None
    \<and> \<not> ha_stop (run_one hx h p cwd)"
proof -
  have l: "rank_label r \<noteq> ''error''" for r by (cases r) simp_all
  assume "ha_outcome (run_one hx h p cwd) = ''error''"
  then show ?thesis
    using l by (auto simp: run_one_def parse_answer_def no_answer_def json_answer_def Let_def
                     split: proc_end.splits if_splits option.splits)
qed

section \<open>Properties\<close>

text \<open>
  C33: The merge implements strictest-wins. Whatever the order of the hooks: the merged rank is the
  strictest any hook answered (allow when there is none), the reasons are those of the hooks at that
  rank in order and none when the verdict is allow, every non-blank context is kept in order whatever
  the rank of the hook it came from, and there is one row per hook that ran.
\<close>

theorem merge_is_strictest_wins:
  "(\<forall>a \<in> set as. ha_rank (snd a) \<le> mg_rank (merge_answers as))
   \<and> (mg_rank (merge_answers as) = RankAllow \<or> (\<exists>a \<in> set as. ha_rank (snd a) = mg_rank (merge_answers as)))
   \<and> mg_reasons (merge_answers as) = reasons_at (mg_rank (merge_answers as)) as
   \<and> mg_context (merge_answers as) = contexts_of as
   \<and> mg_stop (merge_answers as) = list_ex (\<lambda>a. ha_stop (snd a)) as
   \<and> map fst (mg_ran (merge_answers as)) = map fst as"
proof -
  define rs where "rs = map (\<lambda>a. ha_rank (snd a)) as"
  have r: "mg_rank (merge_answers as) = strictest rs" by (simp add: merge_answers_eq Let_def rs_def)
  have "\<forall>a \<in> set as. ha_rank (snd a) \<le> strictest rs"
    using fold_max_upper [of _ rs RankAllow] by (simp add: strictest_def rs_def)
  moreover have "strictest rs = RankAllow \<or> (\<exists>a \<in> set as. ha_rank (snd a) = strictest rs)"
    using fold_max_mem [of rs RankAllow] unfolding strictest_def rs_def by fastforce
  ultimately show ?thesis unfolding r by (simp add: merge_answers_eq Let_def rs_def comp_def)
qed

definition demo_hook :: Hook where
  "demo_hook = \<lparr>hk_command = ''lint'', hk_timeout = 60, hk_matcher = None\<rparr>"

definition demo_answer :: "Rank \<Rightarrow> HookAnswer" where
  "demo_answer r = no_answer\<lparr>ha_rank := r, ha_reason := Some (rank_label r), ha_outcome := rank_label r\<rparr>"

theorem merge_is_strictest_wins_witness:
  "ha_rank (demo_answer RankDeny) \<le> mg_rank (merge_answers [(''a'', demo_answer RankAsk), (''b'', demo_answer RankDeny)])
   \<and> mg_reasons (merge_answers [(''a'', demo_answer RankAsk), (''b'', demo_answer RankDeny)]) = [''deny'']"
proof -
  let ?as = "[(''a'', demo_answer RankAsk), (''b'', demo_answer RankDeny)]"
  have "mg_reasons (merge_answers ?as) = [''deny'']" by code_simp
  moreover have "ha_rank (demo_answer RankDeny) \<le> mg_rank (merge_answers ?as)"
    using merge_is_strictest_wins [of ?as] by simp
  ultimately show ?thesis by blast
qed


text \<open>A hook whose command cannot be started fails.\<close>

definition demo_ext :: hook_ext where
  "demo_ext = \<lparr>hx_run = (\<lambda>_ _ _. NoStart ''no shell''), hx_from_str = (\<lambda>_. None), hx_debug = (\<lambda>s. s),
     hx_now = 5, hx_default_cwd = ''/w''\<rparr>"


end
