(* ===== verification/Workspace_Registry.thy ===== *)
theory Workspace_Registry
  imports Work_Paths "HOL-Library.Multiset"
begin

text \<open>
  The workspace registry, \<open>src/crates/backend/src/workspaces.rs\<close>: the document (a B-tree map of rows
  and a display order), its mutations, the projection of live sessions onto workspaces, and pruning. A
  B-tree map is its association list in key order. The file system (canonical paths, which paths are
  directories, whether the document can be written or moved aside) and the clock are parameters (record
  \<open>reg_env\<close>). Paths are compared component by component, as \<open>PathBuf\<close> does.
\<close>

section \<open>Ordered maps\<close>

fun bt_insert :: "nat \<Rightarrow> 'v \<Rightarrow> (nat \<times> 'v) list \<Rightarrow> (nat \<times> 'v) list" where
  "bt_insert k v [] = [(k, v)]"
| "bt_insert k v ((k', v') # m) =
     (if k < k' then (k, v) # (k', v') # m
      else if k = k' then (k, v) # m
      else (k', v') # bt_insert k v m)"

definition bt_remove :: "nat \<Rightarrow> (nat \<times> 'v) list \<Rightarrow> (nat \<times> 'v) list" where
  "bt_remove k m = filter (\<lambda>e. fst e \<noteq> k) m"

definition bt_update :: "nat \<Rightarrow> ('v \<Rightarrow> 'v) \<Rightarrow> (nat \<times> 'v) list \<Rightarrow> (nat \<times> 'v) list" where
  "bt_update k f m = map (\<lambda>e. if fst e = k then (k, f (snd e)) else e) m"

definition bt_ok :: "(nat \<times> 'v) list \<Rightarrow> bool" where
  "bt_ok m = sorted_wrt (<) (map fst m)"

section \<open>The document\<close>

definition REGISTRY_VERSION :: nat where "REGISTRY_VERSION = 1"

record Row =
  row_path :: pathbuf
  row_title :: string
  row_created :: int
  row_updated :: int
  row_sessions :: "nat list"

record RegDocument =
  rd_version :: nat
  rd_order :: "nat list"
  rd_rows :: "(nat \<times> Row) list"

definition document_default :: RegDocument where
  "document_default = \<lparr>rd_version = REGISTRY_VERSION, rd_order = [], rd_rows = []\<rparr>"

record SessionFacts =
  sf_id :: nat
  sf_cwd :: "pathbuf option"
  sf_archived :: bool

record BootstrapSession =
  bs_id :: nat
  bs_cwd :: "pathbuf option"
  bs_created :: int

record WorkspaceDump =
  wd_id :: nat
  wd_path :: pathbuf
  wd_title :: string
  wd_created :: int
  wd_updated :: int
  wd_sessions :: "nat list"
  wd_missing :: bool

datatype reg_file = RegMissing | RegCorrupt string | RegStored RegDocument

record reg_env =
  re_canon :: "pathbuf \<Rightarrow> string + pathbuf"
  re_is_dir :: "pathbuf \<Rightarrow> bool"
  re_clock :: int
  re_write_ok :: bool
  re_move_ok :: bool

record Registry =
  rg_doc :: RegDocument
  rg_refused :: bool
  rg_file :: reg_file

definition path_eq :: "pathbuf \<Rightarrow> pathbuf \<Rightarrow> bool" where
  "path_eq a b = (components a = components b)"

definition canonical :: "reg_env \<Rightarrow> pathbuf \<Rightarrow> string + pathbuf" where
  "canonical env p =
     (case re_canon env p of
        Inl e \<Rightarrow> Inl e
      | Inr c \<Rightarrow> Inr (case strip_prefix [CHR 0x5C, CHR 0x5C, CHR ''?'', CHR 0x5C] c of
                       Some rest \<Rightarrow> rest | None \<Rightarrow> c))"

definition canonical_ok :: "reg_env \<Rightarrow> pathbuf option \<Rightarrow> pathbuf option" where
  "canonical_ok env p =
     Option.bind p (\<lambda>q. case canonical env q of Inr c \<Rightarrow> Some c | Inl _ \<Rightarrow> None)"

text \<open>The file name is the last component when that is a plain name.\<close>

definition title_for :: "pathbuf \<Rightarrow> string" where
  "title_for p =
     (if components p = [] then p
      else case last (components p) of Normal s \<Rightarrow> (if s = [] then p else s) | _ \<Rightarrow> p)"

definition registry_load :: "reg_env \<Rightarrow> reg_file \<Rightarrow> Registry" where
  "registry_load env file =
     (case file of
        RegMissing \<Rightarrow> \<lparr>rg_doc = document_default, rg_refused = False, rg_file = file\<rparr>
      | RegCorrupt _ \<Rightarrow> \<lparr>rg_doc = document_default, rg_refused = False,
                        rg_file = (if re_move_ok env then RegMissing else file)\<rparr>
      | RegStored doc \<Rightarrow>
          if rd_version doc > REGISTRY_VERSION
          then \<lparr>rg_doc = document_default, rg_refused = True, rg_file = file\<rparr>
          else \<lparr>rg_doc = doc, rg_refused = False, rg_file = file\<rparr>)"

definition save :: "reg_env \<Rightarrow> Registry \<Rightarrow> Registry" where
  "save env r =
     (if rg_refused r then r
      else if re_write_ok env then r\<lparr>rg_file := RegStored (rg_doc r)\<rparr> else r)"

definition row_at :: "RegDocument \<Rightarrow> pathbuf \<Rightarrow> nat option" where
  "row_at doc p = map_option fst (find (\<lambda>e. path_eq (row_path (snd e)) p) (rd_rows doc))"

text \<open>One header of the bootstrap; \<open>next_id\<close> hands out the ids of a list in turn.\<close>

definition bootstrap_one :: "reg_env \<Rightarrow> BootstrapSession \<Rightarrow> RegDocument \<times> nat list \<Rightarrow> RegDocument \<times> nat list" where
  "bootstrap_one env h st =
     (case st of (doc, ids) \<Rightarrow>
        (case canonical_ok env (bs_cwd h) of
           None \<Rightarrow> (doc, ids)
         | Some cwd \<Rightarrow>
             (let (i, doc1, ids1) =
                (case row_at doc cwd of
                   Some i \<Rightarrow> (i, doc, ids)
                 | None \<Rightarrow>
                     (let i = hd ids
                      in (i, doc\<lparr>rd_rows := bt_insert i
                               \<lparr>row_path = cwd, row_title = title_for cwd, row_created = bs_created h,
                                row_updated = bs_created h, row_sessions = []\<rparr> (rd_rows doc),
                               rd_order := rd_order doc @ [i]\<rparr>, tl ids)))
              in (doc1\<lparr>rd_rows := bt_update i (\<lambda>row. row\<lparr>row_sessions := bs_id h # row_sessions row,
                      row_updated := max (row_updated row) (bs_created h)\<rparr>) (rd_rows doc1)\<rparr>, ids1))))"

definition bootstrap_if_empty :: "reg_env \<Rightarrow> BootstrapSession list \<Rightarrow> nat list \<Rightarrow> Registry \<Rightarrow> Registry" where
  "bootstrap_if_empty env headers ids r =
     (if rg_refused r then r
      else if rd_rows (rg_doc r) \<noteq> [] then r
      else let doc = fst (fold (bootstrap_one env) (sort_key bs_created headers) (document_default, ids))
           in if rd_rows doc = [] then r else save env (r\<lparr>rg_doc := doc\<rparr>))"

definition path_of :: "Registry \<Rightarrow> nat \<Rightarrow> pathbuf option" where
  "path_of r i = map_option row_path (map_of (rd_rows (rg_doc r)) i)"

definition set_doc :: "reg_env \<Rightarrow> Registry \<Rightarrow> RegDocument \<Rightarrow> Registry" where
  "set_doc env r doc = save env (r\<lparr>rg_doc := doc\<rparr>)"

definition registry_create :: "reg_env \<Rightarrow> nat \<Rightarrow> pathbuf \<Rightarrow> string option \<Rightarrow> Registry \<Rightarrow> (string + nat) \<times> Registry" where
  "registry_create env i p title r =
     (if p = [] then (Inl ''workspace path is empty'', r)
      else if \<not> is_absolute p then (Inl (p @ '' is not an absolute path''), r)
      else case canonical env p of
             Inl e \<Rightarrow> (Inl (p @ '': '' @ e), r)
           | Inr canon \<Rightarrow>
               if \<not> re_is_dir env canon then (Inl (canon @ '' is not a directory''), r)
               else case row_at (rg_doc r) canon of
                      Some existing \<Rightarrow> (Inr existing, r)
                    | None \<Rightarrow>
                        (let t = (case title of Some t \<Rightarrow> if trim t \<noteq> [] then t else title_for canon
                                  | None \<Rightarrow> title_for canon);
                             doc = rg_doc r
                         in (Inr i, set_doc env r (doc\<lparr>rd_rows := bt_insert i
                               \<lparr>row_path = canon, row_title = t, row_created = re_clock env,
                                row_updated = re_clock env, row_sessions = []\<rparr> (rd_rows doc),
                               rd_order := rd_order doc @ [i]\<rparr>))))"

definition registry_rename :: "reg_env \<Rightarrow> nat \<Rightarrow> string \<Rightarrow> Registry \<Rightarrow> bool \<times> Registry" where
  "registry_rename env i title r =
     (if map_of (rd_rows (rg_doc r)) i = None \<or> trim title = [] then (False, r)
      else (True, set_doc env r ((rg_doc r)\<lparr>rd_rows := bt_update i
             (\<lambda>row. row\<lparr>row_title := trim title, row_updated := re_clock env\<rparr>) (rd_rows (rg_doc r))\<rparr>)))"

definition registry_delete :: "reg_env \<Rightarrow> nat \<Rightarrow> Registry \<Rightarrow> bool \<times> Registry" where
  "registry_delete env i r =
     (if map_of (rd_rows (rg_doc r)) i = None then (False, r)
      else (True, set_doc env r ((rg_doc r)\<lparr>rd_rows := bt_remove i (rd_rows (rg_doc r)),
             rd_order := filter (\<lambda>x. x \<noteq> i) (rd_order (rg_doc r))\<rparr>)))"

text \<open>Both moves: take the element out, put it before another one or last.\<close>

definition move_before :: "nat \<Rightarrow> nat option \<Rightarrow> nat list \<Rightarrow> nat list" where
  "move_before x before xs =
     (let ys = filter (\<lambda>y. y \<noteq> x) xs
      in case Option.bind before (\<lambda>b. position (\<lambda>y. y = b) ys) of
           Some at \<Rightarrow> insert_at at x ys
         | None \<Rightarrow> ys @ [x])"

definition move_workspace :: "reg_env \<Rightarrow> nat \<Rightarrow> nat option \<Rightarrow> Registry \<Rightarrow> bool \<times> Registry" where
  "move_workspace env i before r =
     (if map_of (rd_rows (rg_doc r)) i = None then (False, r)
      else (True, set_doc env r ((rg_doc r)\<lparr>rd_order := move_before i before (rd_order (rg_doc r))\<rparr>)))"

definition move_session :: "reg_env \<Rightarrow> nat \<Rightarrow> nat \<Rightarrow> nat option \<Rightarrow> Registry \<Rightarrow> bool \<times> Registry" where
  "move_session env w s before r =
     (case map_of (rd_rows (rg_doc r)) w of
        None \<Rightarrow> (False, r)
      | Some row \<Rightarrow>
          if s \<notin> set (row_sessions row) then (False, r)
          else (True, set_doc env r ((rg_doc r)\<lparr>rd_rows := bt_update w
                 (\<lambda>row. row\<lparr>row_sessions := move_before s before (row_sessions row)\<rparr>) (rd_rows (rg_doc r))\<rparr>)))"

definition attach :: "reg_env \<Rightarrow> nat \<Rightarrow> nat \<Rightarrow> Registry \<Rightarrow> bool \<times> Registry" where
  "attach env w s r =
     (if map_of (rd_rows (rg_doc r)) w = None then (False, r)
      else (True, set_doc env r ((rg_doc r)\<lparr>rd_rows := bt_update w
             (\<lambda>row. row\<lparr>row_sessions := s # filter (\<lambda>x. x \<noteq> s) (row_sessions row), row_updated := re_clock env\<rparr>)
             (rd_rows (rg_doc r))\<rparr>)))"

section \<open>Projection and pruning\<close>

definition session_map :: "reg_env \<Rightarrow> SessionFacts list \<Rightarrow> (nat \<times> pathbuf option) list" where
  "session_map env ss = fold (\<lambda>s m. bt_insert (sf_id s) (canonical_ok env (sf_cwd s)) m) ss []"

definition belongs :: "(nat \<times> pathbuf option) list \<Rightarrow> Row \<Rightarrow> nat \<Rightarrow> bool" where
  "belongs live row s =
     (case map_of live s of Some (Some cwd) \<Rightarrow> path_eq cwd (row_path row) | _ \<Rightarrow> False)"

definition members_of :: "(nat \<times> pathbuf option) list \<Rightarrow> Row \<Rightarrow> nat list" where
  "members_of live row =
     (let kept = filter (belongs live row) (row_sessions row)
      in kept @ rev (sort (map fst (filter (\<lambda>(s, cwd). (case cwd of Some c \<Rightarrow> path_eq c (row_path row) | None \<Rightarrow> False)
                                        \<and> s \<notin> set kept) live))))"

definition registry_project :: "reg_env \<Rightarrow> Registry \<Rightarrow> SessionFacts list \<Rightarrow> WorkspaceDump list \<times> nat list" where
  "registry_project env r ss =
     (let live = session_map env (filter (\<lambda>s. \<not> sf_archived s) ss);
          rows = List.map_filter (\<lambda>i. map_option (\<lambda>row.
                   \<lparr>wd_id = i, wd_path = row_path row, wd_title = row_title row, wd_created = row_created row,
                    wd_updated = row_updated row, wd_sessions = members_of live row,
                    wd_missing = (\<not> re_is_dir env (row_path row))\<rparr>)
                   (map_of (rd_rows (rg_doc r)) i)) (rd_order (rg_doc r));
          grouped = concat (map wd_sessions rows)
      in (rows, map sf_id (filter (\<lambda>s. \<not> sf_archived s \<and> sf_id s \<notin> set grouped) ss)))"

definition prune_row :: "(nat \<times> pathbuf option) list \<Rightarrow> Row \<Rightarrow> Row" where
  "prune_row known row = row\<lparr>row_sessions := filter (belongs known row) (row_sessions row)\<rparr>"

definition registry_prune :: "reg_env \<Rightarrow> SessionFacts list \<Rightarrow> Registry \<Rightarrow> Registry" where
  "registry_prune env ss r =
     (let known = session_map env ss;
          rows = rd_rows (rg_doc r);
          rows' = map (\<lambda>(i, row). (i, prune_row known row)) rows;
          changed = list_ex (\<lambda>(i, row). length (row_sessions (prune_row known row)) \<noteq> length (row_sessions row)) rows;
          r' = r\<lparr>rg_doc := (rg_doc r)\<lparr>rd_rows := rows'\<rparr>\<rparr>
      in if changed then save env r' else r')"

section \<open>The hub's side\<close>

text \<open>
  What the hub keeps beside the registry: the facts of its sessions in id order and one counter, from which
  both sessions and workspaces take their ids.
\<close>

record ws_hub =
  wh_sessions :: "SessionFacts list"
  wh_next :: nat
  wh_reg :: Registry

definition workspace_projection :: "reg_env \<Rightarrow> ws_hub \<Rightarrow> WorkspaceDump list \<times> nat list" where
  "workspace_projection env h = registry_project env (wh_reg h) (wh_sessions h)"

definition publish_workspaces :: "reg_env \<Rightarrow> ws_hub \<Rightarrow> (WorkspaceDump list \<times> nat list) \<times> ws_hub" where
  "publish_workspaces env h =
     (let r = registry_prune env (wh_sessions h) (wh_reg h)
      in (registry_project env r (wh_sessions h), h\<lparr>wh_reg := r\<rparr>))"

text \<open>
  The start of the process, as far as ids and the registry go: the counter continues after the largest id of a
  stored session.
\<close>

definition new_loaded :: "reg_env \<Rightarrow> SessionFacts list \<Rightarrow> BootstrapSession list \<Rightarrow> reg_file \<Rightarrow> ws_hub" where
  "new_loaded env ss headers file =
     (let start = fold max (map sf_id ss) 0 + 1;
          r = registry_load env file;
          r' = bootstrap_if_empty env headers [start ..< start + length headers] r;
          used = (if rg_refused r \<or> rd_rows (rg_doc r) \<noteq> [] then 0 else length (rd_rows (rg_doc r')))
      in \<lparr>wh_sessions = ss, wh_next = start + used, wh_reg = r'\<rparr>)"

definition create_workspace :: "reg_env \<Rightarrow> pathbuf \<Rightarrow> string option \<Rightarrow> ws_hub \<Rightarrow> (string + (WorkspaceDump list \<times> nat list)) \<times> ws_hub" where
  "create_workspace env p title h =
     (let (res, r) = registry_create env (wh_next h) p title (wh_reg h);
          h1 = h\<lparr>wh_next := wh_next h + 1, wh_reg := r\<rparr>
      in case res of
           Inl message \<Rightarrow> (Inl message, h1)
         | Inr _ \<Rightarrow> (let h2 = snd (publish_workspaces env h1) in (Inr (workspace_projection env h2), h2)))"

definition create_session_in :: "reg_env \<Rightarrow> pathbuf \<Rightarrow> nat option \<Rightarrow> ws_hub \<Rightarrow> nat \<times> ws_hub" where
  "create_session_in env cwd w h =
     (let i = wh_next h;
          h1 = h\<lparr>wh_next := i + 1,
                 wh_sessions := insort_key sf_id \<lparr>sf_id = i, sf_cwd = Some cwd, sf_archived = False\<rparr> (wh_sessions h)\<rparr>;
          h2 = (case w of Some w \<Rightarrow> h1\<lparr>wh_reg := snd (attach env w i (wh_reg h1))\<rparr> | None \<Rightarrow> h1)
      in (i, snd (publish_workspaces env h2)))"

definition create_session :: "reg_env \<Rightarrow> pathbuf \<Rightarrow> nat option \<Rightarrow> ws_hub \<Rightarrow> nat \<times> ws_hub" where
  "create_session env working_dir w h =
     (let cwd = (case Option.bind w (path_of (wh_reg h)) of Some p \<Rightarrow> p | None \<Rightarrow> working_dir)
      in create_session_in env cwd w h)"

section \<open>Lemmas on ordered maps\<close>

lemma set_bt_insert: "k \<notin> fst ` set m \<Longrightarrow> set (bt_insert k v m) = insert (k, v) (set m)"
  by (induction m rule: bt_insert.induct) auto

lemma keys_bt_insert: "fst ` set (bt_insert k v m) = insert k (fst ` set m)"
  by (induction m rule: bt_insert.induct) auto

lemma bt_ok_insert: "bt_ok m \<Longrightarrow> bt_ok (bt_insert k v m)"
proof (induction k v m rule: bt_insert.induct)
  case (2 k v k' v' m)
  then show ?case
    using keys_bt_insert [of k v m] by (fastforce simp: bt_ok_def image_iff)
qed (simp add: bt_ok_def)

lemma bt_ok_distinct: "bt_ok m \<Longrightarrow> distinct (map fst m)"
  by (simp add: bt_ok_def strict_sorted_iff)

lemma map_of_bt_insert: "bt_ok m \<Longrightarrow> map_of (bt_insert k v m) = (map_of m)(k \<mapsto> v)"
proof (induction k v m rule: bt_insert.induct)
  case (2 k v k' v' m)
  then show ?case by (auto simp: bt_ok_def fun_eq_iff dest: map_of_SomeD)
qed simp

lemma keys_bt_update [simp]: "map fst (bt_update k f m) = map fst m"
  by (induction m) (auto simp: bt_update_def)

lemma keyset_bt_update: "fst ` set (bt_update k f m) = fst ` set m"
  by (metis keys_bt_update list.set_map)

lemma set_bt_update: "(i, v) \<in> set (bt_update k f m) \<longleftrightarrow>
    (\<exists>u. (i, u) \<in> set m \<and> v = (if i = k then f u else u))"
  by (auto simp: bt_update_def image_iff split: if_splits) force+

lemma bt_ok_update [simp]: "bt_ok (bt_update k f m) = bt_ok m"
  by (simp add: bt_ok_def)

lemma bt_ok_remove: "bt_ok m \<Longrightarrow> bt_ok (bt_remove k m)"
  by (simp add: bt_ok_def bt_remove_def sorted_wrt_map sorted_wrt_filter)

section \<open>The invariant of the document\<close>

text \<open>
  Ids are in order; the display order lists every row once; two rows have different directories; no session
  is twice on one account.
\<close>

definition paths_differ :: "(nat \<times> Row) list \<Rightarrow> bool" where
  "paths_differ m = (\<forall>(i, r) \<in> set m. \<forall>(j, q) \<in> set m. path_eq (row_path r) (row_path q) \<longrightarrow> i = j)"

definition accounts_distinct :: "(nat \<times> Row) list \<Rightarrow> bool" where
  "accounts_distinct m = (\<forall>(i, r) \<in> set m. distinct (row_sessions r))"

definition doc_ok :: "RegDocument \<Rightarrow> bool" where
  "doc_ok doc = (bt_ok (rd_rows doc) \<and> distinct (rd_order doc) \<and> set (rd_order doc) = fst ` set (rd_rows doc)
     \<and> paths_differ (rd_rows doc) \<and> accounts_distinct (rd_rows doc))"

definition file_ok :: "reg_file \<Rightarrow> bool" where
  "file_ok file = (case file of RegStored d \<Rightarrow> rd_version d \<le> REGISTRY_VERSION \<longrightarrow> doc_ok d | _ \<Rightarrow> True)"

definition registry_ok :: "Registry \<Rightarrow> bool" where
  "registry_ok r = (doc_ok (rg_doc r) \<and> file_ok (rg_file r))"

lemma paths_differI:
  "(\<And>i r j q. (i, r) \<in> set m \<Longrightarrow> (j, q) \<in> set m \<Longrightarrow> path_eq (row_path r) (row_path q) \<Longrightarrow> i = j) \<Longrightarrow> paths_differ m"
  unfolding paths_differ_def by blast

lemma paths_differD:
  "paths_differ m \<Longrightarrow> (i, r) \<in> set m \<Longrightarrow> (j, q) \<in> set m \<Longrightarrow> path_eq (row_path r) (row_path q) \<Longrightarrow> i = j"
  unfolding paths_differ_def by blast

lemma doc_ok_paths: "doc_ok doc \<Longrightarrow> paths_differ (rd_rows doc)"
  by (simp add: doc_ok_def)

lemma path_eq_sym: "path_eq a b \<Longrightarrow> path_eq b a"
  by (simp add: path_eq_def)

lemma path_eq_trans: "path_eq a b \<Longrightarrow> path_eq b c \<Longrightarrow> path_eq a c"
  by (simp add: path_eq_def)

lemma default_ok: "doc_ok document_default"
  by (simp add: doc_ok_def document_default_def bt_ok_def paths_differ_def accounts_distinct_def)

lemma set_doc_ok: "registry_ok r \<Longrightarrow> doc_ok doc \<Longrightarrow> registry_ok (set_doc env r doc)"
  by (simp add: registry_ok_def set_doc_def save_def file_ok_def)

text \<open>A new row with a new id and a new directory.\<close>

lemma new_row_ok:
  assumes "doc_ok doc" and "i \<notin> fst ` set (rd_rows doc)" and "row_at doc (row_path row) = None"
    and "distinct (row_sessions row)"
  shows "doc_ok (doc\<lparr>rd_rows := bt_insert i row (rd_rows doc), rd_order := rd_order doc @ [i]\<rparr>)"
proof -
  have no: "\<And>j q. (j, q) \<in> set (rd_rows doc) \<Longrightarrow> \<not> path_eq (row_path q) (row_path row)"
    using assms(3) by (auto simp: row_at_def find_None_iff)
  then have "\<And>j q. (j, q) \<in> set (rd_rows doc) \<Longrightarrow> \<not> path_eq (row_path row) (row_path q)"
    using path_eq_sym by blast
  then have "paths_differ (bt_insert i row (rd_rows doc))"
    using no paths_differD [OF doc_ok_paths [OF assms(1)]]
    by (intro paths_differI) (auto simp: set_bt_insert [OF assms(2)])
  then show ?thesis
    using assms by (auto simp: doc_ok_def bt_ok_insert set_bt_insert accounts_distinct_def)
qed

text \<open>A change of one row that keeps its directory and keeps its account free of repetitions.\<close>

lemma update_row_ok:
  assumes "doc_ok doc" and "\<And>r. row_path (f r) = row_path r"
    and "\<And>r. (i, r) \<in> set (rd_rows doc) \<Longrightarrow> distinct (row_sessions r) \<Longrightarrow> distinct (row_sessions (f r))"
  shows "doc_ok (doc\<lparr>rd_rows := bt_update i f (rd_rows doc)\<rparr>)"
proof -
  have "paths_differ (bt_update i f (rd_rows doc))"
    by (intro paths_differI)
      (auto simp: set_bt_update assms(2) dest: paths_differD [OF doc_ok_paths [OF assms(1)]] split: if_splits)
  moreover have "accounts_distinct (bt_update i f (rd_rows doc))"
    using assms(1,3) by (fastforce simp: doc_ok_def accounts_distinct_def set_bt_update)
  ultimately show ?thesis using assms(1) by (simp add: doc_ok_def keyset_bt_update)
qed

lemma distinct_insert_at: "distinct ys \<Longrightarrow> x \<notin> set ys \<Longrightarrow> distinct (insert_at k x ys)"
  using in_set_takeD [of x k ys] in_set_dropD [of x k ys] set_take_disj_set_drop_if_distinct [of ys k k]
  by (auto simp: insert_at_def)

lemma set_move_before [simp]: "set (move_before x b xs) = insert x (set xs)"
  by (auto simp: move_before_def Let_def split: option.split)

lemma distinct_move_before: "distinct xs \<Longrightarrow> distinct (move_before x b xs)"
  by (simp add: move_before_def Let_def distinct_insert_at split: option.split)

lemma row_changed_ok:
  assumes "registry_ok r" and "\<And>q. row_path (f q) = row_path q"
    and "\<And>q. distinct (row_sessions q) \<Longrightarrow> distinct (row_sessions (f q))"
  shows "doc_ok ((rg_doc r)\<lparr>rd_rows := bt_update i f (rd_rows (rg_doc r))\<rparr>)"
  using assms by (intro update_row_ok) (simp_all add: registry_ok_def)

section \<open>Every operation keeps the invariant\<close>

lemma create_ok:
  assumes "registry_ok r" and "i \<notin> fst ` set (rd_rows (rg_doc r))"
  shows "registry_ok (snd (registry_create env i p title r))"
proof -
  have d: "doc_ok (rg_doc r)" using assms(1) by (simp add: registry_ok_def)
  show ?thesis
    using assms(1) by (simp add: registry_create_def Let_def set_doc_ok new_row_ok [OF d assms(2)] split: sum.split option.split)
qed

lemma rename_ok: "registry_ok r \<Longrightarrow> registry_ok (snd (registry_rename env i title r))"
  by (simp add: registry_rename_def set_doc_ok row_changed_ok)

lemma delete_ok:
  assumes "registry_ok r"
  shows "registry_ok (snd (registry_delete env i r))"
proof -
  let ?d = "(rg_doc r)\<lparr>rd_rows := bt_remove i (rd_rows (rg_doc r)), rd_order := filter (\<lambda>x. x \<noteq> i) (rd_order (rg_doc r))\<rparr>"
  have "doc_ok ?d"
    using assms bt_ok_remove [of "rd_rows (rg_doc r)" i]
    by (auto simp: registry_ok_def doc_ok_def bt_remove_def paths_differ_def accounts_distinct_def)
  then show ?thesis using assms by (simp add: registry_delete_def set_doc_ok)
qed

lemma move_workspace_ok: "registry_ok r \<Longrightarrow> registry_ok (snd (move_workspace env i before r))"
proof -
  assume r: "registry_ok r"
  then have "map_of (rd_rows (rg_doc r)) i \<noteq> None
      \<Longrightarrow> doc_ok ((rg_doc r)\<lparr>rd_order := move_before i before (rd_order (rg_doc r))\<rparr>)"
    by (auto simp: registry_ok_def doc_ok_def distinct_move_before map_of_eq_None_iff)
  then show ?thesis using r by (simp add: move_workspace_def set_doc_ok)
qed

lemma move_session_ok: "registry_ok r \<Longrightarrow> registry_ok (snd (move_session env w s before r))"
  by (simp add: move_session_def set_doc_ok row_changed_ok distinct_move_before split: option.split)

lemma attach_ok: "registry_ok r \<Longrightarrow> registry_ok (snd (attach env w s r))"
  by (simp add: attach_def set_doc_ok row_changed_ok)

lemma prune_ok:
  assumes "registry_ok r"
  shows "registry_ok (registry_prune env ss r)"
proof -
  define known where "known = session_map env ss"
  let ?d = "(rg_doc r)\<lparr>rd_rows := map (\<lambda>(i, row). (i, prune_row known row)) (rd_rows (rg_doc r))\<rparr>"
  have k: "map fst (map (\<lambda>(i, row). (i, prune_row known row)) m) = map fst m" for m
    by (induction m) auto
  have "doc_ok ?d"
    using assms k [of "rd_rows (rg_doc r)"]
    by (auto simp: registry_ok_def doc_ok_def bt_ok_def image_image case_prod_unfold paths_differ_def
        accounts_distinct_def prune_row_def simp del: map_map)
  then show ?thesis
    using assms set_doc_ok [of r ?d env]
    by (auto simp: registry_prune_def Let_def known_def [symmetric] set_doc_def registry_ok_def)
qed

lemma load_ok: "file_ok file \<Longrightarrow> registry_ok (registry_load env file)"
  by (auto simp: registry_load_def registry_ok_def default_ok file_ok_def split: reg_file.split)

section \<open>The bootstrap\<close>

definition accounted :: "RegDocument \<Rightarrow> nat set" where
  "accounted doc = {s. \<exists>i row. (i, row) \<in> set (rd_rows doc) \<and> s \<in> set (row_sessions row)}"

definition boot_ok :: "nat list \<Rightarrow> RegDocument \<times> nat list \<Rightarrow> bool" where
  "boot_ok pending st = (doc_ok (fst st) \<and> distinct (snd st) \<and> set (snd st) \<inter> fst ` set (rd_rows (fst st)) = {}
     \<and> length pending \<le> length (snd st) \<and> set pending \<inter> accounted (fst st) = {})"

lemma accounted_push:
  "accounted (doc\<lparr>rd_rows := bt_update i (\<lambda>row. row\<lparr>row_sessions := s # row_sessions row, row_updated := g row\<rparr>) (rd_rows doc)\<rparr>)
     \<subseteq> insert s (accounted doc)"
  by (auto simp: accounted_def set_bt_update split: if_splits) blast+

lemma accounted_new_row:
  "i \<notin> fst ` set (rd_rows doc) \<Longrightarrow> row_sessions row = []
     \<Longrightarrow> accounted (doc\<lparr>rd_rows := bt_insert i row (rd_rows doc), rd_order := ord\<rparr>) = accounted doc"
  by (auto simp: accounted_def set_bt_insert)

lemma push_ok:
  assumes "doc_ok doc" and "s \<notin> accounted doc"
  shows "doc_ok (doc\<lparr>rd_rows := bt_update i (\<lambda>row. row\<lparr>row_sessions := s # row_sessions row, row_updated := g row\<rparr>) (rd_rows doc)\<rparr>)"
proof (rule update_row_ok [OF assms(1)])
  fix row assume "(i, row) \<in> set (rd_rows doc)" and "distinct (row_sessions row)"
  then show "distinct (row_sessions (row\<lparr>row_sessions := s # row_sessions row, row_updated := g row\<rparr>))"
    using assms(2) by (force simp: accounted_def)
qed simp

lemma boot_push:
  assumes "boot_ok pending (d, js)" and "s \<notin> accounted d" and "s \<notin> set pending"
  shows "boot_ok pending (d\<lparr>rd_rows := bt_update i (\<lambda>row. row\<lparr>row_sessions := s # row_sessions row, row_updated := g row\<rparr>)
           (rd_rows d)\<rparr>, js)"
proof -
  let ?d = "d\<lparr>rd_rows := bt_update i (\<lambda>row. row\<lparr>row_sessions := s # row_sessions row, row_updated := g row\<rparr>) (rd_rows d)\<rparr>"
  have "doc_ok ?d" using assms(1,2) by (simp add: push_ok boot_ok_def)
  moreover have "set pending \<inter> accounted ?d = {}"
    using assms accounted_push [where doc = d and i = i and s = s and g = g] unfolding boot_ok_def by auto
  moreover have "fst ` set (rd_rows ?d) = fst ` set (rd_rows d)" by (simp add: keyset_bt_update)
  ultimately show ?thesis using assms(1) unfolding boot_ok_def by simp
qed

lemma boot_drop: "boot_ok (s # pending) (d, js) \<Longrightarrow> boot_ok pending (d, js) \<and> s \<notin> accounted d"
  by (simp add: boot_ok_def)

lemma bootstrap_one_ok:
  assumes "boot_ok (bs_id h # pending) (doc, ids)" and "bs_id h \<notin> set pending"
  shows "boot_ok pending (bootstrap_one env h (doc, ids))"
proof (cases "canonical_ok env (bs_cwd h)")
  case None
  then show ?thesis using assms by (simp add: bootstrap_one_def boot_ok_def)
next
  case (Some cwd)
  show ?thesis
  proof (cases "row_at doc cwd")
    case (Some i)
    then show ?thesis using \<open>canonical_ok env (bs_cwd h) = Some cwd\<close> boot_push [of pending doc ids "bs_id h" i] boot_drop [OF assms(1)] assms(2)
      by (simp add: bootstrap_one_def)
  next
    case None
    let ?row = "\<lparr>row_path = cwd, row_title = title_for cwd, row_created = bs_created h,
        row_updated = bs_created h, row_sessions = []\<rparr>"
    let ?d = "doc\<lparr>rd_rows := bt_insert (hd ids) ?row (rd_rows doc), rd_order := rd_order doc @ [hd ids]\<rparr>"
    have ne: "ids \<noteq> []" using assms(1) by (auto simp: boot_ok_def)
    then have new: "hd ids \<notin> fst ` set (rd_rows doc)" using assms(1) hd_in_set [OF ne] unfolding boot_ok_def fst_conv snd_conv by blast
    then have "boot_ok pending (?d, tl ids)"
      using assms(1) new_row_ok [of doc "hd ids" ?row] None ne
      by (cases ids) (auto simp: boot_ok_def accounted_new_row keys_bt_insert)
    moreover have "bs_id h \<notin> accounted ?d" using assms(1) new by (simp add: boot_ok_def accounted_new_row)
    ultimately show ?thesis
      using \<open>canonical_ok env (bs_cwd h) = Some cwd\<close> None boot_push [of pending ?d "tl ids" "bs_id h" "hd ids"] assms(2)
      by (simp add: bootstrap_one_def Let_def)
  qed
qed

lemma bootstrap_fold_ok:
  "boot_ok (map bs_id hs) st \<Longrightarrow> distinct (map bs_id hs) \<Longrightarrow> boot_ok [] (fold (bootstrap_one env) hs st)"
proof (induction hs arbitrary: st)
  case (Cons h hs)
  then show ?case using bootstrap_one_ok [of h "map bs_id hs" "fst st" "snd st" env] by simp
qed simp

lemma bootstrap_ok:
  assumes "registry_ok r" and "distinct (map bs_id hs)" and "distinct ids" and "length hs \<le> length ids"
  shows "registry_ok (bootstrap_if_empty env hs ids r)"
proof -
  have "distinct (map bs_id (sort_key bs_created hs))"
    using assms(2) by (simp add: distinct_map)
  moreover have "boot_ok (map bs_id (sort_key bs_created hs)) (document_default, ids)"
    using assms(3,4) default_ok by (simp add: boot_ok_def document_default_def accounted_def)
  ultimately have "boot_ok [] (fold (bootstrap_one env) (sort_key bs_created hs) (document_default, ids))"
    by (intro bootstrap_fold_ok)
  then show ?thesis
    using assms(1) set_doc_ok [OF assms(1)] by (simp add: bootstrap_if_empty_def Let_def boot_ok_def set_doc_def)
qed

section \<open>The projection\<close>

definition session_in :: "reg_env \<Rightarrow> pathbuf \<Rightarrow> SessionFacts \<Rightarrow> bool" where
  "session_in env p s =
     (\<not> sf_archived s \<and> (case canonical_ok env (sf_cwd s) of Some c \<Rightarrow> path_eq c p | None \<Rightarrow> False))"

lemma distinct_concat_map:
  "distinct xs \<Longrightarrow> (\<And>x. x \<in> set xs \<Longrightarrow> distinct (f x))
     \<Longrightarrow> (\<And>x y. x \<in> set xs \<Longrightarrow> y \<in> set xs \<Longrightarrow> x \<noteq> y \<Longrightarrow> set (f x) \<inter> set (f y) = {}) \<Longrightarrow> distinct (concat (map f xs))"
proof (induction xs)
  case (Cons x xs)
  then have "set (f x) \<inter> set (f y) = {}" if "y \<in> set xs" for y using that by auto
  then show ?case using Cons by auto
qed simp

lemma session_map_Nil [simp]: "session_map env [] = []"
  by (simp add: session_map_def)

lemma session_map_snoc:
  "session_map env (ss @ [s]) = bt_insert (sf_id s) (canonical_ok env (sf_cwd s)) (session_map env ss)"
  by (simp add: session_map_def)

lemma session_map_ok: "bt_ok (session_map env ss)"
  by (induction ss rule: rev_induct) (simp_all add: session_map_snoc bt_ok_insert, simp add: bt_ok_def)

lemma session_map_lookup:
  "distinct (map sf_id ss) \<Longrightarrow> s \<in> set ss \<Longrightarrow> map_of (session_map env ss) (sf_id s) = Some (canonical_ok env (sf_cwd s))"
proof (induction ss rule: rev_induct)
  case (snoc x ss)
  have "s \<noteq> x \<Longrightarrow> sf_id s \<noteq> sf_id x" using snoc.prems by (auto simp: image_iff)
  then show ?case using snoc by (auto simp: session_map_snoc map_of_bt_insert session_map_ok)
qed simp

lemma session_map_keys: "fst ` set (session_map env ss) = sf_id ` set ss"
  by (induction ss rule: rev_induct) (simp_all add: session_map_snoc keys_bt_insert)

lemma session_map_mem:
  assumes "distinct (map sf_id ss)"
  shows "(i, c) \<in> set (session_map env ss) \<longleftrightarrow> (\<exists>s \<in> set ss. sf_id s = i \<and> c = canonical_ok env (sf_cwd s))"
proof
  have d: "distinct (map fst (session_map env ss))" by (rule bt_ok_distinct [OF session_map_ok])
  assume c: "(i, c) \<in> set (session_map env ss)"
  then have "i \<in> sf_id ` set ss" using session_map_keys [of env ss] by force
  then obtain s where s: "s \<in> set ss" "sf_id s = i" by auto
  then have "map_of (session_map env ss) i = Some (canonical_ok env (sf_cwd s))"
    using session_map_lookup [OF assms s(1)] by simp
  then show "\<exists>s \<in> set ss. sf_id s = i \<and> c = canonical_ok env (sf_cwd s)" using c s d by auto
next
  assume "\<exists>s \<in> set ss. sf_id s = i \<and> c = canonical_ok env (sf_cwd s)"
  then show "(i, c) \<in> set (session_map env ss)"
    using session_map_lookup [OF assms] by (auto dest: map_of_SomeD)
qed

lemma case_Some_iff: "(case c of Some p \<Rightarrow> P p | None \<Rightarrow> False) \<longleftrightarrow> (\<exists>p. c = Some p \<and> P p)"
  by (cases c) simp_all

lemma belongs_lookup: "belongs live row i \<longleftrightarrow> (\<exists>c. map_of live i = Some (Some c) \<and> path_eq c (row_path row))"
  by (auto simp: belongs_def split: option.splits)

lemma belongs_mem: "bt_ok live \<Longrightarrow> belongs live row i \<longleftrightarrow> (\<exists>c. (i, Some c) \<in> set live \<and> path_eq c (row_path row))"
  by (simp add: belongs_lookup bt_ok_distinct)

lemma belongs_iff:
  assumes "distinct (map sf_id ss)"
  shows "belongs (session_map env (filter (\<lambda>s. \<not> sf_archived s) ss)) row i
     \<longleftrightarrow> (\<exists>s \<in> set ss. sf_id s = i \<and> session_in env (row_path row) s)"
proof -
  let ?live = "session_map env (filter (\<lambda>s. \<not> sf_archived s) ss)"
  have d: "distinct (map sf_id (filter (\<lambda>s. \<not> sf_archived s) ss))" using assms by (rule distinct_map_filter)
  have "belongs ?live row i \<longleftrightarrow> (\<exists>c. (i, Some c) \<in> set ?live \<and> path_eq c (row_path row))"
    by (rule belongs_mem [OF session_map_ok])
  also have "\<dots> \<longleftrightarrow> (\<exists>s \<in> set ss. sf_id s = i \<and> \<not> sf_archived s
      \<and> (\<exists>c. canonical_ok env (sf_cwd s) = Some c \<and> path_eq c (row_path row)))"
    unfolding session_map_mem [OF d] set_filter mem_Collect_eq Bex_def by metis
  finally show ?thesis by (simp add: session_in_def case_Some_iff)
qed

lemma set_members_of:
  assumes "bt_ok live"
  shows "set (members_of live row) = {s. belongs live row s}"
  by (auto simp: members_of_def Let_def case_Some_iff belongs_mem [OF assms] image_iff) metis

lemma distinct_members_of:
  assumes "bt_ok live" and "distinct (row_sessions row)"
  shows "distinct (members_of live row)"
  using assms bt_ok_distinct [of live]
  by (auto simp: members_of_def Let_def distinct_map_filter)

definition dump_of :: "reg_env \<Rightarrow> (nat \<times> pathbuf option) list \<Rightarrow> nat \<Rightarrow> Row \<Rightarrow> WorkspaceDump" where
  "dump_of env live i row =
     \<lparr>wd_id = i, wd_path = row_path row, wd_title = row_title row, wd_created = row_created row,
      wd_updated = row_updated row, wd_sessions = members_of live row,
      wd_missing = (\<not> re_is_dir env (row_path row))\<rparr>"

text \<open>In a document that satisfies the invariant every listed workspace has its row.\<close>

lemma listed_row: "doc_ok doc \<Longrightarrow> i \<in> set (rd_order doc) \<Longrightarrow> \<exists>row. map_of (rd_rows doc) i = Some row"
  using map_of_eq_None_iff [of "rd_rows doc" i] by (auto simp: doc_ok_def)

lemma project_rows:
  assumes "doc_ok (rg_doc r)"
  shows "fst (registry_project env r ss) =
     map (\<lambda>i. dump_of env (session_map env (filter (\<lambda>s. \<not> sf_archived s) ss)) i (the (map_of (rd_rows (rg_doc r)) i)))
       (rd_order (rg_doc r))"
proof -
  have "\<forall>i \<in> set (rd_order (rg_doc r)). \<exists>row. map_of (rd_rows (rg_doc r)) i = Some row"
    using listed_row [OF assms] by blast
  then have "List.map_filter (\<lambda>i. map_option (g i) (map_of (rd_rows (rg_doc r)) i)) (rd_order (rg_doc r))
      = map (\<lambda>i. g i (the (map_of (rd_rows (rg_doc r)) i))) (rd_order (rg_doc r))" for g :: "nat \<Rightarrow> Row \<Rightarrow> WorkspaceDump"
    by (induction "rd_order (rg_doc r)") (auto simp: List.map_filter_def)
  then show ?thesis by (simp add: registry_project_def Let_def dump_of_def [abs_def])
qed


definition members :: "WorkspaceDump list \<Rightarrow> nat list" where
  "members rows = concat (map wd_sessions rows)"

lemma project_partition:
  assumes "doc_ok (rg_doc r)" and "distinct (map sf_id ss)" and "registry_project env r ss = (rows, ungrouped)"
  shows "mset (members rows @ ungrouped) = mset (map sf_id (filter (\<lambda>s. \<not> sf_archived s) ss))"
proof -
  define live where "live = session_map env (filter (\<lambda>s. \<not> sf_archived s) ss)"
  define row where "row = (\<lambda>i. the (map_of (rd_rows (rg_doc r)) i))"
  let ?order = "rd_order (rg_doc r)"
  have live: "bt_ok live" by (simp add: live_def session_map_ok)
  have rows: "rows = map (\<lambda>i. dump_of env live i (row i)) ?order"
    using project_rows [OF assms(1), of env ss] assms(3) by (simp add: live_def row_def)
  have got: "(i, row i) \<in> set (rd_rows (rg_doc r))" if "i \<in> set ?order" for i
    using listed_row [OF assms(1) that] by (auto simp: row_def dest: map_of_SomeD)
  have mem: "set (wd_sessions (dump_of env live i (row i))) = {s. belongs live (row i) s}" for i
    by (simp add: dump_of_def set_members_of [OF live])
  have apart: "belongs live (row i) s \<Longrightarrow> belongs live (row j) s \<Longrightarrow> i = j" if "i \<in> set ?order" "j \<in> set ?order" for i j s
    using paths_differD [OF doc_ok_paths [OF assms(1)] got [OF that(1)] got [OF that(2)]]
    by (auto simp: belongs_lookup path_eq_def)
  have "distinct (members rows)"
    unfolding members_def rows map_map comp_def
  proof (rule distinct_concat_map)
    show "distinct ?order" using assms(1) by (simp add: doc_ok_def)
    show "distinct (wd_sessions (dump_of env live i (row i)))" if "i \<in> set ?order" for i
      using got [OF that] assms(1)
      by (auto simp: dump_of_def doc_ok_def accounts_distinct_def intro!: distinct_members_of [OF live])
  qed (use apart mem in blast)
  moreover have "set (members rows) \<subseteq> sf_id ` set (filter (\<lambda>s. \<not> sf_archived s) ss)"
  proof
    fix s assume "s \<in> set (members rows)"
    then obtain i where "belongs live (row i) s" unfolding members_def rows using mem by auto
    then obtain x where "x \<in> set ss" "sf_id x = s" "\<not> sf_archived x"
      unfolding live_def belongs_iff [OF assms(2)] session_in_def by blast
    then show "s \<in> sf_id ` set (filter (\<lambda>s. \<not> sf_archived s) ss)" by auto
  qed
  moreover have "ungrouped = map sf_id (filter (\<lambda>s. \<not> sf_archived s \<and> sf_id s \<notin> set (members rows)) ss)"
    using assms(3) unfolding registry_project_def Let_def members_def by auto
  ultimately show ?thesis
    using assms(2) by (intro set_eq_iff_mset_eq_distinct [THEN iffD1]) (auto simp: distinct_map_filter)
qed


section \<open>Histories of the registry\<close>

text \<open>
  Every sequence of operations, each with its own behaviour of the file system and the clock: a first start
  without a document the build understands, then mutations, pruning and restarts. A new workspace is given
  an id that no row has.
\<close>

inductive reg_reach :: "Registry \<Rightarrow> bool" where
  reach_missing: "reg_reach (registry_load env RegMissing)"
| reach_corrupt: "reg_reach (registry_load env (RegCorrupt t))"
| reach_newer: "rd_version d > REGISTRY_VERSION \<Longrightarrow> reg_reach (registry_load env (RegStored d))"
| reach_restart: "reg_reach r \<Longrightarrow> reg_reach (registry_load env (rg_file r))"
| reach_bootstrap: "reg_reach r \<Longrightarrow> distinct (map bs_id hs) \<Longrightarrow> distinct ids \<Longrightarrow> length hs \<le> length ids
    \<Longrightarrow> reg_reach (bootstrap_if_empty env hs ids r)"
| reach_create: "reg_reach r \<Longrightarrow> i \<notin> fst ` set (rd_rows (rg_doc r)) \<Longrightarrow> reg_reach (snd (registry_create env i p title r))"
| reach_rename: "reg_reach r \<Longrightarrow> reg_reach (snd (registry_rename env i title r))"
| reach_delete: "reg_reach r \<Longrightarrow> reg_reach (snd (registry_delete env i r))"
| reach_move: "reg_reach r \<Longrightarrow> reg_reach (snd (move_workspace env i before r))"
| reach_move_session: "reg_reach r \<Longrightarrow> reg_reach (snd (move_session env w s before r))"
| reach_attach: "reg_reach r \<Longrightarrow> reg_reach (snd (attach env w s r))"
| reach_prune: "reg_reach r \<Longrightarrow> reg_reach (registry_prune env ss r)"

lemma reg_reach_ok: "reg_reach r \<Longrightarrow> registry_ok r"
proof (induction rule: reg_reach.induct)
  case (reach_newer d env)
  then show ?case by (intro load_ok) (simp add: file_ok_def)
next
  case (reach_restart r env)
  then show ?case by (intro load_ok) (simp add: registry_ok_def)
next
  case reach_bootstrap
  then show ?case by (intro bootstrap_ok)
next
  case reach_create
  then show ?case by (intro create_ok)
qed (simp_all add: load_ok file_ok_def rename_ok delete_ok move_workspace_ok move_session_ok attach_ok prune_ok)

lemma project_members:
  assumes "doc_ok (rg_doc r)" and "distinct (map sf_id ss)"
  shows "map (\<lambda>d. set (wd_sessions d)) (fst (registry_project env r ss)) =
    map (\<lambda>d. set (map sf_id (filter (session_in env (wd_path d)) ss))) (fst (registry_project env r ss))"
  unfolding project_rows [OF assms(1)]
  by (auto simp: dump_of_def set_members_of [OF session_map_ok] belongs_iff [OF assms(2)])

section \<open>Properties\<close>


definition demo_reg :: reg_env where
  "demo_reg = \<lparr>re_canon = Inr, re_is_dir = (\<lambda>_. True), re_clock = 5, re_write_ok = True, re_move_ok = True\<rparr>"

definition demo_facts :: "SessionFacts list" where
  "demo_facts = [\<lparr>sf_id = 1, sf_cwd = Some ''/a'', sf_archived = False\<rparr>,
     \<lparr>sf_id = 2, sf_cwd = Some ''/b/'', sf_archived = False\<rparr>, \<lparr>sf_id = 3, sf_cwd = Some ''/a'', sf_archived = True\<rparr>]"

definition demo_registry :: Registry where
  "demo_registry = snd (attach demo_reg 7 2 (snd (attach demo_reg 7 1
     (snd (registry_create demo_reg 7 ''/a'' None (registry_load demo_reg RegMissing))))))"


section \<open>Ids across restarts\<close>

text \<open>
  One counter serves sessions and workspaces, and a start of the process sets it past the stored sessions
  only. A workspace registered last before a restart is overwritten by the next one that is created: here
  the first start registers \<open>/a\<close> under id 2, the second start hands out 2 again, the row of \<open>/a\<close> is gone, and
  the new workspace is listed twice.
\<close>

definition demo_started :: ws_hub where
  "demo_started = new_loaded demo_reg [\<lparr>sf_id = 1, sf_cwd = Some ''/a'', sf_archived = False\<rparr>]
     [\<lparr>bs_id = 1, bs_cwd = Some ''/a'', bs_created = 0\<rparr>] RegMissing"

definition demo_restarted :: ws_hub where
  "demo_restarted = new_loaded demo_reg (wh_sessions demo_started)
     [\<lparr>bs_id = 1, bs_cwd = Some ''/a'', bs_created = 0\<rparr>] (rg_file (wh_reg demo_started))"

lemma restart_reuses_workspace_id:
  "path_of (wh_reg demo_restarted) 2 = Some ''/a'' \<and> wh_next demo_restarted = 2
   \<and> rd_order (rg_doc (wh_reg (snd (create_workspace demo_reg ''/b'' None demo_restarted)))) = [2, 2]
   \<and> map_option row_path (map_of (rd_rows (rg_doc (wh_reg (snd (create_workspace demo_reg ''/b'' None demo_restarted))))) 2) = Some ''/b''
   \<and> row_at (rg_doc (wh_reg (snd (create_workspace demo_reg ''/b'' None demo_restarted)))) ''/a'' = None"
  by code_simp

text \<open>
  Pruning while a drive is away: the directory of the session cannot be canonicalised, so the manual order of
  the workspace is erased from the document, and stays erased when the drive is back.
\<close>

lemma prune_forgets_missing_drive:
  "row_sessions (the (map_of (rd_rows (rg_doc (registry_prune (demo_reg\<lparr>re_canon := \<lambda>p. Inl ''not found''\<rparr>) demo_facts
       demo_registry))) 7)) = []
   \<and> row_sessions (the (map_of (rd_rows (rg_doc demo_registry)) 7)) = [2, 1]"
  by code_simp

end
