(* ===== verification/Reply_Stream.thy ===== *)
theory Reply_Stream
  imports Compaction Retry_Policy
begin

text \<open>
  Reading one reply of the model server: the splitter of reasoning and answer and the decoding of stream
  events (\<open>src/crates/llm/src/streaming.rs\<close>), the loop over them (\<open>chat_stream\<close> in
  \<open>src/crates/llm/src/client.rs\<close>) and the accumulation of a whole reply (\<open>src/crates/agents/src/turn.rs\<close>).

  Parameters: what \<open>serde_json\<close> reads in the data of an event (\<open>decode\<close>), and, in record \<open>reply_env\<close>, what the
  channel delivered, whether the interrupt came first, how the stream task ended, the server's tokenizer and
  the clock.
\<close>

section \<open>Chunks\<close>

record Usage =
  prompt_tokens :: nat
  completion_tokens :: nat

definition usage_total :: "Usage \<Rightarrow> nat" where
  "usage_total u = saturating_add_u32 (prompt_tokens u) (completion_tokens u)"

record ToolCallDelta =
  td_index :: nat
  td_id :: "string option"
  td_name :: "string option"
  td_arguments :: string

record StreamChunk =
  delta_content :: string
  delta_reasoning :: string
  delta_tool_calls :: "ToolCallDelta list"
  chunk_finish :: "string option"
  chunk_usage :: "Usage option"

definition default_chunk :: StreamChunk where
  "default_chunk = \<lparr>delta_content = [], delta_reasoning = [], delta_tool_calls = [], chunk_finish = None, chunk_usage = None\<rparr>"

section \<open>The splitter\<close>

record ThinkSplitter =
  in_think :: bool
  tag_buf :: string

definition splitter_new :: ThinkSplitter where
  "splitter_new = \<lparr>in_think = False, tag_buf = []\<rparr>"

fun think_tag :: "bool \<Rightarrow> string" where
  "think_tag False = ''<think>''"
| "think_tag True = ''</think>''"

text \<open>The ends of a text that may open a tag whose rest has not arrived.\<close>

fun tag_starts :: "bool \<Rightarrow> string list" where
  "tag_starts False = [''<'', ''<t'', ''<th'', ''<thi'', ''<thin'', ''<think'']"
| "tag_starts True = [''<'', ''</'', ''</t'', ''</th'', ''</thi'', ''</thin'', ''</think'']"

text \<open>Text outside the tags is content, text inside them is reasoning.\<close>

fun put_text :: "bool \<Rightarrow> string \<Rightarrow> string \<times> string \<times> bool \<times> string \<Rightarrow> string \<times> string \<times> bool \<times> string" where
  "put_text False s (c, r, st) = (s @ c, r, st)"
| "put_text True s (c, r, st) = (c, s @ r, st)"

function feed_loop :: "bool \<Rightarrow> string \<Rightarrow> string \<times> string \<times> bool \<times> string" where
  "feed_loop t rest =
     (if rest = [] then ([], [], t, [])
      else case str_find rest (think_tag t) of
             Some i \<Rightarrow> put_text t (take i rest) (feed_loop (\<not> t) (drop (i + length (think_tag t)) rest))
           | None \<Rightarrow>
               if list_ex (ends_with rest) (tag_starts t)
               then let cut = (case str_rfind rest ''<'' of Some i \<Rightarrow> i | None \<Rightarrow> length rest)
                    in put_text t (take cut rest) ([], [], t, drop cut rest)
               else put_text t rest ([], [], t, []))"
  by pat_completeness auto
termination
proof (relation "measure (\<lambda>(t, s). length s)", goal_cases)
  case (2 t s i)
  then show ?case by (cases t) simp_all
qed simp

declare feed_loop.simps [simp del]

definition feed :: "string \<Rightarrow> ThinkSplitter \<Rightarrow> (string \<times> string) \<times> ThinkSplitter" where
  "feed raw sp =
     (case feed_loop (in_think sp) (tag_buf sp @ raw) of
        (c, r, t, b) \<Rightarrow> ((c, r), \<lparr>in_think = t, tag_buf = b\<rparr>))"

definition split_orphan_reasoning :: "string \<Rightarrow> (string \<times> string) option" where
  "split_orphan_reasoning s =
     (case str_find s ''</think>'' of
        None \<Rightarrow> None
      | Some close \<Rightarrow>
          if contains (take close s) ''<think>'' then None
          else Some (trim_start (drop (close + length ''</think>'') s), trim (take close s)))"

section \<open>Stream events\<close>

record SseToolCallDelta =
  sd_index :: nat
  sd_id :: "string option"
  sd_function :: "(string option \<times> string option) option"

record SseChoice =
  sse_content :: "string option"
  sse_reasoning :: "string option"
  sse_tool_calls :: "SseToolCallDelta list option"
  sse_finish :: "string option"

record SseEnvelope =
  env_choices :: "SseChoice list"
  env_usage :: "Usage option"

definition tool_delta :: "SseToolCallDelta \<Rightarrow> ToolCallDelta" where
  "tool_delta d =
     \<lparr>td_index = sd_index d, td_id = sd_id d,
      td_name = Option.bind (sd_function d) fst,
      td_arguments = (case Option.bind (sd_function d) snd of Some a \<Rightarrow> a | None \<Rightarrow> [])\<rparr>"

definition parse_sse_event ::
  "(string \<Rightarrow> SseEnvelope option) \<Rightarrow> string \<Rightarrow> ThinkSplitter \<Rightarrow> StreamChunk option \<times> ThinkSplitter" where
  "parse_sse_event decode data sp =
     (case decode data of
        None \<Rightarrow> (None, sp)
      | Some env \<Rightarrow>
          (case env_choices env of
             [] \<Rightarrow> (map_option (\<lambda>u. default_chunk\<lparr>chunk_usage := Some u\<rparr>) (env_usage env), sp)
           | choice # _ \<Rightarrow>
               (case feed (case sse_content choice of Some s \<Rightarrow> s | None \<Rightarrow> []) sp of
                  ((c, r0), sp') \<Rightarrow>
                    (let r = (case sse_reasoning choice of
                                Some rc \<Rightarrow> if rc = [] then r0 else (if r0 \<noteq> [] then r0 @ [CHR 0x0A] else []) @ rc
                              | None \<Rightarrow> r0);
                         ds = map tool_delta (case sse_tool_calls choice of Some xs \<Rightarrow> xs | None \<Rightarrow> [])
                     in if c = [] \<and> r = [] \<and> ds = [] \<and> sse_finish choice = None \<and> env_usage env = None
                        then (None, sp')
                        else (Some \<lparr>delta_content = c, delta_reasoning = r, delta_tool_calls = ds,
                                    chunk_finish = sse_finish choice, chunk_usage = env_usage env\<rparr>, sp')))))"

text \<open>The loop of \<open>chat_stream\<close> over what the server sent: an event's data or a decoding error.\<close>

fun sse_loop ::
  "(string \<Rightarrow> SseEnvelope option) \<Rightarrow> (string + string) list \<Rightarrow> ThinkSplitter \<Rightarrow> StreamChunk list \<times> (string + unit)" where
  "sse_loop decode [] sp = ([], Inr ())"
| "sse_loop decode (Inl e # evs) sp = ([], Inl (''sse decode: '' @ e))"
| "sse_loop decode (Inr data # evs) sp =
     (if data = ''[DONE]'' then ([], Inr ())
      else case parse_sse_event decode data sp of
             (None, sp') \<Rightarrow> sse_loop decode evs sp'
           | (Some chunk, sp') \<Rightarrow> apfst ((#) chunk) (sse_loop decode evs sp'))"

section \<open>One reply\<close>

record NativeToolCall =
  nc_id :: string
  nc_name :: string
  nc_arguments :: string

definition default_call :: NativeToolCall where
  "default_call = \<lparr>nc_id = [], nc_name = [], nc_arguments = []\<rparr>"

record TurnOutput =
  to_content :: string
  to_reasoning :: string
  to_finish :: string
  to_tool_calls :: "NativeToolCall list"
  to_used :: nat
  to_usage :: "Usage option"
  to_ttft :: "nat option"
  to_error :: "llm_error option"

datatype reply_event =
    TurnStarted nat
  | AssistantDelta nat string string
  | UsageReading nat nat nat
  | TurnFinished nat string

record reply_input =
  ri_turn :: nat
  ri_messages :: "ChatMessage list"
  ri_limit :: nat
  ri_budget :: nat
  ri_estimate :: "nat option"

record reply_env =
  re_chunks :: "StreamChunk list"
  re_interrupted :: bool
  re_error :: "llm_error option"
  re_tokenize :: "string \<Rightarrow> nat option"
  re_elapsed :: "nat \<Rightarrow> nat"
  re_tick :: "nat \<Rightarrow> bool"

record reply_state =
  rs_running :: nat
  rs_final :: string
  rs_content :: string
  rs_reasoning :: string
  rs_tools :: "NativeToolCall list"
  rs_usage :: "Usage option"
  rs_ttft :: "nat option"
  rs_events :: "reply_event list"

text \<open>Fragments accumulate by index; missing slots are filled with empty calls.\<close>

definition put_delta :: "NativeToolCall list \<Rightarrow> ToolCallDelta \<Rightarrow> NativeToolCall list" where
  "put_delta calls d =
     (let padded = calls @ replicate (Suc (td_index d) - length calls) default_call;
          slot = padded ! td_index d
      in padded[td_index d := \<lparr>nc_id = (case td_id d of Some i \<Rightarrow> i | None \<Rightarrow> nc_id slot),
            nc_name = nc_name slot @ (case td_name d of Some n \<Rightarrow> n | None \<Rightarrow> []),
            nc_arguments = nc_arguments slot @ td_arguments d\<rparr>])"

definition absorb :: "reply_env \<Rightarrow> reply_input \<Rightarrow> nat \<times> StreamChunk \<Rightarrow> reply_state \<Rightarrow> reply_state" where
  "absorb env inp nch s =
     (case nch of (n, ch) \<Rightarrow>
        (let s1 = (if delta_content ch \<noteq> [] \<or> delta_reasoning ch \<noteq> []
                   then s\<lparr>rs_ttft := (case rs_ttft s of Some t \<Rightarrow> Some t | None \<Rightarrow> Some (re_elapsed env n)),
                          rs_events := rs_events s @ [AssistantDelta (ri_turn inp) (delta_content ch) (delta_reasoning ch)],
                          rs_content := rs_content s @ delta_content ch,
                          rs_reasoning := rs_reasoning s @ delta_reasoning ch,
                          rs_running := saturating_add_u32 (rs_running s)
                            (wrap_u32 (approx_tokens (delta_content ch) + approx_tokens (delta_reasoning ch)))\<rparr>
                   else s);
             s2 = s1\<lparr>rs_tools := foldl put_delta (rs_tools s1) (delta_tool_calls ch),
                     rs_final := (case chunk_finish ch of Some r \<Rightarrow> r | None \<Rightarrow> rs_final s1),
                     rs_usage := (case chunk_usage ch of Some u \<Rightarrow> Some u | None \<Rightarrow> rs_usage s1)\<rparr>
         in if re_tick env n
            then s2\<lparr>rs_events := rs_events s2 @ [UsageReading (rs_running s2) (ri_limit inp) (ri_budget inp)]\<rparr>
            else s2))"

fun join_lines :: "string list \<Rightarrow> string" where
  "join_lines [] = []"
| "join_lines [x] = x"
| "join_lines (x # xs) = x @ [CHR 0x0A] @ join_lines xs"

definition count_text :: "reply_env \<Rightarrow> string \<Rightarrow> nat" where
  "count_text env s = (case re_tokenize env s of Some n \<Rightarrow> n | None \<Rightarrow> approx_tokens s)"

definition run_turn :: "reply_env \<Rightarrow> reply_input \<Rightarrow> TurnOutput \<times> reply_event list" where
  "run_turn env inp =
     (let prompt = join_lines (map (\<lambda>m. content_text (cm_content m)) (ri_messages inp));
          initial = (case ri_estimate inp of Some n \<Rightarrow> n | None \<Rightarrow> count_text env prompt);
          s0 = \<lparr>rs_running = initial, rs_final = ''stop'', rs_content = [], rs_reasoning = [], rs_tools = [],
                rs_usage = None, rs_ttft = None,
                rs_events = [TurnStarted (ri_turn inp), UsageReading initial (ri_limit inp) (ri_budget inp)]\<rparr>;
          s = fold (absorb env inp) (enumerate 0 (re_chunks env)) s0;
          err = (if re_interrupted env then None else re_error env);
          final1 = (if err \<noteq> None then ''error'' else if re_interrupted env then ''interrupted'' else rs_final s);
          (content, reasoning) =
            (if rs_reasoning s = []
             then (case split_orphan_reasoning (rs_content s) of Some p \<Rightarrow> p | None \<Rightarrow> (rs_content s, []))
             else (rs_content s, rs_reasoning s));
          used = (case rs_usage s of
                    Some u \<Rightarrow> if usage_total u > 0 then usage_total u
                              else count_text env (prompt @ [CHR 0x0A] @ content @ [CHR 0x0A] @ reasoning)
                  | None \<Rightarrow> count_text env (prompt @ [CHR 0x0A] @ content @ [CHR 0x0A] @ reasoning));
          final = (if final1 = ''length'' then ''max_tokens'' else final1)
      in (\<lparr>to_content = content, to_reasoning = reasoning, to_finish = final,
           to_tool_calls = filter (\<lambda>c. nc_name c \<noteq> []) (rs_tools s), to_used = used, to_usage = rs_usage s,
           to_ttft = rs_ttft s, to_error = err\<rparr>,
          rs_events s @ [UsageReading used (ri_limit inp) (ri_budget inp), TurnFinished (ri_turn inp) final]))"

section \<open>Occurrences of a tag\<close>

lemma ends_with_iff: "ends_with s p \<longleftrightarrow> (\<exists>u. s = u @ p)"
  unfolding ends_with_def starts_with_iff by (metis append_Nil2 rev_append rev_rev_ident)

lemma str_find_extend: "str_find x p = Some i \<Longrightarrow> str_find (x @ y) p = Some i"
proof (induction x arbitrary: i)
  case Nil
  then show ?case by (cases p; cases y) (simp_all add: str_find.simps)
next
  case (Cons c x)
  show ?case
  proof (cases "starts_with (c # x) p")
    case True
    then have "starts_with (c # x @ y) p" by (metis append_Cons append_assoc starts_with_iff)
    then show ?thesis using Cons.prems True by (simp add: str_find.simps [of "c # x"] str_find.simps [of "c # x @ y"])
  next
    case False
    then obtain j where j: "str_find x p = Some j" "i = Suc j"
      using Cons.prems by (auto simp: str_find.simps [of "c # x"])
    have "\<not> starts_with (c # x @ y) p"
    proof
      assume "starts_with (c # x @ y) p"
      then obtain t where t: "c # x @ y = p @ t" by (auto simp: starts_with_iff)
      obtain pre post where "x = pre @ p @ post" using str_find_Some [OF j(1)] by blast
      then have "length p \<le> length (c # x)" by simp
      then have "c # x = p @ take (length (c # x) - length p) t"
        using t by (metis append_Cons append_eq_conv_conj take_append take_all)
      then show False using False by (metis starts_with_iff)
    qed
    then show ?thesis using Cons.IH [OF j(1)] j(2) by (simp add: str_find.simps [of "c # x @ y"])
  qed
qed

lemma str_find_bound: "str_find s p = Some i \<Longrightarrow> i + length p \<le> length s"
  using str_find_Some [of s p i] by auto

lemma think_tag_inner: "0 < k \<Longrightarrow> k < length (think_tag t) \<Longrightarrow> think_tag t ! k \<noteq> CHR ''<''"
  by (cases t; simp add: less_Suc_eq numeral_eq_Suc nth_Cons split: nat.splits)
    (auto simp: less_Suc_eq nth_Cons split: nat.splits)

lemma tag_starts_take: "0 < k \<Longrightarrow> k < length (think_tag t) \<Longrightarrow> take k (think_tag t) \<in> set (tag_starts t)"
proof -
  assume k: "0 < k" "k < length (think_tag t)"
  then have "k = 1 \<or> k = 2 \<or> k = 3 \<or> k = 4 \<or> k = 5 \<or> k = 6 \<or> k = 7" by (cases t) auto
  then show ?thesis using k(2) by (elim disjE) (cases t; simp)+
qed

lemma tag_starts_prefix:
  assumes "h \<in> set (tag_starts t)"
  shows "h = take (length h) (think_tag t)" and "0 < length h" and "length h < length (think_tag t)"
  using assms by (cases t; auto)+

lemma tag_starts_head: "h \<in> set (tag_starts t) \<Longrightarrow> \<exists>g. h = CHR ''<'' # g \<and> CHR ''<'' \<notin> set g"
  by (cases t) auto

text \<open>
  A text \<open>u\<close> without the tag cannot take part in an occurrence that ends behind it, unless it ends with the start
  of one that \<open>z\<close> does not break off.
\<close>

definition no_straddle :: "bool \<Rightarrow> string \<Rightarrow> string \<Rightarrow> bool" where
  "no_straddle t u z = (str_find u (think_tag t) = None
     \<and> (list_ex (ends_with u) (tag_starts t) \<longrightarrow> (\<exists>z'. z = CHR ''<'' # z')))"

lemma no_straddle_tl: "no_straddle t (c # u) z \<Longrightarrow> no_straddle t u z"
proof -
  assume a: "no_straddle t (c # u) z"
  then have "str_find u (think_tag t) = None"
    by (auto simp: no_straddle_def str_find.simps [of "c # u"] split: if_splits)
  moreover have "ends_with u h \<Longrightarrow> ends_with (c # u) h" for h unfolding ends_with_iff by (metis append_Cons)
  ultimately show ?thesis using a unfolding no_straddle_def list_ex_iff by blast
qed

lemma straddle_broken:
  assumes "no_straddle t u z" and "u = take k (think_tag t)" and "0 < k" and "k < length (think_tag t)"
  shows "\<not> starts_with z (drop k (think_tag t))"
proof -
  have "ends_with u u" by (auto simp: ends_with_iff)
  then obtain z' where z: "z = CHR ''<'' # z'"
    using assms tag_starts_take [OF assms(3,4)] unfolding no_straddle_def list_ex_iff by blast
  have d: "drop k (think_tag t) = think_tag t ! k # drop (Suc k) (think_tag t)"
    using assms(4) by (simp add: Cons_nth_drop_Suc)
  show ?thesis
    using think_tag_inner [OF assms(3,4)] by (simp add: z d)
qed

lemma str_find_behind:
  "no_straddle t u z \<Longrightarrow> str_find (u @ z) (think_tag t) = map_option ((+) (length u)) (str_find z (think_tag t))"
proof (induction u)
  case Nil
  then show ?case by (cases "str_find z (think_tag t)") simp_all
next
  case (Cons c u)
  let ?x = "c # u" and ?tag = "think_tag t"
  have "\<not> starts_with (?x @ z) ?tag"
  proof
    assume "starts_with (?x @ z) ?tag"
    then obtain r where r: "?x @ z = ?tag @ r" by (auto simp: starts_with_iff)
    show False
    proof (cases "length ?tag \<le> length ?x")
      case True
      then have "?x = ?tag @ take (length ?x - length ?tag) r"
        using r by (metis append_eq_conv_conj take_append take_all)
      then have "str_find ?x ?tag = Some 0" by (metis starts_with_iff str_find.simps)
      then show False using Cons.prems by (simp add: no_straddle_def)
    next
      case False
      then have l: "length ?x < length ?tag" by simp
      have "take (length ?x) (?x @ z) = take (length ?x) (?tag @ r)" by (simp only: r)
      then have u: "?x = take (length ?x) ?tag" using l by simp
      have "drop (length ?x) (?x @ z) = drop (length ?x) (?tag @ r)" by (simp only: r)
      then have "z = drop (length ?x) ?tag @ r" using l by simp
      then have "starts_with z (drop (length ?x) ?tag)" by (auto simp: starts_with_iff)
      then show False using straddle_broken [OF Cons.prems u _ l] by simp
    qed
  qed
  then show ?case
    using Cons.IH [OF no_straddle_tl [OF Cons.prems]]
    by (cases "str_find z ?tag") (simp_all add: str_find.simps [of "c # u @ z"])
qed

lemma str_rfind_behind: "CHR ''<'' \<in> set z \<Longrightarrow> str_rfind (u @ z) ''<'' = map_option ((+) (length u)) (str_rfind z ''<'')"
proof (induction u)
  case Nil
  then show ?case by (cases "str_rfind z ''<''") simp_all
next
  case (Cons c u)
  have "str_rfind z ''<'' \<noteq> None" using Cons.prems by (induction z) (auto split: option.splits)
  then show ?case using Cons by auto
qed

lemma str_rfind_last: "CHR ''<'' \<notin> set g \<Longrightarrow> str_rfind (u @ CHR ''<'' # g) ''<'' = Some (length u)"
proof -
  assume g: "CHR ''<'' \<notin> set g"
  then have "str_rfind g ''<'' = None" by (induction g) (auto split: option.splits)
  then show ?thesis using str_rfind_behind [of "CHR ''<'' # g" u] by simp
qed

lemma held_behind:
  assumes "no_straddle t u z" and "z \<noteq> []"
  shows "list_ex (ends_with (u @ z)) (tag_starts t) = list_ex (ends_with z) (tag_starts t)"
proof -
  have "ends_with z h" if h: "h \<in> set (tag_starts t)" and e: "ends_with (u @ z) h" for h
  proof (rule ccontr)
    assume n: "\<not> ends_with z h"
    from e obtain v where v: "u @ z = v @ h" by (auto simp: ends_with_iff)
    have l: "length z < length h"
    proof (rule ccontr)
      assume "\<not> length z < length h"
      then have "length v \<ge> length u" using arg_cong [OF v, of length] by simp
      then have "drop (length u) (v @ h) = drop (length u) v @ h" by simp
      then have "z = drop (length u) v @ h" using v by (metis append_eq_conv_conj)
      then show False using n by (auto simp: ends_with_iff)
    qed
    define k where "k = length h - length z"
    have k: "0 < k" "k < length h" using l assms(2) unfolding k_def by (cases z; auto)+
    have lv: "length v + k = length u" using arg_cong [OF v, of length] l by (simp add: k_def)
    have "take (length u) (u @ z) = take (length v + k) (v @ h)" "drop (length u) (u @ z) = drop (length v + k) (v @ h)"
      by (simp_all only: v lv)
    then have u: "u = v @ take k h" and z: "z = drop k h" by simp_all
    note hp = tag_starts_prefix [OF h]
    have "take k h = take k (think_tag t)" using hp(1) k by (metis min.absorb1 nless_le take_take)
    then have "ends_with u (take k (think_tag t))" using u by (auto simp: ends_with_iff)
    moreover have kt: "k < length (think_tag t)" using k hp by simp
    ultimately obtain z' where "z = CHR ''<'' # z'"
      using assms(1) tag_starts_take [OF k(1) kt] unfolding no_straddle_def list_ex_iff by blast
    moreover have "z ! 0 = think_tag t ! k" using z hp(1) k by (metis add.right_neutral nth_drop nth_take less_imp_le)
    ultimately show False using think_tag_inner [OF k(1) kt] by simp
  qed
  moreover have "ends_with z h \<Longrightarrow> ends_with (u @ z) h" for h by (auto simp: ends_with_iff)
  ultimately show ?thesis unfolding list_ex_iff by blast
qed


lemma put_text_put: "put_text t u (put_text t v x) = put_text t (u @ v) x"
  by (cases t; cases x) simp_all

text \<open>Text that cannot belong to a tag goes out first.\<close>

lemma feed_loop_behind:
  assumes "no_straddle t u z" and "z \<noteq> []"
  shows "feed_loop t (u @ z) = put_text t u (feed_loop t z)"
proof (cases "str_find z (think_tag t)")
  case (Some i)
  then show ?thesis
    using str_find_behind [OF assms(1)] assms(2)
    by (simp add: feed_loop.simps [of t "u @ z"] feed_loop.simps [of t z] put_text_put)
next
  case None
  have "CHR ''<'' \<in> set z" if held: "list_ex (ends_with z) (tag_starts t)"
  proof -
    obtain h where "h \<in> set (tag_starts t)" "ends_with z h" using held by (auto simp: list_ex_iff)
    then show ?thesis using tag_starts_head [of h t] by (auto simp: ends_with_iff)
  qed
  then show ?thesis
    using None assms(2) str_find_behind [OF assms(1)] held_behind [OF assms] str_rfind_behind [of z u]
    by (auto simp: feed_loop.simps [of t "u @ z"] feed_loop.simps [of t z] put_text_put Let_def split: option.split)
qed

definition then_feed :: "string \<times> string \<times> bool \<times> string \<Rightarrow> string \<Rightarrow> string \<times> string \<times> bool \<times> string" where
  "then_feed x y = (case x of (c, r, t, b) \<Rightarrow> (case feed_loop t (b @ y) of (c', r', t', b') \<Rightarrow> (c @ c', r @ r', t', b')))"

lemma then_feed_put: "then_feed (put_text t u x) y = put_text t u (then_feed x y)"
  by (cases t; cases x) (auto simp: then_feed_def split: prod.splits)

lemma then_feed_start: "then_feed ([], [], t, b) y = feed_loop t (b @ y)"
  by (simp add: then_feed_def split: prod.splits)

lemma feed_loop_append: "feed_loop t (x @ y) = then_feed (feed_loop t x) y"
proof (induction t x rule: feed_loop.induct)
  case (1 t x)
  consider (empty) "x = []" | (tag) i where "x \<noteq> []" "str_find x (think_tag t) = Some i"
    | (held) "x \<noteq> []" "str_find x (think_tag t) = None" "list_ex (ends_with x) (tag_starts t)"
    | (plain) "x \<noteq> []" "str_find x (think_tag t) = None" "\<not> list_ex (ends_with x) (tag_starts t)"
    by (cases "str_find x (think_tag t)") blast+
  then show ?case
  proof cases
    case empty
    then show ?thesis by (simp add: feed_loop.simps [of t "[]"] then_feed_start)
  next
    case tag
    have b: "i + length (think_tag t) \<le> length x" by (rule str_find_bound [OF tag(2)])
    have "feed_loop t (x @ y) = put_text t (take i x) (feed_loop (\<not> t) (drop (i + length (think_tag t)) x @ y))"
      using tag(1) str_find_extend [OF tag(2), of y] b by (simp add: feed_loop.simps [of t "x @ y"])
    also have "\<dots> = put_text t (take i x) (then_feed (feed_loop (\<not> t) (drop (i + length (think_tag t)) x)) y)"
      using 1 [OF tag] by simp
    also have "\<dots> = then_feed (feed_loop t x) y"
      using tag by (simp add: feed_loop.simps [of t x] then_feed_put)
    finally show ?thesis .
  next
    case held
    then obtain h u where h: "h \<in> set (tag_starts t)" "x = u @ h" by (auto simp: list_ex_iff ends_with_iff)
    then obtain g where g: "h = CHR ''<'' # g" "CHR ''<'' \<notin> set g" using tag_starts_head by blast
    have f: "feed_loop t x = put_text t u ([], [], t, h)"
      using held h g str_rfind_last [OF g(2), of u] by (simp add: feed_loop.simps [of t "u @ CHR ''<'' # g"])
    have "str_find u (think_tag t) = None"
      using held(2) str_find_extend [of u "think_tag t" _ h] h(2) by (cases "str_find u (think_tag t)") auto
    then have "no_straddle t u (h @ y)" by (simp add: no_straddle_def g)
    then show ?thesis
      unfolding f then_feed_put then_feed_start using feed_loop_behind [of t u "h @ y"] h(2) g(1) by simp
  next
    case plain
    have f: "feed_loop t x = put_text t x ([], [], t, [])" using plain by (simp add: feed_loop.simps [of t x])
    have "no_straddle t x y" using plain by (simp add: no_straddle_def)
    then have "y \<noteq> [] \<Longrightarrow> feed_loop t (x @ y) = put_text t x (feed_loop t y)" by (rule feed_loop_behind)
    then show ?thesis
      by (cases "y = []") (simp_all add: f then_feed_put then_feed_start feed_loop.simps [of t "[]"])
  qed
qed

fun feed_all :: "string list \<Rightarrow> ThinkSplitter \<Rightarrow> (string \<times> string) \<times> ThinkSplitter" where
  "feed_all [] sp = (([], []), sp)"
| "feed_all (x # xs) sp =
     (case feed x sp of ((c, r), sp1) \<Rightarrow> (case feed_all xs sp1 of ((c', r'), sp2) \<Rightarrow> ((c @ c', r @ r'), sp2)))"

lemma feed_append:
  "feed (x @ y) sp = (case feed x sp of ((c, r), sp1) \<Rightarrow> (case feed y sp1 of ((c', r'), sp2) \<Rightarrow> ((c @ c', r @ r'), sp2)))"
  using feed_loop_append [of "in_think sp" "tag_buf sp @ x" y]
  by (simp add: feed_def then_feed_def split: prod.splits)

lemma feed_all_concat: "xs \<noteq> [] \<Longrightarrow> feed_all xs sp = feed (concat xs) sp"
proof (induction xs arbitrary: sp)
  case (Cons x xs)
  have "(case feed x sp of ((c, r), sp1) \<Rightarrow> ((c @ [], r @ []), sp1)) = feed x sp" by (simp split: prod.splits)
  then show ?case using Cons by (cases "xs = []") (simp_all add: feed_append [of x "concat xs"])
qed simp

section \<open>Fragments of tool calls\<close>

definition frag :: "nat \<Rightarrow> ToolCallDelta list \<Rightarrow> ToolCallDelta list" where
  "frag i ds = filter (\<lambda>d. td_index d = i) ds"

definition call_of :: "ToolCallDelta list \<Rightarrow> NativeToolCall" where
  "call_of ds = \<lparr>nc_id = (let xs = List.map_filter td_id ds in if xs = [] then [] else last xs),
     nc_name = concat (List.map_filter td_name ds), nc_arguments = concat (map td_arguments ds)\<rparr>"

lemma call_of_snoc:
  "call_of (ds @ [d]) = \<lparr>nc_id = (case td_id d of Some i \<Rightarrow> i | None \<Rightarrow> nc_id (call_of ds)),
     nc_name = nc_name (call_of ds) @ (case td_name d of Some n \<Rightarrow> n | None \<Rightarrow> []),
     nc_arguments = nc_arguments (call_of ds) @ td_arguments d\<rparr>"
  by (simp add: call_of_def Let_def List.map_filter_def split: option.splits)

text \<open>Each slot of the accumulator is put together from the fragments with its index, in their order.\<close>

lemma put_delta_slots:
  "foldl put_delta [] ds = map (\<lambda>i. call_of (frag i ds)) [0..<Max (insert 0 (Suc ` td_index ` set ds))]"
proof (induction ds rule: rev_induct)
  case Nil
  then show ?case by simp
next
  case (snoc d ds)
  define n where "n = Max (insert 0 (Suc ` td_index ` set ds))"
  have "insert 0 (Suc ` td_index ` set (ds @ [d])) = insert (Suc (td_index d)) (insert 0 (Suc ` td_index ` set ds))" by auto
  then have m: "Max (insert 0 (Suc ` td_index ` set (ds @ [d]))) = max n (Suc (td_index d))"
    unfolding n_def by (simp only:) (subst Max_insert, auto simp: max.commute)
  have "Suc (td_index x) \<le> n" if "x \<in> set ds" for x unfolding n_def using that by (intro Max_ge) auto
  then have beyond: "frag i ds = []" if "\<not> i < n" for i using that by (fastforce simp: frag_def filter_empty_conv)
  have empty: "call_of [] = default_call" by (simp add: call_of_def Let_def default_call_def List.map_filter_def)
  let ?pad = "map (\<lambda>i. call_of (frag i ds)) [0..<max n (Suc (td_index d))]"
  have pad: "map (\<lambda>i. call_of (frag i ds)) [0..<n] @ replicate (Suc (td_index d) - n) default_call = ?pad"
    by (rule nth_equalityI) (simp_all add: nth_append beyond empty max_def del: upt_Suc)
  have slot: "?pad ! td_index d = call_of (frag (td_index d) ds)"
    by (subst nth_map) (simp_all add: less_max_iff_disj del: upt_Suc)
  have "put_delta (foldl put_delta [] ds) d = ?pad[td_index d := call_of (frag (td_index d) ds @ [d])]"
    unfolding put_delta_def Let_def snoc.IH n_def [symmetric] length_map length_upt diff_zero pad slot
    by (simp only: call_of_snoc)
  also have "\<dots> = map (\<lambda>i. call_of (frag i (ds @ [d]))) [0..<max n (Suc (td_index d))]"
    by (rule nth_equalityI) (simp_all add: nth_list_update frag_def del: upt_Suc)
  finally show ?case unfolding m by simp
qed

lemma absorb_fold:
  "rs_tools (fold (absorb env inp) (enumerate k chs) s) = foldl put_delta (rs_tools s) (concat (map delta_tool_calls chs))
   \<and> rs_content (fold (absorb env inp) (enumerate k chs) s) = rs_content s @ concat (map delta_content chs)
   \<and> rs_reasoning (fold (absorb env inp) (enumerate k chs) s) = rs_reasoning s @ concat (map delta_reasoning chs)"
proof (induction chs arbitrary: k s)
  case (Cons ch chs)
  have "rs_tools (absorb env inp (k, ch) s) = foldl put_delta (rs_tools s) (delta_tool_calls ch)"
    "rs_content (absorb env inp (k, ch) s) = rs_content s @ delta_content ch"
    "rs_reasoning (absorb env inp (k, ch) s) = rs_reasoning s @ delta_reasoning ch"
    by (simp_all add: absorb_def Let_def)
  then show ?case using Cons [of "Suc k" "absorb env inp (k, ch) s"] by simp
qed simp

section \<open>Properties\<close>

text \<open>
  C40: How the server cuts a reply into pieces does not matter: feeding the pieces one after the other separates
  answer and reasoning exactly as feeding the whole text at once, a tag split across pieces included.
\<close>

theorem chunking_irrelevant: "feed_all xs splitter_new = feed (concat xs) splitter_new"
proof (cases "xs = []")
  case True
  then show ?thesis by (simp add: feed_def splitter_new_def feed_loop.simps)
qed (rule feed_all_concat)

text \<open>
  The calls of a reply are put together index by index: whatever the order in which fragments of different
  calls arrive, the reply carries for each index the last id sent, and its name and argument fragments joined
  in order; slots without a name are left out.
\<close>

theorem calls_assembled:
  "to_tool_calls (fst (run_turn env inp)) =
     (let ds = concat (map delta_tool_calls (re_chunks env))
      in filter (\<lambda>c. nc_name c \<noteq> [])
           (map (\<lambda>i. call_of (frag i ds)) [0..<Max (insert 0 (Suc ` td_index ` set ds))]))"
  unfolding put_delta_slots [symmetric] Let_def
  by (simp add: run_turn_def Let_def absorb_fold split: prod.splits)

text \<open>
  The splitter keeps back the end of a text that may open a tag, and the stream ends without asking for it: an
  answer that ends in such a text loses it.
\<close>

lemma held_tail_lost:
  "feed ''x <'' splitter_new = ((''x '', []), \<lparr>in_think = False, tag_buf = ''<''\<rparr>)
   \<and> fst (sse_loop (\<lambda>d. Some \<lparr>env_choices = [\<lparr>sse_content = Some d, sse_reasoning = None, sse_tool_calls = None, sse_finish = None\<rparr>],
        env_usage = None\<rparr>) [Inr ''x <'', Inr ''[DONE]''] splitter_new) = [default_chunk\<lparr>delta_content := ''x ''\<rparr>]"
  by code_simp

end
