(* ===== verification/Completion_Check.thy ===== *)
theory Completion_Check
  imports Goals Turn_Context
begin

text \<open>
  The completion check, \<open>src/crates/backend/src/verdict.rs\<close>, and its use at the end of a turn in
  \<open>src/crates/backend/src/chat.rs\<close>: which turns are audited, what the judge is shown, how its answer is read,
  and how many continuations one message of a person may open.

  Parameters: the judge's stream (\<open>judge\<close>: the timeout, the pieces of its reply, the error the request ended
  with) and \<open>serde_json\<close> (\<open>parse\<close>).
\<close>

section \<open>The allowance\<close>

definition MAX_AUTO_CONTINUES :: nat where "MAX_AUTO_CONTINUES = 12"
definition MAX_STALLED_CONTINUES :: nat where "MAX_STALLED_CONTINUES = 2"

record Spent =
  opened :: nat
  stalled :: nat

definition spent_new :: Spent where "spent_new = \<lparr>opened = 0, stalled = 0\<rparr>"

definition budget_left :: "Spent \<Rightarrow> bool" where
  "budget_left s = (stalled s < MAX_STALLED_CONTINUES \<and> opened s < MAX_AUTO_CONTINUES)"

text \<open>The counters are \<open>u8\<close> and saturate.\<close>

definition spent_open :: "Spent \<Rightarrow> nat \<times> Spent" where
  "spent_open s = (min 255 (opened s + 1), \<lparr>opened = min 255 (opened s + 1), stalled = min 255 (stalled s + 1)\<rparr>)"

definition spent_refund :: "Spent \<Rightarrow> Spent" where
  "spent_refund s = s\<lparr>stalled := stalled s - 1\<rparr>"

section \<open>What is checked\<close>

definition MAX_INPUT_BYTES :: nat where "MAX_INPUT_BYTES = 3072"
definition MAX_REPLY_BYTES :: nat where "MAX_REPLY_BYTES = 8192"
definition MAX_FIELD_LEN :: nat where "MAX_FIELD_LEN = 400"
definition MAX_DIGEST_CALLS :: nat where "MAX_DIGEST_CALLS = 16"

definition abnormal :: "string \<Rightarrow> bool" where
  "abnormal finish = (finish \<in> {''hop-limit'', ''max_tokens'', ''error'', ''empty'', ''bad-call''})"

definition needs_check :: "string \<Rightarrow> bool \<Rightarrow> bool" where
  "needs_check finish continuation = (abnormal finish \<or> (continuation \<and> finish = ''done''))"

fun is_start_of :: "nat \<Rightarrow> EventKind \<Rightarrow> bool" where
  "is_start_of t (TurnStart n _) = (n = t)"
| "is_start_of t _ = False"

definition made_progress :: "SessionEvent list \<Rightarrow> nat \<Rightarrow> bool" where
  "made_progress evs t =
     (case rposition (\<lambda>e. is_start_of t (kind e)) evs of
        None \<Rightarrow> False
      | Some start \<Rightarrow> list_ex (\<lambda>e. case kind e of ToolResult _ _ _ _ ok _ _ pruned \<Rightarrow> ok \<and> \<not> pruned | _ \<Rightarrow> False)
                       (drop start evs))"

text \<open>The walk keeps the last user message and the last one that opened a turn of a person.\<close>

fun objective_from :: "nat \<Rightarrow> string \<Rightarrow> string \<Rightarrow> SessionEvent list \<Rightarrow> string" where
  "objective_from t last_user human [] = human"
| "objective_from t last_user human (e # evs) =
     (case kind e of
        UserMessage _ c _ \<Rightarrow> objective_from t c human evs
      | TurnStart n source \<Rightarrow>
          (let human' = (if is_human source \<and> last_user \<noteq> [] then last_user else human)
           in if n = t then human' else objective_from t last_user human' evs)
      | _ \<Rightarrow> objective_from t last_user human evs)"

definition objective :: "SessionEvent list \<Rightarrow> nat \<Rightarrow> string" where
  "objective evs t = objective_from t [] [] evs"

definition one_line :: "string \<Rightarrow> nat \<Rightarrow> string" where
  "one_line s cap =
     (let flat = join_words (split_ws s); cut = utf8_head flat cap
      in if length cut < length flat then cut @ ellipsis else cut)"

definition ok_by_call :: "SessionEvent list \<Rightarrow> nat \<Rightarrow> bool option" where
  "ok_by_call tail = fold (\<lambda>e m. case kind e of ToolResult _ c _ _ ok _ _ _ \<Rightarrow> m(c \<mapsto> ok) | _ \<Rightarrow> m) tail Map.empty"

definition call_line :: "(nat \<Rightarrow> bool option) \<Rightarrow> SessionEvent \<Rightarrow> string option" where
  "call_line oks e =
     (case kind e of
        ToolCall _ preview _ _ _ \<Rightarrow>
          Some (''- '' @ one_line preview 200 @ '' [''
            @ (case oks (seq e) of Some True \<Rightarrow> ''ok'' | Some False \<Rightarrow> ''FAILED'' | None \<Rightarrow> ''no result'') @ '']'')
      | _ \<Rightarrow> None)"

definition last_said :: "SessionEvent list \<Rightarrow> string" where
  "last_said tail =
     fold (\<lambda>e s. case kind e of AssistantMessage _ c _ _ \<Rightarrow> if trim c \<noteq> [] then c else s | _ \<Rightarrow> s) tail []"

definition digest :: "SessionEvent list \<Rightarrow> nat \<Rightarrow> string" where
  "digest evs t =
     (case position (\<lambda>e. is_start_of t (kind e)) evs of
        None \<Rightarrow> []
      | Some start \<Rightarrow>
          (let tail = drop start evs;
               calls = List.map_filter (call_line (ok_by_call tail)) tail;
               shown = min (length calls) MAX_DIGEST_CALLS;
               skipped = length calls - shown;
               said = last_said tail;
               nl = [CHR 0x0A];
               work = (if calls = [] then ''The agent made no tool calls.'' @ nl
                       else ''Tool calls in order ('' @ dec (length calls) @ '' total):'' @ nl
                            @ (if skipped > 0 then ''- ['' @ dec skipped @ '' earlier call(s) omitted]'' @ nl else [])
                            @ concat (map (\<lambda>c. c @ nl) (drop skipped calls)));
               words = (if trim said \<noteq> [] then nl @ ''The agent's last message:'' @ nl @ one_line said 600 @ nl else [])
           in utf8_head (work @ words) MAX_INPUT_BYTES))"

section \<open>The judge\<close>

record Verdict =
  reached :: bool
  reason :: string
  next_step :: "string option"

record judge =
  jd_timeout :: bool
  jd_chunks :: "string list"
  jd_error :: "string option"

definition how_it_ended :: "string \<Rightarrow> string" where
  "how_it_ended finish =
     (if finish = ''done''
      then ''The agent ended this turn itself, part-way through work the harness had already resumed at least once ''
           @ em_dash @ '' judge the whole request, not the turn's last step.''
      else ''The turn was cut short by the harness: '' @ finish @ ''.'')"

definition judge_prompt :: "string \<Rightarrow> string \<Rightarrow> string \<Rightarrow> string" where
  "judge_prompt request finish account =
     ''The user asked for:'' @ [CHR 0x0A] @ utf8_head request MAX_INPUT_BYTES @ [CHR 0x0A, CHR 0x0A]
     @ how_it_ended finish @ [CHR 0x0A, CHR 0x0A] @ account @ [CHR 0x0A, CHR 0x0A] @ ''Verdict JSON:''"

text \<open>The first balanced run of braces, braces in strings not counted.\<close>

fun object_end :: "nat \<Rightarrow> bool \<Rightarrow> bool \<Rightarrow> nat \<Rightarrow> string \<Rightarrow> nat option" where
  "object_end depth in_str esc i [] = None"
| "object_end depth in_str esc i (c # cs) =
     (if in_str then
        (if esc then object_end depth True False (Suc i) cs
         else if c = CHR 0x5C then object_end depth True True (Suc i) cs
         else if c = CHR 0x22 then object_end depth False False (Suc i) cs
         else object_end depth True False (Suc i) cs)
      else if c = CHR 0x22 then object_end depth True esc (Suc i) cs
      else if c = CHR ''{'' then object_end (depth + 1) False esc (Suc i) cs
      else if c = CHR ''}'' then
        (if depth - 1 = 0 then Some i else object_end (depth - 1) False esc (Suc i) cs)
      else object_end depth False esc (Suc i) cs)"

definition first_object :: "string \<Rightarrow> string option" where
  "first_object s =
     Option.bind (str_find s ''{'') (\<lambda>start.
       map_option (\<lambda>n. take (Suc n) (drop start s)) (object_end 0 False False 0 (drop start s)))"

definition stated :: "json \<Rightarrow> bool option" where
  "stated r =
     (case r of
        JBool b \<Rightarrow> Some b
      | JString s \<Rightarrow> (let a = to_ascii_lowercase (trim s)
                     in if a \<in> {''true'', ''yes''} then Some True
                        else if a \<in> {''false'', ''no''} then Some False else None)
      | _ \<Rightarrow> None)"

definition verdict_field :: "json \<Rightarrow> string \<Rightarrow> string option" where
  "verdict_field v k =
     Option.bind (Option.bind (json_get k v) as_str) (\<lambda>s. if trim s = [] then None else Some (one_line (trim s) MAX_FIELD_LEN))"

definition parse_verdict :: "(string \<Rightarrow> json option) \<Rightarrow> string \<Rightarrow> Verdict option" where
  "parse_verdict parse raw =
     (let body = (case str_rfind raw ''</think>'' of Some i \<Rightarrow> drop (i + length ''</think>'') raw | None \<Rightarrow> raw)
      in Option.bind (first_object body) (\<lambda>obj. Option.bind (parse obj) (\<lambda>v.
           Option.bind (Option.bind (json_get ''reached'' v) stated) (\<lambda>r.
             Some \<lparr>reached = r,
                   reason = (case verdict_field v ''reason'' of Some s \<Rightarrow> s
                             | None \<Rightarrow> if r then ''request satisfied'' else ''request not satisfied''),
                   next_step = (if r then None else verdict_field v ''next_step'')\<rparr>))))"

fun collect :: "string \<Rightarrow> string list \<Rightarrow> string" where
  "collect buf [] = buf"
| "collect buf (c # cs) = (if length (buf @ c) > MAX_REPLY_BYTES then buf @ c else collect (buf @ c) cs)"

definition check :: "(string \<Rightarrow> json option) \<Rightarrow> (string \<Rightarrow> judge) \<Rightarrow> string \<Rightarrow> string \<Rightarrow> string \<Rightarrow> string + Verdict" where
  "check parse ask request finish account =
     (let j = ask (judge_prompt request finish account); buf = collect [] (jd_chunks j)
      in if jd_timeout j then Inl ''timed out after 90s''
         else case jd_error j of
           Some e \<Rightarrow> Inl (''request failed: '' @ one_line e MAX_FIELD_LEN)
         | None \<Rightarrow>
             if trim buf = [] then Inl ''the model returned an empty reply''
             else case parse_verdict parse buf of
               Some v \<Rightarrow> Inr v
             | None \<Rightarrow> Inl (''the reply carried no `reached` verdict ('' @ dec (length buf) @ '' bytes: ''
                         @ one_line buf 120 @ '')''))"

section \<open>The continuation\<close>

definition advice :: "string \<Rightarrow> string" where
  "advice finish =
     (if finish = ''max_tokens'' then
        ''Your last reply ran into the output limit, so a tool call in it was cut off and did NOT run. Say less per reply: keep your reasoning short, and write a large file in parts ''
        @ em_dash @ '' write-file the first part, then add each further part with write-file ''
        @ [CHR 0x27] @ ''<path>'' @ [CHR 0x27] @ '' '' @ [CHR 0x27] @ ''<text>'' @ [CHR 0x27] @ '' '' @ [CHR 0x27]
        @ ''append=true'' @ [CHR 0x27] @ ''.''
      else if finish = ''empty'' then
        ''Your last replies ended inside your reasoning with nothing said and no tool call, so nothing ran. Keep the thinking short and reply with the tool call itself.''
      else if finish = ''bad-call'' then
        ''Your last tool call could not be read, so it did not run. Use the one-line form <skill> ''
        @ [CHR 0x27] @ ''<arg>'' @ [CHR 0x27] @ '' > <expectation>, or a ```tool_call JSON fence for arguments full of quotes.''
      else if finish = ''error'' then
        ''The last request failed; carry on from the last step that succeeded.''
      else ''Work in larger steps than the previous turn did: you have a fresh but equally limited tool budget, so prefer one wide call over several narrow ones.'')"

definition continue_prompt :: "Verdict \<Rightarrow> string \<Rightarrow> nat \<Rightarrow> string" where
  "continue_prompt v finish attempt =
     (let step = (case next_step v of Some s \<Rightarrow> s | None \<Rightarrow> reason v);
          why = (if finish = ''done'' then ''Your previous turn ended before the user's request was finished.''
                 else ''Your previous turn was cut short by the harness ('' @ finish
                      @ '') before the user's request was finished.'')
      in ''<auto_continue attempt='' @ [CHR 0x22] @ dec attempt @ [CHR 0x22] @ '' of='' @ [CHR 0x22]
         @ dec MAX_AUTO_CONTINUES @ [CHR 0x22] @ ''>'' @ [CHR 0x0A]
         @ why @ '' This is the harness continuing it '' @ em_dash @ '' the user has not sent a new message.''
         @ [CHR 0x0A, CHR 0x0A] @ ''What is still missing: '' @ reason v @ [CHR 0x0A]
         @ ''Do this next: '' @ step @ [CHR 0x0A, CHR 0x0A]
         @ advice finish @ '' If the request is in fact already satisfied, say so and stop.'' @ [CHR 0x0A]
         @ ''</auto_continue>'')"

text \<open>
  The block at the end of a turn: the new log, the allowance spent, and the prompt of the continuation. The
  entry of the allowance is absent until a continuation is opened; \<open>None\<close> and a fresh entry behave alike.
\<close>

definition end_check ::
  "int \<Rightarrow> (string \<Rightarrow> json option) \<Rightarrow> (string \<Rightarrow> judge) \<Rightarrow> string \<Rightarrow> TurnSource \<Rightarrow> nat \<Rightarrow> SessionLog \<Rightarrow> Spent
   \<Rightarrow> string option \<times> SessionLog \<times> Spent" where
  "end_check now parse ask finish source t log spent0 =
     (let continuation = (source = AutoContinue)
      in if \<not> needs_check finish continuation then (None, log, spent0)
         else let goal = objective (events log) t;
                  spent = (if continuation \<and> made_progress (events log) t then spent_refund spent0 else spent0)
              in if goal = [] then (None, log, spent)
                 else case check parse ask goal finish (digest (events log) t) of
                   Inl _ \<Rightarrow> (None, log, spent)
                 | Inr v \<Rightarrow>
                     (let log' = log_append log now (TurnVerdict t (reached v) (reason v) (next_step v))
                      in if \<not> reached v \<and> budget_left spent
                         then (case spent_open spent of
                                 (attempt, spent') \<Rightarrow> (Some (continue_prompt v finish attempt), log', spent'))
                         else (None, log', spent)))"

text \<open>A message of a person clears what was spent (in \<open>start_turn\<close>).\<close>

definition clear_spent :: "TurnSource \<Rightarrow> Spent \<Rightarrow> Spent" where
  "clear_spent source spent = (if is_human source then spent_new else spent)"

section \<open>Lemmas\<close>

lemma end_check_spent:
  assumes "end_check now parse ask finish source t log s = (p, log', s')"
  shows "p = None \<Longrightarrow> opened s' = opened s \<and> stalled s' \<le> stalled s"
    and "p \<noteq> None \<Longrightarrow> opened s' = opened s + 1 \<and> opened s < MAX_AUTO_CONTINUES \<and> stalled s' \<le> stalled s + 1"
    and "p \<noteq> None \<Longrightarrow> \<not> made_progress (events log) t \<Longrightarrow> stalled s < MAX_STALLED_CONTINUES \<and> stalled s' = stalled s + 1"
    and "p = None \<Longrightarrow> \<not> made_progress (events log) t \<Longrightarrow> stalled s' = stalled s"
  using assms
  by (auto simp: end_check_def Let_def spent_open_def spent_refund_def budget_left_def MAX_AUTO_CONTINUES_def
      MAX_STALLED_CONTINUES_def split: if_splits sum.splits)

text \<open>What happens between two messages of a person: turns end, each with its own log, judge and clock.\<close>

record turn_over_input =
  tv_now :: int
  tv_ask :: "string \<Rightarrow> judge"
  tv_finish :: string
  tv_source :: TurnSource
  tv_turn :: nat
  tv_log :: SessionLog

definition end_check_of :: "(string \<Rightarrow> json option) \<Rightarrow> turn_over_input \<Rightarrow> Spent \<Rightarrow> string option \<times> SessionLog \<times> Spent" where
  "end_check_of parse i s = end_check (tv_now i) parse (tv_ask i) (tv_finish i) (tv_source i) (tv_turn i) (tv_log i) s"

fun continuations :: "(string \<Rightarrow> json option) \<Rightarrow> turn_over_input list \<Rightarrow> Spent \<Rightarrow> string list" where
  "continuations parse [] s = []"
| "continuations parse (i # is) s =
     (case end_check_of parse i s of (p, _, s') \<Rightarrow> (case p of Some x \<Rightarrow> [x] | None \<Rightarrow> []) @ continuations parse is s')"

lemma continuations_opened: "length (continuations parse is s) \<le> MAX_AUTO_CONTINUES - opened s"
proof (induction "is" arbitrary: s)
  case (Cons i "is")
  obtain p log' s' where e: "end_check_of parse i s = (p, log', s')" using prod_cases3 by blast
  then have c: "end_check (tv_now i) parse (tv_ask i) (tv_finish i) (tv_source i) (tv_turn i) (tv_log i) s = (p, log', s')"
    by (simp add: end_check_of_def)
  show ?case using Cons [of s'] e end_check_spent(1,2) [OF c] by (cases p) auto
qed simp

lemma continuations_stalled:
  "list_all (\<lambda>i. \<not> made_progress (events (tv_log i)) (tv_turn i)) is
     \<Longrightarrow> length (continuations parse is s) \<le> MAX_STALLED_CONTINUES - stalled s"
proof (induction "is" arbitrary: s)
  case (Cons i "is")
  obtain p log' s' where e: "end_check_of parse i s = (p, log', s')" using prod_cases3 by blast
  then have c: "end_check (tv_now i) parse (tv_ask i) (tv_finish i) (tv_source i) (tv_turn i) (tv_log i) s = (p, log', s')"
    by (simp add: end_check_of_def)
  show ?case using Cons.IH [of s'] Cons.prems e end_check_spent(3,4) [OF c] by (cases p) auto
qed simp

text \<open>The walk of \<open>objective\<close> over a stretch without the turn it looks for.\<close>

definition last_user :: "string \<Rightarrow> SessionEvent list \<Rightarrow> string" where
  "last_user u evs = fold (\<lambda>e u. case kind e of UserMessage _ c _ \<Rightarrow> c | _ \<Rightarrow> u) evs u"

lemma objective_skip:
  "list_all (\<lambda>e. \<not> is_start_of t (kind e)) pre
     \<Longrightarrow> \<exists>h. objective_from t u0 h0 (pre @ rest) = objective_from t (last_user u0 pre) h rest
        \<and> (list_all (\<lambda>e. case kind e of TurnStart _ s \<Rightarrow> \<not> is_human s | _ \<Rightarrow> True) pre \<longrightarrow> h = h0)"
proof (induction pre arbitrary: u0 h0)
  case Nil
  then show ?case by (auto simp: last_user_def)
next
  case (Cons e pre)
  show ?case
  proof (cases "\<exists>n s. kind e = TurnStart n s")
    case True
    then obtain n s where k: "kind e = TurnStart n s" by blast
    then show ?thesis using Cons.IH [of u0 h0] Cons.IH [of u0 u0] Cons.prems
      by (auto simp: last_user_def Let_def)
  next
    case False
    then show ?thesis
      using Cons by (cases "kind e") (auto simp: last_user_def)
  qed
qed

lemma one_line_short:
  "length (one_line s cap) \<le> cap + 3" "CHR 0x0A \<notin> set (one_line s cap)"
proof -
  have e: "length ellipsis = 3" "CHR 0x0A \<notin> set ellipsis" by (simp_all add: ellipsis_def)
  show "length (one_line s cap) \<le> cap + 3"
    using length_utf8_head [of "join_words (split_ws s)" cap] e by (simp add: one_line_def Let_def)
  have "CHR 0x0A \<notin> set (utf8_head (join_words (split_ws s)) cap)"
    using join_words_no_newline [of "split_ws s"] split_ws_no_newline [of _ s]
      utf8_head_prefix [of "join_words (split_ws s)" cap] by (metis in_set_takeD)
  then show "CHR 0x0A \<notin> set (one_line s cap)"
    using e(2) by (simp add: one_line_def Let_def)
qed

text \<open>What a verdict brings into the prompt and the window is one short line each.\<close>

lemma verdict_fields_short:
  assumes "parse_verdict parse raw = Some v"
  shows "length (reason v) \<le> MAX_FIELD_LEN + 3 \<and> CHR 0x0A \<notin> set (reason v)
     \<and> (reached v \<longrightarrow> next_step v = None)"
proof -
  have "length (one_line x 400) \<le> 403" "CHR 0x0A \<notin> set (one_line x 400)" for x
    using one_line_short [of x 400] by simp_all
  with assms show ?thesis
  by (auto simp: parse_verdict_def verdict_field_def Let_def MAX_FIELD_LEN_def bind_eq_Some_conv split: option.splits if_splits)
qed

section \<open>Properties\<close>

text \<open>
  C39: One message of a person opens at most twelve continuations, whatever the turns behind it did and whatever the
  judge says, and at most two when none of those turns got anything done.
\<close>

theorem auto_continue_bounded:
  "length (continuations parse is spent_new) \<le> 12
   \<and> (list_all (\<lambda>i. \<not> made_progress (events (tv_log i)) (tv_turn i)) is \<longrightarrow> length (continuations parse is spent_new) \<le> 2)"
  using continuations_opened [of parse "is" spent_new] continuations_stalled [of "is" parse spent_new]
  by (simp add: spent_new_def MAX_AUTO_CONTINUES_def MAX_STALLED_CONTINUES_def)

definition demo_judge :: judge where
  "demo_judge = \<lparr>jd_timeout = False, jd_chunks = [''{}''], jd_error = None\<rparr>"

definition demo_parse :: "string \<Rightarrow> json option" where
  "demo_parse s = Some (JObject [(''reached'', JBool False)])"

definition demo_log :: SessionLog where
  "demo_log = \<lparr>log_id = 1, events =
     [\<lparr>seq = 1, ts = 0, kind = UserMessage Append ''fix it'' []\<rparr>, \<lparr>seq = 2, ts = 0, kind = TurnStart 1 Human\<rparr>],
     next_seq = 3, flushed = 0, rewrite = False\<rparr>"

definition demo_over :: turn_over_input where
  "demo_over = \<lparr>tv_now = 0, tv_ask = (\<lambda>_. demo_judge), tv_finish = ''hop-limit'', tv_source = Human, tv_turn = 1, tv_log = demo_log\<rparr>"

theorem auto_continue_bounded_witness:
  "length (continuations demo_parse [demo_over, demo_over, demo_over] spent_new) \<le> 2
   \<and> list_all (\<lambda>i. \<not> made_progress (events (tv_log i)) (tv_turn i)) [demo_over, demo_over, demo_over]
   \<and> length (continuations demo_parse [demo_over, demo_over, demo_over] spent_new) = 2"
proof -
  have n: "list_all (\<lambda>i. \<not> made_progress (events (tv_log i)) (tv_turn i)) [demo_over, demo_over, demo_over]" by code_simp
  have l: "length (continuations demo_parse [demo_over, demo_over, demo_over] spent_new) = 2" by code_simp
  show ?thesis using auto_continue_bounded [of demo_parse "[demo_over, demo_over, demo_over]"] n l by simp
qed

text \<open>
  A turn the machine opened is audited against the person's request: when its id occurs once in the log, the
  objective is the message that opened the last turn of a person before it, not the machine's own prompt.
\<close>

theorem objective_is_last_request:
  assumes "evs = pre @ [e] @ mid @ [f] @ post" and "kind e = TurnStart h s" and "is_human s"
    and "kind f = TurnStart t s'" and "\<not> is_human s'"
    and "list_all (\<lambda>e. \<not> is_start_of t (kind e)) (pre @ [e] @ mid)"
    and "list_all (\<lambda>e. case kind e of TurnStart _ s \<Rightarrow> \<not> is_human s | _ \<Rightarrow> True) mid"
    and "last_user [] pre \<noteq> []"
  shows "objective evs t = last_user [] pre"
proof -
  let ?u = "last_user [] pre"
  obtain h1 where 1: "objective_from t [] [] (pre @ ([e] @ mid @ [f] @ post)) = objective_from t ?u h1 ([e] @ mid @ [f] @ post)"
    using objective_skip [of t pre "[]" "[]" "[e] @ mid @ [f] @ post"] assms(6) by auto
  have 2: "objective_from t ?u h1 ([e] @ mid @ [f] @ post) = objective_from t ?u ?u (mid @ [f] @ post)"
    using assms(2,3,6,8) by (simp add: Let_def)
  obtain h2 where 3: "objective_from t ?u ?u (mid @ ([f] @ post)) = objective_from t (last_user ?u mid) h2 ([f] @ post)" "h2 = ?u"
    using objective_skip [of t mid ?u ?u "[f] @ post"] assms(6,7) by auto
  show ?thesis using 1 2 3 assms(1,4,5) by (simp add: objective_def Let_def)
qed

text \<open>A machine turn with id 3 behind the person's turn 1.\<close>

theorem objective_is_last_request_witness:
  "objective (events demo_log @ [\<lparr>seq = 3, ts = 0, kind = UserMessage Append ''go on'' []\<rparr>,
     \<lparr>seq = 4, ts = 0, kind = TurnStart 3 AutoContinue\<rparr>]) 3 = ''fix it''"
proof -
  have "objective (events demo_log @ [\<lparr>seq = 3, ts = 0, kind = UserMessage Append ''go on'' []\<rparr>,
     \<lparr>seq = 4, ts = 0, kind = TurnStart 3 AutoContinue\<rparr>]) 3
    = last_user [] [\<lparr>seq = 1, ts = 0, kind = UserMessage Append ''fix it'' []\<rparr>]"
    by (rule objective_is_last_request [of _ "[\<lparr>seq = 1, ts = 0, kind = UserMessage Append ''fix it'' []\<rparr>]"
          "\<lparr>seq = 2, ts = 0, kind = TurnStart 1 Human\<rparr>" "[\<lparr>seq = 3, ts = 0, kind = UserMessage Append ''go on'' []\<rparr>]"
          "\<lparr>seq = 4, ts = 0, kind = TurnStart 3 AutoContinue\<rparr>" "[]" 1 Human 3 AutoContinue])
      (simp_all add: demo_log_def is_human_def last_user_def)
  then show ?thesis by (simp add: last_user_def)
qed

text \<open>
  Turn ids start at 1 with every process, so a session that goes on after a restart has them twice. The walk
  stops at the first turn with the id: the judge is asked about a request of the earlier process, and its
  account starts there.
\<close>

lemma repeated_turn_id_misjudged:
  "objective (events demo_log @ [\<lparr>seq = 3, ts = 0, kind = UserMessage Append ''write docs'' []\<rparr>,
     \<lparr>seq = 4, ts = 0, kind = TurnStart 1 Human\<rparr>]) 1 = ''fix it''"
  by (simp add: objective_def demo_log_def is_human_def)

end
