(* ===== verification/Session_Memory.thy ===== *)
theory Session_Memory
  imports Long_Term Compaction
begin

text \<open>
  A session's own memory: the texts of \<open>src/crates/agents/src/session_memory.rs\<close> and the keeper that writes
  it between turns, \<open>src/crates/backend/src/memory_keeper.rs\<close>, with the two other writers (the model's
  \<open>remember\<close> and a person's edit, in \<open>src/crates/backend/src/chat.rs\<close>).

  Parameters: the Unicode tables and the clock (record \<open>mem_env\<close>), the working directory of the process and
  what the model answers. The timers and the queue of the worker are not modelled: a pass is planned on one
  log and applied to a later one.
\<close>

section \<open>Cleaning\<close>

definition SUMMARY_CAP :: nat where "SUMMARY_CAP = 1500"
definition FACT_CAP :: nat where "FACT_CAP = 300"
definition MAX_FACTS :: nat where "MAX_FACTS = 15"
definition MAX_PROMOTIONS :: nat where "MAX_PROMOTIONS = 3"
definition TRANSCRIPT_CAP :: nat where "TRANSCRIPT_CAP = 14000"
definition MESSAGE_CAP :: nat where "MESSAGE_CAP = 1600"
definition TOOL_CAP :: nat where "TOOL_CAP = 400"

definition bullet_char :: string where "bullet_char = [CHR 0xE2, CHR 0x80, CHR 0xA2]"

definition cap_chars :: "string \<Rightarrow> nat \<Rightarrow> string" where
  "cap_chars s cap = (if chars_count s \<le> cap then s else trim_end (take_chars (cap - 1) s) @ ellipsis)"

text \<open>\<open>trim_start_matches(['-', '*', bullet])\<close>.\<close>

function strip_marks :: "string \<Rightarrow> string" where
  "strip_marks s =
     (case s of
        [] \<Rightarrow> []
      | c # rest \<Rightarrow> if c = CHR ''-'' \<or> c = CHR ''*'' then strip_marks rest
                    else if starts_with s bullet_char then strip_marks (drop 3 s) else s)"
  by pat_completeness auto
termination by (relation "measure length") (auto split: list.splits)

declare strip_marks.simps [simp del]

definition trim_by :: "(char \<Rightarrow> bool) \<Rightarrow> string \<Rightarrow> string" where
  "trim_by P s = rev (dropWhile P (rev (dropWhile P s)))"

definition is_none_marker :: "mem_env \<Rightarrow> string \<Rightarrow> bool" where
  "is_none_marker env s =
     (me_lower env (trim_by (\<lambda>c. c = CHR ''('' \<or> c = CHR '')'' \<or> c = CHR ''.'') (trim s))
        \<in> {''none'', ''n/a'', ''nothing'', ''-''})"

definition push_fact :: "mem_env \<Rightarrow> string \<Rightarrow> string list \<Rightarrow> string list" where
  "push_fact env f out =
     (let flat = trim (strip_marks (join_words (split_ws f)))
      in if flat = [] \<or> is_none_marker env flat then out
         else let capped = cap_chars flat FACT_CAP
              in if list_ex (\<lambda>g. normalized env g = normalized env capped) out then out else out @ [capped])"

definition drop_oldest :: "string list \<Rightarrow> string list" where
  "drop_oldest fs = drop (length fs - MAX_FACTS) fs"

definition clean_memory :: "mem_env \<Rightarrow> string \<Rightarrow> string list \<Rightarrow> string \<times> string list" where
  "clean_memory env summary fs = (cap_chars (trim summary) SUMMARY_CAP, drop_oldest (fold (push_fact env) fs []))"

text \<open>The facts after the call, and \<open>Ok(false)\<close> as \<open>None\<close>.\<close>

definition add_fact :: "mem_env \<Rightarrow> string list \<Rightarrow> string \<Rightarrow> string + string list option" where
  "add_fact env fs f =
     (let flat = join_words (split_ws f)
      in if flat = [] then Inl ''a fact needs some text''
         else let capped = cap_chars flat FACT_CAP
              in if list_ex (\<lambda>g. normalized env g = normalized env capped) fs then Inr None
                 else Inr (Some (drop_oldest (fs @ [capped]))))"

section \<open>What the keeper reads\<close>

definition lines_of :: "string list \<Rightarrow> string" where
  "lines_of fs = concat (map (\<lambda>f. ''- '' @ f @ [CHR 0x0A]) fs)"

definition keeper_task :: "string \<Rightarrow> string list \<Rightarrow> string list \<Rightarrow> string \<Rightarrow> string" where
  "keeper_task summary fs known conversation =
     (let nl = [CHR 0x0A]
      in ''## Current memory'' @ nl @ nl
         @ (if trim summary = [] \<and> fs = []
            then ''(empty '' @ em_dash @ '' this is the first pass over this session)'' @ nl
            else (if trim summary \<noteq> []
                  then ''Summary so far (extend it, do not replace it):'' @ nl @ trim summary @ nl else [])
                 @ (if fs \<noteq> [] then nl @ ''Key facts so far:'' @ nl else []) @ lines_of fs)
         @ nl @ ''## Already in long-term memory'' @ nl @ nl
         @ (if known = [] then ''(none)'' @ nl else lines_of known)
         @ nl @ ''## Conversation since then'' @ nl @ nl @ trim conversation
         @ nl @ nl @ ''Update the memory now: ## Summary, ## Key facts, ## Long-term.'')"

record Transcript =
  tr_text :: string
  tr_new_chars :: nat
  tr_last_seq :: nat
  tr_messages :: nat

definition clip :: "string \<Rightarrow> nat \<Rightarrow> string" where
  "clip s cap =
     (if length s \<le> cap then s
      else render (head_tail s (cap * 2 div 3) (cap div 3)) (''['' @ ellipsis @ '']''))"

text \<open>\<open>trim_end_matches\<close> of a whole word.\<close>

function strip_ends :: "string \<Rightarrow> string \<Rightarrow> string" where
  "strip_ends s w = (if w \<noteq> [] \<and> ends_with s w then strip_ends (take (length s - length w) s) w else s)"
  by pat_completeness auto
termination
proof (relation "measure (\<lambda>(s, w). length s)", goal_cases)
  case (2 s w)
  then have "length w \<le> length s" "0 < length w" by (auto simp: ends_with_def starts_with_iff dest: arg_cong [where f = length])
  then show ?case by (cases s) auto
qed simp

declare strip_ends.simps [simp del]

definition summarised_part :: "string \<Rightarrow> string" where
  "summarised_part s =
     (case str_find s ''<compacted-summary>'' of
        Some i \<Rightarrow> trim (strip_ends (drop (i + length ''<compacted-summary>'') s) ''</compacted-summary>'')
      | None \<Rightarrow> s)"

definition transcript_line :: "SurfaceEntry \<Rightarrow> string option" where
  "transcript_line e =
     (let content = trim (content (se_message e))
      in case (se_context e, se_tool e) of
        (Some _, _) \<Rightarrow> None
      | (None, Some t) \<Rightarrow>
          (let body = trim (tm_summary t); hd' = utf8_head body TOOL_CAP
           in Some (''[tool '' @ trim (tm_args_preview t) @ '' '' @ (if tm_ok t then ''ok'' else ''failed'') @ '' ''
                @ em_dash @ '' data] '' @ hd' @ (if length hd' < length body then '' '' @ ellipsis else [])))
      | (None, None) \<Rightarrow>
          (case role (se_message e) of
             System \<Rightarrow> Some (''[earlier conversation, summarised]'' @ [CHR 0x0A] @ clip (summarised_part content) (MESSAGE_CAP * 2))
           | User \<Rightarrow> if content = [] then None else Some (''User: '' @ clip content MESSAGE_CAP)
           | Assistant \<Rightarrow> if content = [] then None else Some (''Assistant: '' @ clip content MESSAGE_CAP)
           | Tool \<Rightarrow> None))"

fun join_paras :: "string list \<Rightarrow> string" where
  "join_paras [] = []"
| "join_paras [p] = p"
| "join_paras (p # q # ps) = p @ [CHR 0x0A, CHR 0x0A] @ join_paras (q # ps)"

definition CUT_MARK :: string where
  "CUT_MARK = ''['' @ ellipsis @ '' the middle of this stretch of conversation was cut for length '' @ ellipsis @ '']''"

definition transcript :: "SurfaceEntry list \<Rightarrow> nat \<Rightarrow> Transcript" where
  "transcript es after =
     (let fresh = filter (\<lambda>e. se_seq e > after) es;
          parts = List.map_filter transcript_line fresh;
          joined = join_paras parts
      in \<lparr>tr_text = (if length joined > TRANSCRIPT_CAP
                     then render (head_tail joined (TRANSCRIPT_CAP * 3 div 10) (TRANSCRIPT_CAP * 7 div 10)) CUT_MARK
                     else joined),
          tr_new_chars = sum_list (map length parts),
          tr_last_seq = fold (\<lambda>e n. max n (se_seq e)) fresh after,
          tr_messages = length parts\<rparr>)"

section \<open>Reading its reply\<close>

datatype PromoteScope = PromoteGlobal | PromoteProject

record KeeperReply =
  kr_summary :: string
  kr_facts :: "string list"
  kr_promote :: "(PromoteScope \<times> string) list"

datatype Sec = SecNone | SecSummary | SecFacts | SecLongTerm

definition heading :: "mem_env \<Rightarrow> string \<Rightarrow> string option" where
  "heading env line =
     (let t = trim line;
          inner = (case t of
                     c # rest \<Rightarrow>
                       if c = CHR ''#'' then Some (trim (dropWhile ((=) (CHR ''#'')) rest))
                       else if starts_with t ''**'' \<and> ends_with t ''**'' \<and> length t > 4
                       then Some (take (length t - 4) (drop 2 t)) else None
                   | [] \<Rightarrow> None)
      in map_option (\<lambda>i. me_lower env
           (trim (trim_by ((=) (CHR ''*'')) (trim (rev (dropWhile ((=) (CHR '':'')) (rev (trim i)))))))) inner)"

definition section_of :: "string \<Rightarrow> Sec" where
  "section_of h =
     (if h = ''summary'' then SecSummary
      else if h \<in> {''key facts'', ''facts'', ''key fact''} then SecFacts
      else if h \<in> {''long-term'', ''long term'', ''long-term memory'', ''long term memory'', ''remember''}
      then SecLongTerm else SecNone)"

definition bullet_item :: "string \<Rightarrow> string option" where
  "bullet_item line =
     (let t = trim line; ds = takeWhile is_digit t; rest = dropWhile is_digit t
      in case find_map (\<lambda>w. strip_prefix w t) [''- '', ''* '', bullet_char @ '' ''] of
           Some r \<Rightarrow> Some (trim r)
         | None \<Rightarrow> if ds = [] then None
                   else map_option trim (find_map (\<lambda>w. strip_prefix w rest) [''. '', '') '']))"

text \<open>The five ways a label is written.\<close>

definition label_forms :: "(string \<times> string) list" where
  "label_forms = [([], '':''), (''['', '']''), (''('', '')''), (''**'', '':**''), (''**'', ''**:'')]"

definition strip_label :: "mem_env \<Rightarrow> string \<Rightarrow> string \<Rightarrow> string option" where
  "strip_label env item label =
     find_map (\<lambda>(a, b). if starts_with (me_lower env item) (a @ label @ b)
                        then Some (trim (drop (length (a @ label @ b)) item)) else None) label_forms"

definition promotion :: "mem_env \<Rightarrow> string \<Rightarrow> PromoteScope \<times> string" where
  "promotion env item =
     (case strip_label env item ''global'' of
        Some rest \<Rightarrow> (PromoteGlobal, trim rest)
      | None \<Rightarrow> (case strip_label env item ''project'' of
                  Some rest \<Rightarrow> (PromoteProject, trim rest)
                | None \<Rightarrow> (PromoteProject, trim item)))"

record reply_parts =
  rp_sec :: Sec
  rp_summary :: "string list"
  rp_facts :: "string list"
  rp_promote :: "(PromoteScope \<times> string) list"

definition keeper_line :: "mem_env \<Rightarrow> string \<Rightarrow> reply_parts \<Rightarrow> reply_parts" where
  "keeper_line env line p =
     (let t = trim line
      in case heading env t of
           Some h \<Rightarrow> p\<lparr>rp_sec := section_of h\<rparr>
         | None \<Rightarrow>
             if t = [] then p
             else case rp_sec p of
                    SecNone \<Rightarrow> p
                  | SecSummary \<Rightarrow> p\<lparr>rp_summary := rp_summary p @ [t]\<rparr>
                  | SecFacts \<Rightarrow>
                      (case bullet_item t of
                         Some item \<Rightarrow> p\<lparr>rp_facts := rp_facts p @ [item]\<rparr>
                       | None \<Rightarrow> p\<lparr>rp_facts := update_last (\<lambda>l. l @ '' '' @ t) (rp_facts p)\<rparr>)
                  | SecLongTerm \<Rightarrow>
                      (let item = (case bullet_item t of Some i \<Rightarrow> i | None \<Rightarrow> t)
                       in if is_none_marker env item then p
                          else let pr = promotion env item
                               in if snd pr \<noteq> [] \<and> length (rp_promote p) < MAX_PROMOTIONS
                                  then p\<lparr>rp_promote := rp_promote p @ [pr]\<rparr> else p))"

definition parse_keeper_reply :: "mem_env \<Rightarrow> string \<Rightarrow> KeeperReply option" where
  "parse_keeper_reply env raw =
     (let body = (case str_rfind raw ''</think>'' of Some i \<Rightarrow> drop (i + length ''</think>'') raw | None \<Rightarrow> raw);
          p = fold (keeper_line env) (str_lines body)
                \<lparr>rp_sec = SecNone, rp_summary = [], rp_facts = [], rp_promote = []\<rparr>;
          summary = trim (join_words (rp_summary p))
      in if summary = [] \<or> is_none_marker env summary then None
         else case clean_memory env summary (rp_facts p) of
                (s, fs) \<Rightarrow> Some \<lparr>kr_summary = s, kr_facts = fs, kr_promote = rp_promote p\<rparr>)"

section \<open>The writers\<close>

record MemoryConfig =
  mc_min_new_chars :: nat
  mc_auto_remember :: bool

record keeper_plan =
  pl_base_seq :: nat
  pl_summary :: string
  pl_facts :: "string list"
  pl_transcript :: Transcript
  pl_cwd :: pathbuf

definition keeper_plan_of ::
  "json_printer \<Rightarrow> pathbuf \<Rightarrow> MemoryConfig \<Rightarrow> bool \<Rightarrow> nat \<Rightarrow> SessionLog option \<Rightarrow> string + keeper_plan" where
  "keeper_plan_of ser wd cfg forced sid cur =
     (case cur of
        None \<Rightarrow> Inl (''session '' @ dec sid @ '' not found'')
      | Some log \<Rightarrow>
          (let raw = latest_session_memory (events log);
               after = (case raw of Some m \<Rightarrow> me_through_seq m | None \<Rightarrow> 0);
               tr = transcript (derive_surface ser (events log)) after
           in if tr_messages tr = 0 then Inl (''session '' @ dec sid @ [CHR 0x27] @ ''s memory is already up to date'')
              else if \<not> forced \<and> tr_new_chars tr < mc_min_new_chars cfg
              then Inl ''not enough new conversation to be worth a pass''
              else Inr (case raw of
                          Some m \<Rightarrow> \<lparr>pl_base_seq = me_seq m, pl_summary = me_summary m, pl_facts = me_facts m,
                                     pl_transcript = tr, pl_cwd = (case log_cwd log of Some d \<Rightarrow> d | None \<Rightarrow> wd)\<rparr>
                        | None \<Rightarrow> \<lparr>pl_base_seq = 0, pl_summary = [], pl_facts = [], pl_transcript = tr,
                                   pl_cwd = (case log_cwd log of Some d \<Rightarrow> d | None \<Rightarrow> wd)\<rparr>)))"

datatype applied = Written nat | Superseded

text \<open>The promotions, in order; an id search that never ends is \<open>None\<close>.\<close>

fun promote_all ::
  "mem_env \<Rightarrow> pathbuf \<Rightarrow> nat \<Rightarrow> (PromoteScope \<times> string) list \<Rightarrow> nat \<Rightarrow> Store \<Rightarrow> (nat \<times> Store) option" where
  "promote_all env cwd sid [] n st = Some (n, st)"
| "promote_all env cwd sid ((scope, t) # rest) n st =
     (case store_add env t (if scope = PromoteProject then Some cwd else None) ''auto'' (Some sid) st of
        None \<Rightarrow> None
      | Some (Inr (New _), st') \<Rightarrow> promote_all env cwd sid rest (Suc n) st'
      | Some (_, st') \<Rightarrow> promote_all env cwd sid rest n st')"

text \<open>\<open>flushed\<close>: the error of the flush, if it fails; the row stays in the log in memory either way.\<close>

definition keeper_apply ::
  "mem_env \<Rightarrow> int \<Rightarrow> string option \<Rightarrow> MemoryConfig \<Rightarrow> nat \<Rightarrow> keeper_plan \<Rightarrow> KeeperReply \<Rightarrow> SessionLog option \<Rightarrow> Store
   \<Rightarrow> ((string + applied) \<times> SessionLog option \<times> Store) option" where
  "keeper_apply env now flush_error cfg sid p r cur st =
     (case cur of
        None \<Rightarrow> Some (Inl (''session '' @ dec sid @ '' vanished''), None, st)
      | Some log \<Rightarrow>
          if (case latest_session_memory (events log) of Some m \<Rightarrow> me_seq m | None \<Rightarrow> 0) \<noteq> pl_base_seq p
          then Some (Inr Superseded, Some log, st)
          else let log' = log_append log now (SessionMemoryRow (kr_summary r) (kr_facts r)
                            (tr_last_seq (pl_transcript p)) ''auto'')
               in case flush_error of
                    Some e \<Rightarrow> Some (Inl (''the session log could not be written: '' @ e), Some log', st)
                  | None \<Rightarrow>
                      if mc_auto_remember cfg
                      then map_option (\<lambda>(n, st'). (Inr (Written n), Some log', st'))
                             (promote_all env (pl_cwd p) sid (kr_promote r) 0 st)
                      else Some (Inr (Written 0), Some log', st))"

text \<open>A person's own version, and the model's \<open>remember\<close> for the session.\<close>

definition set_session_memory ::
  "mem_env \<Rightarrow> int \<Rightarrow> string option \<Rightarrow> nat \<Rightarrow> string \<Rightarrow> string list \<Rightarrow> SessionLog option
   \<Rightarrow> (string + unit) \<times> SessionLog option" where
  "set_session_memory env now flush_error sid summary fs cur =
     (case cur of
        None \<Rightarrow> (Inl (''session '' @ dec sid @ '' not found''), None)
      | Some log \<Rightarrow>
          (case clean_memory env summary fs of
             (s, fs') \<Rightarrow>
               (let log' = log_append log now (SessionMemoryRow s fs' (last_seq log) ''user'')
                in case flush_error of
                     Some e \<Rightarrow> (Inl (''session log could not be written: '' @ e), Some log')
                   | None \<Rightarrow> (Inr (), Some log'))))"

definition remember_session ::
  "mem_env \<Rightarrow> int \<Rightarrow> nat \<Rightarrow> string \<Rightarrow> SessionLog option \<Rightarrow> (string + string) \<times> SessionLog option" where
  "remember_session env now sid f cur =
     (case cur of
        None \<Rightarrow> (Inl (''session '' @ dec sid @ '' vanished''), None)
      | Some log \<Rightarrow>
          (case (case latest_session_memory (events log) of
                   Some m \<Rightarrow> (me_summary m, me_facts m, me_through_seq m)
                 | None \<Rightarrow> ([], [], 0)) of
             (summary, fs, through) \<Rightarrow>
               (case add_fact env fs f of
                  Inl e \<Rightarrow> (Inl e, Some log)
                | Inr None \<Rightarrow> (Inr ''already in this session's memory'', Some log)
                | Inr (Some fs') \<Rightarrow>
                    (Inr (''remembered for this session: '' @ f),
                     Some (log_append log now (SessionMemoryRow summary fs' through ''model''))))))"

section \<open>What every writer leaves behind\<close>

definition facts_ok :: "mem_env \<Rightarrow> string list \<Rightarrow> bool" where
  "facts_ok env fs \<longleftrightarrow> length fs \<le> MAX_FACTS \<and> distinct (map (normalized env) fs)
     \<and> (\<forall>f \<in> set fs. f \<noteq> [] \<and> chars_count f \<le> FACT_CAP \<and> CHR 0x0A \<notin> set f)"

definition entry_ok :: "mem_env \<Rightarrow> SessionMemory \<Rightarrow> bool" where
  "entry_ok env m \<longleftrightarrow> facts_ok env (me_facts m) \<and> chars_count (me_summary m) \<le> SUMMARY_CAP"

lemma chars_count_cap: "1 \<le> cap \<Longrightarrow> chars_count (cap_chars s cap) \<le> cap"
proof -
  assume "1 \<le> cap"
  moreover have "chars_count ellipsis = 1" by code_simp
  ultimately show ?thesis
    using chars_count_trim_end [of "take_chars (cap - 1) s"] chars_count_take_chars [of "cap - 1" s]
    by (auto simp: cap_chars_def)
qed

lemma cap_chars_line:
  assumes "s \<noteq> []" and "CHR 0x0A \<notin> set s"
  shows "cap_chars s cap \<noteq> [] \<and> CHR 0x0A \<notin> set (cap_chars s cap)"
  using assms set_trim_end [of "take_chars (cap - 1) s"] set_take_chars [of "cap - 1" s]
  by (auto simp: cap_chars_def ellipsis_def)

lemma set_strip_marks: "set (strip_marks s) \<subseteq> set s"
proof (induction s rule: strip_marks.induct)
  case (1 s)
  show ?case
  proof (cases s)
    case (Cons c rest)
    have "set (drop 3 s) \<subseteq> set s" by (rule set_drop_subset)
    then show ?thesis
      using 1(1) [OF Cons] 1(2) [OF Cons] Cons by (subst strip_marks.simps) auto
  qed (simp add: strip_marks.simps)
qed

lemma set_trim: "set (trim s) \<subseteq> set s"
  unfolding trim_def using trim_start_suffix [of s] set_trim_end [of "trim_start s"] by (metis set_drop_subset subset_trans)

lemma words_one_line: "CHR 0x0A \<notin> set (join_words (split_ws s))"
  by (rule join_words_no_newline) (rule split_ws_no_newline)

text \<open>The conditions on the facts but their number; the number is cut at the end.\<close>

definition facts_form :: "mem_env \<Rightarrow> string list \<Rightarrow> bool" where
  "facts_form env fs \<longleftrightarrow> distinct (map (normalized env) fs)
     \<and> (\<forall>f \<in> set fs. f \<noteq> [] \<and> chars_count f \<le> FACT_CAP \<and> CHR 0x0A \<notin> set f)"

lemma facts_form_snoc:
  assumes "facts_form env fs" and "flat \<noteq> []" and "CHR 0x0A \<notin> set flat"
    and "\<not> list_ex (\<lambda>g. normalized env g = normalized env (cap_chars flat FACT_CAP)) fs"
  shows "facts_form env (fs @ [cap_chars flat FACT_CAP])"
  using assms cap_chars_line [OF assms(2,3), of FACT_CAP] chars_count_cap [of FACT_CAP flat]
  by (auto simp: facts_form_def list_ex_iff FACT_CAP_def)

lemma facts_form_push: "facts_form env out \<Longrightarrow> facts_form env (push_fact env f out)"
proof -
  assume "facts_form env out"
  moreover have "CHR 0x0A \<notin> set (trim (strip_marks (join_words (split_ws f))))"
    using set_trim set_strip_marks words_one_line by blast
  ultimately show ?thesis
    using facts_form_snoc [of env out "trim (strip_marks (join_words (split_ws f)))"] by (simp add: push_fact_def Let_def)
qed

lemma facts_form_fold: "facts_form env out \<Longrightarrow> facts_form env (fold (push_fact env) fs out)"
  by (induction fs arbitrary: out) (simp_all add: facts_form_push)

lemma facts_ok_drop: "facts_form env fs \<Longrightarrow> facts_ok env (drop_oldest fs)"
  by (auto simp: facts_form_def facts_ok_def drop_oldest_def drop_map [symmetric] intro: distinct_drop dest: in_set_dropD)

lemma clean_memory_ok:
  assumes "clean_memory env summary fs = (s, fs')"
  shows "facts_ok env fs' \<and> chars_count s \<le> SUMMARY_CAP"
  using assms facts_ok_drop [OF facts_form_fold [of env "[]" fs]] chars_count_cap [of SUMMARY_CAP "trim summary"]
  by (auto simp: clean_memory_def facts_form_def SUMMARY_CAP_def)

lemma add_fact_ok:
  assumes "add_fact env fs f = Inr (Some fs')" and "facts_ok env fs"
  shows "facts_ok env fs'"
proof -
  let ?c = "cap_chars (join_words (split_ws f)) FACT_CAP"
  have "facts_form env fs" using assms(2) by (simp add: facts_ok_def facts_form_def)
  then have "facts_form env (fs @ [?c])"
    using assms(1) facts_form_snoc [OF _ _ words_one_line] by (auto simp: add_fact_def Let_def split: if_splits)
  then show ?thesis
    using assms(1) facts_ok_drop [of env "fs @ [?c]"] by (auto simp: add_fact_def Let_def split: if_splits)
qed

lemma parse_reply_ok: "parse_keeper_reply env raw = Some r \<Longrightarrow> facts_ok env (kr_facts r) \<and> chars_count (kr_summary r) \<le> SUMMARY_CAP"
  by (auto simp: parse_keeper_reply_def Let_def split: option.splits if_splits prod.splits dest!: clean_memory_ok)

text \<open>A log as its writers change it: memory rows come from the three writers, other rows from anywhere.\<close>

inductive memory_log :: "mem_env \<Rightarrow> SessionLog \<Rightarrow> bool" for env where
  start: "wf_log log \<Longrightarrow> latest_session_memory (events log) = None \<Longrightarrow> memory_log env log"
| other: "memory_log env log \<Longrightarrow> (\<And>n t. memory_row \<lparr>seq = n, ts = t, kind = k\<rparr> = None) \<Longrightarrow> memory_log env (log_append log now k)"
| keeper: "memory_log env log \<Longrightarrow> parse_keeper_reply env raw = Some r
    \<Longrightarrow> keeper_apply env now err cfg sid p r (Some log) st = Some (res, Some log', st') \<Longrightarrow> memory_log env log'"
| person: "memory_log env log \<Longrightarrow> set_session_memory env now err sid summary fs (Some log) = (res', Some log')
    \<Longrightarrow> memory_log env log'"
| model: "memory_log env log \<Longrightarrow> remember_session env now sid f (Some log) = (res'', Some log') \<Longrightarrow> memory_log env log'"

lemma latest_append:
  assumes "wf_log log"
  shows "latest_session_memory (events (log_append log now k)) =
    (case memory_row \<lparr>seq = Suc (last_seq log), ts = now, kind = k\<rparr> of
       Some m \<Rightarrow> Some m | None \<Rightarrow> latest_session_memory (events log))"
  by (simp add: latest_session_memory_def events_append [OF assms] split: option.splits)

lemma latest_append_row:
  assumes "wf_log log"
  shows "latest_session_memory (events (log_append log now (SessionMemoryRow s fs t a))) =
    Some \<lparr>me_seq = Suc (last_seq log), me_ts = now, me_summary = s, me_facts = fs, me_through_seq = t, me_author = a\<rparr>"
  by (simp add: latest_append [OF assms] memory_row_def)

lemma keeper_apply_cases:
  assumes "keeper_apply env now err cfg sid p r (Some log) st = Some (res, Some log', st')"
  shows "log' = log \<and> res = Inr Superseded
    \<or> log' = log_append log now (SessionMemoryRow (kr_summary r) (kr_facts r) (tr_last_seq (pl_transcript p)) ''auto'')
      \<and> (case latest_session_memory (events log) of Some m \<Rightarrow> me_seq m | None \<Rightarrow> 0) = pl_base_seq p \<and> res \<noteq> Inr Superseded"
  using assms by (auto simp: keeper_apply_def Let_def split: if_splits option.splits)

lemma memory_log_ok:
  "memory_log env log \<Longrightarrow> wf_log log \<and> (\<forall>m. latest_session_memory (events log) = Some m \<longrightarrow> entry_ok env m)"
proof (induction rule: memory_log.induct)
  case (other log k now)
  then show ?case by (auto simp: wf_append latest_append)
next
  case (keeper log raw r now err cfg sid p st res log' st')
  from keeper_apply_cases [OF keeper.hyps(3)] keeper.IH parse_reply_ok [OF keeper.hyps(2)] show ?case
    by (auto simp: wf_append latest_append_row entry_ok_def)
next
  case (person log now err sid summary fs res' log')
  obtain s fs' where "clean_memory env summary fs = (s, fs')" by (cases "clean_memory env summary fs")
  with person.hyps(2) person.IH clean_memory_ok [OF this] show ?case
    by (auto simp: set_session_memory_def Let_def wf_append latest_append_row entry_ok_def split: option.splits)
next
  case (model log now sid f res'' log')
  let ?fs = "case latest_session_memory (events log) of Some m \<Rightarrow> me_facts m | None \<Rightarrow> []"
  have fs: "facts_ok env ?fs" using model.IH by (auto simp: facts_ok_def entry_ok_def split: option.splits)
  show ?case
  proof (cases "\<exists>fs'. add_fact env ?fs f = Inr (Some fs')")
    case True
    then obtain fs' where "add_fact env ?fs f = Inr (Some fs')" by blast
    with model.hyps(2) model.IH add_fact_ok [OF this fs] show ?thesis
      by (auto simp: remember_session_def wf_append latest_append_row entry_ok_def chars_count_def split: option.splits)
  next
    case False
    with model.hyps(2) model.IH show ?thesis
      by (auto simp: remember_session_def split: option.splits sum.splits)
  qed
qed simp

lemma latest_row:
  assumes "latest_session_memory evs = Some m"
  shows "\<exists>e \<in> set evs. memory_row e = Some m \<and> seq e = me_seq m"
proof -
  obtain pre e post where e: "evs = pre @ e # post" "memory_row e = Some m"
    using assms by (auto simp: latest_session_memory_def find_map_rev_Some)
  then have "seq e = me_seq m" by (cases "kind e") (auto simp: memory_row_def)
  with e show ?thesis by auto
qed

lemma wf_seq_unique:
  assumes "wf_log log" and "e \<in> set (events log)" and "f \<in> set (events log)" and "seq e = seq f"
  shows "e = f"
proof -
  have "distinct (map seq (events log))"
    using assms(1) by (simp add: wf_log_def strict_sorted_iff)
  then show ?thesis using assms(2-4) by (auto simp: distinct_map inj_on_def)
qed

lemma same_base:
  assumes "wf_log log" and "wf_log log'" and "prefix (events log) (events log')"
    and "(case latest_session_memory (events log) of Some m \<Rightarrow> me_seq m | None \<Rightarrow> 0)
       = (case latest_session_memory (events log') of Some m \<Rightarrow> me_seq m | None \<Rightarrow> 0)"
  shows "latest_session_memory (events log') = latest_session_memory (events log)"
proof -
  have pos: "e \<in> set (events log') \<Longrightarrow> 1 \<le> seq e" for e using assms(2) by (auto simp: wf_log_def list_all_iff)
  have sub: "set (events log) \<subseteq> set (events log')" using assms(3) by (rule set_mono_prefix)
  show ?thesis
  proof (cases "latest_session_memory (events log')")
    case None
    show ?thesis
    proof (cases "latest_session_memory (events log)")
      case (Some m)
      then obtain e where "e \<in> set (events log)" "seq e = me_seq m" using latest_row by blast
      with pos [of e] sub Some assms(4) None show ?thesis by auto
    qed (simp add: None)
  next
    case (Some m')
    then obtain e' where e': "e' \<in> set (events log')" "memory_row e' = Some m'" "seq e' = me_seq m'" using latest_row by blast
    with Some assms(4) pos [OF e'(1)] obtain m where m: "latest_session_memory (events log) = Some m" "me_seq m = me_seq m'"
      by (cases "latest_session_memory (events log)") auto
    then obtain e where "e \<in> set (events log)" "memory_row e = Some m" "seq e = me_seq m" using latest_row by blast
    note e = this
    have "seq e = seq e'" using e(3) e'(3) m(2) by (simp only:)
    then have "e = e'" using wf_seq_unique [OF assms(2)] e(1) e'(1) sub by blast
    then have "m = m'" using e(2) e'(2) by (simp only: option.inject)
    then show ?thesis by (simp only: m(1) Some)
  qed
qed

section \<open>Properties\<close>

text \<open>
  C36: Whoever wrote last, the keeper, the model or a person, the session's memory is well formed: at most fifteen
  facts, each one non-empty line of at most 300 characters, no two equal up to case and punctuation, and a
  summary of at most 1500 characters.
\<close>

theorem session_memory_well_formed:
  assumes "memory_log env log" and "session_memory (events log) = Some m"
  shows "length (me_facts m) \<le> 15 \<and> distinct (map (normalized env) (me_facts m)) \<and> chars_count (me_summary m) \<le> 1500
    \<and> (\<forall>f \<in> set (me_facts m). f \<noteq> [] \<and> chars_count f \<le> 300 \<and> CHR 0x0A \<notin> set f)"
proof -
  have "latest_session_memory (events log) = Some m"
    using assms(2) by (auto simp: session_memory_def split: option.splits if_splits)
  then show ?thesis
    using memory_log_ok [OF assms(1)] by (auto simp: entry_ok_def facts_ok_def MAX_FACTS_def FACT_CAP_def SUMMARY_CAP_def)
qed

definition demo_memory_log :: SessionLog where
  "demo_memory_log = log_append (new_in 1 ''t'' None 0 0) 0 (UserMessage Append ''hi'' [])"

theorem session_memory_well_formed_witness:
  "case remember_session demo_mem 0 1 ''uses  cargo'' (Some demo_memory_log) of
     (_, Some log) \<Rightarrow> (case session_memory (events log) of
        Some m \<Rightarrow> me_facts m = [''uses cargo''] \<and> chars_count (me_summary m) \<le> 1500 | None \<Rightarrow> False)
   | _ \<Rightarrow> False"
proof -
  have wf: "wf_log demo_memory_log" unfolding demo_memory_log_def by (intro wf_append wf_new_in)
  have n: "latest_session_memory (events demo_memory_log) = None" by code_simp
  have a: "add_fact demo_mem [] ''uses  cargo'' = Inr (Some [''uses cargo''])" by code_simp
  define log where "log = log_append demo_memory_log 0 (SessionMemoryRow [] [''uses cargo''] 0 ''model'')"
  have r: "remember_session demo_mem 0 1 ''uses  cargo'' (Some demo_memory_log)
      = (Inr (''remembered for this session: '' @ ''uses  cargo''), Some log)"
    by (simp add: remember_session_def n a log_def)
  have l: "memory_log demo_mem log" by (rule memory_log.model [OF memory_log.start [OF wf n] r])
  have "trim ''uses cargo'' = ''uses cargo''" by code_simp
  then have m: "session_memory (events log) = Some \<lparr>me_seq = Suc (last_seq demo_memory_log), me_ts = 0, me_summary = [],
      me_facts = [''uses cargo''], me_through_seq = 0, me_author = ''model''\<rparr>"
    unfolding log_def by (simp add: session_memory_def latest_append_row [OF wf] memory_is_empty_def)
  show ?thesis unfolding r using session_memory_well_formed [OF l m] by (simp add: m)
qed

text \<open>
  The keeper never writes over a memory it has not read. If the log only grew while the model was thinking, a
  pass that writes does so on the very memory it was planned from, and the new row says how far it read; if
  another writer came first, nothing changes.
\<close>

theorem keeper_never_clobbers:
  assumes "wf_log log" and "keeper_plan_of ser wd cfg forced sid (Some log) = Inr p"
    and "wf_log log1" and "prefix (events log) (events log1)"
    and "keeper_apply env now err cfg sid p r (Some log1) st = Some (res, Some log2, st')"
  shows "if res = Inr Superseded then log2 = log1
    else latest_session_memory (events log1) = latest_session_memory (events log)
      \<and> latest_session_memory (events log2) = Some \<lparr>me_seq = Suc (last_seq log1), me_ts = now, me_summary = kr_summary r,
          me_facts = kr_facts r, me_through_seq = tr_last_seq (pl_transcript p), me_author = ''auto''\<rparr>"
proof -
  have b: "pl_base_seq p = (case latest_session_memory (events log) of Some m \<Rightarrow> me_seq m | None \<Rightarrow> 0)"
    using assms(2) by (auto simp: keeper_plan_of_def Let_def split: if_splits option.splits)
  show ?thesis
    using keeper_apply_cases [OF assms(5)] same_base [OF assms(1,3,4)] b
    by (auto simp: latest_append_row [OF assms(3)])
qed

definition demo_plan :: keeper_plan where
  "demo_plan = \<lparr>pl_base_seq = 0, pl_summary = [], pl_facts = [],
     pl_transcript = \<lparr>tr_text = ''User: hi'', tr_new_chars = 8, tr_last_seq = 2, tr_messages = 1\<rparr>, pl_cwd = ''/w''\<rparr>"

definition demo_config :: MemoryConfig where
  "demo_config = \<lparr>mc_min_new_chars = 100, mc_auto_remember = False\<rparr>"

definition demo_keeper_reply :: KeeperReply where
  "demo_keeper_reply = \<lparr>kr_summary = ''greeting'', kr_facts = [], kr_promote = []\<rparr>"

text \<open>A pass that writes, and one that comes after the model's \<open>remember\<close>.\<close>

theorem keeper_never_clobbers_witness:
  "(let log = log_append demo_memory_log 0 (SessionTitle ''x'')
    in latest_session_memory (events log) = latest_session_memory (events demo_memory_log))
   \<and> (let log = log_append demo_memory_log 0 (SessionMemoryRow [] [''f''] 0 ''model'')
      in keeper_apply demo_mem 0 None demo_config 1 demo_plan demo_keeper_reply (Some log) \<lparr>st_file = NoFile, st_aside = []\<rparr>
         = Some (Inr Superseded, Some log, \<lparr>st_file = NoFile, st_aside = []\<rparr>))"
proof -
  let ?a = "log_append demo_memory_log 0 (SessionTitle ''x'')"
  let ?b = "log_append demo_memory_log 0 (SessionMemoryRow [] [''f''] 0 ''model'')"
  let ?st = "\<lparr>st_file = NoFile, st_aside = []\<rparr>"
  let ?c = "log_append ?a 0 (SessionMemoryRow ''greeting'' [] 2 ''auto'')"
  have wf: "wf_log demo_memory_log" unfolding demo_memory_log_def by (intro wf_append wf_new_in)
  have n: "latest_session_memory (events demo_memory_log) = None" by code_simp
  have p: "keeper_plan_of (\<lambda>_. []) ''/w'' demo_config True 1 (Some demo_memory_log) = Inr demo_plan" by code_simp
  have pre: "prefix (events demo_memory_log) (events (log_append demo_memory_log 0 k))" for k
    by (simp add: events_append [OF wf])
  have a: "keeper_apply demo_mem 0 None demo_config 1 demo_plan demo_keeper_reply (Some ?a) ?st = Some (Inr (Written 0), Some ?c, ?st)"
    by (simp add: keeper_apply_def latest_append [OF wf] n memory_row_def demo_plan_def demo_config_def demo_keeper_reply_def)
  have b: "keeper_apply demo_mem 0 None demo_config 1 demo_plan demo_keeper_reply (Some ?b) ?st = Some (Inr Superseded, Some ?b, ?st)"
    by (simp add: keeper_apply_def latest_append_row [OF wf] demo_plan_def)
  from keeper_never_clobbers [OF wf p wf_append [OF wf] pre a] b show ?thesis by (simp add: Let_def)
qed

text \<open>
  Cleaning strips every leading dash and star of a fact, not only a list mark: a fact that starts with a
  command-line option or a pattern loses it, although the keeper is told to preserve identifiers.
\<close>

lemma leading_option_lost:
  "clean_memory demo_mem ''s'' [''--release builds only''] = (''s'', [''release builds only''])"
proof -
  have w: "join_words (split_ws ''--release builds only'') = ''--release builds only''" by code_simp
  have m: "strip_marks ''--release builds only'' = ''release builds only''" by code_simp
  have t: "trim ''release builds only'' = ''release builds only''" "trim ''s'' = ''s''" by code_simp+
  have n: "\<not> is_none_marker demo_mem ''release builds only''" by code_simp
  have c: "chars_count ''release builds only'' = 19" "chars_count ''s'' = 1" by code_simp+
  show ?thesis
    by (simp add: clean_memory_def push_fact_def w m t n c cap_chars_def drop_oldest_def FACT_CAP_def SUMMARY_CAP_def MAX_FACTS_def)
qed

end
