(* ===== verification/Skill_Registry.thy ===== *)
theory Skill_Registry
  imports Call_Line Harness_Controls Turn_Context "HOL-Library.Char_ord" "HOL-Library.List_Lexorder"
begin

text \<open>
  The registry of skills, \<open>src/crates/agents/src/registry.rs\<close>: which skills a model is offered, how a parsed
  call is bound to the arguments its skill declares, and the views of the registry that sub-agents, presets and
  programs get (\<open>src/crates/agents/src/ptc.rs\<close>).

  A \<open>HashMap\<close> is an association list kept in the order of its keys: every place of the source that iterates over
  one sorts the keys first or collects into another map. The map of a JSON object (a \<open>BTreeMap\<close>) is kept the same
  way. A skill is a record of what its trait methods answer; \<open>concurrency\<close> reads the arguments.
\<close>

section \<open>Maps in key order\<close>

definition key_insert :: "string \<Rightarrow> 'v \<Rightarrow> (string \<times> 'v) list \<Rightarrow> (string \<times> 'v) list" where
  "key_insert k v m = insort_key fst (k, v) (filter (\<lambda>e. fst e \<noteq> k) m)"

lemma map_of_insort_other: "k \<noteq> fst e \<Longrightarrow> map_of (insort_key fst e m) k = map_of m k"
  by (induction m) auto

lemma map_of_insort_same: "k \<notin> fst ` set m \<Longrightarrow> map_of (insort_key fst (k, v) m) k = Some v"
  by (induction m) auto

lemma map_of_filter_key: "map_of (filter (\<lambda>e. fst e \<noteq> k) m) x = (if x = k then None else map_of m x)"
  by (induction m) auto

lemma map_of_key_insert [simp]: "map_of (key_insert k v m) = (map_of m)(k \<mapsto> v)"
proof
  fix x
  show "map_of (key_insert k v m) x = ((map_of m)(k \<mapsto> v)) x"
    unfolding key_insert_def
    by (cases "x = k") (auto simp: map_of_insort_other map_of_filter_key intro!: map_of_insort_same)
qed

section \<open>The registry\<close>

record skill_info =
  sk_name :: string
  sk_description :: string
  sk_positional :: "string list"
  sk_optional :: "string list"
  sk_schema :: "json option"
  sk_invocable :: bool
  sk_trusted :: bool
  sk_parallel :: "json \<Rightarrow> bool"

type_synonym registry = "(string \<times> skill_info) list"

definition register :: "skill_info \<Rightarrow> registry \<Rightarrow> registry" where
  "register sk reg = key_insert (sk_name sk) sk reg"

definition register_if_absent :: "skill_info \<Rightarrow> registry \<Rightarrow> bool \<times> registry" where
  "register_if_absent sk reg =
     (if map_of reg (sk_name sk) \<noteq> None then (False, reg) else (True, register sk reg))"

definition skill_get :: "registry \<Rightarrow> string \<Rightarrow> skill_info option" where
  "skill_get reg name = map_of reg name"

definition arity :: "registry \<Rightarrow> string \<Rightarrow> nat option" where
  "arity reg name = map_option (\<lambda>s. length (sk_positional s)) (map_of reg name)"

definition excluding :: "string list \<Rightarrow> registry \<Rightarrow> registry" where
  "excluding names reg = filter (\<lambda>e. fst e \<notin> set names) reg"

definition restricted_to :: "string list \<Rightarrow> registry \<Rightarrow> registry" where
  "restricted_to names reg =
     fold (\<lambda>n out. case map_of reg n of Some sk \<Rightarrow> key_insert n sk out | None \<Rightarrow> out) names []"

definition DESCRIPTION_CAP :: nat where "DESCRIPTION_CAP = 500"

definition description_of :: "skill_info \<Rightarrow> string" where
  "description_of sk =
     (if chars_count (sk_description sk) \<le> DESCRIPTION_CAP then sk_description sk
      else take_chars DESCRIPTION_CAP (sk_description sk) @ ellipsis)"

definition catalogue_line :: "skill_info \<Rightarrow> string" where
  "catalogue_line sk =
     ''- **'' @ sk_name sk @ ''**''
     @ (if sk_positional sk = [] then []
        else '' ('' @ join_words (map (\<lambda>a. [CHR 0x27, CHR ''<''] @ a @ [CHR ''>'', CHR 0x27]) (sk_positional sk)) @ '')'')
     @ (if description_of sk = [] then [] else '' '' @ em_dash @ '' '' @ description_of sk)
     @ [CHR 0x0A]"

definition catalogue_markdown :: "string list \<Rightarrow> registry \<Rightarrow> string" where
  "catalogue_markdown hide reg =
     concat (map (\<lambda>e. catalogue_line (snd e)) (filter (\<lambda>e. fst e \<notin> set hide \<and> sk_invocable (snd e)) reg))"

definition tool_parameters :: "skill_info \<Rightarrow> json" where
  "tool_parameters sk =
     (case sk_schema sk of
        Some schema \<Rightarrow> schema
      | None \<Rightarrow> JObject [
          (''properties'', JObject (fold (\<lambda>a m. key_insert a (JObject [(''type'', JString ''string'')]) m)
             (sk_positional sk @ sk_optional sk) [])),
          (''required'', JArray (map JString (sk_positional sk))),
          (''type'', JString ''object'')])"

definition tool_entry :: "skill_info \<Rightarrow> json" where
  "tool_entry sk =
     JObject [(''function'', JObject [(''description'', JString (description_of sk)),
                (''name'', JString (sk_name sk)), (''parameters'', tool_parameters sk)]),
              (''type'', JString ''function'')]"

definition tools_json :: "registry \<Rightarrow> json" where
  "tools_json reg = JArray (map (\<lambda>e. tool_entry (snd e)) (filter (\<lambda>e. sk_invocable (snd e)) reg))"

section \<open>Binding a call\<close>

definition kv_pairs :: "string list \<Rightarrow> string \<Rightarrow> (string \<times> string) list" where
  "kv_pairs optional raw =
     (let words = List.map_filter (split_once (CHR ''='')) (split_ws raw)
      in if length words > 1 \<and> length words = length (split_ws raw) \<and> list_all (\<lambda>(k, v). k \<in> set optional) words
         then words
         else case split_once (CHR ''='') raw of
                Some (k, v) \<Rightarrow> if trim k \<in> set optional then [(trim k, trim v)] else []
              | None \<Rightarrow> [])"

definition put_string :: "string \<times> string \<Rightarrow> (string \<times> json) list \<Rightarrow> (string \<times> json) list" where
  "put_string kv m = key_insert (fst kv) (JString (snd kv)) m"

text \<open>Names nobody declared go to the positionals still unbound, in the order written.\<close>

fun bind_aliases :: "string list \<Rightarrow> string list \<Rightarrow> (string \<times> json) list \<Rightarrow> (string \<times> json) list" where
  "bind_aliases [] vs m = m"
| "bind_aliases (n # ns) vs m =
     (if map_of m n \<noteq> None then bind_aliases ns vs m
      else case vs of [] \<Rightarrow> m | v # vs' \<Rightarrow> bind_aliases ns vs' (put_string (n, v) m))"

definition declared :: "string list \<Rightarrow> string list \<Rightarrow> string \<times> string \<Rightarrow> bool" where
  "declared positional optional kv \<longleftrightarrow> fst kv \<in> set positional \<or> fst kv \<in> set optional"

definition bind_named :: "string list \<Rightarrow> string list \<Rightarrow> (string \<times> string) list \<Rightarrow> json" where
  "bind_named positional optional named =
     JObject (bind_aliases positional (map snd (filter (\<lambda>kv. \<not> declared positional optional kv) named))
       (fold put_string (filter (declared positional optional) named) []))"

definition bind_positional :: "string list \<Rightarrow> string list \<Rightarrow> string list \<Rightarrow> json" where
  "bind_positional positional optional raws =
     JObject (fold put_string (concat (map (kv_pairs optional) (drop (length positional) raws)))
       (fold put_string (zip positional raws) []))"

definition resolve_call :: "registry \<Rightarrow> ToolCall \<Rightarrow> (skill_info \<times> json) option" where
  "resolve_call reg call =
     (case skill_get reg (tc_skill call) of
        None \<Rightarrow> None
      | Some sk \<Rightarrow>
          if \<not> sk_invocable sk then None
          else Some (sk, case tc_args_json call of
                 Some j \<Rightarrow> j
               | None \<Rightarrow>
                   if tc_named call \<noteq> [] then bind_named (sk_positional sk) (sk_optional sk) (tc_named call)
                   else bind_positional (sk_positional sk) (sk_optional sk) (tc_raw_args call)))"

section \<open>Views for programs\<close>

definition RUN_CODE_NAME :: string where "RUN_CODE_NAME = ''run-code''"

definition PROGRAM_EXCLUDED :: "string list" where
  "PROGRAM_EXCLUDED = [RUN_CODE_NAME, ASK_USER_NAME, TODO_WRITE_NAME, EXIT_PLAN_MODE_NAME, CREATE_GOAL_NAME,
     GET_GOAL_NAME, UPDATE_GOAL_NAME]"

definition direct_callable :: "string \<Rightarrow> bool" where
  "direct_callable name \<longleftrightarrow> name = RUN_CODE_NAME \<or> name = ASK_USER_NAME \<or> is_control_skill name"

definition direct_call_refused :: "string \<Rightarrow> string" where
  "direct_call_refused name =
     ''only `'' @ RUN_CODE_NAME @ ''` is callable directly in this mode '' @ em_dash @ '' call `'' @ name
     @ ''` from inside a `'' @ RUN_CODE_NAME @ ''` program instead''"

definition program_view :: "registry \<Rightarrow> registry" where
  "program_view reg = excluding PROGRAM_EXCLUDED reg"

definition direct_view :: "registry \<Rightarrow> registry" where
  "direct_view reg = restricted_to (filter direct_callable (map fst reg)) reg"

section \<open>Lemmas\<close>

lemma map_of_put_all:
  "map_of (fold put_string kvs m) n =
     (case map_of (rev kvs) n of Some v \<Rightarrow> Some (JString v) | None \<Rightarrow> map_of m n)"
proof (induction kvs rule: rev_induct)
  case (snoc kv kvs)
  then show ?case by (cases kv) (simp add: put_string_def)
qed simp

lemma map_of_filter_declared:
  "map_of (filter (declared ps os) kvs) n = (if n \<in> set ps \<or> n \<in> set os then map_of kvs n else None)"
  by (induction kvs) (auto simp: declared_def)

lemma map_of_bind_aliases:
  "distinct ns \<Longrightarrow> map_of (bind_aliases ns vs m) n =
     (case map_of (zip (filter (\<lambda>p. map_of m p = None) ns) vs) n of Some v \<Rightarrow> Some (JString v) | None \<Rightarrow> map_of m n)"
proof (induction ns vs m rule: bind_aliases.induct)
  case (2 a ns vs m)
  show ?case
  proof (cases "map_of m a")
    case (Some x)
    then show ?thesis using 2 by simp
  next
    case None
    show ?thesis
    proof (cases vs)
      case (Cons v vs')
      have f: "filter (\<lambda>p. map_of (put_string (a, v) m) p = None) ns = filter (\<lambda>p. map_of m p = None) ns"
        using 2(3) by (intro filter_cong) (auto simp: put_string_def)
      have "n \<noteq> a \<or> map_of (zip (filter (\<lambda>p. map_of m p = None) ns) vs') n = None"
        using 2(3) by (auto simp: map_of_eq_None_iff dest: set_zip_leftD)
      then show ?thesis
        using 2(2) [of v vs'] 2(3) None Cons f by (auto simp: put_string_def split: option.splits)
    qed (use None in simp)
  qed
qed simp

lemma map_of_fold_restrict:
  "map_of (fold (\<lambda>n out. case map_of reg n of Some sk \<Rightarrow> key_insert n sk out | None \<Rightarrow> out) names out0) x =
     (if x \<in> set names \<and> map_of reg x \<noteq> None then map_of reg x else map_of out0 x)"
  by (induction names arbitrary: out0) (auto split: option.splits)

lemma restricted_get: "skill_get (restricted_to names reg) n = (if n \<in> set names then skill_get reg n else None)"
  by (auto simp: skill_get_def restricted_to_def map_of_fold_restrict)

lemma excluding_get: "skill_get (excluding names reg) n = (if n \<in> set names then None else skill_get reg n)"
  by (induction reg) (auto simp: skill_get_def excluding_def)

lemma direct_get: "skill_get (direct_view reg) n = (if direct_callable n then skill_get reg n else None)"
  unfolding direct_view_def restricted_get by (auto simp: skill_get_def map_of_eq_None_iff intro!: sym [of "map_of reg n" None])

section \<open>Properties\<close>

text \<open>
  C23: A call whose arguments the model named itself binds every name the skill declares to the last value written
  for it, and the values under other names, in the order written, to the positionals no written name claims, in
  the order declared; nothing else reaches the skill. A call is bound only to a skill the model is offered.
\<close>

theorem named_arguments_bound:
  assumes "resolve_call reg call = Some (sk, args)"
    and "tc_args_json call = None" and "tc_named call = named" and "named \<noteq> []" and "distinct (sk_positional sk)"
  shows "sk_invocable sk \<and> skill_get reg (tc_skill call) = Some sk
    \<and> json_get n args =
      (let known = filter (declared (sk_positional sk) (sk_optional sk)) named;
           free = filter (\<lambda>p. p \<notin> fst ` set known) (sk_positional sk);
           other = map snd (filter (\<lambda>kv. \<not> declared (sk_positional sk) (sk_optional sk) kv) named)
       in map_option JString (map_of (zip free other @ rev known) n))"
proof -
  let ?known = "filter (declared (sk_positional sk) (sk_optional sk)) named"
  let ?m = "fold put_string ?known []"
  have free: "filter (\<lambda>p. map_of ?m p = None) ps = filter (\<lambda>p. p \<notin> fst ` set ?known) ps" for ps
  proof (rule filter_cong)
    fix p
    have "map_of (rev ?known) p = None \<longleftrightarrow> p \<notin> fst ` set ?known" by (simp only: map_of_eq_None_iff set_rev)
    then show "(map_of ?m p = None) = (p \<notin> fst ` set ?known)" by (simp only: map_of_put_all) (auto split: option.splits)
  qed simp
  have s: "sk_invocable sk \<and> skill_get reg (tc_skill call) = Some sk \<and> args = bind_named (sk_positional sk) (sk_optional sk) named"
    using assms(1-4) by (auto simp: resolve_call_def split: option.splits if_splits)
  have "json_get n (bind_named (sk_positional sk) (sk_optional sk) named) =
      (case map_of (zip (filter (\<lambda>p. p \<notin> fst ` set ?known) (sk_positional sk))
              (map snd (filter (\<lambda>kv. \<not> declared (sk_positional sk) (sk_optional sk) kv) named))) n of
         Some v \<Rightarrow> Some (JString v)
       | None \<Rightarrow> (case map_of (rev ?known) n of Some v \<Rightarrow> Some (JString v) | None \<Rightarrow> map_of [] n))"
    unfolding bind_named_def json_get.simps map_of_bind_aliases [OF assms(5)] free unfolding map_of_put_all by (rule refl)
  with s show ?thesis
    unfolding Let_def map_of_append map_add_def by (simp del: set_filter split: option.splits)
qed

definition demo_skill :: skill_info where
  "demo_skill = \<lparr>sk_name = ''read-file'', sk_description = ''Reads a file.'', sk_positional = [''path''],
     sk_optional = [''start''], sk_schema = None, sk_invocable = True, sk_trusted = False, sk_parallel = (\<lambda>_. True)\<rparr>"

definition demo_registry :: registry where
  "demo_registry = register demo_skill []"

text \<open>A call with an optional argument and an alias of the positional one.\<close>

theorem named_arguments_bound_witness:
  "json_get ''path'' (bind_named [''path''] [''start''] [(''start'', ''3''), (''file_path'', ''a.md'')]) = Some (JString ''a.md'')
   \<and> json_get ''file_path'' (bind_named [''path''] [''start''] [(''start'', ''3''), (''file_path'', ''a.md'')]) = None"
proof -
  let ?named = "[(''start'', ''3''), (''file_path'', ''a.md'')]"
  let ?call = "\<lparr>tc_skill = ''read-file'', tc_raw_args = [], tc_expectation = [], tc_args_json = None, tc_named = ?named\<rparr>"
  have r: "resolve_call demo_registry ?call = Some (demo_skill, bind_named [''path''] [''start''] ?named)"
    by (simp add: resolve_call_def demo_registry_def register_def skill_get_def demo_skill_def)
  from named_arguments_bound [OF r, of ?named "''path''"] named_arguments_bound [OF r, of ?named "''file_path''"]
  show ?thesis by (simp add: demo_skill_def declared_def Let_def)
qed

text \<open>
  A program is offered the reminder and memory tools: the list of what a program may not call names the other
  harness controls only, and a control has no body that could run in a program.
\<close>

lemma program_offers_controls:
  "is_control_skill REMEMBER_NAME \<and> direct_callable REMEMBER_NAME
   \<and> skill_get (program_view [(REMEMBER_NAME, demo_skill)]) REMEMBER_NAME = Some demo_skill"
  by (simp add: is_control_skill_def is_memory_skill_def direct_callable_def program_view_def excluding_def skill_get_def
      PROGRAM_EXCLUDED_def RUN_CODE_NAME_def skill_names)

end
