(* ===== verification/Control_Dispatch.thy ===== *)
theory Control_Dispatch
  imports Harness_Controls Reminders Session_Memory Hook_Policy
begin

text \<open>
  The dispatch of the harness controls, \<open>handle_control\<close>, \<open>schedule_control\<close> and \<open>memory_control\<close> of
  \<open>src/crates/backend/src/chat.rs\<close>, over the whole state a session keeps in the hub: its log and policies
  (\<open>hook_state\<close>), plan flag, goal, reminders and the memory store. The bodies are the operations of the
  theories of goals, reminders, memories and controls; here they share one log, which may have vanished.

  Parameters (record \<open>control_env\<close>): the clocks, the calendar, \<open>serde_json\<close>, the error of a flush, the answer
  of the person at the plan review, the other sessions' logs, and the sentence behind the stable code of a
  refused reminder. A call that never returns (the slice panic of a zone, an endless search for a memory id) is
  \<open>None\<close>. Pushes to the frontend other than the start and end of the call and log lines are left out.
\<close>

section \<open>The state of a session\<close>

record session_state = hook_state +
  ss_plan :: bool
  ss_goal :: "Goal option"
  ss_armed :: bool
  ss_next_goal :: nat
  ss_goal_emitted :: "(Goal \<times> bool) list"
  ss_schedules :: "ScheduleRecord list"
  ss_store :: Store

record ('d, 't, 'z, 'tz) control_env =
  cx_session :: nat
  cx_source :: TurnSource
  cx_now :: int
  cx_secs :: int
  cx_chrono :: "('d, 't, 'z, 'tz) chrono"
  cx_sched_text :: "sched_error \<Rightarrow> json \<Rightarrow> string"
  cx_mem :: mem_env
  cx_parse_arr :: "string \<Rightarrow> json list option"
  cx_print :: "json \<Rightarrow> string"
  cx_answer :: "string \<Rightarrow> string option"
  cx_flush_error :: "string option"
  cx_logs :: "SessionLog list"
  cx_default_cwd :: pathbuf
  cx_elapsed :: nat

text \<open>
  Operations on the log are no-ops once the session is gone; the operations of the components get an empty log
  then, and what they append is dropped.
\<close>

definition log_of :: "'a hook_state_scheme \<Rightarrow> SessionLog" where
  "log_of s = (case hs_log s of Some l \<Rightarrow> l | None \<Rightarrow> from_events 0 [] False)"

definition put_log :: "SessionLog \<Rightarrow> 'a hook_state_scheme \<Rightarrow> 'a hook_state_scheme" where
  "put_log l s = s\<lparr>hs_log := map_option (\<lambda>_. l) (hs_log s)\<rparr>"

definition goal_view :: "session_state \<Rightarrow> GoalState" where
  "goal_view s = \<lparr>gs_log = log_of s, gs_goal = ss_goal s, gs_armed = ss_armed s, gs_next_goal = ss_next_goal s,
     gs_emitted = ss_goal_emitted s\<rparr>"

definition put_goal_view :: "GoalState \<Rightarrow> session_state \<Rightarrow> session_state" where
  "put_goal_view g s = (put_log (gs_log g) s)\<lparr>ss_goal := gs_goal g, ss_armed := gs_armed g,
     ss_next_goal := gs_next_goal g, ss_goal_emitted := gs_emitted g\<rparr>"

definition rem_view :: "session_state \<Rightarrow> RemState" where
  "rem_view s = \<lparr>rs_log = log_of s, rs_active = ss_schedules s\<rparr>"

definition put_rem_view :: "RemState \<Rightarrow> session_state \<Rightarrow> session_state" where
  "put_rem_view r s = (put_log (rs_log r) s)\<lparr>ss_schedules := rs_active r\<rparr>"

definition fail_with :: "string \<Rightarrow> SkillOutcome" where
  "fail_with m = \<lparr>so_ok = False, so_summary = m\<rparr>"

definition ok_with :: "string \<Rightarrow> SkillOutcome" where
  "ok_with m = \<lparr>so_ok = True, so_summary = m\<rparr>"

definition cwd_in :: "pathbuf \<Rightarrow> 'a hook_state_scheme \<Rightarrow> pathbuf" where
  "cwd_in dflt s = (case Option.bind (hs_log s) log_cwd of Some d \<Rightarrow> d | None \<Rightarrow> dflt)"

section \<open>What a refusal says\<close>

fun action_word :: "GoalAction \<Rightarrow> string" where
  "action_word Pause = ''pause''"
| "action_word Resume = ''resume''"
| "action_word Complete = ''complete''"
| "action_word Block = ''block''"

fun refusal_text :: "refusal \<Rightarrow> string" where
  "refusal_text (UnknownAction w) =
     ''unknown action `'' @ w @ ''` '' @ em_dash @ '' want pause | resume | complete | block''"
| "refusal_text NotTopLevel =
     ''only the top-level agent may change the goal '' @ em_dash @ '' report what you found and let it decide''"
| "refusal_text (NeedsUser a) =
     ''`'' @ action_word a @ ''` needs a direct instruction from the user '' @ em_dash
     @ '' an automatic round cannot pause or resume its own goal''"
| "refusal_text (TooEarly n) =
     ''too early to call this blocked '' @ em_dash @ '' '' @ dec n @ '' of '' @ dec BLOCKED_AFTER_CONSECUTIVE_ROUNDS
     @ '' rounds have run. Try another approach and report `block` only if it is still impossible''"
| "refusal_text (RevisionMismatch r cur) =
     ''revision mismatch: you sent '' @ dec r @ '', the goal is at '' @ dec cur @ ''. Read it with `'' @ GET_GOAL_NAME
     @ ''` and retry with the current revision '' @ em_dash @ '' someone changed it while you were working''"
| "refusal_text (AlreadyTerminal p) =
     ''the goal is already '' @ phase_label p @ '' '' @ em_dash @ '' nothing more to do''"
| "refusal_text NeedsBlocker =
     ''blocking needs a concrete blocker in `note` '' @ em_dash @ '' say what is in the way, not that it is hard''"
| "refusal_text NeedsObjective = ''missing `objective` '' @ em_dash @ '' say what the goal is, concretely''"
| "refusal_text OnlyUserCreates =
     ''only the user can set a goal '' @ em_dash @ '' an automatic round cannot give itself a new objective''"
| "refusal_text (GoalExists summary) =
     ''this session already has a goal '' @ em_dash @ '' finish or block it first:'' @ [CHR 0x0A] @ summary"
| "refusal_text NoGoal = ''this session has no goal''"
| "refusal_text (NoRevision r) =
     ''missing or unreadable `revision` '' @ em_dash @ '' the goal is at revision '' @ dec r"

fun todo_error_text :: "todo_error \<Rightarrow> string" where
  "todo_error_text NotAnArray = ''`items` must be a JSON array of {content, status}''"
| "todo_error_text NoItems = ''`items` must not be empty '' @ em_dash @ '' send the whole list each time''"
| "todo_error_text (TooManyItems n) = ''too many items ('' @ dec n @ '') '' @ em_dash @ '' keep the list under 50''"
| "todo_error_text (BadContent i) = ''item '' @ dec i @ '': `content` must be non-empty text''"
| "todo_error_text (BadStatus i) = ''item '' @ dec i @ '': `status` must be pending | in_progress | completed''"
| "todo_error_text (DuplicateItem i) = ''item '' @ dec i @ '': duplicate of an earlier item''"
| "todo_error_text TwoInProgress =
     ''at most one item may be `in_progress` '' @ em_dash @ '' finish or park the other first''"

fun plan_outcome :: "plan_result \<Rightarrow> SkillOutcome" where
  "plan_outcome MissingPlan = fail_with (''missing or empty `plan` arg '' @ em_dash @ '' pass the full plan markdown'')"
| "plan_outcome NotPlanning = fail_with (''`exit-plan-mode` outside plan mode '' @ em_dash @ '' nothing to exit'')"
| "plan_outcome NoAnswer =
     fail_with (''plan review got no answer (timeout or interrupt) '' @ em_dash @ '' staying in plan mode'')"
| "plan_outcome (KeepPlanning a) = fail_with (''keeping plan mode: '' @ a)"
| "plan_outcome Approved =
     ok_with (''plan approved by the user '' @ em_dash @ '' plan mode is now off; execute or summarise the plan directly'')"

definition plan_question :: "json \<Rightarrow> string" where
  "plan_question args =
     ''The agent proposes this plan for approval:'' @ [CHR 0x0A, CHR 0x0A]
     @ trim (case Option.bind (json_get ''plan'' args) as_str of Some s \<Rightarrow> s | None \<Rightarrow> [])
     @ [CHR 0x0A, CHR 0x0A] @ ''Approve it (leaves plan mode), or keep planning?''"

section \<open>The bodies\<close>

definition control_todo :: "('d, 't, 'z, 'tz) control_env \<Rightarrow> json \<Rightarrow> session_state \<Rightarrow> SkillOutcome \<times> session_state" where
  "control_todo C args s =
     (case todo_write (cx_parse_arr C) (cx_now C) args (log_of s) of
        (Inl e, _) \<Rightarrow> (fail_with (todo_error_text e), s)
      | (Inr m, l) \<Rightarrow> (ok_with m, put_log l s))"

definition control_plan :: "('d, 't, 'z, 'tz) control_env \<Rightarrow> json \<Rightarrow> session_state \<Rightarrow> SkillOutcome \<times> bool \<times> session_state" where
  "control_plan C args s =
     (case exit_plan_mode (cx_now C) args (cx_answer C (plan_question args)) (ss_plan s) (log_of s) of
        (r, planning, l, ends) \<Rightarrow> (plan_outcome r, ends, (put_log l s)\<lparr>ss_plan := planning\<rparr>))"

definition control_goal :: "('d, 't, 'z, 'tz) control_env \<Rightarrow> string \<Rightarrow> json \<Rightarrow> session_state \<Rightarrow> SkillOutcome \<times> session_state" where
  "control_goal C name args s =
     (if name = CREATE_GOAL_NAME then
        (case create_goal (cx_now C) args (cx_source C) (goal_view s) of
           (Refused e, _) \<Rightarrow> (fail_with (refusal_text e), s)
         | (Accepted m, g) \<Rightarrow>
             (ok_with (m @ [CHR 0x0A, CHR 0x0A]
                @ ''A fresh round opens against this objective each time you go idle, until it is complete, blocked, paused by the user, or the round budget runs out.''),
              put_goal_view g s))
      else if name = GET_GOAL_NAME then
        (case get_goal (goal_view s) of
           Refused e \<Rightarrow> (fail_with (refusal_text e), s)
         | Accepted m \<Rightarrow> (ok_with m, s))
      else
        (case update_goal (cx_now C) args (cx_source C) (goal_view s) of
           (Refused e, _) \<Rightarrow> (fail_with (if e = NoGoal then ''this session has no goal to update'' else refusal_text e), s)
         | (Accepted m, g) \<Rightarrow> (ok_with m, put_goal_view g s)))"

text \<open>The error of the barrier after a reminder's row, and the row's state when the session is there.\<close>

definition barrier_error :: "('d, 't, 'z, 'tz) control_env \<Rightarrow> session_state \<Rightarrow> string option" where
  "barrier_error C s =
     (if hs_log s = None then Some (''session '' @ dec (cx_session C) @ '' vanished'') else cx_flush_error C)"

definition schedule_control :: "('d, 't, 'z, 'tz) control_env \<Rightarrow> string \<Rightarrow> json \<Rightarrow> session_state \<Rightarrow> (SkillOutcome \<times> session_state) option" where
  "schedule_control C name args s =
     (let st = rem_view s; ok = (barrier_error C s = None);
          why = (case barrier_error C s of Some e \<Rightarrow> e | None \<Rightarrow> [])
      in if name = SCHEDULE_LIST_NAME then
           (case schedule_list (cx_chrono C) (cx_secs C) st of Listed t \<Rightarrow> Some (ok_with t, s) | _ \<Rightarrow> None)
         else if name = SCHEDULE_DELETE_NAME then
           (case schedule_delete (cx_now C) ok args st of
              (NotFound i, _) \<Rightarrow> Some (fail_with (''schedule_not_found: no active reminder `'' @ i @ ''` (deleted: false)''), s)
            | (Deleted i, st') \<Rightarrow> Some (ok_with (''deleted reminder `'' @ i @ ''` (deleted: true)''), put_rem_view st' s)
            | (_, st') \<Rightarrow> Some (fail_with (''persistence_uncertain: '' @ why @ '' '' @ em_dash @ '' list again before trusting this''),
                             put_rem_view st' s))
         else
           (case schedule_create (cx_chrono C) (cx_now C) (cx_secs C) ok args st of
              (Rejected SplitPanic, _) \<Rightarrow> None
            | (Rejected e, _) \<Rightarrow> Some (fail_with (cx_sched_text C e args), s)
            | (Created i line, st') \<Rightarrow> Some (ok_with (''created reminder:'' @ [CHR 0x0A] @ line), put_rem_view st' s)
            | (_, st') \<Rightarrow>
                if hs_log s = None then Some (fail_with (''internal_error: '' @ why), s)
                else Some (fail_with (''persistence_uncertain: '' @ why @ '' '' @ em_dash @ '' schedule-list before trusting this''),
                       put_rem_view st' s)))"

definition arg_text :: "string list \<Rightarrow> json \<Rightarrow> string" where
  "arg_text keys args = (case find_map (\<lambda>k. Option.bind (json_get k args) as_str) keys of Some v \<Rightarrow> v | None \<Rightarrow> [])"

text \<open>Every other session that has a memory, archived or not.\<close>

definition other_sessions :: "nat \<Rightarrow> SessionLog list \<Rightarrow> SessionCandidate list" where
  "other_sessions sid logs =
     List.map_filter (\<lambda>l. map_option (\<lambda>m. \<lparr>sc_id = log_id l, sc_title = log_title l, sc_cwd = log_cwd l,
         sc_summary = me_summary m, sc_facts = me_facts m, sc_ts = me_ts m\<rparr>) (session_memory (events l)))
       (filter (\<lambda>l. log_id l \<noteq> sid) logs)"

definition memory_recall :: "('d, 't, 'z, 'tz) control_env \<Rightarrow> json \<Rightarrow> session_state \<Rightarrow> SkillOutcome \<times> session_state" where
  "memory_recall C args s =
     (case store_list (cx_mem C) (ss_store s) of
        (ms, st) \<Rightarrow>
          (ok_with (recall_text (cx_mem C) (arg_text [''query'', ''q'', ''text''] args) ms
             (other_sessions (cx_session C) (cx_logs C)) (cwd_in (cx_default_cwd C) s) (cx_now C)),
           s\<lparr>ss_store := st\<rparr>))"

definition memory_forget :: "('d, 't, 'z, 'tz) control_env \<Rightarrow> json \<Rightarrow> session_state \<Rightarrow> SkillOutcome \<times> session_state" where
  "memory_forget C args s =
     (case for_folder (cx_mem C) (cwd_in (cx_default_cwd C) s) (ss_store s) of
        (mine, st) \<Rightarrow>
          (case resolve_forget (cx_mem C) (arg_text [''id'', ''memory'', ''text'', ''fact''] args) mine of
             Inl e \<Rightarrow> (fail_with e, s\<lparr>ss_store := st\<rparr>)
           | Inr m \<Rightarrow>
               (case store_delete (cx_mem C) (lm_id m) st of
                  (Inl e, st') \<Rightarrow> (fail_with e, s\<lparr>ss_store := st'\<rparr>)
                | (Inr d, st') \<Rightarrow> (ok_with (''forgot ['' @ lm_id d @ '']: '' @ lm_text d), s\<lparr>ss_store := st'\<rparr>))))"

definition memory_remember ::
  "('d, 't, 'z, 'tz) control_env \<Rightarrow> json \<Rightarrow> session_state \<Rightarrow> (SkillOutcome \<times> session_state) option" where
  "memory_remember C args s =
     (case fact_arg args of
        Inl e \<Rightarrow> Some (fail_with e, s)
      | Inr f \<Rightarrow>
          (case parse_scope (cx_print C) (json_get ''scope'' args) of
             Inl e \<Rightarrow> Some (fail_with e, s)
           | Inr scope \<Rightarrow>
               if scope = ScopeSession then
                 (case remember_session (cx_mem C) (cx_now C) (cx_session C) f (hs_log s) of
                    (Inl e, cur) \<Rightarrow> Some (fail_with e, s\<lparr>hs_log := cur\<rparr>)
                  | (Inr m, cur) \<Rightarrow> Some (ok_with m, s\<lparr>hs_log := cur\<rparr>))
               else
                 (case store_add (cx_mem C) f (if scope = ScopeProject then Some (cwd_in (cx_default_cwd C) s) else None)
                         ''model'' (Some (cx_session C)) (ss_store s) of
                    None \<Rightarrow> None
                  | Some (Inl e, st) \<Rightarrow> Some (fail_with e, s\<lparr>ss_store := st\<rparr>)
                  | Some (Inr (New m), st) \<Rightarrow>
                      Some (ok_with (''remembered ('' @ scope_label scope @ '') as ['' @ lm_id m @ '']: '' @ lm_text m),
                            s\<lparr>ss_store := st\<rparr>)
                  | Some (Inr (Duplicate m), st) \<Rightarrow>
                      Some (ok_with (''already remembered as ['' @ lm_id m @ '']: '' @ lm_text m), s\<lparr>ss_store := st\<rparr>))))"

definition memory_control ::
  "('d, 't, 'z, 'tz) control_env \<Rightarrow> string \<Rightarrow> json \<Rightarrow> session_state \<Rightarrow> (SkillOutcome \<times> session_state) option" where
  "memory_control C name args s =
     (if name = RECALL_NAME then Some (memory_recall C args s)
      else if name = FORGET_NAME then Some (memory_forget C args s)
      else memory_remember C args s)"

section \<open>The dispatch\<close>

definition handle_control_body ::
  "('d, 't, 'z, 'tz) control_env \<Rightarrow> string \<Rightarrow> json \<Rightarrow> session_state \<Rightarrow> (SkillOutcome \<times> bool \<times> session_state) option" where
  "handle_control_body C name args s =
     (if name = TODO_WRITE_NAME then (case control_todo C args s of (out, s') \<Rightarrow> Some (out, False, s'))
      else if name = EXIT_PLAN_MODE_NAME then Some (control_plan C args s)
      else if is_schedule_skill name then map_option (\<lambda>(out, s'). (out, False, s')) (schedule_control C name args s)
      else if is_memory_skill name then map_option (\<lambda>(out, s'). (out, False, s')) (memory_control C name args s)
      else if is_goal_skill name then (case control_goal C name args s of (out, s') \<Rightarrow> Some (out, False, s'))
      else Some (fail_with (''unknown control skill `'' @ name @ ''`''), False, s))"

definition handle_control ::
  "('d, 't, 'z, 'tz) control_env \<Rightarrow> string \<Rightarrow> json \<Rightarrow> string \<Rightarrow> string \<Rightarrow> nat \<Rightarrow> session_state run_state
   \<Rightarrow> (SkillOutcome \<times> bool \<times> session_state run_state) option" where
  "handle_control C name args preview expectation call_seq w =
     (let tid = ru_next_id w;
          w1 = emit [ToolCallStarted tid None 0 name preview expectation (cx_print C args) call_seq] (w\<lparr>ru_next_id := Suc tid\<rparr>)
      in map_option (\<lambda>(out, conclude, s').
           (out, conclude, emit [ToolCallFinished tid (so_ok out) (so_summary out) (so_summary out) (cx_elapsed C)] (w1\<lparr>ru_state := s'\<rparr>)))
         (handle_control_body C name args (ru_state w1)))"

section \<open>What is in memory is what a restart reads\<close>

definition in_sync :: "session_state \<Rightarrow> bool" where
  "in_sync s \<longleftrightarrow> (case hs_log s of None \<Rightarrow> False
     | Some l \<Rightarrow> wf_log l \<and> ss_plan s = cp_plan (control_state l) \<and> goal_inv (goal_view s)
         \<and> ss_schedules s = schedules (events l))"

fun is_plan_mode :: "EventKind \<Rightarrow> bool" where
  "is_plan_mode (PlanMode _) = True"
| "is_plan_mode _ = False"

fun is_schedule_row :: "EventKind \<Rightarrow> bool" where
  "is_schedule_row (Schedule _ _ _ _ _ _ _ _) = True"
| "is_schedule_row _ = False"

lemma plan_append:
  "wf_log l \<Longrightarrow> cp_plan (control_state (log_append l now k)) = (case k of PlanMode b \<Rightarrow> b | _ \<Rightarrow> cp_plan (control_state l))"
  by (cases k) (simp_all add: control_state_def events_append control_step_def)

lemma schedules_other: "wf_log l \<Longrightarrow> \<not> is_schedule_row k \<Longrightarrow> schedules (events (log_append l now k)) = schedules (events l)"
  by (cases k) (simp_all add: schedules_append schedules_step_def)

lemma goal_view_append:
  assumes "goal_inv g" and "\<not> is_goal_change k"
  shows "goal_inv (g\<lparr>gs_log := log_append (gs_log g) now k\<rparr>)"
  using goal_inv_step [OF goal_step.Log [OF assms(2)] assms(1)] .

lemma in_sync_Some: "in_sync s \<Longrightarrow> \<exists>l. hs_log s = Some l"
  by (simp add: in_sync_def split: option.splits)

text \<open>A row the plan, the goal and the reminders do not read.\<close>

lemma in_sync_row:
  assumes "in_sync s" and "hs_log s = Some l" and "\<not> is_goal_change k" and "\<not> is_schedule_row k" and "\<not> is_plan_mode k"
  shows "in_sync (s\<lparr>hs_log := Some (log_append l now k)\<rparr>)"
proof -
  have w: "wf_log l" and p: "ss_plan s = cp_plan (control_state l)" and g: "goal_inv (goal_view s)"
    and r: "ss_schedules s = schedules (events l)"
    using assms(1,2) by (simp_all add: in_sync_def)
  have "goal_view (s\<lparr>hs_log := Some (log_append l now k)\<rparr>) = (goal_view s)\<lparr>gs_log := log_append (gs_log (goal_view s)) now k\<rparr>"
    using assms(2) by (simp add: goal_view_def log_of_def)
  with goal_view_append [OF g assms(3)] have "goal_inv (goal_view (s\<lparr>hs_log := Some (log_append l now k)\<rparr>))" by simp
  then show ?thesis
    using assms(5) w p r schedules_other [OF w assms(4)]
    by (cases k) (simp_all add: in_sync_def wf_append plan_append)
qed

lemma in_sync_store: "in_sync (s\<lparr>ss_store := st\<rparr>) = in_sync s"
  by (simp add: in_sync_def goal_view_def log_of_def split: option.splits)

lemma put_log_Some: "hs_log s = Some l0 \<Longrightarrow> put_log l s = s\<lparr>hs_log := Some l\<rparr>"
  by (simp add: put_log_def)

text \<open>A goal skill: one more row, and the goal's three copies move together.\<close>

lemma in_sync_goal:
  assumes "in_sync s" and "goal_inv g"
    and "gs_log g = log_of s \<or> (\<exists>x. gs_log g = log_append (log_of s) now (goal_event x))"
  shows "in_sync (put_goal_view g s)"
proof -
  obtain l where l: "hs_log s = Some l" using in_sync_Some [OF assms(1)] by blast
  have w: "wf_log l" and p: "ss_plan s = cp_plan (control_state l)" and r: "ss_schedules s = schedules (events l)"
    using assms(1) l by (simp_all add: in_sync_def)
  have keep: "cp_plan (control_state (gs_log g)) = cp_plan (control_state l)"
    "schedules (events (gs_log g)) = schedules (events l)" "wf_log (gs_log g)"
    using assms(3) l w by (auto simp: log_of_def plan_append schedules_other goal_event_def wf_append)
  have v: "goal_view (put_goal_view g s) = g"
    using l by (simp add: goal_view_def put_goal_view_def put_log_Some log_of_def)
  show ?thesis
    using keep p r assms(2) l unfolding in_sync_def v by (simp add: put_goal_view_def put_log_Some)
qed

lemma in_sync_reminders:
  assumes "in_sync s" and "is_schedule_row k"
  shows "in_sync (put_rem_view (refold_schedules (log_append (log_of s) now k)) s)"
proof -
  obtain l where l: "hs_log s = Some l" using in_sync_Some [OF assms(1)] by blast
  have w: "wf_log l" and p: "ss_plan s = cp_plan (control_state l)" and g: "goal_inv (goal_view s)"
    using assms(1) l by (simp_all add: in_sync_def)
  let ?s = "put_rem_view (refold_schedules (log_append (log_of s) now k)) s"
  have "goal_view ?s = (goal_view s)\<lparr>gs_log := log_append (gs_log (goal_view s)) now k\<rparr>"
    using l by (simp add: goal_view_def put_rem_view_def put_log_Some log_of_def refold_schedules_def)
  moreover have "\<not> is_goal_change k" using assms(2) by (cases k) simp_all
  ultimately have "goal_inv (goal_view ?s)" using goal_view_append [OF g] by simp
  then show ?thesis
    using w p l assms(2) unfolding in_sync_def
    by (cases k) (simp_all add: put_rem_view_def put_log_Some log_of_def refold_schedules_def wf_append plan_append)
qed

text \<open>
  What one control may do to the session: it stays in sync, the log grows by at most one row, and a call that
  reports a failure has written none.
\<close>

definition control_effect :: "bool \<Rightarrow> session_state \<Rightarrow> session_state \<Rightarrow> bool" where
  "control_effect ok s s' \<longleftrightarrow> in_sync s' \<and> hs_lines s' = hs_lines s
     \<and> (hs_log s' = hs_log s \<or> (ok \<and> (\<exists>now k. hs_log s' = Some (log_append (log_of s) now k))))"

lemma effect_refl: "in_sync s \<Longrightarrow> control_effect ok s s"
  by (simp add: control_effect_def)

lemma effect_store: "in_sync s \<Longrightarrow> control_effect ok s (s\<lparr>ss_store := st\<rparr>)"
  by (simp add: control_effect_def in_sync_store)

lemma outcome_ok [simp]: "so_ok (ok_with m)" "\<not> so_ok (fail_with m)"
  by (simp_all add: ok_with_def fail_with_def)

lemma todo_effect:
  assumes "in_sync s" and "control_todo C args s = (out, s')"
  shows "control_effect (so_ok out) s s'"
proof -
  obtain l where l: "hs_log s = Some l" using in_sync_Some [OF assms(1)] by blast
  consider "s' = s" | items where "so_ok out" "s' = s\<lparr>hs_log := Some (log_append l (cx_now C) (TodoWrite items))\<rparr>"
    using assms(2) l
    by (auto simp: control_todo_def todo_write_def put_log_Some log_of_def split: sum.splits)
  then show ?thesis
  proof cases
    case (2 items)
    have "in_sync s'" unfolding 2(2) by (rule in_sync_row [OF assms(1) l]) simp_all
    then show ?thesis using 2 l by (auto simp: control_effect_def log_of_def)
  qed (simp add: effect_refl [OF assms(1)])
qed

lemma plan_effect:
  assumes "in_sync s" and "control_plan C args s = (out, ends, s')"
  shows "control_effect (so_ok out) s s'" "ends \<longleftrightarrow> so_ok out" "ss_plan s' = (ss_plan s \<and> \<not> ends)" "ends \<Longrightarrow> ss_plan s"
proof -
  obtain l where l: "hs_log s = Some l" using in_sync_Some [OF assms(1)] by blast
  have same: "(put_log l s)\<lparr>ss_plan := ss_plan s\<rparr> = s" using l by (simp add: put_log_Some)
  have c: "s' = s \<and> \<not> ends \<and> \<not> so_ok out
    \<or> ends \<and> so_ok out \<and> ss_plan s \<and> s' = s\<lparr>hs_log := Some (log_append l (cx_now C) (PlanMode False)), ss_plan := False\<rparr>"
    using assms(2) l same
    by (auto simp: control_plan_def exit_plan_mode_def Let_def put_log_Some log_of_def split: option.splits if_splits)
  then show "ends \<longleftrightarrow> so_ok out" "ss_plan s' = (ss_plan s \<and> \<not> ends)" "ends \<Longrightarrow> ss_plan s" by auto
  show "control_effect (so_ok out) s s'"
  proof (cases "s' = s")
    case False
    with c have s': "so_ok out" "s' = s\<lparr>hs_log := Some (log_append l (cx_now C) (PlanMode False)), ss_plan := False\<rparr>" by auto
    have w: "wf_log l" and g: "goal_inv (goal_view s)" and r: "ss_schedules s = schedules (events l)"
      using assms(1) l by (simp_all add: in_sync_def)
    have "goal_view s' = (goal_view s)\<lparr>gs_log := log_append (gs_log (goal_view s)) (cx_now C) (PlanMode False)\<rparr>"
      using s' l by (simp add: goal_view_def log_of_def)
    with goal_view_append [OF g] have "goal_inv (goal_view s')" by simp
    with s' w r l have "in_sync s'" by (simp add: in_sync_def wf_append plan_append schedules_other)
    with s' l show ?thesis by (auto simp: control_effect_def log_of_def)
  qed (simp add: effect_refl [OF assms(1)])
qed

lemma put_goal_view_effect:
  assumes "in_sync s" and "goal_inv (put_goal now x g)" and "gs_log g = log_of s"
  shows "control_effect True s (put_goal_view (put_goal now x g) s)"
proof -
  obtain l where l: "hs_log s = Some l" using in_sync_Some [OF assms(1)] by blast
  have "in_sync (put_goal_view (put_goal now x g) s)"
    by (rule in_sync_goal [OF assms(1,2), where now = now]) (use assms(3) in auto)
  then show ?thesis
    using l assms(3) by (auto simp: control_effect_def put_goal_view_def put_log_Some)
qed

lemma goal_effect:
  assumes "in_sync s" and "control_goal C name args s = (out, s')"
  shows "control_effect (so_ok out) s s'"
proof -
  have inv: "goal_inv (goal_view s)" using assms(1) by (simp add: in_sync_def split: option.splits)
  have lg: "gs_log (goal_view s) = log_of s" by (simp add: goal_view_def)
  consider "s' = s" | a g where "create_goal (cx_now C) args (cx_source C) (goal_view s) = (Accepted a, g)" "so_ok out" "s' = put_goal_view g s"
    | a g where "update_goal (cx_now C) args (cx_source C) (goal_view s) = (Accepted a, g)" "so_ok out" "s' = put_goal_view g s"
  proof (cases "name = CREATE_GOAL_NAME")
    case True
    obtain r g where c: "create_goal (cx_now C) args (cx_source C) (goal_view s) = (r, g)" by fastforce
    show thesis using assms(2) that(1,2) c unfolding control_goal_def if_P [OF True] c prod.case by (cases r) auto
  next
    case False
    obtain r g where c: "update_goal (cx_now C) args (cx_source C) (goal_view s) = (r, g)" by fastforce
    show thesis
    proof (cases "name = GET_GOAL_NAME")
      case True
      then show thesis using assms(2) that(1) unfolding control_goal_def if_not_P [OF False] if_P [OF True] by (cases "get_goal (goal_view s)") auto
    next
      case no: False
      show thesis using assms(2) that(1,3) c unfolding control_goal_def if_not_P [OF False] if_not_P [OF no] c prod.case by (cases r) auto
    qed
  qed
  then show ?thesis
  proof cases
    case (2 a g)
    from create_goal_cases [OF 2(1)] obtain x mx where
      g: "g = put_goal (cx_now C) (new_goal x a mx) ((goal_view s)\<lparr>gs_next_goal := gs_next_goal (goal_view s) + 1, gs_armed := True\<rparr>)
        \<or> (\<exists>obj. g = put_goal (cx_now C) (new_goal x obj mx) ((goal_view s)\<lparr>gs_next_goal := gs_next_goal (goal_view s) + 1, gs_armed := True\<rparr>))"
      by auto
    have "goal_inv g" using goal_inv_step [OF goal_step.Create [OF 2(1)] inv] .
    with g show ?thesis unfolding 2(3) using put_goal_view_effect [OF assms(1)] lg 2(2) by auto
  next
    case (3 a g)
    from update_goal_cases [OF 3(1)] obtain x where g: "g = put_goal (cx_now C) x (goal_view s)" by auto
    have "goal_inv g" using goal_inv_step [OF goal_step.Update [OF 3(1)] inv] .
    with g show ?thesis unfolding 3(3) using put_goal_view_effect [OF assms(1)] lg 3(2) by auto
  qed (simp add: effect_refl [OF assms(1)])
qed

lemma schedule_effect:
  assumes "in_sync s" and "cx_flush_error C = None" and "schedule_control C name args s = Some (out, s')"
  shows "control_effect (so_ok out) s s'"
proof -
  obtain l where l: "hs_log s = Some l" using in_sync_Some [OF assms(1)] by blast
  have b: "barrier_error C s = None" using l assms(2) by (simp add: barrier_error_def)
  have rl: "rs_log (rem_view s) = log_of s" by (simp add: rem_view_def)
  consider "s' = s" | i op p ru f af ev acc where "so_ok out"
      "s' = put_rem_view (refold_schedules (log_append (log_of s) (cx_now C) (Schedule i op p ru f af ev acc))) s"
    using assms(3) unfolding schedule_control_def b
    by (auto simp: Let_def schedule_list_def schedule_delete_def schedule_create_def rl
        split: if_splits option.splits sched_outcome.splits sum.splits sched_error.splits)
  then show ?thesis
  proof cases
    case (2 i op p ru f af ev acc)
    from in_sync_reminders [OF assms(1), where now = "cx_now C" and k = "Schedule i op p ru f af ev acc"] show ?thesis
      using 2 l by (auto simp: control_effect_def put_rem_view_def put_log_Some refold_schedules_def)
  qed (simp add: effect_refl [OF assms(1)])
qed

lemma store_same: "\<exists>st. s = s\<lparr>ss_store := st\<rparr>"
  by (rule exI [of _ "ss_store s"]) simp

lemma remember_effect:
  assumes "in_sync s" and "memory_remember C args s = Some (out, s')"
  shows "(\<exists>st. s' = s\<lparr>ss_store := st\<rparr>)
    \<or> so_ok out \<and> (\<exists>sm fs th. hs_log s \<noteq> None \<and> s' = s\<lparr>hs_log := Some (log_append (log_of s) (cx_now C) (SessionMemoryRow sm fs th ''model''))\<rparr>)"
proof -
  obtain l where l: "hs_log s = Some l" using in_sync_Some [OF assms(1)] by blast
  have same: "s = s\<lparr>ss_store := ss_store s\<rparr>" "s\<lparr>hs_log := Some l\<rparr> = s" using l by simp_all
  show ?thesis
  proof (cases "fact_arg args")
    case (Inr f)
    show ?thesis
    proof (cases "parse_scope (cx_print C) (json_get ''scope'' args)")
      case scope: (Inr scope)
      show ?thesis
      proof (cases "scope = ScopeSession")
        case True
        obtain r cur where rs: "remember_session (cx_mem C) (cx_now C) (cx_session C) f (Some l) = (r, cur)" by fastforce
        then have "(cur = Some l \<or> (\<exists>m. r = Inr m) \<and> (\<exists>sm fs th. cur = Some (log_append l (cx_now C) (SessionMemoryRow sm fs th ''model''))))"
          by (auto simp: remember_session_def split: sum.splits option.splits prod.splits)
        then consider "cur = Some l" | m sm fs th where "r = Inr m" "cur = Some (log_append l (cx_now C) (SessionMemoryRow sm fs th ''model''))"
          by blast
        then show ?thesis
        proof cases
          case 1
          then have "s' = s\<lparr>ss_store := ss_store s\<rparr>"
            using assms(2) rs l same by (auto simp: memory_remember_def Inr scope True split: sum.splits)
          then show ?thesis by blast
        next
          case 2
          then show ?thesis using assms(2) rs l by (auto simp: memory_remember_def Inr scope True log_of_def)
        qed
      next
        case False
        then show ?thesis
          using assms(2) by (auto simp: memory_remember_def Inr scope split: option.splits sum.splits Added.splits prod.splits)
      qed
    qed (use assms(2) Inr store_same in \<open>auto simp: memory_remember_def\<close>)
  qed (use assms(2) store_same in \<open>auto simp: memory_remember_def\<close>)
qed

lemma forget_effect: "\<exists>st. snd (memory_forget C args s) = s\<lparr>ss_store := st\<rparr>"
  by (auto simp: memory_forget_def split: prod.splits sum.splits)

lemma recall_effect: "\<exists>st. snd (memory_recall C args s) = s\<lparr>ss_store := st\<rparr>"
  by (auto simp: memory_recall_def split: prod.splits)

lemma memory_effect:
  assumes "in_sync s" and "memory_control C name args s = Some (out, s')"
  shows "control_effect (so_ok out) s s'"
proof -
  obtain l where l: "hs_log s = Some l" using in_sync_Some [OF assms(1)] by blast
  consider st where "s' = s\<lparr>ss_store := st\<rparr>"
    | sm fs th where "so_ok out" "s' = s\<lparr>hs_log := Some (log_append (log_of s) (cx_now C) (SessionMemoryRow sm fs th ''model''))\<rparr>"
    using assms(2) remember_effect [OF assms(1), of C args out s'] forget_effect [of C args s] recall_effect [of C args s]
    unfolding memory_control_def by (cases "name = RECALL_NAME"; cases "name = FORGET_NAME") auto
  then show ?thesis
  proof cases
    case (2 sm fs th)
    have "in_sync s'" unfolding 2(2) log_of_def l option.case by (rule in_sync_row [OF assms(1) l]) simp_all
    then show ?thesis using 2 l by (auto simp: control_effect_def)
  qed (simp add: effect_store [OF assms(1)])
qed


text \<open>A session in plan mode, and a person who approves.\<close>

definition demo_session :: session_state where
  "demo_session = \<lparr>ps_seen = Map.empty, ps_tracker = tracker_default, ps_disk = Map.empty,
     hs_log = Some (log_append (new_in 1 ''t'' None 0 0) 0 (PlanMode True)), hs_lines = [],
     ss_plan = True, ss_goal = None, ss_armed = False, ss_next_goal = 1, ss_goal_emitted = [], ss_schedules = [],
     ss_store = \<lparr>st_file = NoFile, st_aside = []\<rparr>\<rparr>"

definition demo_control :: "(unit, unit, unit, unit) control_env" where
  "demo_control = \<lparr>cx_session = 1, cx_source = Human, cx_now = 7, cx_secs = 0, cx_chrono = no_calendar,
     cx_sched_text = (\<lambda>_ _. []), cx_mem = demo_mem, cx_parse_arr = (\<lambda>_. None), cx_print = (\<lambda>_. []),
     cx_answer = (\<lambda>_. Some ''approve''), cx_flush_error = None, cx_logs = [], cx_default_cwd = [], cx_elapsed = 0\<rparr>"

lemma demo_in_sync: "in_sync demo_session"
proof -
  have w: "wf_log (log_append (new_in (Suc 0) ''t'' None 0 0) 0 (PlanMode True))" by (intro wf_append wf_new_in)
  have c: "control_state (log_append (new_in (Suc 0) ''t'' None 0 0) 0 (PlanMode True)) =
      \<lparr>cp_mode = default_permission, cp_plan = True, cp_preset = None, cp_goal = None\<rparr>"
    by (simp add: control_state_def new_in_def log_append_def control_step_def)
  have r: "schedules (events (log_append (new_in (Suc 0) ''t'' None 0 0) 0 (PlanMode True))) = []"
    by (simp add: schedules_def new_in_def log_append_def schedules_step_def)
  show ?thesis
    using w unfolding in_sync_def demo_session_def goal_view_def log_of_def goal_inv_def by (simp add: c r)
qed


end
