(* ===== verification/Native_Batch.thy ===== *)
theory Native_Batch
  imports Control_Dispatch Skill_Registry Tool_Run Turn_Context Reply_Stream
begin

text \<open>
  The native tool-calling path of \<open>src/crates/backend/src/chat.rs\<close>: one call (\<open>run_native_one\<close>), the tail every
  dispatch shares (\<open>after_report\<close>), the calls a batch never ran (\<open>answer_unrun\<close>) and the batch itself
  (\<open>run_native_batch\<close>), with the sub-agent a session dispatches through (\<open>sub_agent\<close>), the durability barrier
  (\<open>checkpoint\<close>), the repeat notices and the reconciliation of instruction files.

  Parameters (record \<open>batch_env\<close>): the clock, the error of each flush and what the interrupt token says, by the
  next sequence number of the log; \<open>serde_json\<close>; the mode and the approval policy a dispatch reads; the
  environment of each control and of each run, by the sequence number of its call; the files the instruction
  chain reads. The bodies of a parallel chunk run whole, one after the other, in an order that is a parameter;
  how their awaits interleave is not modelled. A call that never returns (see \<open>handle_control\<close>) is \<open>None\<close>.
\<close>

record ('d, 't, 'z, 'tz) batch_env =
  ba_session :: nat
  ba_clock :: "nat \<Rightarrow> int"
  ba_flush_error :: "nat \<Rightarrow> string option"
  ba_cancelled :: "nat \<Rightarrow> bool"
  ba_parse :: "string \<Rightarrow> string + json"
  ba_print :: "json \<Rightarrow> string"
  ba_mode :: "nat \<Rightarrow> PermissionMode"
  ba_ask_denied :: "nat \<Rightarrow> bool"
  ba_host :: host
  ba_default_cwd :: pathbuf
  ba_reader_root :: "pathbuf option"
  ba_hooks :: HookConfig
  ba_hook_ext :: hook_ext
  ba_failure_sink :: bool
  ba_control :: "nat \<Rightarrow> ('d, 't, 'z, 'tz) control_env"
  ba_run :: "skill_info \<Rightarrow> nat \<Rightarrow> session_state run_env"
  ba_turn :: "nat \<Rightarrow> turn_env"
  ba_order :: "nat \<Rightarrow> nat list"

section \<open>Rows and notices\<close>

definition log_pos :: "'a hook_state_scheme \<Rightarrow> nat" where
  "log_pos s = next_seq (log_of s)"

definition on_state :: "('s \<Rightarrow> 's) \<Rightarrow> 's run_state \<Rightarrow> 's run_state" where
  "on_state f w = w\<lparr>ru_state := f (ru_state w)\<rparr>"

text \<open>\<open>append_event\<close>: the row's number, 0 for a session that is gone.\<close>

definition put_row ::
  "('d, 't, 'z, 'tz) batch_env \<Rightarrow> EventKind \<Rightarrow> session_state run_state \<Rightarrow> nat \<times> session_state run_state" where
  "put_row B k w =
     ((case hs_log (ru_state w) of Some l \<Rightarrow> next_seq l | None \<Rightarrow> 0),
      on_state (append_event (ba_clock B (log_pos (ru_state w))) k) w)"

definition ABORTED_BEFORE_DISPATCH :: string where "ABORTED_BEFORE_DISPATCH = ''ABORTED_BEFORE_DISPATCH''"

definition checkpoint :: "('d, 't, 'z, 'tz) batch_env \<Rightarrow> session_state run_state \<Rightarrow> string option" where
  "checkpoint B w =
     (case hs_log (ru_state w) of
        None \<Rightarrow> Some (''session '' @ dec (ba_session B) @ '' vanished'')
      | Some l \<Rightarrow> ba_flush_error B (next_seq l))"

definition append_tool_result ::
  "('d, 't, 'z, 'tz) batch_env \<Rightarrow> nat \<Rightarrow> string \<Rightarrow> string option \<Rightarrow> bool \<Rightarrow> string \<Rightarrow> bool
   \<Rightarrow> session_state run_state \<Rightarrow> session_state run_state" where
  "append_tool_result B call_seq skill call_id ok summary trusted w =
     snd (put_row B (ToolResult Append call_seq skill call_id ok summary trusted False) w)"

definition REPEAT_LINE :: string where
  "REPEAT_LINE = ''loop guard: called repeatedly with identical arguments '' @ em_dash @ '' reminder injected''"

fun inject_notices ::
  "('d, 't, 'z, 'tz) batch_env \<Rightarrow> string list \<Rightarrow> session_state run_state \<Rightarrow> session_state run_state" where
  "inject_notices B [] w = w"
| "inject_notices B (n # ns) w =
     inject_notices B ns (snd (put_row B (ContextInjected Append ToolNotice n) (on_state (log_line ''WARN'' REPEAT_LINE) w)))"

definition observe_call ::
  "('d, 't, 'z, 'tz) batch_env \<Rightarrow> string \<Rightarrow> json \<Rightarrow> session_state run_state \<Rightarrow> session_state run_state" where
  "observe_call B skill args w =
     (case observe (h_ser (ba_host B)) skill args (ps_tracker (ru_state w)) of
        (extra, t) \<Rightarrow>
          (let w1 = on_state (\<lambda>s. s\<lparr>ps_tracker := t\<rparr>) w
           in case extra of None \<Rightarrow> w1 | Some n \<Rightarrow> inject_notices B [n] w1))"

definition is_fs_skill :: "string \<Rightarrow> bool" where
  "is_fs_skill name \<longleftrightarrow> name = ''read-file'' \<or> name = ''write-file'' \<or> name = ''edit-file''"

definition reconcile_instructions_after_fs ::
  "('d, 't, 'z, 'tz) batch_env \<Rightarrow> session_state run_state \<Rightarrow> session_state run_state" where
  "reconcile_instructions_after_fs B w =
     (case hs_log (ru_state w) of
        None \<Rightarrow> w
      | Some l \<Rightarrow>
          (case refresh_instructions (ba_turn B (next_seq l)) l of
             (False, _) \<Rightarrow> w
           | (True, l') \<Rightarrow>
               on_state (\<lambda>s. log_line ''INFO'' (''workspace instructions changed on disk '' @ em_dash @ '' snapshot updated'')
                 (put_log l' s)) w))"

section \<open>The sub-agent of a dispatch\<close>

definition sub_agent ::
  "('d, 't, 'z, 'tz) batch_env \<Rightarrow> nat \<Rightarrow> session_state run_state \<Rightarrow> session_state SubAgent" where
  "sub_agent B call_seq w =
     (let root = cwd_in (ba_default_cwd B) (ru_state w); planning = ss_plan (ru_state w);
          reader_root = (case ba_reader_root B of Some r \<Rightarrow> r | None \<Rightarrow> root)
      in root_agent\<lparr>sa_summarizer := True, sa_cancel := True, sa_spill_label := Some (dec (ba_session B)),
           sa_brokers := True, sa_session_id := Some (ba_session B), sa_plan_active := planning, sa_cwd := Some root,
           sa_policies := session_policies (ba_host B) (ba_mode B call_seq) planning root reader_root
             (if config_is_empty (ba_hooks B) then [] else [hooks_policy (ba_hook_ext B) (ba_hooks B)]),
           sa_ask_denied := ba_ask_denied B call_seq, sa_failure_sink := ba_failure_sink B, sa_log_seq := Some call_seq\<rparr>)"

definition after_report ::
  "('d, 't, 'z, 'tz) batch_env \<Rightarrow> nat \<Rightarrow> string \<Rightarrow> string option \<Rightarrow> bool \<Rightarrow> RunReport
   \<Rightarrow> session_state run_state \<Rightarrow> session_state run_state" where
  "after_report B call_seq skill call_id trusted report w0 =
     (let w1 = (case rr_approval report of
                  None \<Rightarrow> w0
                | Some r \<Rightarrow> snd (put_row B (Approval (ar_skill r) (ar_preview r) (ar_decision r)) w0));
          out = rr_outcome report;
          w2 = append_tool_result B call_seq skill call_id (so_ok out) (so_summary out) trusted w1;
          w3 = (if so_ok out \<and> is_fs_skill skill then reconcile_instructions_after_fs B w2 else w2)
      in inject_notices B (rr_notices report) w3)"

section \<open>One native call\<close>

datatype BatchEnd = Continue | Concluded | Aborted

definition call_row :: "NativeToolCall \<Rightarrow> EventKind" where
  "call_row c = ToolCall (nc_name c) (nc_name c @ '' '' @ nc_arguments c) [] (Some (nc_id c)) (Some (nc_arguments c))"

text \<open>A failed result the harness writes itself.\<close>

definition refuse_call ::
  "('d, 't, 'z, 'tz) batch_env \<Rightarrow> nat \<Rightarrow> NativeToolCall \<Rightarrow> string \<Rightarrow> session_state run_state \<Rightarrow> session_state run_state" where
  "refuse_call B call_seq c msg w = append_tool_result B call_seq (nc_name c) (Some (nc_id c)) False msg True w"

definition unflushed :: "string \<Rightarrow> string" where
  "unflushed e = ABORTED_BEFORE_DISPATCH @ '': session log could not be flushed ('' @ e @ '')''"

definition bad_json :: "string \<Rightarrow> NativeToolCall \<Rightarrow> string" where
  "bad_json e c = ''invalid JSON in tool-call arguments ('' @ e @ ''); raw: '' @ nc_arguments c"

definition MAX_TOOL_HOPS :: nat where "MAX_TOOL_HOPS = 12"

definition object_values :: "(json \<Rightarrow> string) \<Rightarrow> json \<Rightarrow> string list" where
  "object_values print args =
     (case args of
        JObject m \<Rightarrow> map (\<lambda>(k, v). case v of JString s \<Rightarrow> s | other \<Rightarrow> print other) m
      | _ \<Rightarrow> [])"

definition run_native_one ::
  "('d, 't, 'z, 'tz) batch_env \<Rightarrow> registry \<Rightarrow> bool \<Rightarrow> bool \<Rightarrow> NativeToolCall \<Rightarrow> session_state run_state
   \<Rightarrow> (BatchEnd \<times> session_state run_state) option" where
  "run_native_one B reg over_limit ptc c w0 =
     (case put_row B (call_row c) w0 of
        (call_seq, w) \<Rightarrow>
          (case checkpoint B w of
             Some e \<Rightarrow> Some (Aborted, refuse_call B call_seq c (unflushed e) w)
           | None \<Rightarrow>
               if over_limit then
                 Some (Continue, observe_call B (nc_name c)
                   (case ba_parse B (nc_arguments c) of Inr v \<Rightarrow> v | Inl _ \<Rightarrow> JString (nc_arguments c))
                   (refuse_call B call_seq c (''tool-hop limit ('' @ dec MAX_TOOL_HOPS @ '') reached '' @ em_dash
                      @ '' call not executed'') w))
               else if ptc \<and> \<not> direct_callable (nc_name c) then
                 Some (Continue, refuse_call B call_seq c (direct_call_refused (nc_name c)) w)
               else if is_control_skill (nc_name c) then
                 (case ba_parse B (nc_arguments c) of
                    Inl e \<Rightarrow> Some (Continue, refuse_call B call_seq c (bad_json e c) w)
                  | Inr args \<Rightarrow>
                      map_option (\<lambda>(out, conclude, w1).
                        (if conclude then Concluded else Continue,
                         append_tool_result B call_seq (nc_name c) (Some (nc_id c)) (so_ok out) (so_summary out)
                           (control_trusted (nc_name c)) w1))
                        (handle_control (ba_control B call_seq) (nc_name c) args
                           (nc_name c @ '' '' @ nc_arguments c) [] call_seq w))
               else
                 (case skill_get reg (nc_name c) of
                    None \<Rightarrow>
                      Some (Continue, observe_call B (nc_name c) (JString (nc_arguments c))
                        (refuse_call B call_seq c (''unknown skill `'' @ nc_name c @ ''`'') w))
                  | Some sk \<Rightarrow>
                      (case ba_parse B (nc_arguments c) of
                         Inl e \<Rightarrow> Some (Continue, refuse_call B call_seq c (bad_json e c) w)
                       | Inr args \<Rightarrow>
                           (case run_report (sub_agent B call_seq w) (ba_run B sk call_seq)
                                   \<lparr>iv_skill = sk_name sk, iv_args = args, iv_raw_args = object_values (ba_print B) args,
                                    iv_expectation = []\<rparr> w of
                              (report, w1) \<Rightarrow>
                                Some (Continue, after_report B call_seq (nc_name c) (Some (nc_id c)) (sk_trusted sk) report w1))))))"

fun answer_unrun ::
  "('d, 't, 'z, 'tz) batch_env \<Rightarrow> NativeToolCall list \<Rightarrow> string \<Rightarrow> session_state run_state \<Rightarrow> session_state run_state" where
  "answer_unrun B [] reason w = w"
| "answer_unrun B (c # cs) reason w0 =
     (case put_row B (call_row c) w0 of (call_seq, w) \<Rightarrow> answer_unrun B cs reason (refuse_call B call_seq c reason w))"

section \<open>A batch\<close>

definition parallel_call ::
  "('d, 't, 'z, 'tz) batch_env \<Rightarrow> registry \<Rightarrow> NativeToolCall \<Rightarrow> (skill_info \<times> json) option" where
  "parallel_call B reg c =
     (case skill_get reg (nc_name c) of
        None \<Rightarrow> None
      | Some sk \<Rightarrow>
          if is_control_skill (sk_name sk) then None
          else (case ba_parse B (nc_arguments c) of
                  Inl _ \<Rightarrow> None
                | Inr args \<Rightarrow> if sk_parallel sk args then Some (sk, args) else None))"

text \<open>The rows of a chunk, in order, with their numbers.\<close>

fun put_calls ::
  "('d, 't, 'z, 'tz) batch_env \<Rightarrow> NativeToolCall list \<Rightarrow> session_state run_state \<Rightarrow> nat list \<times> session_state run_state" where
  "put_calls B [] w = ([], w)"
| "put_calls B (c # cs) w =
     (case put_row B (call_row c) w of (n, w1) \<Rightarrow> (case put_calls B cs w1 of (ns, w2) \<Rightarrow> (n # ns, w2)))"

text \<open>An order of the positions below \<open>n\<close>: what a list names first, then the rest.\<close>

definition positions :: "nat \<Rightarrow> nat list \<Rightarrow> nat list" where
  "positions n xs = (let a = filter (\<lambda>i. i < n) (remdups xs) in a @ filter (\<lambda>i. i \<notin> set a) [0..<n])"

record job =
  jb_agent :: "session_state SubAgent"
  jb_env :: "session_state run_env"
  jb_call :: invocation
  jb_trusted :: bool

fun run_jobs ::
  "job list \<Rightarrow> nat list \<Rightarrow> session_state run_state \<Rightarrow> (nat \<Rightarrow> RunReport option) \<times> session_state run_state" where
  "run_jobs jobs [] w = (Map.empty, w)"
| "run_jobs jobs (i # is) w =
     (case run_report (jb_agent (jobs ! i)) (jb_env (jobs ! i)) (jb_call (jobs ! i)) w of
        (r, w1) \<Rightarrow> (case run_jobs jobs is w1 of (m, w2) \<Rightarrow> (m(i \<mapsto> r), w2)))"

fun land_reports ::
  "('d, 't, 'z, 'tz) batch_env \<Rightarrow> (NativeToolCall \<times> nat \<times> bool \<times> RunReport) list \<Rightarrow> session_state run_state
   \<Rightarrow> session_state run_state" where
  "land_reports B [] w = w"
| "land_reports B ((c, n, trusted, r) # rest) w =
     land_reports B rest (after_report B n (nc_name c) (Some (nc_id c)) trusted r w)"

text \<open>The chunk's skills and arguments; the group holds none that does not resolve.\<close>

fun prepare :: "('d, 't, 'z, 'tz) batch_env \<Rightarrow> registry \<Rightarrow> NativeToolCall list \<Rightarrow> (skill_info \<times> json) list option" where
  "prepare B reg [] = Some []"
| "prepare B reg (c # cs) =
     (case (parallel_call B reg c, prepare B reg cs) of (Some p, Some ps) \<Rightarrow> Some (p # ps) | _ \<Rightarrow> None)"

definition make_job ::
  "('d, 't, 'z, 'tz) batch_env \<Rightarrow> session_state run_state \<Rightarrow> (skill_info \<times> json) \<times> nat \<Rightarrow> job" where
  "make_job B w p = (case p of ((sk, args), n) \<Rightarrow>
     \<lparr>jb_agent = sub_agent B n w, jb_env = ba_run B sk n,
      jb_call = \<lparr>iv_skill = sk_name sk, iv_args = args, iv_raw_args = object_values (ba_print B) args, iv_expectation = []\<rparr>,
      jb_trusted = sk_trusted sk\<rparr>)"

definition NOT_FLUSHED :: string where
  "NOT_FLUSHED = ''not executed '' @ em_dash @ '' the session log could not be flushed''"

definition PLAN_APPROVED :: string where
  "PLAN_APPROVED = ''not executed '' @ em_dash @ '' the turn ended when the plan was approved''"

definition run_chunk ::
  "('d, 't, 'z, 'tz) batch_env \<Rightarrow> registry \<Rightarrow> NativeToolCall list \<Rightarrow> NativeToolCall list \<Rightarrow> session_state run_state
   \<Rightarrow> (BatchEnd \<times> session_state run_state) option" where
  "run_chunk B reg chunk unrun w0 =
     (case put_calls B chunk w0 of
        (seqs, w) \<Rightarrow>
          (case checkpoint B w of
             Some e \<Rightarrow>
               Some (Aborted, answer_unrun B unrun NOT_FLUSHED
                 (fold (\<lambda>(c, n). refuse_call B n c (unflushed e)) (zip chunk seqs) w))
           | None \<Rightarrow>
               map_option (\<lambda>ps.
                 (let jobs = map (make_job B w) (zip ps seqs);
                      (reports, w1) = run_jobs jobs (positions (length jobs) (ba_order B (log_pos (ru_state w)))) w
                  in (Continue, land_reports B
                       (map (\<lambda>(i, c, n, j). (c, n, jb_trusted j,
                          case reports i of Some r \<Rightarrow> r | None \<Rightarrow> failed_report []))
                        (zip [0..<length jobs] (zip chunk (zip seqs jobs)))) w1)))
                 (prepare B reg chunk)))"

text \<open>The chunks of a group; \<open>rest\<close> are the calls behind it.\<close>

function run_chunks ::
  "('d, 't, 'z, 'tz) batch_env \<Rightarrow> registry \<Rightarrow> NativeToolCall list \<Rightarrow> NativeToolCall list \<Rightarrow> session_state run_state
   \<Rightarrow> (BatchEnd \<times> session_state run_state) option" where
  "run_chunks B reg grp rest w =
     (if grp = [] \<or> ba_cancelled B (log_pos (ru_state w)) then Some (Continue, w)
      else case run_chunk B reg (take 4 grp) (drop 4 grp @ rest) w of
             Some (Continue, w1) \<Rightarrow> run_chunks B reg (drop 4 grp) rest w1
           | res \<Rightarrow> res)"
  by pat_completeness auto
termination by (relation "measure (\<lambda>(B, reg, g, r, w). length g)") auto

function run_native_batch ::
  "('d, 't, 'z, 'tz) batch_env \<Rightarrow> registry \<Rightarrow> bool \<Rightarrow> bool \<Rightarrow> NativeToolCall list \<Rightarrow> session_state run_state
   \<Rightarrow> (BatchEnd \<times> session_state run_state) option" where
  "run_native_batch B reg over_limit ptc calls w =
     (if calls = [] \<or> ba_cancelled B (log_pos (ru_state w)) then Some (Continue, w)
      else let grp = (if \<not> over_limit \<and> \<not> ptc then takeWhile (\<lambda>c. parallel_call B reg c \<noteq> None) calls else [])
           in if length grp < 2 then
                (case run_native_one B reg over_limit ptc (hd calls) w of
                   None \<Rightarrow> None
                 | Some (end, w1) \<Rightarrow>
                     if end \<noteq> Continue
                     then Some (end, answer_unrun B (tl calls) (if end = Aborted then NOT_FLUSHED else PLAN_APPROVED) w1)
                     else run_native_batch B reg over_limit ptc (tl calls) w1)
              else (case run_chunks B reg grp (drop (length grp) calls) w of
                      Some (Continue, w1) \<Rightarrow> run_native_batch B reg over_limit ptc (drop (length grp) calls) w1
                    | res \<Rightarrow> res))"
  by pat_completeness auto
termination
  by (relation "measure (\<lambda>(B, reg, ov, p, calls, w). length calls)") (auto simp: neq_Nil_conv)

declare run_chunks.simps [simp del] run_native_batch.simps [simp del]

definition native_calls_to_json :: "(json \<Rightarrow> string) \<Rightarrow> NativeToolCall list \<Rightarrow> string" where
  "native_calls_to_json print calls =
     print (JArray (map (\<lambda>c. JObject [(''id'', JString (nc_id c)), (''type'', JString ''function''),
       (''function'', JObject [(''name'', JString (nc_name c)), (''arguments'', JString (nc_arguments c))])]) calls))"

section \<open>Which calls are answered\<close>

definition result_id :: "EventKind \<Rightarrow> string option" where
  "result_id k = (case k of ToolResult _ _ _ i _ _ _ _ \<Rightarrow> i | _ \<Rightarrow> None)"

text \<open>The ids of the native calls a session's log has a result for, oldest first.\<close>

definition reply_ids :: "'a hook_state_scheme \<Rightarrow> string list" where
  "reply_ids s = (case hs_log s of None \<Rightarrow> [] | Some l \<Rightarrow> List.map_filter (\<lambda>e. result_id (kind e)) (events l))"

text \<open>A step that answers nothing and keeps the session where it was.\<close>

definition keeps :: "'a hook_state_scheme \<Rightarrow> 'a hook_state_scheme \<Rightarrow> bool" where
  "keeps s s' \<longleftrightarrow> reply_ids s' = reply_ids s \<and> (hs_log s' = None \<longleftrightarrow> hs_log s = None)"

lemma keeps_refl [simp]: "keeps s s" by (simp add: keeps_def)

lemma keeps_store [simp]: "keeps s (s\<lparr>ss_store := st\<rparr>)" by (simp add: keeps_def reply_ids_def)

lemma keeps_trans: "keeps s t \<Longrightarrow> keeps t u \<Longrightarrow> keeps s u" by (simp add: keeps_def)

lemma keeps_log: "hs_log s' = hs_log s \<Longrightarrow> keeps s s'"
  by (simp add: keeps_def reply_ids_def)

lemma map_filter_snoc: "List.map_filter f (xs @ [x]) = List.map_filter f xs @ (case f x of None \<Rightarrow> [] | Some y \<Rightarrow> [y])"
  by (induction xs) (simp_all add: List.map_filter_simps split: option.splits)

lemma ids_log_append:
  "List.map_filter (\<lambda>e. result_id (kind e)) (events (log_append l t k)) =
     List.map_filter (\<lambda>e. result_id (kind e)) (events l) @ (case result_id k of None \<Rightarrow> [] | Some i \<Rightarrow> [i])"
  by (simp add: log_append_def map_filter_snoc List.map_filter_simps split: option.splits)

lemma keeps_append:
  assumes "hs_log s' = map_option (\<lambda>l. log_append l t k) (hs_log s)" and "result_id k = None"
  shows "keeps s s'"
  using assms by (cases "hs_log s") (simp_all add: keeps_def reply_ids_def ids_log_append)

lemma keeps_append_event: "result_id k = None \<Longrightarrow> keeps s (append_event t k s)"
  by (rule keeps_append [where t = t and k = k]) (simp_all add: append_event_def)

lemma keeps_log_line: "keeps s (log_line lvl m s)"
  by (rule keeps_log) (simp add: log_line_def)

lemma keeps_put_row: "result_id k = None \<Longrightarrow> keeps (ru_state w) (ru_state (snd (put_row B k w)))"
  by (simp add: put_row_def on_state_def keeps_append_event)

lemma keeps_record_one: "keeps s (record_one hx e session row s)"
proof -
  obtain c d code where row: "row = (c, d, code)" by (cases row)
  let ?s = "if d = ''error'' then log_line ''WARN'' (hook_event_name e @ '' hook failed and was ignored: '' @ c) s else s"
  have "keeps s ?s" by (simp add: keeps_log_line)
  moreover have "keeps ?s (append_event (hx_now hx) (EventKind.Hook (hook_event_name e) c d code) ?s)"
    by (rule keeps_append_event) (simp add: result_id_def)
  ultimately show ?thesis
    unfolding record_one_def row prod.case Let_def by (cases session) (auto intro: keeps_trans)
qed

lemma keeps_fold: "(\<And>x s. keeps s (f x s)) \<Longrightarrow> keeps s (fold f xs s)"
  by (induction xs arbitrary: s) (auto intro: keeps_trans)

lemma keeps_record_merged: "keeps s (record_merged hx e session m s)"
  unfolding record_merged_def Let_def
  by (auto intro!: keeps_log_line keeps_fold keeps_record_one intro: keeps_trans)

definition quiet_policy :: "'a hook_state_scheme ToolPolicy \<Rightarrow> bool" where
  "quiet_policy p \<longleftrightarrow> (\<forall>v s. keeps s (snd (pre_execute p v s))) \<and> (\<forall>v out s. keeps s (snd (post_execute p v out s)))"

lemma quiet_hooks: "quiet_policy (hooks_policy hx cfg)"
  by (auto simp: quiet_policy_def hooks_policy_def default_policy_def hooks_pre_def hooks_post_def Let_def keeps_record_merged)

lemma quiet_log:
  assumes "\<And>v s. hs_log (snd (pre_execute p v s)) = hs_log s" and "\<And>v out s. hs_log (snd (post_execute p v out s)) = hs_log s"
  shows "quiet_policy p"
  using assms by (simp add: quiet_policy_def keeps_log)

lemma quiet_built_in:
  "quiet_policy (permission_policy h mode root)" "quiet_policy (plan_mode_policy planning)"
  "quiet_policy (read_before_edit h rr)" "quiet_policy (repeat_reminder h)"
  by (rule quiet_log; auto simp: policy_defs read_before_edit_post_def read_before_edit_pre_def Let_def
      split: prod.splits option.splits if_splits)+

lemma quiet_session_policies:
  "list_all quiet_policy (session_policies h mode planning root rr
     (if config_is_empty cfg then [] else [hooks_policy hx cfg]))"
  by (simp add: session_policies_def quiet_built_in quiet_hooks)

lemma keeps_pre_chain: "list_all quiet_policy ps \<Longrightarrow> keeps s (snd (snd (pre_chain ps v s)))"
proof (induction ps arbitrary: s)
  case (Cons p ps)
  obtain d s' where p: "pre_execute p v s = (d, s')" by fastforce
  have k: "keeps s s'" using Cons.prems p by (auto simp: quiet_policy_def) (metis snd_conv)
  have "keeps s' (snd (snd (pre_chain ps v s')))" using Cons by simp
  then show ?case using k p by (cases d) (auto split: prod.splits intro: keeps_trans)
qed simp

lemma keeps_post_chain: "list_all quiet_policy ps \<Longrightarrow> keeps s (snd (snd (snd (post_chain ps v out sm ex b s))))"
proof (induction ps arbitrary: s sm ex b)
  case (Cons p ps)
  obtain d s' where p: "post_execute p v out s = (d, s')" by fastforce
  have k: "keeps s s'" using Cons.prems p by (auto simp: quiet_policy_def) (metis snd_conv)
  show ?case using k p Cons by (cases d) (auto intro: keeps_trans)
qed simp

definition quiet_body :: "session_state run_env \<Rightarrow> bool" where
  "quiet_body env \<longleftrightarrow> (\<forall>args a s. keeps s (snd (rv_body env args a s)))"

lemma emit_state [simp]: "ru_state (emit evs w) = ru_state w" by (simp add: emit_def)

lemma finish_call_ru_state [simp]: "ru_state (finish_call a env tid sk pv out veto output w) = ru_state w"
  by (simp add: finish_call_def Let_def)

lemma keeps_run_report:
  assumes "list_all quiet_policy (sa_policies a)" and "quiet_body env"
  shows "keeps (ru_state w) (ru_state (snd (run_report a env iv w)))"
proof -
  have pre: "keeps s (snd (snd (snd (snd (pre_decision a ans v s)))))" for ans v s
    using keeps_pre_chain [OF assms(1), of s v] by (auto simp: pre_decision_def split: prod.splits)
  have den: "keeps (ru_state w') (ru_state (snd (run_denied a env v tid d ap ctx w')))" for v tid d ap ctx w'
    using keeps_post_chain [OF assms(1), of "ru_state w'" v "\<lparr>so_ok = False, so_summary = d\<rparr>" d "[]" False]
    by (auto simp: run_denied_def Let_def split: prod.splits)
  have alw: "keeps (ru_state w') (ru_state (snd (run_allowed a env iv v tid ap ctx w')))" for v tid ap ctx w'
  proof -
    obtain res s1 where b: "rv_body env (iv_args iv) (child a tid) (ru_state w') = (res, s1)" by fastforce
    have k: "keeps (ru_state w') s1" using assms(2) b unfolding quiet_body_def by (metis snd_conv)
    obtain sp out0 evs where s: "spill a env (cv_skill v) tid (body_outcome a env (cv_skill v) res) = (sp, out0, evs)"
      using prod_cases3 by blast
    show ?thesis
      using keeps_trans [OF k keeps_post_chain [OF assms(1), of s1 v out0 "so_summary out0" "[]" False]]
      by (auto simp: run_allowed_def b s Let_def split: prod.splits)
  qed
  show ?thesis
    unfolding run_report_def Let_def
    using pre [of "ru_state w" "rv_answer env" "call_view a iv"]
    by (auto split: prod.splits option.splits intro: keeps_trans [OF _ den] keeps_trans [OF _ alw])
qed

text \<open>A control writes rows of its own, never a result.\<close>

lemma keeps_put_same: "keeps s (put_log (log_of s) s)"
  by (rule keeps_log) (cases "hs_log s"; simp add: put_log_def log_of_def)

lemma keeps_put_log: "result_id k = None \<Longrightarrow> keeps s (put_log (log_append (log_of s) t k) s)"
  by (rule keeps_append [where t = t and k = k]) (cases "hs_log s"; simp add: put_log_def log_of_def)+

lemma keeps_same_log: "hs_log t = hs_log s' \<Longrightarrow> keeps s s' \<Longrightarrow> keeps s t"
  by (simp add: keeps_def reply_ids_def)

lemma keeps_todo: "control_todo C args s = (out, s') \<Longrightarrow> keeps s s'"
  by (auto simp: control_todo_def todo_write_def result_id_def split: sum.splits intro!: keeps_put_log)

lemma keeps_plan:
  assumes "control_plan C args s = (out, ends, s')"
  shows "keeps s s'"
proof -
  obtain r p l e where x: "exit_plan_mode (cx_now C) args (cx_answer C (plan_question args)) (ss_plan s) (log_of s) = (r, p, l, e)"
    using prod_cases4 by blast
  have "l = log_of s \<or> l = log_append (log_of s) (cx_now C) (PlanMode False)"
    using x by (auto simp: exit_plan_mode_def Let_def split: option.splits if_splits)
  moreover have "hs_log s' = hs_log (put_log l s)" using assms by (auto simp: control_plan_def x)
  ultimately show ?thesis
    using keeps_put_same [of s] keeps_put_log [of "PlanMode False" s "cx_now C"] by (auto simp: result_id_def intro: keeps_same_log)
qed

lemma put_goal_log: "\<exists>t x. gs_log (put_goal now y st) = log_append (gs_log st) t (goal_event x)"
  by (intro exI) (rule put_goal_sel(3))

lemma put_goal_log': "\<exists>t x. gs_log (put_goal now y (st\<lparr>gs_next_goal := n, gs_armed := b\<rparr>)) = log_append (gs_log st) t (goal_event x)"
  using put_goal_log [of now y "st\<lparr>gs_next_goal := n, gs_armed := b\<rparr>"] by simp

lemma keeps_set: "hs_log s = Some l \<Longrightarrow> result_id k = None \<Longrightarrow> keeps s (s\<lparr>hs_log := Some (log_append l t k)\<rparr>)"
  by (rule keeps_append [where t = t and k = k]) simp_all

lemma goal_log_step:
  "create_goal now args src g = (a, g') \<Longrightarrow> gs_log g' = gs_log g \<or> (\<exists>t x. gs_log g' = log_append (gs_log g) t (goal_event x))"
  "update_goal now args src g = (a, g') \<Longrightarrow> gs_log g' = gs_log g \<or> (\<exists>t x. gs_log g' = log_append (gs_log g) t (goal_event x))"
  using create_goal_cases [of now args src g a g'] update_goal_cases [of now args src g a g'] put_goal_log put_goal_log' by metis+

lemma keeps_goal_view:
  assumes "gs_log g = log_of s \<or> (\<exists>t x. gs_log g = log_append (log_of s) t (goal_event x))"
  shows "keeps s (put_goal_view g s)"
proof (rule keeps_same_log)
  show "hs_log (put_goal_view g s) = hs_log (put_log (gs_log g) s)" by (simp add: put_goal_view_def)
  show "keeps s (put_log (gs_log g) s)"
    using assms keeps_put_same [of s] keeps_put_log [where s = s] by (auto simp: result_id_def goal_event_def)
qed

lemma keeps_goal:
  assumes "control_goal C name args s = (out, s')"
  shows "keeps s s'"
proof -
  have lg: "gs_log (goal_view s) = log_of s" by (simp add: goal_view_def)
  show ?thesis
  proof (cases "name = CREATE_GOAL_NAME")
    case True
    obtain r g where c: "create_goal (cx_now C) args (cx_source C) (goal_view s) = (r, g)" by fastforce
    show ?thesis using assms keeps_goal_view [of g s] goal_log_step(1) [OF c] lg
      unfolding control_goal_def if_P [OF True] c prod.case by (cases r) auto
  next
    case False
    obtain r g where c: "update_goal (cx_now C) args (cx_source C) (goal_view s) = (r, g)" by fastforce
    show ?thesis
    proof (cases "name = GET_GOAL_NAME")
      case True
      then show ?thesis using assms unfolding control_goal_def if_not_P [OF False] if_P [OF True] by (cases "get_goal (goal_view s)") auto
    next
      case no: False
      show ?thesis using assms keeps_goal_view [of g s] goal_log_step(2) [OF c] lg
        unfolding control_goal_def if_not_P [OF False] if_not_P [OF no] c prod.case by (cases r) auto
    qed
  qed
qed

definition one_row :: "SessionLog \<Rightarrow> SessionLog \<Rightarrow> bool" where
  "one_row l l' \<longleftrightarrow> l' = l \<or> (\<exists>t k. result_id k = None \<and> l' = log_append l t k)"

lemma one_row_intros: "one_row l l" "result_id k = None \<Longrightarrow> one_row l (log_append l t k)"
  unfolding one_row_def by blast+

lemma one_row_simps [simp]: "one_row l l" "one_row l (log_append l t (Schedule i op p ru f af ev acc))"
  by (rule one_row_intros; simp add: result_id_def)+

lemma keeps_one_row: "one_row (log_of s) l \<Longrightarrow> keeps s (put_log l s)"
  using keeps_put_same [of s] keeps_put_log [where s = s] unfolding one_row_def by blast

lemma keeps_rem_view:
  assumes "one_row (log_of s) (rs_log r)"
  shows "keeps s (put_rem_view r s)"
  using keeps_same_log [OF _ keeps_one_row [OF assms], of "put_rem_view r s"] by (simp add: put_rem_view_def)

lemma rem_log_step:
  "schedule_delete now ok args st = (r, st') \<Longrightarrow> one_row (rs_log st) (rs_log st')"
  "schedule_create CH now secs ok args st = (r, st') \<Longrightarrow> one_row (rs_log st) (rs_log st')"
  by (auto simp: schedule_delete_def schedule_create_def Let_def refold_schedules_def split: if_splits sum.splits)

lemma keeps_schedule:
  assumes "schedule_control C name args s = Some (out, s')"
  shows "keeps s s'"
proof -
  have lg: "rs_log (rem_view s) = log_of s" by (simp add: rem_view_def)
  define ok where "ok = (barrier_error C s = None)"
  obtain rd sd where d: "schedule_delete (cx_now C) ok args (rem_view s) = (rd, sd)" by fastforce
  obtain rc sc where c: "schedule_create (cx_chrono C) (cx_now C) (cx_secs C) ok args (rem_view s) = (rc, sc)" by fastforce
  have "s' = s \<or> s' = put_rem_view sd s \<or> s' = put_rem_view sc s"
    using assms unfolding schedule_control_def Let_def ok_def [symmetric] d c prod.case
    by (auto split: if_splits sched_outcome.splits sched_error.splits)
  then show ?thesis
    using keeps_rem_view [where s = s and r = sd] keeps_rem_view [where s = s and r = sc] rem_log_step(1) [OF d] rem_log_step(2) [OF c] lg by auto
qed

lemma keeps_memory:
  assumes "memory_control C name args s = Some (out, s')"
  shows "keeps s s'"
proof -
  have rem: "memory_remember C args s = Some (out, s') \<Longrightarrow> keeps s s'"
  proof -
    assume a: "memory_remember C args s = Some (out, s')"
    have r: "keeps s (s\<lparr>hs_log := cur\<rparr>)" if rs: "remember_session env now sid f (hs_log s) = (x, cur)" for env now sid f x cur
    proof (cases "hs_log s")
      case (Some l)
      with rs have "cur = Some l \<or> (\<exists>sm fs th. cur = Some (log_append l now (SessionMemoryRow sm fs th ''model'')))"
        by (auto simp: remember_session_def split: sum.splits option.splits prod.splits)
      then show ?thesis using keeps_set [OF Some, of _ now] Some by (auto simp: result_id_def intro: keeps_log)
    qed (use rs in \<open>auto simp: remember_session_def intro!: keeps_log\<close>)
    show ?thesis
      using a r by (auto simp: memory_remember_def split: sum.splits if_splits prod.splits option.splits Added.splits intro: r)
  qed
  have fr: "\<exists>st. snd (memory_forget C args s) = s\<lparr>ss_store := st\<rparr>" "\<exists>st. snd (memory_recall C args s) = s\<lparr>ss_store := st\<rparr>"
    by (rule forget_effect recall_effect)+
  then have f: "keeps s (snd (memory_forget C args s))" and r: "keeps s (snd (memory_recall C args s))"
    by (auto intro!: keeps_log)
  show ?thesis
    using assms rem f r unfolding memory_control_def by (auto split: if_splits)
qed

lemma keeps_control:
  assumes "handle_control C name args preview expectation n w = Some (out, conclude, w')"
  shows "keeps (ru_state w) (ru_state w')"
proof -
  obtain s' where run: "handle_control_body C name args (ru_state w) = Some (out, conclude, s')" and w': "ru_state w' = s'"
    using assms by (auto simp: handle_control_def Let_def)
  have "keeps (ru_state w) s'"
    using run keeps_todo keeps_plan keeps_schedule keeps_memory keeps_goal unfolding handle_control_body_def
    by (auto split: if_splits prod.splits)
  with w' show ?thesis by simp
qed

section \<open>Every call of a batch is answered once\<close>

definition answers :: "string list \<Rightarrow> session_state run_state \<Rightarrow> session_state run_state \<Rightarrow> bool" where
  "answers ids w w' \<longleftrightarrow> (hs_log (ru_state w) \<noteq> None \<longrightarrow>
     hs_log (ru_state w') \<noteq> None \<and> reply_ids (ru_state w') = reply_ids (ru_state w) @ ids)"

lemma answers_trans: "answers xs w w1 \<Longrightarrow> answers ys w1 w2 \<Longrightarrow> answers (xs @ ys) w w2"
  by (auto simp: answers_def)

lemma answers_keeps: "keeps (ru_state w) (ru_state w') \<Longrightarrow> answers [] w w'"
  by (auto simp: answers_def keeps_def)

lemma answers_refl [simp]: "answers [] w w" by (simp add: answers_def)

lemma answers_then: "answers xs w w1 \<Longrightarrow> keeps (ru_state w1) (ru_state w2) \<Longrightarrow> answers xs w w2"
  using answers_trans [OF _ answers_keeps, of xs w w1 w2] by simp

lemma answers_after: "keeps (ru_state w) (ru_state w1) \<Longrightarrow> answers xs w1 w2 \<Longrightarrow> answers xs w w2"
  using answers_trans [OF answers_keeps, of w w1 xs w2] by simp

lemma result_id_result [simp]: "result_id (ToolResult op n sk i ok sm tr pr) = i" by (simp add: result_id_def)

lemma answers_result: "answers [i] w (append_tool_result B n sk (Some i) ok sm tr w)"
  by (auto simp: answers_def append_tool_result_def put_row_def on_state_def append_event_def reply_ids_def
      ids_log_append)

lemma answers_refuse: "answers [nc_id c] w (refuse_call B n c msg w)"
  unfolding refuse_call_def by (rule answers_result)

lemma keeps_notice: "keeps (ru_state w) (ru_state (inject_notices B ns w))"
proof (induction ns arbitrary: w)
  case (Cons x ns)
  let ?w1 = "on_state (log_line ''WARN'' REPEAT_LINE) w"
  have "keeps (ru_state w) (ru_state ?w1)" by (simp add: on_state_def keeps_log_line)
  moreover have "keeps (ru_state ?w1) (ru_state (snd (put_row B (ContextInjected Append ToolNotice x) ?w1)))"
    by (rule keeps_put_row) (simp add: result_id_def)
  ultimately show ?case using Cons unfolding inject_notices.simps by (blast intro: keeps_trans)
qed simp

lemma keeps_observe: "keeps (ru_state w) (ru_state (observe_call B sk args w))"
proof -
  obtain ex t where o: "observe (h_ser (ba_host B)) sk args (ps_tracker (ru_state w)) = (ex, t)" by fastforce
  have "keeps (ru_state w) (ru_state (on_state (\<lambda>s. s\<lparr>ps_tracker := t\<rparr>) w))" by (rule keeps_log) (simp add: on_state_def)
  then show ?thesis
    unfolding observe_call_def o prod.case Let_def by (cases ex) (auto intro: keeps_trans keeps_notice simp del: inject_notices.simps)
qed

lemma refresh_one_row: "one_row l (snd (refresh_instructions E l))"
proof -
  have c: "one_row l (log_append l t (ContextInjected op src txt'))" for t op src txt'
    by (rule one_row_intros) (simp add: result_id_def)
  show ?thesis by (simp add: refresh_instructions_def Let_def c)
qed

lemma keeps_reconcile: "keeps (ru_state w) (ru_state (reconcile_instructions_after_fs B w))"
proof (cases "hs_log (ru_state w)")
  case (Some l)
  obtain ch l' where r: "refresh_instructions (ba_turn B (next_seq l)) l = (ch, l')" by fastforce
  have "keeps (ru_state w) (put_log l' (ru_state w))"
    using keeps_one_row [of "ru_state w" l'] refresh_one_row [of l "ba_turn B (next_seq l)"] Some r by (simp add: log_of_def)
  then show ?thesis
    using r Some by (cases ch) (auto simp: reconcile_instructions_after_fs_def on_state_def intro: keeps_trans keeps_log_line)
qed (simp add: reconcile_instructions_after_fs_def)

lemma answers_after_report: "answers [i] w (after_report B n sk (Some i) tr report w)"
proof -
  define w1 where "w1 = (case rr_approval report of None \<Rightarrow> w
      | Some r \<Rightarrow> snd (put_row B (Approval (ar_skill r) (ar_preview r) (ar_decision r)) w))"
  define w2 where "w2 = append_tool_result B n sk (Some i) (so_ok (rr_outcome report)) (so_summary (rr_outcome report)) tr w1"
  define w3 where "w3 = (if so_ok (rr_outcome report) \<and> is_fs_skill sk then reconcile_instructions_after_fs B w2 else w2)"
  have "keeps (ru_state w) (ru_state w1)"
    by (auto simp: w1_def result_id_def split: option.splits intro!: keeps_put_row)
  moreover have "answers [i] w1 w2" unfolding w2_def by (rule answers_result)
  moreover have "keeps (ru_state w2) (ru_state w3)" by (simp add: w3_def keeps_reconcile)
  ultimately have "answers [i] w w3" by (blast intro: answers_after answers_then)
  then show ?thesis
    unfolding after_report_def Let_def w1_def [symmetric] w2_def [symmetric] w3_def [symmetric]
    by (rule answers_then) (rule keeps_notice)
qed

lemma keeps_call_row: "put_row B (call_row c) w = (n, w') \<Longrightarrow> keeps (ru_state w) (ru_state w')"
  using keeps_put_row [of "call_row c" w B] by (simp add: call_row_def result_id_def)

lemma answers_unrun: "answers (map nc_id cs) w (answer_unrun B cs reason w)"
proof (induction cs arbitrary: w)
  case (Cons c cs)
  obtain n w1 where p: "put_row B (call_row c) w = (n, w1)" by fastforce
  have "answers [nc_id c] w (refuse_call B n c reason w1)"
    by (rule answers_after [OF keeps_call_row [OF p] answers_refuse])
  from answers_trans [OF this Cons] show ?case by (simp add: p)
qed simp

definition quiet_bodies :: "('d, 't, 'z, 'tz) batch_env \<Rightarrow> bool" where
  "quiet_bodies B \<longleftrightarrow> (\<forall>sk n. quiet_body (ba_run B sk n))"

lemma sub_agent_policies: "list_all quiet_policy (sa_policies (sub_agent B n w))"
  unfolding sub_agent_def Let_def by (simp add: quiet_session_policies root_agent_def)

lemma answers_native_one:
  assumes "quiet_bodies B" and "run_native_one B reg over ptc c w0 = Some (end, w')"
  shows "answers [nc_id c] w0 w'"
proof -
  obtain n w where p: "put_row B (call_row c) w0 = (n, w)" by fastforce
  have ref: "answers [nc_id c] w (refuse_call B n c m w)" for m by (rule answers_refuse)
  have obs: "answers [nc_id c] w (observe_call B sk a (refuse_call B n c m w))" for sk a m
    by (rule answers_then [OF answers_refuse keeps_observe])
  have ctl: "answers [nc_id c] w (append_tool_result B n nm (Some (nc_id c)) ok sm tr w1)"
    if "handle_control C nm args pv ex n w = Some (out, cc, w1)" for C nm args pv ex out cc w1 ok sm tr
    by (rule answers_after [OF keeps_control [OF that] answers_result])
  have run: "answers [nc_id c] w (after_report B n nm (Some (nc_id c)) tr rep w1)"
    if "run_report (sub_agent B n w) (ba_run B sk n) iv w = (rep, w1)" for sk iv rep w1 nm tr
    using keeps_run_report [OF sub_agent_policies, of "ba_run B sk n" w B n w iv] assms(1) that
    by (intro answers_after [OF _ answers_after_report]) (simp add: quiet_bodies_def)
  have "answers [nc_id c] w w'"
    using assms(2) unfolding run_native_one_def p prod.case
    by (auto split: option.splits if_splits sum.splits prod.splits intro: ref obs ctl run)
  then show ?thesis by (rule answers_after [OF keeps_call_row [OF p]])
qed

lemma put_calls_keeps: "put_calls B cs w = (ns, w') \<Longrightarrow> keeps (ru_state w) (ru_state w') \<and> length ns = length cs"
proof (induction cs arbitrary: w ns)
  case (Cons c cs)
  obtain n w1 ns' w2 where p: "put_row B (call_row c) w = (n, w1)" "put_calls B cs w1 = (ns', w2)" by fastforce
  then show ?case using Cons keeps_call_row [OF p(1)] by (auto intro: keeps_trans)
qed simp

lemma positions_set: "set (positions n xs) = {0..<n}"
  by (auto simp: positions_def Let_def)

lemma run_jobs_keeps:
  assumes "\<And>i. i \<in> set is \<Longrightarrow> list_all quiet_policy (sa_policies (jb_agent (jobs ! i))) \<and> quiet_body (jb_env (jobs ! i))"
    and "run_jobs jobs is w = (m, w')"
  shows "keeps (ru_state w) (ru_state w')"
  using assms
proof (induction "is" arbitrary: w m w')
  case (Cons i "is")
  obtain r w1 where r: "run_report (jb_agent (jobs ! i)) (jb_env (jobs ! i)) (jb_call (jobs ! i)) w = (r, w1)" by fastforce
  obtain m2 w2 where m: "run_jobs jobs is w1 = (m2, w2)" by fastforce
  have "keeps (ru_state w) (ru_state w1)"
    using keeps_run_report [of "jb_agent (jobs ! i)" "jb_env (jobs ! i)" w "jb_call (jobs ! i)"] Cons.prems(1) [of i] r by simp
  moreover have "keeps (ru_state w1) (ru_state w2)" using Cons.IH [OF _ m] Cons.prems(1) by simp
  ultimately show ?case using Cons.prems(2) r m by (auto intro: keeps_trans)
qed simp

lemma land_answers: "answers (map (\<lambda>(c, _). nc_id c) rs) w (land_reports B rs w)"
proof (induction rs arbitrary: w)
  case (Cons r rs)
  obtain c n tr rep where r: "r = (c, n, tr, rep)" by (metis prod_cases4)
  from answers_trans [OF answers_after_report Cons] show ?case by (simp add: r)
qed simp

lemma fold_refuse: "length cs = length ns \<Longrightarrow> answers (map nc_id cs) w (fold (\<lambda>(c, n). refuse_call B n c m) (zip cs ns) w)"
proof (induction cs ns arbitrary: w rule: list_induct2)
  case (Cons c cs n ns)
  from answers_trans [OF answers_refuse Cons.IH] show ?case by simp
qed simp

lemma prepare_length: "prepare B reg cs = Some ps \<Longrightarrow> length ps = length cs"
  by (induction cs arbitrary: ps) (auto split: option.splits)

lemma map_zip_index: "length js = length xs \<Longrightarrow> length ns = length xs
    \<Longrightarrow> map (\<lambda>(c, _). nc_id c) (map (\<lambda>(i, c, n, j). (c, n, f j, g i)) (zip [0..<length xs] (zip xs (zip ns js)))) = map nc_id xs"
  by (rule nth_equalityI) auto

lemma run_chunk_answers:
  assumes "quiet_bodies B" and "run_chunk B reg chunk unrun w0 = Some (end, w')"
  shows "if end = Continue then answers (map nc_id chunk) w0 w' else answers (map nc_id (chunk @ unrun)) w0 w'"
proof -
  obtain seqs w where p: "put_calls B chunk w0 = (seqs, w)" by fastforce
  note k = put_calls_keeps [OF p]
  show ?thesis
  proof (cases "checkpoint B w")
    case (Some e)
    let ?w1 = "fold (\<lambda>(c, n). refuse_call B n c (unflushed e)) (zip chunk seqs) w"
    have r: "end = Aborted" "w' = answer_unrun B unrun NOT_FLUSHED ?w1"
      using assms(2) by (simp_all add: run_chunk_def p Some)
    have "answers (map nc_id chunk @ map nc_id unrun) w w'"
      unfolding r(2) by (rule answers_trans [OF fold_refuse answers_unrun]) (use k in simp)
    then show ?thesis using k r(1) by (auto intro: answers_after)
  next
    case None
    obtain ps where ps: "prepare B reg chunk = Some ps"
      using assms(2) by (cases "prepare B reg chunk") (simp_all add: run_chunk_def p None)
    define jobs where "jobs = map (make_job B w) (zip ps seqs)"
    have len: "length jobs = length chunk" using prepare_length [OF ps] k by (simp add: jobs_def)
    obtain m w1 where j: "run_jobs jobs (positions (length jobs) (ba_order B (log_pos (ru_state w)))) w = (m, w1)" by fastforce
    have jb: "list_all quiet_policy (sa_policies (jb_agent (jobs ! i))) \<and> quiet_body (jb_env (jobs ! i))" if "i < length jobs" for i
    proof -
      have "jobs ! i = make_job B w (zip ps seqs ! i)" using that by (simp add: jobs_def)
      moreover obtain sk args n where "zip ps seqs ! i = ((sk, args), n)" by (metis prod.exhaust)
      ultimately show ?thesis using assms(1) sub_agent_policies by (simp add: make_job_def quiet_bodies_def)
    qed
    have "keeps (ru_state w) (ru_state w1)"
      by (rule run_jobs_keeps [OF _ j]) (use jb positions_set in auto)
    moreover have e: "end = Continue" and "w' = land_reports B (map (\<lambda>(i, c, n, j). (c, n, jb_trusted j, case m i of Some r \<Rightarrow> r | None \<Rightarrow> failed_report []))
        (zip [0..<length chunk] (zip chunk (zip seqs jobs)))) w1"
      using assms(2) j len prepare_length [OF ps] k by (simp_all add: run_chunk_def p None ps Let_def jobs_def [symmetric])
    moreover note land_answers [of "map (\<lambda>(i, c, n, j). (c, n, jb_trusted j, case m i of Some r \<Rightarrow> r | None \<Rightarrow> failed_report []))
        (zip [0..<length chunk] (zip chunk (zip seqs jobs)))" w1 B, unfolded map_zip_index [OF len conjunct2 [OF k]]]
    ultimately show ?thesis using k e by (auto intro: answers_after)
  qed
qed

lemma run_chunks_answers:
  assumes "quiet_bodies B" and "run_chunks B reg grp rest w = Some (e, w')"
  shows "\<exists>n \<le> length (grp @ rest). answers (map nc_id (take n (grp @ rest))) w w'
    \<and> (if e \<noteq> Continue then n = length (grp @ rest)
       else n = length grp \<or> n < length grp \<and> ba_cancelled B (log_pos (ru_state w')))"
  using assms(2)
proof (induction "length grp" arbitrary: grp w rule: less_induct)
  case less
  note run = less.prems [unfolded run_chunks.simps [of B reg grp]]
  show ?case
  proof (cases "grp = [] \<or> ba_cancelled B (log_pos (ru_state w))")
    case True
    then have "w' = w" "e = Continue" using run by auto
    then show ?thesis using True by (intro exI [of _ 0]) auto
  next
    case False
    then obtain e1 w1 where c: "run_chunk B reg (take 4 grp) (drop 4 grp @ rest) w = Some (e1, w1)"
      using run by (auto split: option.splits)
    note ca = run_chunk_answers [OF assms(1) c]
    show ?thesis
    proof (cases "e1 = Continue")
      case True
      then have next_run: "run_chunks B reg (drop 4 grp) rest w1 = Some (e, w')" using run False c by simp
      obtain n where n: "n \<le> length (drop 4 grp @ rest)" "answers (map nc_id (take n (drop 4 grp @ rest))) w1 w'"
        "if e \<noteq> Continue then n = length (drop 4 grp @ rest)
         else n = length (drop 4 grp) \<or> n < length (drop 4 grp) \<and> ba_cancelled B (log_pos (ru_state w'))"
        using less.hyps [OF _ next_run] False by auto
      let ?k = "length (take 4 grp)"
      have a: "answers (map nc_id (take 4 grp)) w w1" using ca True by simp
      have t: "take (?k + n) (grp @ rest) = take 4 grp @ take n (drop 4 grp @ rest)"
        using take_add [of ?k n "grp @ rest"] by (cases "length grp \<le> 4") (simp_all add: min_def)
      have "answers (map nc_id (take (?k + n) (grp @ rest))) w w'"
        unfolding t map_append by (rule answers_trans [OF a n(2)])
      moreover have "?k + n \<le> length (grp @ rest)" using n(1) by simp
      moreover have "if e \<noteq> Continue then ?k + n = length (grp @ rest)
          else ?k + n = length grp \<or> ?k + n < length grp \<and> ba_cancelled B (log_pos (ru_state w'))"
      proof (cases "e = Continue")
        case True
        then have "n = length grp - 4 \<or> n < length grp - 4 \<and> ba_cancelled B (log_pos (ru_state w'))" using n(3) by simp
        then show ?thesis using True by (auto simp: min_def)
      qed (use n(3) in \<open>simp add: min_def\<close>)
      ultimately show ?thesis by blast
    next
      case ne: False
      then have "e = e1" "w' = w1" using run False c by (cases e1; auto)+
      moreover have "map nc_id (take 4 grp @ drop 4 grp @ rest) = map nc_id (grp @ rest)"
        by (metis append.assoc append_take_drop_id)
      ultimately show ?thesis using ca ne by (intro exI [of _ "length (grp @ rest)"]) (simp del: map_append)
    qed
  qed
qed

text \<open>What a batch has done: a prefix of its calls is answered, all of them unless it was interrupted.\<close>

definition answered_up_to ::
  "('d, 't, 'z, 'tz) batch_env \<Rightarrow> NativeToolCall list \<Rightarrow> session_state run_state \<Rightarrow> BatchEnd \<Rightarrow> session_state run_state \<Rightarrow> bool" where
  "answered_up_to B calls w e w' \<longleftrightarrow>
     (\<exists>n \<le> length calls. answers (map nc_id (take n calls)) w w'
        \<and> (n = length calls \<or> e = Continue \<and> ba_cancelled B (log_pos (ru_state w'))))"

lemma answered_all: "answers (map nc_id calls) w w' \<Longrightarrow> answered_up_to B calls w e w'"
  unfolding answered_up_to_def by (intro exI [of _ "length calls"]) simp

lemma answered_append:
  assumes "answers (map nc_id (take m calls)) w w1" and "m \<le> length calls" and "answered_up_to B (drop m calls) w1 e w'"
  shows "answered_up_to B calls w e w'"
proof -
  obtain n where n: "n \<le> length (drop m calls)" "answers (map nc_id (take n (drop m calls))) w1 w'"
    "n = length (drop m calls) \<or> e = Continue \<and> ba_cancelled B (log_pos (ru_state w'))"
    using assms(3) by (auto simp: answered_up_to_def)
  have "answers (map nc_id (take (m + n) calls)) w w'"
    using answers_trans [OF assms(1) n(2)] by (simp add: take_add)
  then show ?thesis using n(1,3) assms(2) unfolding answered_up_to_def by (intro exI [of _ "m + n"]) auto
qed

lemma single_answers:
  assumes "quiet_bodies B"
    and "(case run_native_one B reg over_limit ptc c w of
           None \<Rightarrow> None
         | Some (end, w1) \<Rightarrow>
             if end \<noteq> Continue
             then Some (end, answer_unrun B cs (if end = Aborted then NOT_FLUSHED else PLAN_APPROVED) w1)
             else run_native_batch B reg over_limit ptc cs w1) = Some (e, w')"
    and rest: "\<And>w1. run_native_batch B reg over_limit ptc cs w1 = Some (e, w') \<Longrightarrow> answered_up_to B cs w1 e w'"
  shows "answered_up_to B (c # cs) w e w'"
proof -
  obtain e1 w1 where one: "run_native_one B reg over_limit ptc c w = Some (e1, w1)"
    using assms(2) by (auto split: option.splits)
  note a1 = answers_native_one [OF assms(1) one]
  show ?thesis
  proof (cases "e1 = Continue")
    case True
    then have "answered_up_to B cs w1 e w'" using assms(2) one rest by simp
    then show ?thesis using answered_append [of 1 "c # cs" w w1 B e w'] a1 by simp
  next
    case False
    then have "w' = answer_unrun B cs (if e1 = Aborted then NOT_FLUSHED else PLAN_APPROVED) w1"
      using assms(2) one by auto
    then show ?thesis using answers_trans [OF a1 answers_unrun [of cs w1 B]] by (intro answered_all) simp
  qed
qed

lemma group_answers:
  assumes "quiet_bodies B" and "grp @ drop (length grp) calls = calls"
    and "(case run_chunks B reg grp (drop (length grp) calls) w of
           Some (Continue, w1) \<Rightarrow> run_native_batch B reg over_limit ptc (drop (length grp) calls) w1
         | res \<Rightarrow> res) = Some (e, w')"
    and rest: "\<And>w1. run_native_batch B reg over_limit ptc (drop (length grp) calls) w1 = Some (e, w')
      \<Longrightarrow> answered_up_to B (drop (length grp) calls) w1 e w'"
  shows "answered_up_to B calls w e w'"
proof -
  obtain e1 w1 where ch: "run_chunks B reg grp (drop (length grp) calls) w = Some (e1, w1)"
    using assms(3) by (auto split: option.splits)
  obtain m where m: "m \<le> length calls" "answers (map nc_id (take m calls)) w w1"
    "if e1 \<noteq> Continue then m = length calls
     else m = length grp \<or> m < length grp \<and> ba_cancelled B (log_pos (ru_state w1))"
    using run_chunks_answers [OF assms(1) ch] unfolding assms(2) by auto
  show ?thesis
  proof (cases "e1 = Continue")
    case cont: True
    then have nx: "run_native_batch B reg over_limit ptc (drop (length grp) calls) w1 = Some (e, w')"
      using assms(3) ch by simp
    show ?thesis
    proof (cases "ba_cancelled B (log_pos (ru_state w1))")
      case True
      then have "w' = w1" "e = Continue" using nx by (simp_all add: run_native_batch.simps)
      then show ?thesis using m True by (auto simp: answered_up_to_def)
    next
      case False
      then show ?thesis using answered_append [OF m(2,1)] rest [OF nx] m(3) cont by simp
    qed
  next
    case False
    then have "w' = w1" using assms(3) ch by (cases e1) auto
    then show ?thesis using m False by (auto simp: answered_up_to_def)
  qed
qed

lemma batch_answers:
  assumes "quiet_bodies B" and "run_native_batch B reg over_limit ptc calls w = Some (e, w')"
  shows "answered_up_to B calls w e w'"
  using assms(2)
proof (induction "length calls" arbitrary: calls w rule: less_induct)
  case less
  note run = less.prems [unfolded run_native_batch.simps [of B reg over_limit ptc calls]]
  show ?case
  proof (cases "calls = [] \<or> ba_cancelled B (log_pos (ru_state w))")
    case True
    then have "w' = w" "e = Continue" using run by auto
    then show ?thesis using True unfolding answered_up_to_def by (intro exI [of _ 0]) auto
  next
    case False
    define grp where "grp = (if \<not> over_limit \<and> \<not> ptc then takeWhile (\<lambda>c. parallel_call B reg c \<noteq> None) calls else [])"
    have cat: "grp @ drop (length grp) calls = calls" by (simp add: grp_def dropWhile_eq_drop [symmetric])
    note run = run [unfolded if_not_P [OF False] grp_def [symmetric] Let_def]
    obtain c cs where calls: "calls = c # cs" using False by (cases calls) auto
    show ?thesis
    proof (cases "length grp < 2")
      case True
      show ?thesis unfolding calls
        by (rule single_answers [OF assms(1) run [unfolded if_P [OF True] calls list.sel] less.hyps]) (simp_all add: calls)
    next
      case many: False
      show ?thesis
        by (rule group_answers [OF assms(1) cat run [unfolded if_not_P [OF many]] less.hyps]) (use many calls in auto)
    qed
  qed
qed

text \<open>
  C9: A batch answers its calls in order, each exactly once. Whatever the calls are (unknown tools, bad arguments,
  refused, denied, controls, parallel reads in whatever order they finish, a log that cannot be flushed, a plan
  approved half-way), the results written are one per call, in the order of the calls; calls are left without one
  only when the turn was interrupted, and then it is a tail of the batch.
\<close>

theorem batch_answers_in_order:
  assumes "quiet_bodies B" and "run_native_batch B reg over_limit ptc calls w = Some (e, w')"
    and "hs_log (ru_state w) = Some l"
  shows "\<exists>n \<le> length calls. reply_ids (ru_state w') = reply_ids (ru_state w) @ map nc_id (take n calls)
    \<and> (n = length calls \<or> e = Continue \<and> ba_cancelled B (log_pos (ru_state w')))"
  using batch_answers [OF assms(1,2)] assms(3) by (auto simp: answered_up_to_def answers_def)

definition demo_session_run :: "session_state run_env" where
  "demo_session_run = \<lparr>rv_cancelled = (\<lambda>_. False), rv_interrupted = False, rv_answer = (\<lambda>_. True),
     rv_body = (\<lambda>_ _ s. (Some \<lparr>so_ok = True, so_summary = ''done''\<rparr>, s)), rv_timeout = 120,
     rv_spill_write = (\<lambda>_. None), rv_focused = (\<lambda>_. None), rv_elapsed = 3, rv_print = (\<lambda>_. ''{}'')\<rparr>"

definition demo_batch :: "(unit, unit, unit, unit) batch_env" where
  "demo_batch = \<lparr>ba_session = 1, ba_clock = (\<lambda>n. int n), ba_flush_error = (\<lambda>_. None), ba_cancelled = (\<lambda>_. False),
     ba_parse = (\<lambda>_. Inl ''no JSON''), ba_print = (\<lambda>_. []), ba_mode = (\<lambda>_. ReadOnly), ba_ask_denied = (\<lambda>_. False),
     ba_host = \<lparr>h_digest = length, h_debug = (\<lambda>s. s), h_ser = (\<lambda>_. ''{}''), h_alnum = (\<lambda>_. False)\<rparr>,
     ba_default_cwd = ''/w'', ba_reader_root = None, ba_hooks = \<lparr>hc_by_event = (\<lambda>_. []), hc_warnings = []\<rparr>,
     ba_hook_ext = demo_ext, ba_failure_sink = False, ba_control = (\<lambda>_. demo_control), ba_run = (\<lambda>_ _. demo_session_run),
     ba_turn = (\<lambda>_. demo_env), ba_order = (\<lambda>_. [])\<rparr>"

theorem batch_answers_in_order_witness:
  "case run_native_batch demo_batch demo_registry False False
       [\<lparr>nc_id = ''a'', nc_name = ''read-file'', nc_arguments = ''{''\<rparr>, \<lparr>nc_id = ''b'', nc_name = ''nope'', nc_arguments = ''{}''\<rparr>]
       \<lparr>ru_state = demo_session, ru_next_id = 0, ru_events = [], ru_failures = []\<rparr> of
     Some (_, w) \<Rightarrow> reply_ids (ru_state w) = [''a'', ''b''] | None \<Rightarrow> False"
proof -
  let ?calls = "[\<lparr>nc_id = ''a'', nc_name = ''read-file'', nc_arguments = ''{''\<rparr>, \<lparr>nc_id = ''b'', nc_name = ''nope'', nc_arguments = ''{}''\<rparr>]"
  let ?w = "\<lparr>ru_state = demo_session, ru_next_id = 0, ru_events = [], ru_failures = []\<rparr> :: session_state run_state"
  have q: "quiet_bodies demo_batch"
    by (simp add: quiet_bodies_def quiet_body_def demo_batch_def demo_session_run_def)
  have np: "parallel_call demo_batch demo_registry c = None" for c
    by (simp add: parallel_call_def demo_batch_def split: option.splits)
  have one: "run_native_one demo_batch demo_registry False False c w \<noteq> None \<and>
      (\<forall>e w'. run_native_one demo_batch demo_registry False False c w = Some (e, w') \<longrightarrow> e = Continue \<or> e = Aborted)"
    for c w
    by (auto simp: run_native_one_def demo_batch_def checkpoint_def split: option.splits prod.splits)
  have cn: "ba_cancelled demo_batch k = False" for k by (simp add: demo_batch_def)
  have "\<exists>e w'. run_native_batch demo_batch demo_registry False False cs w = Some (e, w')" for cs w
  proof (induction cs arbitrary: w)
    case (Cons c cs)
    obtain e1 w1 where a: "run_native_one demo_batch demo_registry False False c w = Some (e1, w1)" using one by fastforce
    show ?case
      using Cons [of w1] a unfolding run_native_batch.simps [of demo_batch demo_registry False False "c # cs" w] Let_def
      by (cases "e1 = Continue") (simp_all add: cn np)
  qed (simp add: run_native_batch.simps)
  then obtain e w' where run: "run_native_batch demo_batch demo_registry False False ?calls ?w = Some (e, w')" by blast
  have l: "hs_log (ru_state ?w) = Some (log_append (new_in 1 ''t'' None 0 0) 0 (PlanMode True))"
    by (simp add: demo_session_def)
  have r: "reply_ids (ru_state ?w) = []"
    by (simp add: reply_ids_def demo_session_def new_in_def log_append_def result_id_def List.map_filter_simps)
  from batch_answers_in_order [OF q run l] run r show ?thesis by (auto simp: demo_batch_def)
qed

text \<open>
  What the comment of \<open>answer_unrun\<close> asks for does not hold for an interrupt: the assistant message is in the log
  with its calls, and a batch interrupted at its start writes no result for any of them.
\<close>

lemma interrupt_leaves_unanswered:
  assumes "ba_cancelled B (log_pos (ru_state w))"
  shows "run_native_batch B reg over_limit ptc calls w = Some (Continue, w)"
  using assms by (simp add: run_native_batch.simps)

text \<open>
  A skill the model may not invoke is refused by \<open>resolve\<close>, and run by the native path, which looks it up with \<open>get\<close>.
\<close>

lemma native_runs_uninvocable:
  assumes "skill_get reg (nc_name c) = Some sk" and "\<not> sk_invocable sk" and "\<not> is_control_skill (nc_name c)"
    and "ba_parse B (nc_arguments c) = Inr args" and "put_row B (call_row c) w = (n, w1)" and "checkpoint B w1 = None"
  shows "resolve_call reg (plain_call (nc_name c) raw ex) = None
    \<and> run_native_one B reg False False c w =
        (case run_report (sub_agent B n w1) (ba_run B sk n)
           \<lparr>iv_skill = sk_name sk, iv_args = args, iv_raw_args = object_values (ba_print B) args, iv_expectation = []\<rparr> w1 of
           (report, w2) \<Rightarrow> Some (Continue, after_report B n (nc_name c) (Some (nc_id c)) (sk_trusted sk) report w2))"
  using assms by (simp add: run_native_one_def resolve_call_def plain_call_def)

end
