(* ===== verification/Prompt_Assembly.thy ===== *)
theory Prompt_Assembly
  imports Skill_Registry Tool_Run "HOL-Library.Product_Lexorder"
begin

text \<open>
  The system prompt, \<open>src/crates/agents/src/prompt.rs\<close>: named sections in ordered slots, strict interpolation of
  variables, and the prompt of the main agent; the catalogue a program gets (\<open>sdk_markdown\<close> of
  \<open>src/crates/agents/src/ptc.rs\<close>) and the presets that pick a persona, a view of the registry and a way to offer
  tools (\<open>src/crates/agents/src/preset.rs\<close>, \<open>ToolMode\<close> of \<open>src/crates/protocol/src/lib.rs\<close>).

  Parameters (record \<open>prompt_texts\<close>): the two long constant texts about scripts, and what a skill's
  \<open>prompt_guidance\<close> answers. A preset's file is what \<open>md_skill\<close> read from it.
\<close>

section \<open>How tools are offered\<close>

datatype ToolMode = TextMode | NativeMode | PtcMode

fun mode_native :: "ToolMode \<Rightarrow> bool" where
  "mode_native TextMode = False"
| "mode_native NativeMode = True"
| "mode_native PtcMode = True"

fun mode_ptc :: "ToolMode \<Rightarrow> bool" where
  "mode_ptc PtcMode = True"
| "mode_ptc _ = False"

fun mode_label :: "ToolMode \<Rightarrow> string" where
  "mode_label TextMode = ''text''"
| "mode_label NativeMode = ''native''"
| "mode_label PtcMode = ''ptc''"

definition tools_for :: "registry \<Rightarrow> ToolMode \<Rightarrow> json option" where
  "tools_for reg mode =
     (case mode of
        TextMode \<Rightarrow> None
      | NativeMode \<Rightarrow> Some (tools_json (excluding [RUN_CODE_NAME] reg))
      | PtcMode \<Rightarrow> Some (tools_json (direct_view reg)))"

section \<open>Sections\<close>

record Section =
  sc_name :: string
  sc_order :: int
  sc_text :: string

definition IDENTITY :: int where "IDENTITY = -1000"
definition PERSONA :: int where "PERSONA = -500"
definition MEMORY :: int where "MEMORY = 0"
definition PLAN_POLICY :: int where "PLAN_POLICY = 500"
definition SKILL_GUIDANCE :: int where "SKILL_GUIDANCE = 1000"
definition CATALOGUE :: int where "CATALOGUE = 2000"
definition PTC_SDK :: int where "PTC_SDK = 5000"
definition WORKFLOW_SDK :: int where "WORKFLOW_SDK = 5100"

lemmas prompt_orders = IDENTITY_def PERSONA_def MEMORY_def PLAN_POLICY_def SKILL_GUIDANCE_def CATALOGUE_def
  PTC_SDK_def WORKFLOW_SDK_def

datatype PromptError = UnknownVariable string string

fun prompt_error_text :: "PromptError \<Rightarrow> string" where
  "prompt_error_text (UnknownVariable name sec) =
     ''prompt section `'' @ sec @ ''` references unknown variable {{'' @ name @ ''}}''"

record Rendered =
  rd_system :: string
  rd_runtime :: "string option"

record Assembly =
  as_sections :: "Section list"
  as_contexts :: "Section list"
  as_vars :: "string \<Rightarrow> string option"

text \<open>Strict interpolation: one pass, from the left; a value is not read again.\<close>

function interpolate :: "string \<Rightarrow> (string \<Rightarrow> string option) \<Rightarrow> string \<Rightarrow> PromptError + string" where
  "interpolate rest vars sec =
     (case str_find rest ''{{'' of
        None \<Rightarrow> Inr rest
      | Some a \<Rightarrow>
          (case str_find (drop (a + 2) rest) ''}}'' of
             None \<Rightarrow> map_sum id (\<lambda>s. take a rest @ ''{{'' @ s) (interpolate (drop (a + 2) rest) vars sec)
           | Some c \<Rightarrow>
               (case vars (trim (take c (drop (a + 2) rest))) of
                  None \<Rightarrow> Inl (UnknownVariable (trim (take c (drop (a + 2) rest))) sec)
                | Some v \<Rightarrow> map_sum id (\<lambda>s. take a rest @ v @ s)
                    (interpolate (drop (c + 2) (drop (a + 2) rest)) vars sec))))"
  by pat_completeness auto
termination
  by (relation "measure (\<lambda>(s, v, n). length s)") (auto dest!: str_find_Some)

declare interpolate.simps [simp del]

definition slot :: "Section \<Rightarrow> int \<times> string" where
  "slot s = (sc_order s, sc_name s)"

definition sorted_sections :: "Section list \<Rightarrow> Section list" where
  "sorted_sections ss = sort_key slot ss"

fun join_sections :: "(string \<Rightarrow> string option) \<Rightarrow> string \<Rightarrow> Section list \<Rightarrow> PromptError + string" where
  "join_sections vars acc [] = Inr acc"
| "join_sections vars acc (s # ss) =
     (case interpolate (sc_text s) vars (sc_name s) of
        Inl e \<Rightarrow> Inl e
      | Inr t \<Rightarrow>
          join_sections vars
            (if trim_end t = [] then acc
             else if acc = [] then trim_end t else acc @ [CHR 0x0A, CHR 0x0A] @ trim_end t) ss)"

definition render_prompt :: "Assembly \<Rightarrow> PromptError + Rendered" where
  "render_prompt a =
     (case join_sections (as_vars a) [] (sorted_sections (as_sections a)) of
        Inl e \<Rightarrow> Inl e
      | Inr sys \<Rightarrow>
          (case join_sections (as_vars a) [] (sorted_sections (as_contexts a)) of
             Inl e \<Rightarrow> Inl e
           | Inr rt \<Rightarrow> Inr \<lparr>rd_system = sys, rd_runtime = (if rt = [] then None else Some rt)\<rparr>))"

section \<open>What a program may call\<close>

definition word_byte :: "char \<Rightarrow> bool" where
  "word_byte c \<longleftrightarrow> is_lower c \<or> is_upper c \<or> is_digit c"

definition fn_char :: "nat \<times> string \<Rightarrow> string" where
  "fn_char p = (case p of (i, ch) \<Rightarrow>
     (case ch of
        [c] \<Rightarrow> if word_byte c \<or> c = CHR ''_'' then (if i = 0 \<and> is_digit c then ''t_'' else []) @ [c] else ''_''
      | _ \<Rightarrow> ''_''))"

definition fn_name :: "string \<Rightarrow> string" where
  "fn_name skill = (let out = concat (map fn_char (enumerate 0 (chars skill))) in if out = [] then ''t_'' else out)"

definition MAX_POSITIONAL :: nat where "MAX_POSITIONAL = 5"

fun join_list :: "string list \<Rightarrow> string" where
  "join_list [] = []"
| "join_list [x] = x"
| "join_list (x # xs) = x @ '', '' @ join_list xs"

definition sdk_line :: "string \<Rightarrow> skill_info \<Rightarrow> bool \<Rightarrow> string" where
  "sdk_line name sk clash =
     (let args = sk_positional sk
      in ''- `''
         @ (if clash \<or> length args > MAX_POSITIONAL
            then ''tool('' @ [CHR 0x22] @ name @ [CHR 0x22] @ '', #{ ''
                 @ join_list (map (\<lambda>a. a @ '': '' @ ellipsis) args) @ '' })''
            else fn_name name @ ''('' @ join_list args @ '')'')
         @ ''`''
         @ (if description_of sk = [] then [] else '' '' @ em_dash @ '' '' @ description_of sk)
         @ (if sk_optional sk = [] then []
            else '' Optional (named form only): '' @ join_list (map (\<lambda>a. ''`'' @ a @ ''`'') (sk_optional sk)) @ ''.'')
         @ [CHR 0x0A])"

text \<open>The names already taken by a function travel along the list.\<close>

fun sdk_lines :: "registry \<Rightarrow> string list \<Rightarrow> string" where
  "sdk_lines [] seen = []"
| "sdk_lines ((name, sk) # reg) seen =
     (if \<not> sk_invocable sk then sdk_lines reg seen
      else sdk_line name sk (fn_name name \<in> set seen) @ sdk_lines reg (fn_name name # seen))"

definition sdk_markdown :: "string \<Rightarrow> registry \<Rightarrow> string" where
  "sdk_markdown header reg = header @ sdk_lines reg []"

section \<open>The main agent's prompt\<close>

record prompt_texts =
  pt_sdk_header :: string
  pt_workflow_sdk :: string
  pt_guidance :: "skill_info \<Rightarrow> string option"

definition NATIVE_IDENTITY :: string where
  "NATIVE_IDENTITY = ''You are running inside the sica-rust desktop app. Use the provided tools (OpenAI function calling) to run commands and read/write files when the task needs it.''"

definition WORKFLOW_NAME :: string where "WORKFLOW_NAME = ''workflow''"

text \<open>One section per skill with guidance; a sentence two skills share is said once.\<close>

fun guidance_sections :: "prompt_texts \<Rightarrow> registry \<Rightarrow> string list \<Rightarrow> Section list" where
  "guidance_sections pt [] said = []"
| "guidance_sections pt ((name, sk) # reg) said =
     (case pt_guidance pt sk of
        None \<Rightarrow> guidance_sections pt reg said
      | Some g \<Rightarrow>
          if g \<in> set said then guidance_sections pt reg said
          else \<lparr>sc_name = ''guidance:'' @ name, sc_order = SKILL_GUIDANCE, sc_text = g\<rparr>
               # guidance_sections pt reg (g # said))"

definition present :: "string option \<Rightarrow> bool" where
  "present t \<longleftrightarrow> (case t of None \<Rightarrow> False | Some s \<Rightarrow> trim s \<noteq> [])"

definition opt_section :: "bool \<Rightarrow> string \<Rightarrow> int \<Rightarrow> string \<Rightarrow> Section list" where
  "opt_section c name n t = (if c then [\<lparr>sc_name = name, sc_order = n, sc_text = t\<rparr>] else [])"

definition text_of :: "string option \<Rightarrow> string" where
  "text_of t = (case t of None \<Rightarrow> [] | Some s \<Rightarrow> s)"

definition main_sections ::
  "prompt_texts \<Rightarrow> string \<Rightarrow> registry \<Rightarrow> ToolMode \<Rightarrow> string option \<Rightarrow> string option \<Rightarrow> Section list" where
  "main_sections pt memory reg mode plan_policy persona =
     opt_section (mode_native mode) ''identity'' IDENTITY NATIVE_IDENTITY
     @ opt_section (present persona) ''persona'' PERSONA (text_of persona)
     @ [\<lparr>sc_name = ''memory'', sc_order = MEMORY, sc_text = memory\<rparr>]
     @ opt_section (present plan_policy) ''plan-policy'' PLAN_POLICY (text_of plan_policy)
     @ guidance_sections pt reg []
     @ opt_section (\<not> mode_native mode \<and> catalogue_markdown [RUN_CODE_NAME] reg \<noteq> []) ''catalogue'' CATALOGUE
         (''## Loaded skills'' @ [CHR 0x0A, CHR 0x0A] @ catalogue_markdown [RUN_CODE_NAME] reg)
     @ opt_section (mode_ptc mode) ''ptc-sdk'' PTC_SDK (sdk_markdown (pt_sdk_header pt) (program_view reg))
     @ opt_section (map_of reg WORKFLOW_NAME \<noteq> None) ''workflow-sdk'' WORKFLOW_SDK (pt_workflow_sdk pt)"

definition for_main_agent ::
  "prompt_texts \<Rightarrow> string \<Rightarrow> registry \<Rightarrow> ToolMode \<Rightarrow> (string \<Rightarrow> string option) \<Rightarrow> string option \<Rightarrow> string option
   \<Rightarrow> PromptError + Rendered" where
  "for_main_agent pt memory reg mode vars plan_policy persona =
     render_prompt \<lparr>as_sections = main_sections pt memory reg mode plan_policy persona,
       as_contexts = [\<lparr>sc_name = ''runtime'', sc_order = 0, sc_text = runtime_context_text vars\<rparr>], as_vars = vars\<rparr>"

section \<open>Presets\<close>

record md_file =
  mf_name :: string
  mf_description :: string
  mf_body :: string
  mf_skills :: "string list"
  mf_tool_mode :: "string option"

record AgentPreset =
  ap_name :: string
  ap_description :: string
  ap_persona :: string
  ap_skills :: "string list"
  ap_mode :: "ToolMode option"

definition parse_tool_mode :: "string \<Rightarrow> ToolMode option" where
  "parse_tool_mode s =
     (let t = to_ascii_lowercase (trim s)
      in if t = ''text'' then Some TextMode else if t = ''native'' then Some NativeMode
         else if t = ''ptc'' then Some PtcMode else None)"

definition preset_of :: "md_file \<Rightarrow> AgentPreset" where
  "preset_of m = \<lparr>ap_name = mf_name m, ap_description = mf_description m, ap_persona = mf_body m, ap_skills = mf_skills m,
     ap_mode = Option.bind (mf_tool_mode m) parse_tool_mode\<rparr>"

text \<open>\<open>file\<close>: what reading the path gives, \<open>None\<close> when there is no such file.\<close>

definition load_preset ::
  "(pathbuf \<Rightarrow> (string + md_file) option) \<Rightarrow> pathbuf \<Rightarrow> string \<Rightarrow> string + AgentPreset" where
  "load_preset file dir name =
     (if name = [] \<or> \<not> list_all (\<lambda>c. word_byte c \<or> c = CHR ''-'' \<or> c = CHR ''_'') name
      then Inl (''`'' @ name @ ''` is not a valid agent name'')
      else case file (path_join dir (name @ ''.md'')) of
             None \<Rightarrow> Inl (''no agent `'' @ name @ ''` in '' @ dir)
           | Some (Inl e) \<Rightarrow> Inl e
           | Some (Inr m) \<Rightarrow>
               if mf_name m \<noteq> name
               then Inl (path_join dir (name @ ''.md'') @ '': frontmatter name `'' @ mf_name m @ ''` does not match the file name'')
               else Inr (preset_of m))"

definition always_visible :: "string \<Rightarrow> bool" where
  "always_visible name \<longleftrightarrow> is_control_skill name \<or> name = ASK_USER_NAME"

definition preset_view :: "registry \<Rightarrow> AgentPreset \<Rightarrow> registry" where
  "preset_view reg p =
     (if ap_skills p = [] then reg
      else restricted_to (ap_skills p @ filter always_visible (map fst reg)) reg)"

definition unknown_skills :: "registry \<Rightarrow> AgentPreset \<Rightarrow> string list" where
  "unknown_skills reg p = filter (\<lambda>n. map_of reg n = None) (ap_skills p)"

text \<open>The registry, the persona and the mode a session's turns use; \<open>loaded\<close> is what loading its preset gave.\<close>

definition effective_agent ::
  "registry \<Rightarrow> (string + AgentPreset) option \<Rightarrow> registry \<times> string option \<times> ToolMode option" where
  "effective_agent reg loaded =
     (case loaded of
        Some (Inr p) \<Rightarrow> (preset_view reg p, Some (ap_persona p), ap_mode p)
      | _ \<Rightarrow> (reg, None, None))"

section \<open>What a prompt depends on\<close>

text \<open>The names a text asks for.\<close>

function refs :: "string \<Rightarrow> string list" where
  "refs rest =
     (case str_find rest ''{{'' of
        None \<Rightarrow> []
      | Some a \<Rightarrow>
          (case str_find (drop (a + 2) rest) ''}}'' of
             None \<Rightarrow> refs (drop (a + 2) rest)
           | Some c \<Rightarrow> trim (take c (drop (a + 2) rest)) # refs (drop (c + 2) (drop (a + 2) rest))))"
  by pat_completeness auto
termination
  by (relation "measure length") (auto dest!: str_find_Some)

declare refs.simps [simp del]

definition bound :: "(string \<Rightarrow> string option) \<Rightarrow> string \<Rightarrow> bool" where
  "bound vars t \<longleftrightarrow> (\<forall>n \<in> set (refs t). vars n \<noteq> None)"

definition is_Inr :: "'a + 'b \<Rightarrow> bool" where
  "is_Inr x = (case x of Inr _ \<Rightarrow> True | Inl _ \<Rightarrow> False)"

lemma is_Inr_simps [simp]: "is_Inr (Inr x)" "\<not> is_Inr (Inl y)" "is_Inr (map_sum id f z) = is_Inr z"
  by (cases z; simp add: is_Inr_def)+

lemma is_Inr_iff: "is_Inr x \<longleftrightarrow> (\<exists>y. x = Inr y)"
  by (cases x) auto

lemma interpolate_bound: "is_Inr (interpolate t vars sec) \<longleftrightarrow> bound vars t"
proof (induction t vars sec rule: interpolate.induct)
  case (1 rest vars sec)
  show ?case
  proof (cases "str_find rest ''{{''")
    case None
    then show ?thesis by (simp add: interpolate.simps [of rest] refs.simps [of rest] bound_def)
  next
    case (Some a)
    note a = this
    show ?thesis
    proof (cases "str_find (drop (a + 2) rest) ''}}''")
      case None
      then show ?thesis using 1(1) [OF a None]
        by (simp add: interpolate.simps [of rest] refs.simps [of rest] bound_def a)
    next
      case (Some c)
      then show ?thesis using 1(2) [OF a Some]
        by (cases "vars (trim (take c (drop (a + 2) rest)))")
          (simp_all add: interpolate.simps [of rest] refs.simps [of rest] bound_def a)
    qed
  qed
qed

lemma interpolate_ref:
  assumes "str_find rest ''{{'' = Some a" and "str_find (drop (a + 2) rest) ''}}'' = Some c"
  shows "interpolate rest vars sec =
    (case vars (trim (take c (drop (a + 2) rest))) of
       None \<Rightarrow> Inl (UnknownVariable (trim (take c (drop (a + 2) rest))) sec)
     | Some v \<Rightarrow> map_sum id (\<lambda>s. take a rest @ v @ s) (interpolate (drop (c + 2) (drop (a + 2) rest)) vars sec))"
  unfolding interpolate.simps [of rest] assms(1) option.case assms(2) by (rule refl)

lemma interpolate_agree:
  "\<forall>n \<in> set (refs t). vars n = vars' n \<Longrightarrow> interpolate t vars sec = interpolate t vars' sec"
proof (induction t vars sec rule: interpolate.induct)
  case (1 rest vars sec)
  show ?case
  proof (cases "str_find rest ''{{''")
    case None
    then show ?thesis by (simp add: interpolate.simps [of rest])
  next
    case (Some a)
    note a = this
    show ?thesis
    proof (cases "str_find (drop (a + 2) rest) ''}}''")
      case None
      then show ?thesis using 1(1) [OF a None] 1(3)
        by (simp add: interpolate.simps [of rest] refs.simps [of rest] a)
    next
      case (Some c)
      let ?n = "trim (take c (drop (a + 2) rest))"
      have n: "vars ?n = vars' ?n" and r: "\<forall>m \<in> set (refs (drop (c + 2) (drop (a + 2) rest))). vars m = vars' m"
        using 1(3) a Some by (simp_all add: refs.simps [of rest])
      show ?thesis
        unfolding interpolate_ref [OF a Some] n using 1(2) [OF a Some _ r] n by (cases "vars' ?n") simp_all
    qed
  qed
qed

lemma join_sections_agree:
  "(\<forall>s \<in> set ss. \<forall>n \<in> set (refs (sc_text s)). vars n = vars' n) \<Longrightarrow> join_sections vars acc ss = join_sections vars' acc ss"
proof (induction ss arbitrary: acc)
  case (Cons s ss)
  have "interpolate (sc_text s) vars (sc_name s) = interpolate (sc_text s) vars' (sc_name s)"
    using Cons.prems by (intro interpolate_agree) simp
  then show ?case using Cons by (simp split: sum.splits)
qed simp

lemma join_sections_bound: "is_Inr (join_sections vars acc ss) \<longleftrightarrow> (\<forall>s \<in> set ss. bound vars (sc_text s))"
proof (induction ss arbitrary: acc)
  case (Cons s ss)
  then show ?case
    using interpolate_bound [of "sc_text s" vars "sc_name s"]
    by (cases "interpolate (sc_text s) vars (sc_name s)") simp_all
qed simp

lemma sorted_sections_perm:
  assumes "mset ss = mset us" and "inj_on slot (set ss)"
  shows "sorted_sections ss = sorted_sections us"
  unfolding sorted_sections_def
  using assms by (intro sort_key_inj_key_eq) (simp_all add: sorted_sort_key)

text \<open>
  The bytes of a prompt. Which order the sections were added in does not matter as long as no two share order
  and name; a variable matters only where a section asks for it; and the render fails exactly when a section
  asks for a name without a value.
\<close>

theorem prompt_determined:
  assumes "mset (as_sections a) = mset (as_sections b)" and "mset (as_contexts a) = mset (as_contexts b)"
    and "inj_on slot (set (as_sections a))" and "inj_on slot (set (as_contexts a))"
    and "\<forall>s \<in> set (as_sections a @ as_contexts a). \<forall>n \<in> set (refs (sc_text s)). as_vars a n = as_vars b n"
  shows "render_prompt a = render_prompt b
    \<and> ((\<exists>r. render_prompt a = Inr r) \<longleftrightarrow>
        (\<forall>s \<in> set (as_sections a @ as_contexts a). \<forall>n \<in> set (refs (sc_text s)). as_vars a n \<noteq> None))"
proof -
  have s: "sorted_sections (as_sections a) = sorted_sections (as_sections b)"
    "sorted_sections (as_contexts a) = sorted_sections (as_contexts b)"
    by (rule sorted_sections_perm; fact)+
  have set: "set (sorted_sections ss) = set ss" for ss by (simp add: sorted_sections_def)
  have j: "join_sections (as_vars a) [] (sorted_sections (as_sections a)) = join_sections (as_vars b) [] (sorted_sections (as_sections a))"
    "join_sections (as_vars a) [] (sorted_sections (as_contexts a)) = join_sections (as_vars b) [] (sorted_sections (as_contexts a))"
    by (rule join_sections_agree; use assms(5) in \<open>auto simp: set\<close>)+
  have "is_Inr (render_prompt a) \<longleftrightarrow> (\<forall>s \<in> set (as_sections a @ as_contexts a). bound (as_vars a) (sc_text s))"
    using join_sections_bound [of "as_vars a" "[]" "sorted_sections (as_sections a)"]
      join_sections_bound [of "as_vars a" "[]" "sorted_sections (as_contexts a)"]
    by (cases "join_sections (as_vars a) [] (sorted_sections (as_sections a))";
        cases "join_sections (as_vars a) [] (sorted_sections (as_contexts a))")
      (auto simp: render_prompt_def set)
  moreover have "render_prompt a = render_prompt b" unfolding render_prompt_def s j [unfolded s] by (rule refl)
  ultimately show ?thesis by (simp add: is_Inr_iff bound_def)
qed

text \<open>A section that asks for a variable, and one that does not; either may come first.\<close>

definition demo_sections :: "Section list" where
  "demo_sections = [\<lparr>sc_name = ''memory'', sc_order = 0, sc_text = ''in {{ cwd }}''\<rparr>,
     \<lparr>sc_name = ''identity'', sc_order = -1000, sc_text = ''You run here.''\<rparr>]"

definition demo_assembly :: "Section list \<Rightarrow> string \<Rightarrow> Assembly" where
  "demo_assembly ss date = \<lparr>as_sections = ss, as_contexts = [], as_vars = [''cwd'' \<mapsto> ''/w'', ''date'' \<mapsto> date]\<rparr>"

theorem prompt_determined_witness:
  "render_prompt (demo_assembly demo_sections ''monday'') = render_prompt (demo_assembly (rev demo_sections) ''tuesday'')
   \<and> (\<exists>r. render_prompt (demo_assembly demo_sections ''monday'') = Inr r)"
proof -
  have r: "refs ''in {{ cwd }}'' = [''cwd'']" "refs ''You run here.'' = []" by code_simp+
  have f: "\<forall>s \<in> set (as_sections (demo_assembly demo_sections ''monday'') @ as_contexts (demo_assembly demo_sections ''monday'')).
      \<forall>n \<in> set (refs (sc_text s)). as_vars (demo_assembly demo_sections d) n = Some ''/w''" for d
    by (simp add: demo_assembly_def demo_sections_def r)
  have "inj_on slot (set demo_sections)" by (simp add: demo_sections_def slot_def)
  then have "render_prompt (demo_assembly demo_sections ''monday'') = render_prompt (demo_assembly (rev demo_sections) ''tuesday'')
      \<and> ((\<exists>r. render_prompt (demo_assembly demo_sections ''monday'') = Inr r) \<longleftrightarrow>
        (\<forall>s \<in> set (as_sections (demo_assembly demo_sections ''monday'') @ as_contexts (demo_assembly demo_sections ''monday'')).
          \<forall>n \<in> set (refs (sc_text s)). as_vars (demo_assembly demo_sections ''monday'') n \<noteq> None))"
    by (intro prompt_determined) (simp_all add: demo_assembly_def demo_sections_def r)
  moreover have "\<forall>s \<in> set (as_sections (demo_assembly demo_sections ''monday'') @ as_contexts (demo_assembly demo_sections ''monday'')).
      \<forall>n \<in> set (refs (sc_text s)). as_vars (demo_assembly demo_sections ''monday'') n \<noteq> None"
    using f [of "''monday''"] by simp
  ultimately show ?thesis by blast
qed

section \<open>Folders and presets\<close>

lemma preset_view_get:
  "skill_get (preset_view reg p) n =
    (if ap_skills p = [] \<or> n \<in> set (ap_skills p) \<or> always_visible n then skill_get reg n else None)"
proof -
  have "skill_get reg n = None" if "n \<notin> fst ` set reg" using that by (simp add: skill_get_def map_of_eq_None_iff)
  then show ?thesis unfolding preset_view_def by (auto simp: restricted_get)
qed

text \<open>
  The view of a preset leaves its controls but not \<open>run-code\<close>, which is the only data tool a model may call when
  tools are offered as programs: a preset that lists skills has no data tool at all in that mode.
\<close>

lemma preset_hides_run_code:
  assumes "ap_skills p \<noteq> []" and "RUN_CODE_NAME \<notin> set (ap_skills p)"
    and "skill_get (direct_view (preset_view reg p)) n = Some sk"
  shows "is_control_skill n \<or> n = ASK_USER_NAME"
proof -
  have "\<not> is_control_skill RUN_CODE_NAME" "RUN_CODE_NAME \<noteq> ASK_USER_NAME" by code_simp+
  then show ?thesis
    using assms by (auto simp: direct_get preset_view_get always_visible_def direct_callable_def split: if_splits)
qed

text \<open>
  The snapshot of the runtime facts is rendered like a section, values included: in a folder whose name holds a
  reference (a project template), no prompt can be rendered.
\<close>

definition template_vars :: "string \<Rightarrow> string option" where
  "template_vars = [''cwd'' \<mapsto> ''/w/{{name}}'', ''os'' \<mapsto> ''linux'', ''date'' \<mapsto> ''today'', ''model'' \<mapsto> []]"

lemma str_find_first: "CHR ''{'' \<notin> set pre \<Longrightarrow> str_find (pre @ ''{{'' @ post) ''{{'' = Some (length pre)"
  by (induction pre) (auto simp: str_find.simps)

lemma str_find_close: "CHR ''}'' \<notin> set pre \<Longrightarrow> str_find (pre @ ''}}'' @ post) ''}}'' = Some (length pre)"
  by (induction pre) (auto simp: str_find.simps)

lemma refs_first:
  assumes "CHR ''{'' \<notin> set pre" and "CHR ''}'' \<notin> set n"
  shows "trim n \<in> set (refs (pre @ ''{{'' @ n @ ''}}'' @ post))"
proof -
  let ?r = "pre @ ''{{'' @ n @ ''}}'' @ post"
  have d: "drop (length pre + 2) ?r = n @ ''}}'' @ post" by simp
  have "refs ?r = trim (take (length n) (n @ ''}}'' @ post)) # refs (drop (length n + 2) (n @ ''}}'' @ post))"
    unfolding refs.simps [of ?r] str_find_first [OF assms(1)] option.case d str_find_close [OF assms(2)] by (rule refl)
  then show ?thesis by simp
qed

lemma template_folder_has_no_prompt: "\<not> (\<exists>r. for_main_agent pt memory reg mode template_vars plan_policy persona = Inr r)"
proof -
  let ?pre = "RUNTIME_CONTEXT_HEADER @ var_line template_vars ''date'' ''- Local time: '' ('' '' @ em_dash @ '' from the OS clock'')
      @ [CHR 0x0A] @ ''- Working directory: '' @ ''/w/''"
  have t: "runtime_context_text template_vars = ?pre @ ''{{'' @ ''name'' @ ''}}'' @ (var_line template_vars ''os'' ''- OS: '' [] @ OUTPUT_NAMING)"
    by (simp add: runtime_context_text_def var_line_def template_vars_def)
  have "CHR ''{'' \<notin> set ?pre"
    by (simp add: RUNTIME_CONTEXT_HEADER_def var_line_def template_vars_def em_dash_def)
  then have "trim ''name'' \<in> set (refs (runtime_context_text template_vars))"
    unfolding t by (rule refs_first) simp
  moreover have "trim ''name'' = ''name''" by code_simp
  ultimately have r: "''name'' \<in> set (refs (runtime_context_text template_vars))" by simp
  have "\<not> bound template_vars (runtime_context_text template_vars)"
  proof -
    have "template_vars ''name'' = None" by (simp add: template_vars_def)
    with r show ?thesis unfolding bound_def by blast
  qed
  then have "\<not> is_Inr (join_sections template_vars [] (sorted_sections
      [\<lparr>sc_name = ''runtime'', sc_order = 0, sc_text = runtime_context_text template_vars\<rparr>]))"
    unfolding join_sections_bound by (simp add: sorted_sections_def)
  then show ?thesis by (auto simp: for_main_agent_def render_prompt_def is_Inr_def split: sum.splits)
qed

end
