(* ===== verification/Corrections.thy ===== *)
theory Corrections
  imports Retain
begin

text \<open>
  The two messages that ask a model for another reply, of \<open>src/crates/agents/src/runner.rs\<close>. Both the loop of a turn
  and the conversation of a delegated child send them.
\<close>

definition syntax_correction :: "string \<Rightarrow> string" where
  "syntax_correction why =
     ''That was not a valid tool call, so NOTHING ran and you received no output. The parser found '' @ why
     @ ''.'' @ [CHR 0x0A, CHR 0x0A] @ ''To call a tool, reply with exactly one call and nothing else: either one line,'' @ [CHR 0x0A, CHR 0x0A] @ ''    <skill-name> '' @ [CHR 0x27] @ ''<arg1>'' @ [CHR 0x27] @ '' '' @ [CHR 0x27] @ ''<arg2>'' @ [CHR 0x27] @ '' > <what you want to learn>'' @ [CHR 0x0A, CHR 0x0A] @ ''or, when an argument is long or full of quotes (a script, a file body), one JSON object in a fence:'' @ [CHR 0x0A, CHR 0x0A] @ ''    ```tool_call'' @ [CHR 0x0A] @ ''    {'' @ [CHR 0x22] @ ''skill'' @ [CHR 0x22] @ '': '' @ [CHR 0x22] @ ''<skill-name>'' @ [CHR 0x22] @ '', '' @ [CHR 0x22] @ ''args'' @ [CHR 0x22] @ '': {'' @ [CHR 0x22] @ ''<arg-name>'' @ [CHR 0x22] @ '': '' @ [CHR 0x22] @ ''<value>'' @ [CHR 0x22] @ ''}, '' @ [CHR 0x22] @ ''expectation'' @ [CHR 0x22] @ '': '' @ [CHR 0x22] @ ''<what you want to learn>'' @ [CHR 0x22] @ ''}'' @ [CHR 0x0A] @ ''    ```'' @ [CHR 0x0A, CHR 0x0A] @ ''Every argument must be quoted and the expectation is required. Retry the call now if you still need it. If you do not, reply with your report '' @ em_dash @ '' but do NOT describe file contents, command output, or whether a path exists unless a tool result above actually shows it; say plainly that you could not verify it instead.''"

definition empty_reply_correction :: "string option \<Rightarrow> string \<Rightarrow> string" where
  "empty_reply_correction drafted reasoning_tail =
     ''Your last reply ended while you were still thinking: it had no visible text and no tool call, so NOTHING ran. Your reasoning is not shown back to you, so do not start the analysis over '' @ em_dash @ '' act on the plan you already made.''
     @ (case drafted of
          Some call \<Rightarrow> [CHR 0x0A, CHR 0x0A] @ ''The last tool call you drafted was:'' @ [CHR 0x0A, CHR 0x0A] @ ''    '' @ call
            @ [CHR 0x0A, CHR 0x0A] @ ''If that is still the right step, send exactly that line now.''
        | None \<Rightarrow>
            if trim reasoning_tail \<noteq> []
            then [CHR 0x0A, CHR 0x0A] @ ''Your reasoning ended with:'' @ [CHR 0x0A, CHR 0x0A, CHR 0xC2, CHR 0xAB] @ ellipsis @ trim reasoning_tail @ [CHR 0xC2, CHR 0xBB]
            else [])
     @ [CHR 0x0A, CHR 0x0A] @ ''Reply now with one tool call, and keep any thinking short '' @ em_dash @ '' or, if the work is done, give your final answer.''"

end
