(* ===== verification/Turn_Loop.thy ===== *)
theory Turn_Loop
  imports Native_Batch Prompt_Assembly Call_Extract Completion_Check Inbox_Queue Corrections
begin

text \<open>
  The loop of one turn, the task \<open>start_turn\<close> of \<open>src/crates/backend/src/chat.rs\<close> spawns: claim what arrived, flush,
  derive the request from the log, compact and trim it, send it, and either recover from a failure, or persist the
  reply and act on it (native batch, one call of the text protocol, or the end of the turn).

  What a turn keeps in locals is \<open>turn_local\<close>; what it shares with the hub is \<open>turn_state\<close>. Parameters (record
  \<open>loop_env\<close>), by the number of the step they belong to: what the server streams, what the interrupt token says at
  each look, what other tasks push into the inbox or do to the session while a request runs, the files and
  stores a prompt is built from, the summariser, the clock's jitter. The companions of \<open>--invariants\<close>, the pushes
  of live pills and of the connection's state, and \<open>tracing\<close> are left out.
\<close>

section \<open>What a turn knows\<close>

record WireHistory =
  wh_messages :: "ChatMessage list"
  wh_entries :: "SurfaceEntry list"
  wh_system_body :: string
  wh_tools_body :: string
  wh_envelope :: nat
  wh_system :: nat
  wh_tools :: nat
  wh_history :: nat

record ('d, 't, 'z, 'tz) loop_env =
  le_batch :: "('d, 't, 'z, 'tz) batch_env"
  le_turn :: nat
  le_registry :: registry
  le_mode :: ToolMode
  le_model :: string
  le_persona :: "string option"
  le_texts :: prompt_texts
  le_memory :: "nat \<Rightarrow> string"
  le_plan_text :: "nat \<Rightarrow> string"
  le_hash :: "string \<Rightarrow> json option \<Rightarrow> nat"
  le_fingerprint :: "nat \<Rightarrow> string \<Rightarrow> nat"
  le_pretty :: "json \<Rightarrow> string"
  le_options :: "nat \<Rightarrow> nat \<Rightarrow> string"
  le_max_tokens :: "nat option"
  le_policy :: CompactPolicy
  le_retry_always :: bool
  le_calls :: "string \<Rightarrow> json option"
  le_img :: "UserImage \<Rightarrow> string option"
  le_json :: json_lib
  le_ser :: json_printer
  le_host :: "nat \<Rightarrow> turn_env"
  le_summarize :: "nat \<Rightarrow> ChatMessage list \<Rightarrow> string option"
  le_long_term :: "nat \<Rightarrow> string option"
  le_reply :: "nat \<Rightarrow> reply_env"
  le_probe :: "nat \<Rightarrow> nat option"
  le_replay :: bool
  le_nanos :: "nat \<Rightarrow> nat"
  le_cancel :: "nat \<Rightarrow> nat \<Rightarrow> bool"
  le_arrivals :: "nat \<Rightarrow> Inbound list"
  le_meanwhile :: "nat \<Rightarrow> session_state \<Rightarrow> session_state"
  le_interfere :: "nat \<Rightarrow> nat \<Rightarrow> interference"

record turn_state =
  tn_run :: "session_state run_state"
  tn_inbox :: Inbox
  tn_meter :: TokenMeter
  tn_window :: nat
  tn_next_turn :: nat
  tn_replies :: "reply_event list"
  tn_compactions :: "hub_event list"
  tn_retries :: "(nat \<times> nat \<times> nat \<times> string) list"
  tn_incidents :: "(string \<times> string) list"

record turn_local =
  lc_step :: nat
  lc_hops :: nat
  lc_syntax_nudged :: bool
  lc_empty_nudges :: nat
  lc_think_off :: bool
  lc_retries :: nat
  lc_overflows :: nat
  lc_shrink :: nat
  lc_window :: nat
  lc_options :: string
  lc_last_assistant :: string
  lc_last_seq :: nat
  lc_prompt :: nat
  lc_completion :: nat
  lc_reasoning :: nat
  lc_ttft :: nat

text \<open>How a step ends: the loop goes on, it stops with a reason, or the session is gone and the task returns.\<close>

datatype step_end = Again | Stop string | Vanished

definition MAX_EMPTY_NUDGES :: nat where "MAX_EMPTY_NUDGES = 2"
definition REASONING_TAIL_BYTES :: nat where "REASONING_TAIL_BYTES = 1200"
definition LOGGED_ARGS_JSON_MAX :: nat where "LOGGED_ARGS_JSON_MAX = 65536"
definition MAX_OVERFLOW_RETRIES :: nat where "MAX_OVERFLOW_RETRIES = 3"
definition OVERFLOW_SHRINK_STEP_PCT :: nat where "OVERFLOW_SHRINK_STEP_PCT = 10"

definition on_run :: "(session_state run_state \<Rightarrow> session_state run_state) \<Rightarrow> turn_state \<Rightarrow> turn_state" where
  "on_run f st = st\<lparr>tn_run := f (tn_run st)\<rparr>"

definition session_of :: "turn_state \<Rightarrow> session_state" where
  "session_of st = ru_state (tn_run st)"

definition say :: "string \<Rightarrow> string \<Rightarrow> turn_state \<Rightarrow> turn_state" where
  "say level m = on_run (on_state (log_line level m))"

definition add_row :: "('d, 't, 'z, 'tz) loop_env \<Rightarrow> EventKind \<Rightarrow> turn_state \<Rightarrow> turn_state" where
  "add_row E k = on_run (\<lambda>w. snd (put_row (le_batch E) k w))"

definition incident :: "string \<Rightarrow> string \<Rightarrow> turn_state \<Rightarrow> turn_state" where
  "incident what m st = st\<lparr>tn_incidents := tn_incidents st @ [(what, m)]\<rparr>"

section \<open>Claiming what arrived\<close>

fun claim_item :: "('d, 't, 'z, 'tz) loop_env \<Rightarrow> Inbound \<Rightarrow> turn_state \<Rightarrow> turn_state" where
  "claim_item E (Steer t) st =
     add_row E (UserMessage Append t []) (say ''INFO'' (''steer applied: '' @ one_line t 120) st)"
| "claim_item E (Inject c src) st =
     add_row E (ContextInjected Append src c) (say ''INFO'' (''context injected ('' @ context_label src @ '')'') st)"
| "claim_item E (Followup _ _) st = st"

definition claim :: "('d, 't, 'z, 'tz) loop_env \<Rightarrow> nat \<Rightarrow> turn_state \<Rightarrow> turn_state" where
  "claim E i st =
     (let sid = ba_session (le_batch E);
          ib = fold (\<lambda>item b. snd (inbox_push b sid item)) (le_arrivals E i) (tn_inbox st)
      in case drain_mid_turn ib sid of
           (items, ib') \<Rightarrow> fold (claim_item E) items (st\<lparr>tn_inbox := ib'\<rparr>))"

section \<open>The request\<close>

definition build_wire_history ::
  "('d, 't, 'z, 'tz) loop_env \<Rightarrow> nat \<Rightarrow> Message list \<Rightarrow> string option \<Rightarrow> string \<Rightarrow> PromptError + WireHistory" where
  "build_wire_history E i messages plan_policy cwd =
     (case for_main_agent (le_texts E) (le_memory E i) (le_registry E) (le_mode E)
             (standard_vars_in (le_host E i) (le_model E) cwd) plan_policy (le_persona E) of
        Inl e \<Rightarrow> Inl e
      | Inr r \<Rightarrow>
          (let tools = tools_for (le_registry E) (le_mode E)
           in Inr \<lparr>wh_messages = (if rd_system r = [] then [] else [chat_text ''system'' (rd_system r)])
                     @ wire_messages (le_calls E) (le_img E) (mode_native (le_mode E)) messages,
                   wh_entries = [],
                   wh_system_body = rd_system r,
                   wh_tools_body = (case tools of None \<Rightarrow> [] | Some t \<Rightarrow> le_pretty E t),
                   wh_envelope = le_hash E (rd_system r) tools,
                   wh_system = approx_tokens (rd_system r),
                   wh_tools = (case tools of None \<Rightarrow> 0 | Some t \<Rightarrow> approx_tokens (ba_print (le_batch E) t)),
                   wh_history = sum_u32 (map (\<lambda>m. wrap_u32 (approx_tokens (content m) + 4)) messages)\<rparr>))"

text \<open>\<open>None\<close>: the session is gone.\<close>

definition build_history ::
  "('d, 't, 'z, 'tz) loop_env \<Rightarrow> nat \<Rightarrow> turn_state \<Rightarrow> (PromptError + WireHistory) option" where
  "build_history E i st =
     (case hs_log (session_of st) of
        None \<Rightarrow> None
      | Some log \<Rightarrow>
          (let entries = derive_surface (le_ser E) (events log);
               plan_policy = (if ss_plan (session_of st) then Some (le_plan_text E i) else None)
           in Some (map_sum id (\<lambda>wh. wh\<lparr>wh_entries := entries\<rparr>)
                (build_wire_history E i (map se_message entries) plan_policy (session_dir (le_host E i) log)))))"

definition reserve_of :: "('d, 't, 'z, 'tz) loop_env \<Rightarrow> nat" where
  "reserve_of E = saturating_add_u32 (case le_max_tokens E of Some n \<Rightarrow> n | None \<Rightarrow> 4096) 512"

definition compact_env_of :: "('d, 't, 'z, 'tz) loop_env \<Rightarrow> nat \<Rightarrow> WireHistory \<Rightarrow> nat \<Rightarrow> nat \<Rightarrow> int \<Rightarrow> compact_env" where
  "compact_env_of E i wh bud window now =
     \<lparr>ce_ser = le_ser E, ce_parse = le_calls E, ce_img = le_img E, ce_summarize = le_summarize E i, ce_now = now,
      ce_native = mode_native (le_mode E), ce_overhead = saturating_add_u32 (wh_system wh) (wh_tools wh),
      ce_budget = bud, ce_window = window, ce_policy = le_policy E\<rparr>"

definition now_of :: "('d, 't, 'z, 'tz) loop_env \<Rightarrow> turn_state \<Rightarrow> int" where
  "now_of E st = ba_clock (le_batch E) (log_pos (session_of st))"

definition set_log :: "SessionLog option \<Rightarrow> turn_state \<Rightarrow> turn_state" where
  "set_log cur = on_run (on_state (\<lambda>s. s\<lparr>hs_log := cur\<rparr>))"

text \<open>A compaction, and the memory snapshots the fold took, put back when it did something.\<close>

definition reattach_after_compaction :: "('d, 't, 'z, 'tz) loop_env \<Rightarrow> nat \<Rightarrow> turn_state \<Rightarrow> turn_state" where
  "reattach_after_compaction E i st =
     (case hs_log (session_of st) of
        None \<Rightarrow> st
      | Some log \<Rightarrow>
          (case reattach_memory (le_host E i) (le_long_term E i) log of
             (False, _) \<Rightarrow> st
           | (True, log') \<Rightarrow> say ''INFO'' (''context: memory re-attached after compaction'') (set_log (Some log') st)))"

definition compact_step ::
  "('d, 't, 'z, 'tz) loop_env \<Rightarrow> nat \<Rightarrow> WireHistory \<Rightarrow> nat \<Rightarrow> nat \<Rightarrow> turn_state \<Rightarrow> bool \<times> turn_state" where
  "compact_step E i wh bud window st =
     (case hs_log (session_of st) of
        None \<Rightarrow> (False, st)
      | Some log \<Rightarrow>
          (case compact_session (compact_env_of E i wh bud window (now_of E st))
                  (le_interfere E i 0) (le_interfere E i 1) (le_interfere E i 2) log of
             (done, evs, cur) \<Rightarrow>
               (let st' = (set_log cur st)\<lparr>tn_compactions := tn_compactions st @ evs\<rparr>
                in (done, if done then reattach_after_compaction E i st' else st'))))"

definition record_envelope :: "('d, 't, 'z, 'tz) loop_env \<Rightarrow> WireHistory \<Rightarrow> string \<Rightarrow> turn_state \<Rightarrow> turn_state" where
  "record_envelope E wh options st =
     (let fp = le_fingerprint E (wh_envelope wh) options
      in case hs_log (session_of st) of
           None \<Rightarrow> st
         | Some log \<Rightarrow>
             if latest_envelope log = Some fp then st
             else add_row E (RequestEnvelope fp (wh_system_body wh) (wh_tools_body wh) options) st)"

text \<open>A prompt that cannot be assembled ends the turn.\<close>

definition prompt_failed :: "PromptError \<Rightarrow> turn_state \<Rightarrow> step_end \<times> turn_state" where
  "prompt_failed e st =
     (let m = ''prompt assembly failed: '' @ prompt_error_text e
      in (Stop ''error'', incident ''prompt'' m (say ''ERROR'' m st)))"

record prepared =
  pr_wire :: WireHistory
  pr_budget :: nat
  pr_anchored :: "nat option"

text \<open>Up to the request: claim, flush, derive, price, compact.\<close>

definition open_step ::
  "('d, 't, 'z, 'tz) loop_env \<Rightarrow> turn_local \<Rightarrow> turn_state \<Rightarrow> (step_end \<times> turn_state) + (prepared \<times> turn_state)" where
  "open_step E L st0 =
     (let i = lc_step L
      in if le_cancel E i 0 then Inl (Stop ''done'', st0)
         else let st = claim E i st0
              in case checkpoint (le_batch E) (tn_run st) of
                   Some e \<Rightarrow>
                     Inl (Stop ''error'',
                       incident ''checkpoint'' (''session log could not be flushed before a request: '' @ e)
                         (say ''ERROR'' (''session log could not be flushed '' @ em_dash @ '' turn ended: '' @ e) st))
                 | None \<Rightarrow>
                     (case build_history E i st of
                        None \<Rightarrow> Inl (Stop ''done'', st)
                      | Some (Inl e) \<Rightarrow> Inl (prompt_failed e st)
                      | Some (Inr wh) \<Rightarrow>
                          (let bud = prompt_budget (lc_window L) (reserve_of E) (lc_shrink L);
                               anchored = meter_estimate (tn_meter st) (wh_envelope wh) (wh_entries wh);
                               tokens = (case anchored of Some n \<Rightarrow> n | None \<Rightarrow> wire_total (wh_messages wh));
                               over = (tokens * 100 \<ge> bud * threshold_pct (le_policy E) \<or> at_ceiling tokens (lc_window L))
                           in if \<not> over then Inr (\<lparr>pr_wire = wh, pr_budget = bud, pr_anchored = anchored\<rparr>, st)
                              else (case compact_step E i wh bud (lc_window L) st of
                                      (False, st1) \<Rightarrow> Inr (\<lparr>pr_wire = wh, pr_budget = bud, pr_anchored = anchored\<rparr>, st1)
                                    | (True, st1) \<Rightarrow>
                                        (case build_history E i st1 of
                                           None \<Rightarrow> Inl (Stop ''done'', st1)
                                         | Some (Inl e) \<Rightarrow> Inl (prompt_failed e st1)
                                         | Some (Inr wh1) \<Rightarrow>
                                             Inr (\<lparr>pr_wire = wh1, pr_budget = bud,
                                                   pr_anchored = meter_estimate (tn_meter st1) (wh_envelope wh1) (wh_entries wh1)\<rparr>, st1))))))"

text \<open>
  The request itself: the envelope's row, the trim, the stream; meanwhile other tasks may change the session. The
  thinking flag of the step's client reaches the server only.
\<close>

definition send_request ::
  "('d, 't, 'z, 'tz) loop_env \<Rightarrow> turn_local \<Rightarrow> prepared \<Rightarrow> turn_state \<Rightarrow> TurnOutput \<times> nat \<times> turn_state" where
  "send_request E L p st0 =
     (let i = lc_step L; wh = pr_wire p;
          st1 = record_envelope E wh (lc_options L) st0;
          trimmed = trim_to_budget (wh_messages wh) (pr_budget p);
          st2 = (if tr_dropped trimmed > 0
                 then say ''WARN'' (''context: dropped '' @ dec (tr_dropped trimmed) @ '' oldest message(s) to fit the ''
                        @ dec (lc_window L) @ ''-token window'') st1
                 else st1);
          (out, evs) = run_turn (le_reply E i)
             \<lparr>ri_turn = tn_next_turn st2, ri_messages = TrimReport.tr_messages trimmed, ri_limit = lc_window L,
              ri_budget = pr_budget p, ri_estimate = pr_anchored p\<rparr>
      in (out, tr_dropped trimmed,
          on_run (on_state (le_meanwhile E i))
            (st2\<lparr>tn_next_turn := Suc (tn_next_turn st2), tn_replies := tn_replies st2 @ evs\<rparr>)))"

section \<open>A request that failed\<close>

definition failure_of :: "('d, 't, 'z, 'tz) loop_env \<Rightarrow> turn_local \<Rightarrow> TurnOutput \<Rightarrow> Failure option" where
  "failure_of E L out =
     (case to_error out of
        Some e \<Rightarrow> Some (classify e)
      | None \<Rightarrow>
          if to_content out = [] \<and> to_reasoning out = [] \<and> to_tool_calls out = [] \<and> \<not> le_cancel E (lc_step L) 1
          then Some empty_response else None)"

definition retry_row :: "('d, 't, 'z, 'tz) loop_env \<Rightarrow> nat \<Rightarrow> nat \<Rightarrow> nat \<Rightarrow> string \<Rightarrow> turn_state \<Rightarrow> turn_state" where
  "retry_row E attempt mx delay why st =
     add_row E (LlmRetry attempt mx delay why) (st\<lparr>tn_retries := tn_retries st @ [(attempt, mx, delay, why)]\<rparr>)"

text \<open>The window the server is known to have, if that explains the refusal.\<close>

definition learned_window :: "('d, 't, 'z, 'tz) loop_env \<Rightarrow> turn_local \<Rightarrow> Failure \<Rightarrow> nat option" where
  "learned_window E L f =
     (let named = context_limit f;
          probed = (if named \<noteq> None \<or> le_replay E then None else le_probe E (lc_step L))
      in case (case named of Some n \<Rightarrow> Some n | None \<Rightarrow> probed) of
           Some n \<Rightarrow> if n > 0 \<and> n < lc_window L then Some n else None
         | None \<Rightarrow> None)"

text \<open>What one recovery gives up: the window it learned, or a share of the budget; and how it says so.\<close>

definition shrink_step :: "('d, 't, 'z, 'tz) loop_env \<Rightarrow> turn_local \<Rightarrow> Failure \<Rightarrow> turn_local \<times> nat option \<times> string" where
  "shrink_step E L f =
     (case learned_window E L f of
        Some w \<Rightarrow>
          (L\<lparr>lc_overflows := Suc (lc_overflows L), lc_window := w, lc_options := le_options E (lc_step L) w\<rparr>, Some w,
           ''the server'' @ [CHR 0x27] @ ''s window is '' @ dec w @ '' tokens (was '' @ dec (lc_window L)
             @ '') '' @ em_dash @ '' adopting it'')
      | None \<Rightarrow>
          (let sh = min (saturating_add_u32 (lc_shrink L) OVERFLOW_SHRINK_STEP_PCT) 90
           in (L\<lparr>lc_overflows := Suc (lc_overflows L), lc_shrink := sh\<rparr>, None,
               ''the server did not name its limit '' @ em_dash @ '' prompt budget reduced by '' @ dec sh
                 @ ''% for this turn'')))"

definition recover_overflow ::
  "('d, 't, 'z, 'tz) loop_env \<Rightarrow> turn_local \<Rightarrow> prepared \<Rightarrow> Failure \<Rightarrow> turn_state \<Rightarrow> turn_local \<times> turn_state" where
  "recover_overflow E L0 p f st0 =
     (let i = lc_step L0; (L, w, how) = shrink_step E L0 f; n = lc_overflows L;
          st = (case w of Some k \<Rightarrow> st0\<lparr>tn_window := k\<rparr> | None \<Rightarrow> st0);
          bud = prompt_budget (lc_window L) (reserve_of E) (lc_shrink L);
          (pruned, st1) = (case hs_log (session_of st) of
             None \<Rightarrow> (0, st)
           | Some log \<Rightarrow> (case prune_oversized_results (now_of E st) (le_ser E) log of (k, log') \<Rightarrow> (k, set_log (Some log') st)));
          (compacted, st2) = compact_step E i (pr_wire p) bud (lc_window L) st1;
          m = ''context: the server rejected the prompt as too long '' @ em_dash @ '' '' @ how @ ''; ''
              @ (if pruned > 0 then dec pruned @ '' oversized tool result(s) pruned, '' else [])
              @ (if compacted then ''history compacted'' else ''nothing left to fold, trimming'')
              @ '' and retrying ('' @ dec n @ ''/'' @ dec MAX_OVERFLOW_RETRIES @ '')'';
          why = ''context overflow '' @ em_dash @ '' '' @ one_line (failure_reason f) 160
      in (L\<lparr>lc_step := Suc i\<rparr>, retry_row E n MAX_OVERFLOW_RETRIES 0 why (say ''WARN'' m st2)))"

definition give_up :: "string \<Rightarrow> string \<Rightarrow> turn_state \<Rightarrow> turn_state" where
  "give_up what m st = say ''ERROR'' m (incident what m st)"

definition fail_step ::
  "('d, 't, 'z, 'tz) loop_env \<Rightarrow> turn_local \<Rightarrow> prepared \<Rightarrow> TurnOutput \<Rightarrow> Failure \<Rightarrow> turn_state
   \<Rightarrow> step_end \<times> turn_local \<times> turn_state" where
  "fail_step E L p out f st =
     (if is_context_overflow f \<and> lc_overflows L < MAX_OVERFLOW_RETRIES then
        (case recover_overflow E L p f st of (L', st') \<Rightarrow> (Again, L', st'))
      else if is_context_overflow f then
        (Stop ''error'', L, give_up ''context_overflow''
           (''LLM request failed ('' @ one_line (failure_reason f) 200 @ '') '' @ em_dash
            @ '' the prompt still does not fit the '' @ dec (lc_window L) @ ''-token window after ''
            @ dec (lc_overflows L) @ '' compaction(s)'') st)
      else if (is_retryable f \<or> le_retry_always E) \<and> lc_retries L < RETRY_MAX then
        (let n = Suc (lc_retries L);
             delay = (case Option.bind (to_error out) retry_after of
                        Some secs \<Rightarrow> secs * 1000 | None \<Rightarrow> backoff n (le_nanos E (lc_step L)));
             st1 = retry_row E n RETRY_MAX delay (failure_reason f)
                     (say ''WARN'' (''LLM request failed ('' @ failure_reason f @ '') '' @ em_dash @ '' retry '' @ dec n @ ''/''
                        @ dec RETRY_MAX @ '' in '' @ dec delay @ '' ms'') st)
         in (if le_cancel E (lc_step L) 4 then Stop ''done'' else Again, L\<lparr>lc_retries := n, lc_step := Suc (lc_step L)\<rparr>, st1))
      else
        (Stop ''error'', L, give_up ''llm_request''
           (if is_retryable f
            then ''LLM request failed ('' @ failure_reason f @ '') '' @ em_dash @ '' giving up after '' @ dec (lc_retries L) @ '' retries''
            else ''LLM request failed ('' @ failure_reason f @ '') '' @ em_dash @ '' not retryable'') st))"

section \<open>A reply that landed\<close>

text \<open>The meter's anchor, the turn's sums and the ceiling warning.\<close>

definition account ::
  "('d, 't, 'z, 'tz) loop_env \<Rightarrow> turn_local \<Rightarrow> prepared \<Rightarrow> TurnOutput \<Rightarrow> nat \<Rightarrow> turn_state \<Rightarrow> turn_local \<times> turn_state" where
  "account E L p out dropped st =
     (let wh = pr_wire p;
          st1 = (if dropped = 0
                 then (case (wh_entries wh, to_usage out) of
                         (e # es, Some u) \<Rightarrow>
                           if prompt_tokens u > 0
                           then st\<lparr>tn_meter := meter_record (tn_meter st) (wh_envelope wh) (se_seq (last (e # es))) (prompt_tokens u)\<rparr>
                           else st
                       | _ \<Rightarrow> st)
                 else st\<lparr>tn_meter := None\<rparr>);
          used = (case to_usage out of None \<Rightarrow> 0 | Some u \<Rightarrow> saturating_add_u32 (prompt_tokens u) (completion_tokens u));
          st2 = (if to_usage out \<noteq> None \<and> at_ceiling used (lc_window L)
                 then say ''WARN'' (''context: '' @ dec used @ '' of the '' @ dec (lc_window L) @ ''-token window in use (''
                        @ dec (used * 100 div max (lc_window L) 1) @ ''%) '' @ em_dash
                        @ '' older history will be compacted before the next request'') st1
                 else st1)
      in (L\<lparr>lc_retries := 0, lc_overflows := 0, lc_think_off := False,
            lc_prompt := (case to_usage out of None \<Rightarrow> lc_prompt L | Some u \<Rightarrow> saturating_add_u32 (lc_prompt L) (prompt_tokens u)),
            lc_completion := (case to_usage out of None \<Rightarrow> lc_completion L
                              | Some u \<Rightarrow> saturating_add_u32 (lc_completion L) (completion_tokens u)),
            lc_reasoning := saturating_add_u32 (lc_reasoning L) (wrap_u32 (length (to_reasoning out))),
            lc_ttft := (if lc_ttft L = 0 then (case to_ttft out of None \<Rightarrow> 0 | Some n \<Rightarrow> n) else lc_ttft L),
            lc_last_assistant := to_content out\<rparr>, st2))"

text \<open>The assistant's row and the token reading; \<open>None\<close> when the session is gone.\<close>

definition persist ::
  "('d, 't, 'z, 'tz) loop_env \<Rightarrow> turn_local \<Rightarrow> prepared \<Rightarrow> TurnOutput \<Rightarrow> turn_state \<Rightarrow> (nat \<times> turn_state) option" where
  "persist E L p out st =
     (case hs_log (session_of st) of
        None \<Rightarrow> None
      | Some log \<Rightarrow>
          (let calls = (if to_tool_calls out = [] \<or> le_cancel E (lc_step L) 2 then None
                        else Some (native_calls_to_json (ba_print (le_batch E)) (to_tool_calls out)))
           in Some (next_seq log,
                add_row E (TokenUsage (to_used out) (lc_window L) (pr_budget p)
                    (map_option prompt_tokens (to_usage out)) (map_option completion_tokens (to_usage out)))
                  (add_row E (AssistantMessage Append (to_content out)
                      (if to_reasoning out = [] then None else Some (to_reasoning out)) calls) st))))"

definition known :: "registry \<Rightarrow> string \<Rightarrow> bool" where
  "known reg name \<longleftrightarrow> map_of reg name \<noteq> None"

text \<open>A reply with nothing in it but reasoning.\<close>

definition empty_step ::
  "('d, 't, 'z, 'tz) loop_env \<Rightarrow> turn_local \<Rightarrow> TurnOutput \<Rightarrow> turn_state \<Rightarrow> step_end \<times> turn_local \<times> turn_state" where
  "empty_step E L out st =
     (if lc_empty_nudges L < MAX_EMPTY_NUDGES then
        (let n = Suc (lc_empty_nudges L);
             drafted = last_drafted_call (to_reasoning out) (known (le_registry E));
             rest = (if drafted \<noteq> None then [] else utf8_tail (to_reasoning out) REASONING_TAIL_BYTES);
             m = ''assistant replied with reasoning only ('' @ dec (length (to_reasoning out)) @ '' bytes, no text, no tool call) ''
                 @ em_dash @ '' ''
                 @ (if drafted \<noteq> None then ''handing back the call it drafted'' else ''asking it to act on its plan'')
                 @ '', next step with thinking off ('' @ dec n @ ''/'' @ dec MAX_EMPTY_NUDGES @ '')''
         in (Again, L\<lparr>lc_empty_nudges := n, lc_think_off := True, lc_step := Suc (lc_step L)\<rparr>,
             add_row E (ContextInjected Append ToolNotice (empty_reply_correction drafted rest)) (say ''WARN'' m st)))
      else
        (let m = ''the model still replied with reasoning only after '' @ dec MAX_EMPTY_NUDGES
                 @ '' request(s) to act '' @ em_dash @ '' turn ended''
         in (Stop ''empty'', L, incident ''empty_reply'' m (say ''WARN'' m st))))"

definition hop_limit :: string where
  "hop_limit = ''tool-hop limit ('' @ dec MAX_TOOL_HOPS @ '') reached '' @ em_dash @ '' aborting further skill calls''"

text \<open>The native path; \<open>None\<close> is a call that never returns.\<close>

definition native_step ::
  "('d, 't, 'z, 'tz) loop_env \<Rightarrow> turn_local \<Rightarrow> TurnOutput \<Rightarrow> turn_state \<Rightarrow> (step_end \<times> turn_local \<times> turn_state) option" where
  "native_step E L out st =
     (let over_limit = (lc_hops L \<ge> MAX_TOOL_HOPS);
          L1 = L\<lparr>lc_hops := (if over_limit then lc_hops L else Suc (lc_hops L)), lc_step := Suc (lc_step L)\<rparr>
      in map_option (\<lambda>(e, w).
           (let st1 = st\<lparr>tn_run := w\<rparr>
            in if e = Aborted then
                 (Stop ''error'', L1, incident ''checkpoint'' ''session log could not be flushed before a tool call''
                    (say ''ERROR'' (''session log could not be flushed before a tool call '' @ em_dash @ '' turn ended'') st1))
               else if over_limit then (Stop ''hop-limit'', L1, say ''WARN'' hop_limit st1)
               else if e = Concluded then (Stop ''done'', L1, st1)
               else (Again, L1, st1)))
           (run_native_batch (le_batch E) (le_registry E) over_limit (mode_ptc (le_mode E)) (to_tool_calls out) (tn_run st)))"

section \<open>A call of the text protocol\<close>

definition text_call_row :: "('d, 't, 'z, 'tz) loop_env \<Rightarrow> ToolCall \<Rightarrow> EventKind" where
  "text_call_row E call =
     ToolCall (tc_skill call) (render_call (tc_skill call) (tc_raw_args call)) (tc_expectation call) None
       (case resolve_call (le_registry E) call of
          None \<Rightarrow> None
        | Some (_, args) \<Rightarrow>
            (let json = ba_print (le_batch E) args
             in if length json \<le> LOGGED_ARGS_JSON_MAX then Some json else None))"

definition dispatch_text ::
  "('d, 't, 'z, 'tz) loop_env \<Rightarrow> ToolCall \<Rightarrow> nat \<Rightarrow> session_state run_state
   \<Rightarrow> (SkillOutcome \<times> bool \<times> bool \<times> session_state run_state) option" where
  "dispatch_text E call n w =
     (let B = le_batch E
      in case resolve_call (le_registry E) call of
           Some (sk, args) \<Rightarrow>
             if is_control_skill (sk_name sk) then
               map_option (\<lambda>(out, conclude, w1). (out, control_trusted (sk_name sk), conclude, w1))
                 (handle_control (ba_control B n) (sk_name sk) args (render_call (tc_skill call) (tc_raw_args call))
                    (tc_expectation call) n w)
             else
               (case run_report (sub_agent B n w) (ba_run B sk n)
                       \<lparr>iv_skill = sk_name sk, iv_args = args, iv_raw_args = tc_raw_args call,
                        iv_expectation = tc_expectation call\<rparr> w of
                  (report, w1) \<Rightarrow>
                    (let w2 = (case rr_approval report of
                                 None \<Rightarrow> w1
                               | Some r \<Rightarrow> snd (put_row B (Approval (ar_skill r) (ar_preview r) (ar_decision r)) w1))
                     in Some (rr_outcome report, sk_trusted sk, False, inject_notices B (rr_notices report) w2)))
         | None \<Rightarrow>
             Some (fail_with (''unknown skill `'' @ tc_skill call @ ''`''), True, False,
               observe_call B (tc_skill call) (JArray (map JString (tc_raw_args call))) w))"

definition text_step ::
  "('d, 't, 'z, 'tz) loop_env \<Rightarrow> turn_local \<Rightarrow> ToolCall \<Rightarrow> turn_state \<Rightarrow> (step_end \<times> turn_local \<times> turn_state) option" where
  "text_step E L call st =
     (let B = le_batch E
      in case put_row B (text_call_row E call) (tn_run st) of
           (n, w) \<Rightarrow>
             (case checkpoint B w of
                Some e \<Rightarrow>
                  (let m = unflushed e
                   in Some (Stop ''error'', L,
                        on_run (append_tool_result B n (tc_skill call) None False m True)
                          (incident ''checkpoint'' m (say ''ERROR'' m (st\<lparr>tn_run := w\<rparr>)))))
              | None \<Rightarrow>
                  if lc_hops L \<ge> MAX_TOOL_HOPS then
                    Some (Stop ''hop-limit'', L,
                      on_run (append_tool_result B n (tc_skill call) None False hop_limit True)
                        (say ''WARN'' hop_limit (st\<lparr>tn_run := w\<rparr>)))
                  else
                    map_option (\<lambda>(out, trusted, conclude, w1).
                      (let w2 = append_tool_result B n (tc_skill call) None (so_ok out) (so_summary out) trusted w1;
                           w3 = (if so_ok out \<and> is_fs_skill (tc_skill call) then reconcile_instructions_after_fs B w2 else w2)
                       in (if conclude then Stop ''done'' else Again,
                           L\<lparr>lc_hops := Suc (lc_hops L), lc_step := Suc (lc_step L)\<rparr>, st\<lparr>tn_run := w3\<rparr>)))
                      (dispatch_text E call n w)))"

text \<open>No call in the reply: the turn is over, unless the reply tried to make one.\<close>

definition no_call_step ::
  "('d, 't, 'z, 'tz) loop_env \<Rightarrow> turn_local \<Rightarrow> TurnOutput \<Rightarrow> turn_state \<Rightarrow> step_end \<times> turn_local \<times> turn_state" where
  "no_call_step E L out st =
     (case rejected_attempt (le_json E) (known (le_registry E)) (to_content out) of
        None \<Rightarrow> (Stop ''done'', L, st)
      | Some why \<Rightarrow>
          (let retrying = (\<not> lc_syntax_nudged L \<and> lc_hops L < MAX_TOOL_HOPS);
               m = ''assistant emitted '' @ why @ '' '' @ em_dash @ '' no skill ran; ''
                   @ (if retrying then ''asking it to retry with the correct syntax'' else ''treat its reply as unverified'');
               st1 = say ''WARN'' m st
           in if retrying
              then (Again, L\<lparr>lc_syntax_nudged := True, lc_step := Suc (lc_step L)\<rparr>,
                    add_row E (ContextInjected Append ToolNotice (syntax_correction why)) st1)
              else (Stop ''bad-call'', L,
                    incident ''bad_call'' (''the tool call still could not be read after the syntax correction '' @ em_dash
                      @ '' '' @ why) st1)))"

text \<open>Acting on a reply that is in the log.\<close>

definition act_step ::
  "('d, 't, 'z, 'tz) loop_env \<Rightarrow> turn_local \<Rightarrow> TurnOutput \<Rightarrow> turn_state \<Rightarrow> (step_end \<times> turn_local \<times> turn_state) option" where
  "act_step E L out st =
     (if le_cancel E (lc_step L) 3 then Some (Stop ''done'', L, st)
      else if to_finish out = ''max_tokens'' then
        Some (Stop ''max_tokens'', L,
          (case truncated_reply (to_content out) of
             None \<Rightarrow> st
           | Some stub \<Rightarrow> add_row E (AssistantMessage (Replace (lc_last_seq L) (lc_last_seq L)) stub None None) st))
      else if trim (to_content out) = [] \<and> to_tool_calls out = [] then Some (empty_step E L out st)
      else if mode_native (le_mode E) \<and> to_tool_calls out \<noteq> [] then native_step E L out st
      else (case extract_for (le_json E) (arity (le_registry E)) (to_content out) of
              None \<Rightarrow> Some (no_call_step E L out st)
            | Some call \<Rightarrow> text_step E L call st))"

section \<open>The turn\<close>

definition turn_step ::
  "('d, 't, 'z, 'tz) loop_env \<Rightarrow> turn_local \<Rightarrow> turn_state \<Rightarrow> (step_end \<times> turn_local \<times> turn_state) option" where
  "turn_step E L st0 =
     (case open_step E L st0 of
        Inl (e, st) \<Rightarrow> Some (e, L, st)
      | Inr (p, st1) \<Rightarrow>
          (case send_request E L p st1 of
             (out, dropped, st2) \<Rightarrow>
               (case failure_of E L out of
                  Some f \<Rightarrow> Some (fail_step E L p out f st2)
                | None \<Rightarrow>
                    (case account E L p out dropped st2 of
                       (L1, st3) \<Rightarrow>
                         (case persist E L1 p out st3 of
                            None \<Rightarrow> Some (Vanished, L1, st3)
                          | Some (n, st4) \<Rightarrow> act_step E (L1\<lparr>lc_last_seq := n\<rparr>) out st4)))))"

text \<open>
  What a turn may still spend: tool hops, nudges, and within one step the retries. Landing a reply renews the
  retries and costs a hop or a nudge.
\<close>

definition landings :: "turn_local \<Rightarrow> nat" where
  "landings L = (MAX_TOOL_HOPS - lc_hops L) + (MAX_EMPTY_NUDGES - lc_empty_nudges L) + (if lc_syntax_nudged L then 0 else 1)"

definition credit :: "turn_local \<Rightarrow> nat" where
  "credit L = 9 * landings L + (MAX_OVERFLOW_RETRIES - lc_overflows L) + (RETRY_MAX - lc_retries L)"

lemmas loop_consts = MAX_TOOL_HOPS_def MAX_EMPTY_NUDGES_def MAX_OVERFLOW_RETRIES_def RETRY_MAX_def

lemma landings_simps [simp]: "landings (L\<lparr>lc_step := n\<rparr>) = landings L" "landings (L\<lparr>lc_retries := n\<rparr>) = landings L"
  "landings (L\<lparr>lc_last_seq := n\<rparr>) = landings L"
  by (simp_all add: landings_def)

lemma recover_local: "fst (recover_overflow E L p f st) = (fst (shrink_step E L f))\<lparr>lc_step := Suc (lc_step L)\<rparr>"
  unfolding recover_overflow_def Let_def split_def fst_conv by (rule refl)

lemma shrink_local:
  "lc_overflows (fst (shrink_step E L f)) = Suc (lc_overflows L)" "lc_retries (fst (shrink_step E L f)) = lc_retries L"
  "landings (fst (shrink_step E L f)) = landings L" "lc_hops (fst (shrink_step E L f)) = lc_hops L"
  by (simp_all add: shrink_step_def Let_def landings_def split: option.splits)

lemma fail_step_again:
  assumes "fail_step E L p out f st = (Again, L', st')"
  shows "credit L' < credit L \<and> lc_step L' = Suc (lc_step L) \<and> lc_hops L' = lc_hops L"
proof (cases "is_context_overflow f \<and> lc_overflows L < MAX_OVERFLOW_RETRIES")
  case True
  then have "(case recover_overflow E L p f st of (L', st') \<Rightarrow> (Again, L', st')) = (Again, L', st')"
    using assms unfolding fail_step_def if_P [OF True] by simp
  then have "L' = fst (recover_overflow E L p f st)" by (cases "recover_overflow E L p f st") simp
  then show ?thesis
    using True shrink_local [of E L f] unfolding recover_local credit_def by auto
next
  case False
  note run = assms [unfolded fail_step_def if_not_P [OF False]]
  have no: "\<not> is_context_overflow f"
    using run False by (cases "is_context_overflow f") (simp_all only: if_True if_False prod.inject step_end.distinct simp_thms)
  show ?thesis
  proof (cases "(is_retryable f \<or> le_retry_always E) \<and> lc_retries L < RETRY_MAX")
    case True
    have "L' = L\<lparr>lc_retries := Suc (lc_retries L), lc_step := Suc (lc_step L)\<rparr>"
      using run unfolding if_not_P [OF no] if_P [OF True] Let_def by (simp only: prod.inject)
    then show ?thesis using True unfolding credit_def by auto
  next
    case False
    then show ?thesis using run unfolding if_not_P [OF no] if_not_P [OF False] by (simp only: prod.inject step_end.distinct simp_thms)
  qed
qed

lemma landing_credit:
  assumes "landings L' < landings L"
  shows "credit L' < credit L"
  using assms unfolding credit_def by (simp add: loop_consts)

text \<open>One lemma per way to go on.\<close>

definition spends :: "turn_local \<Rightarrow> turn_local \<Rightarrow> bool" where
  "spends L L' \<longleftrightarrow> landings L' < landings L \<and> lc_step L' = Suc (lc_step L) \<and> lc_hops L \<le> lc_hops L'
     \<and> (lc_hops L \<le> 12 \<longrightarrow> lc_hops L' \<le> 12)"

lemma spends_hop: "lc_hops L < MAX_TOOL_HOPS \<Longrightarrow> spends L (L\<lparr>lc_hops := Suc (lc_hops L), lc_step := Suc (lc_step L)\<rparr>)"
  by (simp add: spends_def landings_def MAX_TOOL_HOPS_def)

lemma empty_step_again:
  assumes "empty_step E L out st = (Again, L', st')"
  shows "spends L L'"
proof (cases "lc_empty_nudges L < MAX_EMPTY_NUDGES")
  case True
  have "L' = L\<lparr>lc_empty_nudges := Suc (lc_empty_nudges L), lc_think_off := True, lc_step := Suc (lc_step L)\<rparr>"
    using assms unfolding empty_step_def if_P [OF True] Let_def by (simp only: prod.inject)
  then show ?thesis using True by (simp add: spends_def landings_def MAX_EMPTY_NUDGES_def)
next
  case False
  then show ?thesis using assms unfolding empty_step_def if_not_P [OF False] Let_def
    by (simp only: prod.inject step_end.distinct simp_thms)
qed

lemma native_step_again:
  assumes "native_step E L out st = Some (Again, L', st')"
  shows "spends L L'"
proof -
  have h: "lc_hops L < MAX_TOOL_HOPS" and l: "L' = L\<lparr>lc_hops := Suc (lc_hops L), lc_step := Suc (lc_step L)\<rparr>"
    using assms by (auto simp: native_step_def Let_def split: if_splits)
  from spends_hop [OF h] l show ?thesis by simp
qed

lemma text_step_again:
  assumes "text_step E L call st = Some (Again, L', st')"
  shows "spends L L'"
proof -
  have h: "lc_hops L < MAX_TOOL_HOPS" and l: "L' = L\<lparr>lc_hops := Suc (lc_hops L), lc_step := Suc (lc_step L)\<rparr>"
    using assms by (auto simp: text_step_def Let_def split: if_splits option.splits prod.splits)
  from spends_hop [OF h] l show ?thesis by simp
qed

lemma no_call_step_again:
  assumes "no_call_step E L out st = (Again, L', st')"
  shows "spends L L'"
proof (cases "rejected_attempt (le_json E) (known (le_registry E)) (to_content out)")
  case (Some why)
  show ?thesis
  proof (cases "\<not> lc_syntax_nudged L \<and> lc_hops L < MAX_TOOL_HOPS")
    case True
    have "L' = L\<lparr>lc_syntax_nudged := True, lc_step := Suc (lc_step L)\<rparr>"
      using assms unfolding no_call_step_def Some option.case Let_def if_P [OF True] by (simp only: prod.inject)
    then show ?thesis using True by (simp add: spends_def landings_def)
  next
    case False
    then show ?thesis using assms unfolding no_call_step_def Some option.case Let_def if_not_P [OF False]
      by (simp only: prod.inject step_end.distinct simp_thms)
  qed
qed (use assms in \<open>simp add: no_call_step_def\<close>)

lemma act_step_again:
  assumes "act_step E L out st = Some (Again, L', st')"
  shows "spends L L'"
  using assms empty_step_again native_step_again text_step_again no_call_step_again unfolding act_step_def
  by (auto split: if_splits option.splits)

lemma account_local:
  assumes "account E L p out dropped st = (L1, st1)"
  shows "landings L1 = landings L \<and> lc_step L1 = lc_step L \<and> lc_hops L1 = lc_hops L"
  using assms unfolding account_def Let_def prod.inject by (elim conjE, hypsubst) (simp add: landings_def)

lemma open_step_stops: "open_step E L st = Inl (e, st') \<Longrightarrow> \<exists>f. e = Stop f \<and> f \<in> {''done'', ''error''}"
  unfolding open_step_def Let_def prompt_failed_def
  by (auto split: if_split_asm option.split_asm sum.split_asm prod.split_asm bool.split_asm)

lemma turn_step_again:
  assumes "turn_step E L st = Some (Again, L', st')"
  shows "credit L' < credit L \<and> lc_step L' = Suc (lc_step L) \<and> lc_hops L \<le> lc_hops L' \<and> (lc_hops L \<le> 12 \<longrightarrow> lc_hops L' \<le> 12)"
proof -
  obtain p st1 where o: "open_step E L st = Inr (p, st1)"
    using assms open_step_stops [of E L st] by (cases "open_step E L st") (auto simp: turn_step_def split: prod.splits)
  obtain out d st2 where s: "send_request E L p st1 = (out, d, st2)" using prod_cases3 by blast
  show ?thesis
  proof (cases "failure_of E L out")
    case (Some f)
    then have "fail_step E L p out f st2 = (Again, L', st')" using assms o s by (simp add: turn_step_def)
    from fail_step_again [OF this] show ?thesis by auto
  next
    case None
    obtain L1 st3 where a: "account E L p out d st2 = (L1, st3)" by fastforce
    obtain n st4 where "act_step E (L1\<lparr>lc_last_seq := n\<rparr>) out st4 = Some (Again, L', st')"
      using assms o s None a by (auto simp: turn_step_def split: option.splits)
    from act_step_again [OF this] account_local [OF a] show ?thesis
      by (auto intro!: landing_credit simp: landings_def spends_def)
  qed
qed

function turn_loop ::
  "('d, 't, 'z, 'tz) loop_env \<Rightarrow> turn_local \<Rightarrow> turn_state \<Rightarrow> (step_end \<times> turn_local \<times> turn_state) option" where
  "turn_loop E L st =
     (case turn_step E L st of
        Some (Again, L', st') \<Rightarrow> turn_loop E L' st'
      | res \<Rightarrow> res)"
  by pat_completeness auto
termination
  by (relation "measure (\<lambda>(E, L, st). credit L)") (auto dest: turn_step_again)

declare turn_loop.simps [simp del]

definition start_local :: "('d, 't, 'z, 'tz) loop_env \<Rightarrow> turn_state \<Rightarrow> turn_local" where
  "start_local E st =
     \<lparr>lc_step = 0, lc_hops = 0, lc_syntax_nudged = False, lc_empty_nudges = 0, lc_think_off = False, lc_retries = 0,
      lc_overflows = 0, lc_shrink = 0, lc_window = tn_window st, lc_options = le_options E 0 (tn_window st),
      lc_last_assistant = [], lc_last_seq = 0, lc_prompt = 0, lc_completion = 0, lc_reasoning = 0, lc_ttft = 0\<rparr>"

record turn_usage =
  tu_prompt :: nat
  tu_completion :: nat
  tu_reasoning :: nat
  tu_ttft :: nat
  tu_last_seq :: nat

text \<open>The end: the reason, its durable row, and what the turn cost.\<close>

definition run_loop ::
  "('d, 't, 'z, 'tz) loop_env \<Rightarrow> turn_state \<Rightarrow> ((string \<times> turn_usage) option \<times> turn_local \<times> turn_state) option" where
  "run_loop E st0 =
     map_option (\<lambda>(e, L, st).
       (case e of
          Stop finish \<Rightarrow>
            (let fin = (if le_cancel E (lc_step L) 5 then ''interrupted'' else finish)
             in (Some (fin, \<lparr>tu_prompt = lc_prompt L, tu_completion = lc_completion L, tu_reasoning = lc_reasoning L,
                       tu_ttft = lc_ttft L, tu_last_seq = lc_last_seq L\<rparr>), L, add_row E (TurnEnd (le_turn E) fin (lc_hops L)) st))
        | _ \<Rightarrow> (None, L, st)))
       (turn_loop E (start_local E st0) st0)"

section \<open>Every turn ends\<close>

definition controls_return :: "('d, 't, 'z, 'tz) batch_env \<Rightarrow> bool" where
  "controls_return B \<longleftrightarrow> (\<forall>n name args pv ex w. handle_control (ba_control B n) name args pv ex n w \<noteq> None)"

lemma native_one_returns:
  assumes "controls_return B"
  shows "run_native_one B reg ov ptc c w \<noteq> None"
proof -
  have h: "handle_control (ba_control B n) nm args pv ex n w' \<noteq> None" for n nm args pv ex w'
    using assms by (simp add: controls_return_def)
  show ?thesis
    unfolding run_native_one_def using h by (auto split: prod.splits option.splits sum.splits)
qed

lemma prepare_returns: "list_all (\<lambda>c. parallel_call B reg c \<noteq> None) cs \<Longrightarrow> prepare B reg cs \<noteq> None"
  by (induction cs) (auto split: option.splits)

lemma run_chunk_returns: "list_all (\<lambda>c. parallel_call B reg c \<noteq> None) cs \<Longrightarrow> run_chunk B reg cs rest w \<noteq> None"
  using prepare_returns [of B reg cs] unfolding run_chunk_def
  by (cases "put_calls B cs w") (simp add: option.case_eq_if map_option_is_None del: not_None_eq)

lemma run_chunks_returns: "list_all (\<lambda>c. parallel_call B reg c \<noteq> None) grp \<Longrightarrow> run_chunks B reg grp rest w \<noteq> None"
proof (induction "length grp" arbitrary: grp w rule: less_induct)
  case less
  have t: "list_all (\<lambda>c. parallel_call B reg c \<noteq> None) (take 4 grp)" "list_all (\<lambda>c. parallel_call B reg c \<noteq> None) (drop 4 grp)"
    using less.prems by (auto simp: list_all_iff dest: in_set_takeD in_set_dropD)
  obtain e w1 where c: "run_chunk B reg (take 4 grp) (drop 4 grp @ rest) w = Some (e, w1)"
    using run_chunk_returns [OF t(1)] by fastforce
  show ?case
  proof (cases "grp = []")
    case False
    then have "run_chunks B reg (drop 4 grp) rest w1 \<noteq> None" using less.hyps [OF _ t(2)] by simp
    then show ?thesis unfolding run_chunks.simps [of B reg grp] c by (cases e) simp_all
  qed (simp add: run_chunks.simps)
qed

lemma batch_returns:
  assumes "controls_return B"
  shows "run_native_batch B reg ov ptc calls w \<noteq> None"
proof (induction "length calls" arbitrary: calls w rule: less_induct)
  case less
  define grp where "grp = (if \<not> ov \<and> \<not> ptc then takeWhile (\<lambda>c. parallel_call B reg c \<noteq> None) calls else [])"
  have g: "list_all (\<lambda>c. parallel_call B reg c \<noteq> None) grp"
    by (auto simp: grp_def list_all_iff dest: set_takeWhileD)
  obtain e w1 where one: "run_native_one B reg ov ptc (hd calls) w = Some (e, w1)"
    using native_one_returns [OF assms] by fastforce
  obtain e2 w2 where ch: "run_chunks B reg grp (drop (length grp) calls) w = Some (e2, w2)"
    using run_chunks_returns [OF g] by fastforce
  show ?case
  proof (cases "calls = []")
    case False
    then have tl: "run_native_batch B reg ov ptc (tl calls) w1 \<noteq> None" by (intro less) simp
    show ?thesis
    proof (cases "length grp < 2")
      case True
      then show ?thesis
        using tl unfolding run_native_batch.simps [of B reg ov ptc calls w] grp_def [symmetric] Let_def if_P [OF True] one by auto
    next
      case long: False
      then have "run_native_batch B reg ov ptc (drop (length grp) calls) w2 \<noteq> None"
        using False by (intro less) (cases calls; auto)
      then show ?thesis
        unfolding run_native_batch.simps [of B reg ov ptc calls w] grp_def [symmetric] Let_def if_not_P [OF long] ch
        by (cases e2) auto
    qed
  qed (simp add: run_native_batch.simps)
qed

lemma dispatch_text_returns: "controls_return (le_batch E) \<Longrightarrow> dispatch_text E call n w \<noteq> None"
  unfolding dispatch_text_def Let_def controls_return_def
  by (auto split: option.splits prod.splits simp del: not_None_eq)

lemma text_step_returns: "controls_return (le_batch E) \<Longrightarrow> text_step E L call st \<noteq> None"
  using dispatch_text_returns [of E call]
  by (simp add: text_step_def Let_def map_option_is_None split: option.splits prod.splits del: not_None_eq)

lemma native_step_returns: "controls_return (le_batch E) \<Longrightarrow> native_step E L out st \<noteq> None"
  by (simp add: native_step_def Let_def map_option_is_None batch_returns del: not_None_eq)

lemma act_step_returns: "controls_return (le_batch E) \<Longrightarrow> act_step E L out st \<noteq> None"
  by (simp add: act_step_def native_step_returns text_step_returns option.case_eq_if del: not_None_eq)

lemma turn_step_returns: "controls_return (le_batch E) \<Longrightarrow> turn_step E L st \<noteq> None"
  by (simp add: turn_step_def act_step_returns split: sum.splits prod.splits option.splits del: not_None_eq)

lemma turn_loop_returns:
  assumes "controls_return (le_batch E)"
  shows "turn_loop E L st \<noteq> None"
  using assms
proof (induction E L st rule: turn_loop.induct)
  case (1 E L st)
  obtain e L' st' where s: "turn_step E L st = Some (e, L', st')"
    using turn_step_returns [OF "1.prems"] by (metis not_None_eq prod_cases3)
  show ?case
    using "1.IH" [of "(e, L', st')" e] s "1.prems" unfolding turn_loop.simps [of E L] s by (cases e) auto
qed

section \<open>What a turn costs\<close>

text \<open>Only sending a request uses a number of the hub's turn counter.\<close>

lemma turns_on_run [simp]: "tn_next_turn (on_run f st) = tn_next_turn st"
  by (simp add: on_run_def)

lemma turns_rows [simp]:
  "tn_next_turn (say lvl m st) = tn_next_turn st" "tn_next_turn (add_row E k st) = tn_next_turn st"
  "tn_next_turn (incident w m st) = tn_next_turn st" "tn_next_turn (set_log cur st) = tn_next_turn st"
  "tn_next_turn (give_up w m st) = tn_next_turn st" "tn_next_turn (retry_row E a b c y st) = tn_next_turn st"
  by (simp_all add: say_def add_row_def incident_def set_log_def give_up_def retry_row_def)

lemma turns_claim_item [simp]: "tn_next_turn (claim_item E x st) = tn_next_turn st"
  by (cases x) simp_all

lemma turns_claim_items: "tn_next_turn (fold (claim_item E) xs st) = tn_next_turn st"
  by (induction xs arbitrary: st) simp_all

lemma turns_claim [simp]: "tn_next_turn (claim E i st) = tn_next_turn st"
  by (simp add: claim_def Let_def turns_claim_items split: prod.splits)

lemma turns_reattach [simp]: "tn_next_turn (reattach_after_compaction E i st) = tn_next_turn st"
  by (simp add: reattach_after_compaction_def split: option.splits prod.splits bool.splits)

lemma turns_compact: "compact_step E i wh bud win st = (b, st') \<Longrightarrow> tn_next_turn st' = tn_next_turn st"
  by (auto simp: compact_step_def Let_def split: option.splits prod.splits if_splits)

lemma turns_prompt_failed: "prompt_failed e st = (x, st') \<Longrightarrow> tn_next_turn st' = tn_next_turn st"
  by (auto simp: prompt_failed_def Let_def)

lemma turns_open_step:
  "open_step E L st = Inl (e, st') \<Longrightarrow> tn_next_turn st' = tn_next_turn st"
  "open_step E L st = Inr (p, st') \<Longrightarrow> tn_next_turn st' = tn_next_turn st"
  unfolding open_step_def Let_def
  by (auto dest!: turns_compact turns_prompt_failed
      split: if_split_asm option.split_asm sum.split_asm prod.split_asm bool.split_asm)

lemma turns_envelope [simp]: "tn_next_turn (record_envelope E wh o' st) = tn_next_turn st"
  by (simp add: record_envelope_def Let_def split: option.splits)

lemma turns_send: "send_request E L p st = (out, d, st') \<Longrightarrow> tn_next_turn st' = Suc (tn_next_turn st)"
  by (auto simp: send_request_def Let_def split: prod.splits)

lemma turns_shrunk:
  "tn_next_turn (case w of Some k \<Rightarrow> st\<lparr>tn_window := k\<rparr> | None \<Rightarrow> st) = tn_next_turn st"
  by (cases w) simp_all

lemma turns_prune:
  "tn_next_turn (snd (case hs_log (session_of st1) of
       None \<Rightarrow> (0::nat, st)
     | Some log \<Rightarrow> (case prune_oversized_results t ser log of (k, log') \<Rightarrow> (k, set_log (Some log') st)))) = tn_next_turn st"
  by (simp split: option.splits prod.splits)

lemma turns_compacted: "tn_next_turn (snd (compact_step E i wh bud win st)) = tn_next_turn st"
  by (rule turns_compact [OF surjective_pairing])

lemma turns_recover:
  assumes "recover_overflow E L p f st = (L', st')"
  shows "tn_next_turn st' = tn_next_turn st"
proof -
  have "tn_next_turn (snd (recover_overflow E L p f st)) = tn_next_turn st"
    unfolding recover_overflow_def Let_def split_def snd_conv turns_rows turns_compacted turns_prune [unfolded split_def] turns_shrunk
    by (rule refl)
  then show ?thesis using assms by simp
qed

lemma turns_fail:
  assumes "fail_step E L p out f st = (e, L', st')"
  shows "tn_next_turn st' = tn_next_turn st"
proof (cases "is_context_overflow f \<and> lc_overflows L < MAX_OVERFLOW_RETRIES")
  case True
  then have "(case recover_overflow E L p f st of (L', st') \<Rightarrow> (Again, L', st')) = (e, L', st')"
    using assms unfolding fail_step_def if_P [OF True] by simp
  then show ?thesis by (cases "recover_overflow E L p f st") (auto dest: turns_recover)
next
  case False
  note run = assms [unfolded fail_step_def if_not_P [OF False] Let_def]
  show ?thesis
  proof (cases "is_context_overflow f")
    case True
    show ?thesis using run unfolding if_P [OF True] by (simp only: prod.inject) (metis turns_rows(5))
  next
    case no: False
    show ?thesis
    proof (cases "(is_retryable f \<or> le_retry_always E) \<and> lc_retries L < RETRY_MAX")
      case True
      then show ?thesis using run unfolding if_not_P [OF no] if_P [OF True]
        by (simp only: prod.inject) (metis turns_rows(1,6))
    next
      case False
      then show ?thesis using run unfolding if_not_P [OF no] if_not_P [OF False]
        by (simp only: prod.inject) (metis turns_rows(5))
    qed
  qed
qed

lemma turns_warned: "tn_next_turn (if c then say lvl m st else st) = tn_next_turn st"
  by simp

lemma turns_account:
  assumes "account E L p out d st = (L1, st1)"
  shows "tn_next_turn st1 = tn_next_turn st"
proof -
  have "tn_next_turn (snd (account E L p out d st)) = tn_next_turn st"
    unfolding account_def Let_def snd_conv turns_warned
    by (simp split: list.split option.split)
  then show ?thesis using assms by simp
qed

lemma turns_persist: "persist E L p out st = Some (n, st1) \<Longrightarrow> tn_next_turn st1 = tn_next_turn st"
  by (auto simp: persist_def Let_def split: option.splits)

lemma turns_act: "act_step E L out st = Some (e, L', st') \<Longrightarrow> tn_next_turn st' = tn_next_turn st"
  unfolding act_step_def
  by (auto simp: empty_step_def no_call_step_def native_step_def text_step_def Let_def
      split: if_split_asm option.split_asm prod.split_asm)

text \<open>The four ways through one step.\<close>

lemma turn_step_cases:
  assumes "turn_step E L st = Some (e, L', st')"
  obtains (opened) "open_step E L st = Inl (e, st')" "L' = L"
  | (failed) p st1 out d st2 f where "open_step E L st = Inr (p, st1)" "send_request E L p st1 = (out, d, st2)"
      "fail_step E L p out f st2 = (e, L', st')"
  | (gone) p st1 out d st2 where "open_step E L st = Inr (p, st1)" "send_request E L p st1 = (out, d, st2)"
      "account E L p out d st2 = (L', st')" "persist E L' p out st' = None" "e = Vanished"
  | (acted) p st1 out d st2 L1 st3 n st4 where "open_step E L st = Inr (p, st1)" "send_request E L p st1 = (out, d, st2)"
      "account E L p out d st2 = (L1, st3)" "persist E L1 p out st3 = Some (n, st4)"
      "act_step E (L1\<lparr>lc_last_seq := n\<rparr>) out st4 = Some (e, L', st')"
proof (cases "open_step E L st")
  case (Inl a)
  moreover obtain e1 s1 where "a = (e1, s1)" by (cases a)
  ultimately have "open_step E L st = Inl (e, st')" "L' = L" using assms by (simp_all add: turn_step_def)
  then show ?thesis by (rule opened)
next
  case (Inr a)
  obtain p st1 where o: "open_step E L st = Inr (p, st1)" using Inr by (cases a) simp
  obtain out d st2 where s: "send_request E L p st1 = (out, d, st2)" using prod_cases3 by blast
  note run = assms [unfolded turn_step_def o sum.case prod.case s]
  show ?thesis
  proof (cases "failure_of E L out")
    case (Some f)
    from run have "fail_step E L p out f st2 = (e, L', st')" unfolding Some option.case option.inject .
    then show ?thesis by (rule failed [OF o s])
  next
    case None
    obtain L1 st3 where a: "account E L p out d st2 = (L1, st3)" by fastforce
    note run = run [unfolded None option.case a prod.case]
    show ?thesis
    proof (cases "persist E L1 p out st3")
      case None
      have e: "e = Vanished" "L1 = L'" "st3 = st'" using run unfolding None by simp_all
      show ?thesis by (rule gone [OF o s a [unfolded e] None [unfolded e] e(1)])
    next
      case (Some r)
      then obtain n st4 where r: "persist E L1 p out st3 = Some (n, st4)" by (cases r) simp
      have "act_step E (L1\<lparr>lc_last_seq := n\<rparr>) out st4 = Some (e, L', st')" using run unfolding r by simp
      then show ?thesis by (rule acted [OF o s a r])
    qed
  qed
qed

lemma turns_step: "turn_step E L st = Some (e, L', st') \<Longrightarrow> tn_next_turn st' \<le> Suc (tn_next_turn st)"
  by (erule turn_step_cases)
    (use turns_open_step turns_send turns_account turns_persist turns_act turns_fail in \<open>metis le_refl le_SucI\<close>)+

text \<open>Why a step stops.\<close>

definition stop_reasons :: "string set" where
  "stop_reasons = {''done'', ''error'', ''max_tokens'', ''empty'', ''hop-limit'', ''bad-call''}"

definition stops_well :: "step_end \<Rightarrow> turn_local \<Rightarrow> turn_state \<Rightarrow> bool" where
  "stops_well e L st \<longleftrightarrow> (case e of
      Again \<Rightarrow> lc_hops L \<le> MAX_TOOL_HOPS
    | Vanished \<Rightarrow> lc_hops L \<le> MAX_TOOL_HOPS \<and> hs_log (session_of st) = None
    | Stop f \<Rightarrow> lc_hops L \<le> MAX_TOOL_HOPS \<and> f \<in> stop_reasons \<and> (f = ''hop-limit'' \<longrightarrow> lc_hops L = MAX_TOOL_HOPS))"

lemma fail_stops:
  assumes "fail_step E L p out f st = (e, L', st')" and "lc_hops L \<le> MAX_TOOL_HOPS"
  shows "stops_well e L' st'"
proof (cases "is_context_overflow f \<and> lc_overflows L < MAX_OVERFLOW_RETRIES")
  case True
  then have "e = Again" using assms(1) unfolding fail_step_def if_P [OF True]
    by (cases "recover_overflow E L p f st") simp
  then show ?thesis using fail_step_again [of E L p out f st L' st'] assms by (simp add: stops_well_def)
next
  case False
  note run = assms(1) [unfolded fail_step_def if_not_P [OF False] Let_def]
  have "L' = L \<and> e = Stop ''error'' \<or> lc_hops L' = lc_hops L \<and> (e = Again \<or> e = Stop ''done'')"
  proof (cases "is_context_overflow f")
    case True
    then show ?thesis using run unfolding if_P [OF True] prod.inject by blast
  next
    case no: False
    show ?thesis
    proof (cases "(is_retryable f \<or> le_retry_always E) \<and> lc_retries L < RETRY_MAX")
      case True
      then show ?thesis using run unfolding if_not_P [OF no] if_P [OF True] prod.inject by (auto split: if_split_asm)
    next
      case False
      then show ?thesis using run unfolding if_not_P [OF no] if_not_P [OF False] prod.inject by blast
    qed
  qed
  then show ?thesis using assms(2) by (auto simp: stops_well_def stop_reasons_def)
qed

lemma empty_stops:
  assumes "empty_step E L out st = (e, L', st')" and "lc_hops L \<le> MAX_TOOL_HOPS"
  shows "stops_well e L' st'"
proof (cases "lc_empty_nudges L < MAX_EMPTY_NUDGES")
  case True
  have "e = Again" using assms(1) unfolding empty_step_def if_P [OF True] Let_def prod.inject by blast
  then show ?thesis using empty_step_again [of E L out st L' st'] assms by (simp add: stops_well_def spends_def MAX_TOOL_HOPS_def)
next
  case False
  have "e = Stop ''empty''" "L' = L" using assms(1) unfolding empty_step_def if_not_P [OF False] Let_def prod.inject by blast+
  then show ?thesis using assms(2) by (simp add: stops_well_def stop_reasons_def)
qed

lemma no_call_stops:
  assumes "no_call_step E L out st = (e, L', st')" and "lc_hops L \<le> MAX_TOOL_HOPS"
  shows "stops_well e L' st'"
proof (cases "e = Again")
  case True
  then show ?thesis using no_call_step_again [of E L out st L' st'] assms by (simp add: stops_well_def spends_def MAX_TOOL_HOPS_def)
next
  case False
  have "L' = L \<and> e \<in> {Stop ''done'', Stop ''bad-call''}"
    using assms(1) False unfolding no_call_step_def Let_def
    by (cases "rejected_attempt (le_json E) (known (le_registry E)) (to_content out)")
      (auto simp only: option.case prod.inject insert_iff split: if_split_asm)
  then show ?thesis using assms(2) by (auto simp: stops_well_def stop_reasons_def)
qed

lemma native_stops:
  assumes "native_step E L out st = Some (e, L', st')" and "lc_hops L \<le> MAX_TOOL_HOPS"
  shows "stops_well e L' st'"
  using assms unfolding native_step_def Let_def
  by (auto simp: stops_well_def stop_reasons_def split: if_split_asm)

lemma text_stops:
  assumes "text_step E L call st = Some (e, L', st')" and "lc_hops L \<le> MAX_TOOL_HOPS"
  shows "stops_well e L' st'"
  using assms unfolding text_step_def Let_def
  by (auto simp: stops_well_def stop_reasons_def split: if_split_asm prod.split_asm option.split_asm)

lemma act_stops:
  assumes "act_step E L out st = Some (e, L', st')" and "lc_hops L \<le> MAX_TOOL_HOPS"
  shows "stops_well e L' st'"
  using assms empty_stops native_stops text_stops no_call_stops unfolding act_step_def
  by (auto simp: stops_well_def [of "Stop _"] stop_reasons_def split: if_split_asm option.split_asm)

lemma step_stops:
  assumes "turn_step E L st = Some (e, L', st')" and "lc_hops L \<le> MAX_TOOL_HOPS"
  shows "stops_well e L' st'"
  using assms(1)
proof (cases rule: turn_step_cases)
  case opened
  with open_step_stops [of E L st e st'] assms(2) show ?thesis by (auto simp: stops_well_def stop_reasons_def)
next
  case (failed p st1 out d st2 f)
  then show ?thesis using fail_stops assms(2) by blast
next
  case (gone p st1 out d st2)
  then show ?thesis using account_local [of E L p out d st2 L' st'] assms(2)
    by (simp add: stops_well_def persist_def Let_def split: option.splits)
next
  case (acted p st1 out d st2 L1 st3 n st4)
  then show ?thesis using account_local [of E L p out d st2 L1 st3] assms(2)
    by (intro act_stops [OF acted(5)]) simp
qed

section \<open>A turn, end to end\<close>

inductive turn_reach ::
  "('d, 't, 'z, 'tz) loop_env \<Rightarrow> turn_local \<Rightarrow> turn_state \<Rightarrow> turn_local \<Rightarrow> turn_state \<Rightarrow> bool" for E where
  Here: "turn_reach E L st L st"
| More: "turn_step E L st = Some (Again, L1, st1) \<Longrightarrow> turn_reach E L1 st1 L2 st2 \<Longrightarrow> turn_reach E L st L2 st2"

lemma loop_ends:
  assumes "turn_loop E L st = Some (e, L', st')" and "lc_hops L \<le> MAX_TOOL_HOPS"
  shows "e \<noteq> Again \<and> stops_well e L' st' \<and> tn_next_turn st' \<le> tn_next_turn st + credit L + 1"
  using assms
proof (induction E L st rule: turn_loop.induct)
  case (1 E L st)
  obtain e1 L1 st1 where s: "turn_step E L st = Some (e1, L1, st1)"
    using "1.prems" by (cases "turn_step E L st") (auto simp: turn_loop.simps [of E L])
  have t: "tn_next_turn st1 \<le> Suc (tn_next_turn st)" by (rule turns_step [OF s])
  show ?case
  proof (cases "e1 = Again")
    case True
    with s have again: "turn_step E L st = Some (Again, L1, st1)" by simp
    then have "turn_loop E L1 st1 = Some (e, L', st')" using "1.prems"(1) by (simp add: turn_loop.simps [of E L])
    moreover note c = turn_step_again [OF again]
    ultimately have "e \<noteq> Again \<and> stops_well e L' st' \<and> tn_next_turn st' \<le> tn_next_turn st1 + credit L1 + 1"
      using "1.IH" [OF again refl refl refl] "1.prems"(2) by (auto simp: MAX_TOOL_HOPS_def)
    with t c show ?thesis by auto
  next
    case False
    then have "e = e1" "L' = L1" "st' = st1" using "1.prems"(1) s by (cases e1; simp add: turn_loop.simps [of E L])+
    with t False step_stops [OF s "1.prems"(2)] show ?thesis by simp
  qed
qed

lemma loop_none: "turn_loop E L st = None \<Longrightarrow> \<exists>L1 st1. turn_reach E L st L1 st1 \<and> turn_step E L1 st1 = None"
proof (induction E L st rule: turn_loop.induct)
  case (1 E L st)
  show ?case
  proof (cases "turn_step E L st")
    case None
    then show ?thesis by (blast intro: Here)
  next
    case (Some r)
    then obtain L1 st1 where again: "turn_step E L st = Some (Again, L1, st1)"
      using "1.prems" by (cases r; cases "fst r") (simp_all add: turn_loop.simps [of E L])
    then have "turn_loop E L1 st1 = None" using "1.prems" by (simp add: turn_loop.simps [of E L])
    then show ?thesis using "1.IH" [OF again refl refl refl] again by (blast intro: More)
  qed
qed

lemma step_none: "turn_step E L st = None \<Longrightarrow>
  \<exists>n name args pv ex w. handle_control (ba_control (le_batch E) n) name args pv ex n w = None"
  by (rule ccontr) (use turn_step_returns [of E L st] in \<open>simp add: controls_return_def\<close>)

definition turn_closed ::
  "('d, 't, 'z, 'tz) loop_env \<Rightarrow> (string \<times> turn_usage) option \<Rightarrow> turn_local \<Rightarrow> turn_state \<Rightarrow> bool" where
  "turn_closed E r L st \<longleftrightarrow> (case r of
      None \<Rightarrow> hs_log (session_of st) = None
    | Some (fin, u) \<Rightarrow> (fin = ''interrupted'' \<or> fin \<in> stop_reasons) \<and> (fin = ''hop-limit'' \<longrightarrow> lc_hops L = MAX_TOOL_HOPS)
        \<and> (case hs_log (session_of st) of None \<Rightarrow> True
           | Some l \<Rightarrow> kind (last (events l)) = TurnEnd (le_turn E) fin (lc_hops L)))"

lemma last_row: "hs_log (session_of (add_row E k st)) = Some l \<Longrightarrow> kind (last (events l)) = k"
  by (auto simp: session_of_def add_row_def on_run_def put_row_def on_state_def append_event_def log_append_def)

lemma start_credit: "credit (start_local E st) = 143"
  by (simp add: credit_def landings_def start_local_def loop_consts)

text \<open>
  C8: Every turn ends, and closes its book. Whatever the server answers (failures, refusals for length, empty or
  cut replies, tool calls without end), whatever arrives or interferes meanwhile, the loop stops after at most 144
  requests and 12 tool hops, for one of the listed reasons (the hop limit only when the hops are spent), and the
  last row of the session's log is the turn's end with that reason; there is none only when the session is gone.
  The one way out is a control call that never returns, in a step the turn really reaches.
\<close>

theorem turn_ends:
  "case run_loop E st of
     None \<Rightarrow> \<exists>L1 st1 n name args pv ex w. turn_reach E (start_local E st) st L1 st1 \<and> turn_step E L1 st1 = None
       \<and> handle_control (ba_control (le_batch E) n) name args pv ex n w = None
   | Some (r, L, st') \<Rightarrow> tn_next_turn st' \<le> tn_next_turn st + 144 \<and> lc_hops L \<le> MAX_TOOL_HOPS \<and> turn_closed E r L st'"
proof (cases "turn_loop E (start_local E st) st")
  case None
  from loop_none [OF this] show ?thesis unfolding run_loop_def None using step_none by auto blast
next
  case (Some res)
  obtain e L st1 where l: "turn_loop E (start_local E st) st = Some (e, L, st1)" using Some by (cases res) simp
  have "lc_hops (start_local E st) \<le> MAX_TOOL_HOPS" by (simp add: start_local_def)
  from loop_ends [OF l this] have ends: "e \<noteq> Again" "stops_well e L st1" "tn_next_turn st1 \<le> tn_next_turn st + 144"
    by (simp_all add: start_credit)
  show ?thesis
  proof (cases e)
    case (Stop f)
    then show ?thesis using ends last_row
      by (auto simp: run_loop_def l Let_def stops_well_def turn_closed_def split: option.split)
  next
    case Vanished
    then show ?thesis using ends by (simp add: run_loop_def l stops_well_def turn_closed_def)
  qed (use ends in simp)
qed

text \<open>
  A native reply cut at the token limit: its calls are already in the log (\<open>persist\<close>), and the turn stops without
  running or answering them.
\<close>

lemma cut_reply_leaves_calls:
  assumes "hs_log (session_of st) = Some log" and "to_tool_calls out \<noteq> []" and "\<not> le_cancel E (lc_step L) 2"
    and "\<not> le_cancel E (lc_step L) 3" and "to_finish out = ''max_tokens''" and "truncated_reply (to_content out) = None"
  shows "\<exists>u. persist E L p out st = Some (next_seq log, add_row E u (add_row E (AssistantMessage Append (to_content out)
        (if to_reasoning out = [] then None else Some (to_reasoning out))
        (Some (native_calls_to_json (ba_print (le_batch E)) (to_tool_calls out)))) st))
    \<and> act_step E L out st2 = Some (Stop ''max_tokens'', L, st2)"
  using assms by (auto simp: persist_def act_step_def Let_def)

end
