(* ===== verification/Background_Jobs.thy ===== *)
theory Background_Jobs
  imports Harness_Controls Tool_Policies Retain Hook_Policy Inbox_Queue
begin

text \<open>
  Background work, \<open>src/crates/agents/src/jobs.rs\<close>: the registry of a session's jobs, the task that watches one
  child process, the three skills that read, list and kill jobs, the \<open>/job-output\<close> command and the bridge that
  tells a session its job has finished (\<open>src/crates/backend/src/jobs_bridge.rs\<close>).

  The bytes a child prints, how far a write to a spill file gets, whether a process starts and the clock are
  parameters. Counters of bytes and jobs are natural numbers (they are \<open>u64\<close> and cannot wrap in practice). Every
  operation of the registry holds its lock for its whole body; \<open>start_shell\<close> holds it twice, and what others do in
  between is a parameter.
\<close>

section \<open>Lossy decoding\<close>

text \<open>
  \<open>String::from_utf8_lossy\<close>: \<open>utf8_unit\<close> is the length of the first unit of a text and whether it is a character;
  every unit that is not becomes one replacement character.
\<close>

definition byte_in :: "nat \<Rightarrow> nat \<Rightarrow> nat \<Rightarrow> string \<Rightarrow> bool" where
  "byte_in i lo hi s \<longleftrightarrow> i < length s \<and> lo \<le> of_char (s ! i) \<and> of_char (s ! i) \<le> hi"

definition second_ok :: "nat \<Rightarrow> string \<Rightarrow> bool" where
  "second_ok b s =
     (if b = 0xE0 then byte_in 1 0xA0 0xBF s
      else if b = 0xED then byte_in 1 0x80 0x9F s
      else if b = 0xF0 then byte_in 1 0x90 0xBF s
      else if b = 0xF4 then byte_in 1 0x80 0x8F s
      else byte_in 1 0x80 0xBF s)"

definition utf8_unit :: "string \<Rightarrow> bool \<times> nat" where
  "utf8_unit s =
     (let b = of_char (hd s) :: nat
      in if b < 0x80 then (True, 1)
         else if 0xC2 \<le> b \<and> b \<le> 0xDF then (if second_ok b s then (True, 2) else (False, 1))
         else if 0xE0 \<le> b \<and> b \<le> 0xEF then
           (if \<not> second_ok b s then (False, 1) else if \<not> byte_in 2 0x80 0xBF s then (False, 2) else (True, 3))
         else if 0xF0 \<le> b \<and> b \<le> 0xF4 then
           (if \<not> second_ok b s then (False, 1) else if \<not> byte_in 2 0x80 0xBF s then (False, 2)
            else if \<not> byte_in 3 0x80 0xBF s then (False, 3) else (True, 4))
         else (False, 1))"

lemma utf8_unit_pos: "0 < snd (utf8_unit s)"
  by (simp add: utf8_unit_def Let_def)

definition REPLACEMENT :: string where "REPLACEMENT = [CHR 0xEF, CHR 0xBF, CHR 0xBD]"

function from_utf8_lossy :: "string \<Rightarrow> string" where
  "from_utf8_lossy s =
     (if s = [] then []
      else (if fst (utf8_unit s) then take (snd (utf8_unit s)) s else REPLACEMENT)
        @ from_utf8_lossy (drop (snd (utf8_unit s)) s))"
  by pat_completeness auto
termination by (relation "measure length") (use utf8_unit_pos in \<open>auto simp: neq_Nil_conv\<close>)

declare from_utf8_lossy.simps [simp del]

section \<open>One job\<close>

definition MAX_JOBS_PER_SESSION :: nat where "MAX_JOBS_PER_SESSION = 10"
definition OUTPUT_CAP :: nat where "OUTPUT_CAP = 262144"
definition READ_CAP :: nat where "READ_CAP = 32768"
definition JOB_OUTPUT_NAME :: string where "JOB_OUTPUT_NAME = ''job-output''"
definition JOB_LIST_NAME :: string where "JOB_LIST_NAME = ''job-list''"
definition JOB_KILL_NAME :: string where "JOB_KILL_NAME = ''job-kill''"

datatype JobStatus = Running | Exited int | Killed | Failed string

fun status_label :: "JobStatus \<Rightarrow> string" where
  "status_label Running = ''running''"
| "status_label (Exited code) = ''exited '' @ dec_int code"
| "status_label Killed = ''killed''"
| "status_label (Failed e) = ''failed: '' @ e"

definition is_running :: "JobStatus \<Rightarrow> bool" where
  "is_running st \<longleftrightarrow> st = Running"

fun exit_code :: "JobStatus \<Rightarrow> int option" where
  "exit_code (Exited code) = Some code"
| "exit_code _ = None"

record Job =
  bj_id :: string
  bj_session :: nat
  bj_kind :: string
  bj_command :: string
  bj_status :: JobStatus
  bj_buf :: string
  bj_produced :: nat
  bj_read_mark :: nat
  bj_cancelled :: bool
  bj_started_at :: int
  bj_spill :: "string option"

record JobSummary =
  js_id :: string
  js_kind :: string
  js_command :: string
  js_status :: JobStatus
  js_unread :: nat
  js_started_at :: int

text \<open>Spill files by path. A write gets no directory, no file, or so many of its bytes down.\<close>

type_synonym files = "string \<Rightarrow> string"

datatype disk_write = NoDir | NoFile | Wrote nat

definition spill_file :: "string \<Rightarrow> nat \<Rightarrow> string \<Rightarrow> string" where
  "spill_file root s i = root @ ''/'' @ dec s @ ''/job-'' @ i @ ''.txt''"

definition spill_bytes :: "string \<Rightarrow> disk_write \<Rightarrow> string \<Rightarrow> Job \<Rightarrow> files \<Rightarrow> Job \<times> files" where
  "spill_bytes root d bytes j fs =
     (case d of
        NoDir \<Rightarrow> (j, fs)
      | _ \<Rightarrow>
          (let path = (case bj_spill j of Some p \<Rightarrow> p | None \<Rightarrow> spill_file root (bj_session j) (bj_id j))
           in (j\<lparr>bj_spill := Some path\<rparr>,
               case d of Wrote k \<Rightarrow> fs(path := fs path @ take k bytes) | _ \<Rightarrow> fs)))"

definition job_append :: "string \<Rightarrow> disk_write \<Rightarrow> string \<Rightarrow> Job \<Rightarrow> files \<Rightarrow> Job \<times> files" where
  "job_append root d chunk j fs =
     (let buf = bj_buf j @ chunk; excess = length buf - OUTPUT_CAP;
          j1 = j\<lparr>bj_produced := bj_produced j + length chunk, bj_buf := drop excess buf\<rparr>
      in if length buf > OUTPUT_CAP then spill_bytes root d (take excess buf) j1 fs else (j1, fs))"

text \<open>The bytes of a read before they are decoded, and how many were lost to the window.\<close>

definition unread_bytes :: "Job \<Rightarrow> string" where
  "unread_bytes j =
     (let start = bj_produced j - length (bj_buf j) in drop (max (bj_read_mark j) start - start) (bj_buf j))"

definition lost_bytes :: "Job \<Rightarrow> nat" where
  "lost_bytes j = bj_produced j - length (bj_buf j) - bj_read_mark j"

definition take_unread :: "Job \<Rightarrow> (string \<times> nat \<times> string option) \<times> Job" where
  "take_unread j =
     ((from_utf8_lossy (unread_bytes j), lost_bytes j, if lost_bytes j > 0 then bj_spill j else None),
      j\<lparr>bj_read_mark := bj_produced j\<rparr>)"

definition job_summary :: "Job \<Rightarrow> JobSummary" where
  "job_summary j = \<lparr>js_id = bj_id j, js_kind = bj_kind j, js_command = bj_command j, js_status = bj_status j,
     js_unread = bj_produced j - bj_read_mark j, js_started_at = bj_started_at j\<rparr>"

section \<open>The registry\<close>

record JobRegistry =
  jr_jobs :: "nat \<Rightarrow> Job list"
  jr_next :: nat
  jr_notifier :: bool
  jr_files :: files
  jr_finished :: "(nat \<times> JobSummary) list"
  jr_changed :: "nat list"
  jr_stopped :: "(nat \<times> string) list"

definition registry_new :: JobRegistry where
  "registry_new = \<lparr>jr_jobs = (\<lambda>_. []), jr_next = 0, jr_notifier = False, jr_files = (\<lambda>_. []), jr_finished = [], jr_changed = [], jr_stopped = []\<rparr>"

definition find_job :: "nat \<Rightarrow> string \<Rightarrow> JobRegistry \<Rightarrow> Job option" where
  "find_job s i R = find (\<lambda>j. bj_id j = i) (jr_jobs R s)"

text \<open>\<open>find\<close> gives a reference: the first job with the id is the one changed.\<close>

fun update_job :: "string \<Rightarrow> (Job \<Rightarrow> Job) \<Rightarrow> Job list \<Rightarrow> Job list" where
  "update_job i f [] = []"
| "update_job i f (j # js) = (if bj_id j = i then f j # js else j # update_job i f js)"

definition put_job :: "nat \<Rightarrow> string \<Rightarrow> Job \<Rightarrow> JobRegistry \<Rightarrow> JobRegistry" where
  "put_job s i j R = R\<lparr>jr_jobs := (jr_jobs R)(s := update_job i (\<lambda>_. j) (jr_jobs R s))\<rparr>"

definition attach_notifier :: "JobRegistry \<Rightarrow> JobRegistry" where
  "attach_notifier R = R\<lparr>jr_notifier := True\<rparr>"

definition notify_changed :: "nat \<Rightarrow> JobRegistry \<Rightarrow> JobRegistry" where
  "notify_changed s R = (if jr_notifier R then R\<lparr>jr_changed := jr_changed R @ [s]\<rparr> else R)"

definition running_jobs :: "nat \<Rightarrow> JobRegistry \<Rightarrow> nat" where
  "running_jobs s R = length (filter (\<lambda>j. is_running (bj_status j)) (jr_jobs R s))"

text \<open>The limit, before a process is started.\<close>

definition start_check :: "nat \<Rightarrow> JobRegistry \<Rightarrow> string option" where
  "start_check s R =
     (if running_jobs s R \<ge> MAX_JOBS_PER_SESSION
      then Some (''this session already has '' @ dec (running_jobs s R) @ '' background job(s) running (limit ''
             @ dec MAX_JOBS_PER_SESSION @ '') '' @ em_dash @ '' read or kill one first'')
      else None)"

definition start_insert :: "nat \<Rightarrow> string \<Rightarrow> string \<Rightarrow> int \<Rightarrow> JobRegistry \<Rightarrow> string \<times> JobRegistry" where
  "start_insert s knd command now R =
     (let n = jr_next R + 1; i = knd @ ''-'' @ dec n
      in (i, R\<lparr>jr_next := n, jr_jobs := (jr_jobs R)(s := jr_jobs R s @
            [\<lparr>bj_id = i, bj_session = s, bj_kind = knd, bj_command = command, bj_status = Running, bj_buf = [],
              bj_produced = 0, bj_read_mark = 0, bj_cancelled = False, bj_started_at = now, bj_spill = None\<rparr>])\<rparr>))"

definition start_shell ::
  "nat \<Rightarrow> string \<Rightarrow> string \<Rightarrow> string option \<Rightarrow> (JobRegistry \<Rightarrow> JobRegistry) \<Rightarrow> int \<Rightarrow> JobRegistry
   \<Rightarrow> (string + string) \<times> JobRegistry" where
  "start_shell s knd command spawn_error meanwhile now R =
     (case start_check s R of
        Some e \<Rightarrow> (Inl e, R)
      | None \<Rightarrow>
          (case spawn_error of
             Some e \<Rightarrow> (Inl (''spawn '' @ knd @ '': '' @ e), meanwhile R)
           | None \<Rightarrow>
               (case start_insert s knd command now (meanwhile R) of (i, R1) \<Rightarrow> (Inr i, notify_changed s R1))))"

definition append_output :: "string \<Rightarrow> disk_write \<Rightarrow> nat \<Rightarrow> string \<Rightarrow> string \<Rightarrow> JobRegistry \<Rightarrow> JobRegistry" where
  "append_output root d s i chunk R =
     (case find_job s i R of
        None \<Rightarrow> R
      | Some j \<Rightarrow> (case job_append root d chunk j (jr_files R) of (j1, fs) \<Rightarrow> put_job s i j1 (R\<lparr>jr_files := fs\<rparr>)))"

definition settle_job :: "nat \<Rightarrow> string \<Rightarrow> JobStatus \<Rightarrow> JobRegistry \<Rightarrow> JobRegistry" where
  "settle_job s i st R =
     (case find_job s i R of
        None \<Rightarrow> R
      | Some j \<Rightarrow>
          (let j1 = j\<lparr>bj_status := st\<rparr>; R1 = put_job s i j1 R
           in if jr_notifier R
              then notify_changed s (R1\<lparr>jr_finished := jr_finished R1 @ [(s, job_summary j1)]\<rparr>) else R1))"

definition job_list :: "nat \<Rightarrow> JobRegistry \<Rightarrow> JobSummary list" where
  "job_list s R = map job_summary (jr_jobs R s)"

definition job_read ::
  "nat \<Rightarrow> string \<Rightarrow> JobRegistry \<Rightarrow> (string \<times> nat \<times> JobStatus \<times> string option) option \<times> JobRegistry" where
  "job_read s i R =
     (case find_job s i R of
        None \<Rightarrow> (None, R)
      | Some j \<Rightarrow>
          (case take_unread j of ((t, lost, sp), j1) \<Rightarrow> (Some (t, lost, bj_status j, sp), put_job s i j1 R)))"

definition job_kill :: "nat \<Rightarrow> string \<Rightarrow> JobRegistry \<Rightarrow> (string + unit) \<times> JobRegistry" where
  "job_kill s i R =
     (case find_job s i R of
        None \<Rightarrow> (Inl (''no job `'' @ i @ ''` in this session''), R)
      | Some j \<Rightarrow>
          if \<not> is_running (bj_status j) then (Inl (''job `'' @ i @ ''` already '' @ status_label (bj_status j)), R)
          else (Inr (), put_job s i (j\<lparr>bj_cancelled := True\<rparr>) R))"

text \<open>The jobs of a cleared session are gone; \<open>jr_stopped\<close> keeps whose tokens were cancelled.\<close>

definition clear_jobs :: "nat \<Rightarrow> JobRegistry \<Rightarrow> JobRegistry" where
  "clear_jobs s R = R\<lparr>jr_jobs := (jr_jobs R)(s := []), jr_stopped := jr_stopped R @ map (\<lambda>j. (s, bj_id j)) (jr_jobs R s)\<rparr>"

section \<open>The watcher of a child\<close>

text \<open>What the watcher's \<open>select!\<close> may see. An arm that is not polled (a closed stream, the exit while a stream is
  open) is never taken.\<close>

datatype child_event = Stopped | OutChunk string | ErrChunk string | OutEnd | ErrEnd | ExitedWith "int option" | WaitFailed string

fun watch :: "bool \<Rightarrow> bool \<Rightarrow> child_event list \<Rightarrow> string list \<times> JobStatus option" where
  "watch out err [] = ([], None)"
| "watch out err (Stopped # evs) = ([], Some Killed)"
| "watch out err (OutChunk c # evs) =
     (if out \<and> c \<noteq> [] then (case watch out err evs of (cs, r) \<Rightarrow> (c # cs, r)) else watch (out \<and> c \<noteq> []) err evs)"
| "watch out err (ErrChunk c # evs) =
     (if err \<and> c \<noteq> [] then (case watch out err evs of (cs, r) \<Rightarrow> (c # cs, r)) else watch out (err \<and> c \<noteq> []) evs)"
| "watch out err (OutEnd # evs) = watch False err evs"
| "watch out err (ErrEnd # evs) = watch out False evs"
| "watch out err (ExitedWith code # evs) =
     (if out \<or> err then watch out err evs else ([], Some (Exited (case code of Some c \<Rightarrow> c | None \<Rightarrow> -1))))"
| "watch out err (WaitFailed e # evs) = (if out \<or> err then watch out err evs else ([], Some (Failed e)))"

text \<open>The life of a job: its chunks are appended in order, then it is settled.\<close>

definition watched :: "string \<Rightarrow> disk_write \<Rightarrow> nat \<Rightarrow> string \<Rightarrow> child_event list \<Rightarrow> JobRegistry \<Rightarrow> JobRegistry" where
  "watched root d s i evs R =
     (case watch True True evs of
        (cs, r) \<Rightarrow>
          (let R1 = fold (append_output root d s i) cs R
           in case r of None \<Rightarrow> R1 | Some st \<Rightarrow> settle_job s i st R1))"

section \<open>What the model and the person are told\<close>

definition completion_notice :: "JobSummary \<Rightarrow> string" where
  "completion_notice j =
     ''Background job `'' @ js_id j @ ''` ('' @ js_kind j @ '') '' @ status_label (js_status j) @ ''. Command: '' @ js_command j
     @ [CHR 0x0A]
     @ (if js_unread j > 0 then dec (js_unread j) @ '' byte(s) of output are unread'' else ''It produced no unread output'')
     @ '' '' @ em_dash @ '' read it with `'' @ JOB_OUTPUT_NAME @ '' '' @ [CHR 0x27] @ js_id j @ [CHR 0x27]
     @ '' > what it printed`.''"

definition no_job :: "string \<Rightarrow> string" where
  "no_job i = ''no job `'' @ i @ ''` in this session''"

definition no_session :: SkillOutcome where
  "no_session = \<lparr>so_ok = False, so_summary = ''background jobs are per session and this call has none''\<rparr>"

definition MISSING_ID :: string where
  "MISSING_ID = ''missing `id` arg '' @ em_dash @ '' pass a job id like `cli-3`''"

definition id_arg :: "json \<Rightarrow> string option" where
  "id_arg args = (case Option.bind (json_get ''id'' args) as_str of Some i \<Rightarrow> if i = [] then None else Some i | None \<Rightarrow> None)"

definition output_window :: "string \<Rightarrow> string" where
  "output_window t =
     render (head_tail t (READ_CAP * 3 div 4) (READ_CAP div 4)) ''output'' @ (if t = [] then ''(no new output)'' else [])"

definition lost_note :: "nat \<Rightarrow> string option \<Rightarrow> string" where
  "lost_note lost sp =
     (if lost = 0 then []
      else case sp of
        Some path \<Rightarrow> ''['' @ dec lost @ '' byte(s) of earlier output scrolled out of the '' @ dec OUTPUT_CAP @ ''-byte window ''
          @ em_dash @ '' they are saved in '' @ path @ ''; read-file it if you need them]'' @ [CHR 0x0A]
      | None \<Rightarrow> ''['' @ dec lost @ '' byte(s) of earlier output were dropped '' @ em_dash @ '' the job out-ran the ''
          @ dec OUTPUT_CAP @ ''-byte retention window]'' @ [CHR 0x0A])"

definition run_job_output :: "nat option \<Rightarrow> json \<Rightarrow> JobRegistry \<Rightarrow> SkillOutcome \<times> JobRegistry" where
  "run_job_output sid args R =
     (case sid of
        None \<Rightarrow> (no_session, R)
      | Some s \<Rightarrow>
          (case id_arg args of
             None \<Rightarrow> (\<lparr>so_ok = False, so_summary = MISSING_ID\<rparr>, R)
           | Some i \<Rightarrow>
               (case job_read s i R of
                  (None, R1) \<Rightarrow> (\<lparr>so_ok = False, so_summary = no_job i\<rparr>, R1)
                | (Some (t, lost, st, sp), R1) \<Rightarrow>
                    (\<lparr>so_ok = True, so_summary = lost_note lost sp @ output_window t @ [CHR 0x0A] @ ''[status: ''
                       @ status_label st @ '']''\<rparr>, R1))))"

definition list_row :: "JobSummary \<Rightarrow> string" where
  "list_row j = js_id j @ '' ['' @ status_label (js_status j) @ ''] '' @ js_command j @ '' '' @ em_dash @ '' ''
     @ dec (js_unread j) @ '' unread byte(s)'' @ [CHR 0x0A]"

definition run_job_list :: "nat option \<Rightarrow> JobRegistry \<Rightarrow> SkillOutcome" where
  "run_job_list sid R =
     (case sid of
        None \<Rightarrow> no_session
      | Some s \<Rightarrow>
          if job_list s R = [] then \<lparr>so_ok = True, so_summary = ''no background jobs''\<rparr>
          else \<lparr>so_ok = True, so_summary = trim_end (concat (map list_row (job_list s R)))\<rparr>)"

definition run_job_kill :: "nat option \<Rightarrow> json \<Rightarrow> JobRegistry \<Rightarrow> SkillOutcome \<times> JobRegistry" where
  "run_job_kill sid args R =
     (case sid of
        None \<Rightarrow> (no_session, R)
      | Some s \<Rightarrow>
          (case id_arg args of
             None \<Rightarrow> (\<lparr>so_ok = False, so_summary = MISSING_ID\<rparr>, R)
           | Some i \<Rightarrow>
               (case job_kill s i R of
                  (Inr _, R1) \<Rightarrow> (\<lparr>so_ok = True, so_summary = ''asked job `'' @ i @ ''` to stop''\<rparr>, R1)
                | (Inl e, R1) \<Rightarrow> (\<lparr>so_ok = False, so_summary = e\<rparr>, R1))))"

text \<open>\<open>start_background\<close> of \<open>src/crates/agents/src/builtins.rs\<close>.\<close>

definition wants_background :: "json \<Rightarrow> bool" where
  "wants_background args = flag_arg (json_get ''background'' args)"

definition start_background ::
  "bool \<Rightarrow> nat option \<Rightarrow> string \<Rightarrow> string \<Rightarrow> string option \<Rightarrow> (JobRegistry \<Rightarrow> JobRegistry) \<Rightarrow> int \<Rightarrow> JobRegistry
   \<Rightarrow> SkillOutcome \<times> JobRegistry" where
  "start_background available sid knd command spawn_error meanwhile now R =
     (if \<not> available then (\<lparr>so_ok = False, so_summary = ''background jobs are not available in this context''\<rparr>, R)
      else case sid of
        None \<Rightarrow> (no_session, R)
      | Some s \<Rightarrow>
          (case start_shell s knd command spawn_error meanwhile now R of
             (Inr i, R1) \<Rightarrow>
               (\<lparr>so_ok = True, so_summary = ''started job `'' @ i @ ''` in the background: '' @ command @ [CHR 0x0A]
                   @ ''It is still running. Read what it prints with `'' @ JOB_OUTPUT_NAME @ '' '' @ [CHR 0x27] @ i @ [CHR 0x27]
                   @ '' > what it printed`, list jobs with `'' @ JOB_LIST_NAME @ ''`, stop it with `'' @ JOB_KILL_NAME @ '' ''
                   @ [CHR 0x27] @ i @ [CHR 0x27] @ ''`. You will be told when it finishes.''\<rparr>, R1)
           | (Inl e, R1) \<Rightarrow> (\<lparr>so_ok = False, so_summary = e\<rparr>, R1)))"

text \<open>The command of a person, \<open>command_job_output\<close> of \<open>src/crates/backend/src/chat.rs\<close>.\<close>

definition command_job_output :: "nat \<Rightarrow> string \<Rightarrow> JobRegistry \<Rightarrow> (bool \<times> string) \<times> JobRegistry" where
  "command_job_output s input R =
     (if trim input = [] then ((False, ''which job? pass an id like `cli-3`''), R)
      else case job_read s (trim input) R of
        (None, R1) \<Rightarrow> ((False, no_job (trim input)), R1)
      | (Some (t, lost, st, sp), R1) \<Rightarrow>
          ((True,
            (if lost = 0 then []
             else case sp of
               Some path \<Rightarrow> ''['' @ dec lost @ '' byte(s) scrolled out of the window '' @ em_dash @ '' saved in '' @ path @ '']'' @ [CHR 0x0A]
             | None \<Rightarrow> ''['' @ dec lost @ '' byte(s) of earlier output were dropped]'' @ [CHR 0x0A])
            @ output_window t @ [CHR 0x0A] @ ''[status: '' @ status_label st @ '']''), R1))"

section \<open>The bridge into the session\<close>

record JobDump =
  jd_id :: string
  jd_kind :: string
  jd_command :: string
  jd_status :: string
  jd_running :: bool
  jd_unread :: nat
  jd_started_at :: int

definition job_dump :: "nat \<Rightarrow> JobRegistry \<Rightarrow> JobDump list" where
  "job_dump s R =
     map (\<lambda>j. \<lparr>jd_id = js_id j, jd_kind = js_kind j, jd_command = js_command j, jd_status = status_label (js_status j),
        jd_running = is_running (js_status j), jd_unread = js_unread j, jd_started_at = js_started_at j\<rparr>) (job_list s R)"

text \<open>The audit row, the notice in the inbox and the line in the log panel.\<close>

definition bridge_finished ::
  "int \<Rightarrow> nat \<Rightarrow> JobSummary \<Rightarrow> 'a hook_state_scheme \<times> Inbox \<Rightarrow> 'a hook_state_scheme \<times> Inbox" where
  "bridge_finished now s j p =
     (case p of (st, ib) \<Rightarrow>
        (log_line ''INFO'' (''job '' @ js_id j @ '' '' @ status_label (js_status j))
           (append_event now (JobFinished (js_id j) (status_label (js_status j)) (exit_code (js_status j))) st),
         snd (inbox_push ib s (Inject (completion_notice j) JobNotice))))"

section \<open>Every interleaving\<close>

text \<open>
  What children print and what readers are handed (before it is decoded), in the order it happens. \<open>full\<close> says that
  every write to a spill file gets all its bytes down. Starting is possible whatever the limit says, so whatever
  happens between its two locks is covered.
\<close>

datatype job_obs = Printed nat string string | Handed nat string nat string

fun obs_id :: "job_obs \<Rightarrow> string" where
  "obs_id (Printed s i c) = i"
| "obs_id (Handed s i l c) = i"

inductive jobs_reach :: "string \<Rightarrow> bool \<Rightarrow> job_obs list \<Rightarrow> JobRegistry \<Rightarrow> bool" for root full where
  Init: "jobs_reach root full [] registry_new"
| Attach: "jobs_reach root full tr R \<Longrightarrow> jobs_reach root full tr (attach_notifier R)"
| Start: "jobs_reach root full tr R \<Longrightarrow> jobs_reach root full tr (notify_changed s (snd (start_insert s knd c now R)))"
| Print: "jobs_reach root full tr R \<Longrightarrow> find_job s i R = Some j \<Longrightarrow> (full \<longrightarrow> (\<exists>k. d = Wrote k \<and> length c \<le> k))
    \<Longrightarrow> jobs_reach root full (tr @ [Printed s i c]) (append_output root d s i c R)"
| Settle: "jobs_reach root full tr R \<Longrightarrow> jobs_reach root full tr (settle_job s i st R)"
| Read: "jobs_reach root full tr R \<Longrightarrow> find_job s i R = Some j
    \<Longrightarrow> jobs_reach root full (tr @ [Handed s i (lost_bytes j) (unread_bytes j)]) (snd (job_read s i R))"
| Kill: "jobs_reach root full tr R \<Longrightarrow> jobs_reach root full tr (snd (job_kill s i R))"
| Clear: "jobs_reach root full tr R \<Longrightarrow> jobs_reach root full tr (clear_jobs s R)"

text \<open>Everything a job has printed, and the gap and the bytes of each of its reads.\<close>

fun printed :: "nat \<Rightarrow> string \<Rightarrow> job_obs list \<Rightarrow> string" where
  "printed s i [] = []"
| "printed s i (Printed s' i' c # tr) = (if s' = s \<and> i' = i then c else []) @ printed s i tr"
| "printed s i (Handed _ _ _ _ # tr) = printed s i tr"

fun handed :: "nat \<Rightarrow> string \<Rightarrow> job_obs list \<Rightarrow> (nat \<times> string) list" where
  "handed s i [] = []"
| "handed s i (Handed s' i' l c # tr) = (if s' = s \<and> i' = i then [(l, c)] else []) @ handed s i tr"
| "handed s i (Printed _ _ _ # tr) = handed s i tr"

text \<open>The reads, laid over the output from a position on: each skips its gap and is what stands there. The result is
  where they end.\<close>

fun laid_over :: "string \<Rightarrow> nat \<Rightarrow> (nat \<times> string) list \<Rightarrow> nat option" where
  "laid_over D p [] = Some p"
| "laid_over D p ((l, c) # hs) =
     (if p + l + length c \<le> length D \<and> take (length c) (drop (p + l) D) = c then laid_over D (p + l + length c) hs else None)"

lemma trace_append [simp]:
  "printed s i (tr @ tr') = printed s i tr @ printed s i tr'" "handed s i (tr @ tr') = handed s i tr @ handed s i tr'"
  by (induction s i tr rule: printed.induct) simp_all

lemma laid_over_append:
  "laid_over D p (hs @ hs') = Option.bind (laid_over D p hs) (\<lambda>q. laid_over D q hs')"
  by (induction D p hs rule: laid_over.induct) simp_all

lemma laid_over_more: "laid_over D p hs = Some q \<Longrightarrow> laid_over (D @ c) p hs = Some q"
  by (induction D p hs rule: laid_over.induct) (auto split: if_splits)

lemma not_used:
  "(\<forall>ob\<in>set tr. obs_id ob \<noteq> i) \<Longrightarrow> printed s i tr = [] \<and> handed s i tr = []"
  by (induction s i tr rule: printed.induct) auto

subsection \<open>Numbers of jobs and their files\<close>

definition num_of :: "string \<Rightarrow> nat" where
  "num_of i = digits_val (rev (takeWhile is_digit (rev i)))"

lemma num_of_id: "num_of (knd @ ''-'' @ dec n) = n"
proof -
  have "takeWhile is_digit (rev (dec n) @ CHR ''-'' # rev knd) = rev (dec n)"
    using dec_digits [of n] by (subst takeWhile_append2) (auto simp: list_all_iff is_digit_def)
  then show ?thesis using dec_digits [of n] by (simp add: num_of_def)
qed

lemma takeWhile_dec: "takeWhile (\<lambda>c. c \<noteq> CHR ''/'') (dec n @ CHR ''/'' # x) = dec n"
  using dec_digits [of n] by (subst takeWhile_append2) (auto simp: list_all_iff is_digit_def)

lemma spill_file_inject: "spill_file root s i = spill_file root s' i' \<Longrightarrow> s = s' \<and> i = i'"
proof -
  assume "spill_file root s i = spill_file root s' i'"
  then have e: "dec s @ CHR ''/'' # ''job-'' @ i @ ''.txt'' = dec s' @ CHR ''/'' # ''job-'' @ i' @ ''.txt''"
    by (simp add: spill_file_def)
  then have "dec s = dec s'" using takeWhile_dec [of s] takeWhile_dec [of s'] by metis
  moreover from this have "s = s'" using dec_digits by metis
  ultimately show ?thesis using e by simp
qed

subsection \<open>The invariant\<close>

definition job_ok :: "string \<Rightarrow> bool \<Rightarrow> job_obs list \<Rightarrow> files \<Rightarrow> Job \<Rightarrow> bool" where
  "job_ok root full tr fs j \<longleftrightarrow>
     (let D = printed (bj_session j) (bj_id j) tr; path = spill_file root (bj_session j) (bj_id j)
      in bj_produced j = length D \<and> length (bj_buf j) \<le> OUTPUT_CAP \<and> length (bj_buf j) \<le> length D
         \<and> bj_buf j = drop (length D - length (bj_buf j)) D
         \<and> laid_over D 0 (handed (bj_session j) (bj_id j) tr) = Some (bj_read_mark j) \<and> bj_read_mark j \<le> length D
         \<and> (full \<longrightarrow> fs path @ bj_buf j = D) \<and> (bj_spill j = None \<or> bj_spill j = Some path))"

definition jobs_inv :: "string \<Rightarrow> bool \<Rightarrow> job_obs list \<Rightarrow> JobRegistry \<Rightarrow> bool" where
  "jobs_inv root full tr R \<longleftrightarrow>
     (\<forall>s. distinct (map (\<lambda>j. num_of (bj_id j)) (jr_jobs R s))
        \<and> (\<forall>j\<in>set (jr_jobs R s). bj_session j = s \<and> num_of (bj_id j) \<le> jr_next R \<and> job_ok root full tr (jr_files R) j))
     \<and> (\<forall>s s' j j'. j \<in> set (jr_jobs R s) \<longrightarrow> j' \<in> set (jr_jobs R s') \<longrightarrow> num_of (bj_id j) = num_of (bj_id j') \<longrightarrow> s = s')
     \<and> (\<forall>ob\<in>set tr. num_of (obs_id ob) \<le> jr_next R)
     \<and> (\<forall>s i. jr_next R < num_of i \<longrightarrow> jr_files R (spill_file root s i) = [])"

lemma find_jobD: "find_job s i R = Some j \<Longrightarrow> j \<in> set (jr_jobs R s) \<and> bj_id j = i"
  by (auto simp: find_job_def find_Some_iff)

lemma update_job_ids: "bj_id j' = i \<Longrightarrow> map bj_id (update_job i (\<lambda>_. j') js) = map bj_id js"
  by (induction i "\<lambda>_ :: Job. j'" js rule: update_job.induct) auto

lemma set_update_distinct:
  "distinct (map (\<lambda>j. num_of (bj_id j)) js) \<Longrightarrow> j \<in> set (update_job i (\<lambda>_. j') js) \<Longrightarrow> j = j' \<or> j \<in> set js \<and> bj_id j \<noteq> i"
proof (induction js)
  case (Cons k ks)
  then show ?case by (cases "bj_id k = i") (auto simp: image_iff)
qed simp

text \<open>A job changed in place, its own part of the trace and its own file with it.\<close>

lemma jobs_inv_put:
  assumes inv: "jobs_inv root full tr R" and f: "find_job s i R = Some j"
    and j': "bj_id j' = i" "bj_session j' = s" and ok: "job_ok root full tr' fs j'"
    and others: "\<And>s' i'. s' \<noteq> s \<or> i' \<noteq> i \<Longrightarrow> printed s' i' tr' = printed s' i' tr \<and> handed s' i' tr' = handed s' i' tr
      \<and> fs (spill_file root s' i') = jr_files R (spill_file root s' i')"
    and obs: "\<forall>ob\<in>set tr'. ob \<in> set tr \<or> obs_id ob = i"
  shows "jobs_inv root full tr' (put_job s i j' (R\<lparr>jr_files := fs\<rparr>))"
proof -
  let ?R = "put_job s i j' (R\<lparr>jr_files := fs\<rparr>)"
  note D = inv [unfolded jobs_inv_def]
  have j: "j \<in> set (jr_jobs R s)" "bj_id j = i" using find_jobD [OF f] by auto
  have n: "num_of i \<le> jr_next R" using D j by blast
  have jobs: "jr_jobs ?R s' = (if s' = s then update_job i (\<lambda>_. j') (jr_jobs R s) else jr_jobs R s')" for s'
    by (simp add: put_job_def)
  have nums: "map (\<lambda>j. num_of (bj_id j)) (jr_jobs ?R s') = map (\<lambda>j. num_of (bj_id j)) (jr_jobs R s')" for s'
    using arg_cong [OF update_job_ids [OF j'(1), of "jr_jobs R s"], of "map num_of"] by (simp add: jobs comp_def)
  have mem: "k = j' \<and> s' = s \<or> k \<in> set (jr_jobs R s') \<and> (s' \<noteq> s \<or> bj_id k \<noteq> i)" if "k \<in> set (jr_jobs ?R s')" for k s'
    using that set_update_distinct [of "jr_jobs R s" k i j'] D unfolding jobs by (cases "s' = s") auto
  have old: "job_ok root full tr' fs k" if "k \<in> set (jr_jobs R s')" "s' \<noteq> s \<or> bj_id k \<noteq> i" for k s'
  proof -
    have "bj_session k = s'" "job_ok root full tr (jr_files R) k" using D that(1) by auto
    then show ?thesis using others [of s' "bj_id k"] that(2) by (simp add: job_ok_def)
  qed
  have "\<exists>k'. k' \<in> set (jr_jobs R s') \<and> num_of (bj_id k') = num_of (bj_id k)" if "k \<in> set (jr_jobs ?R s')" for k s'
    using mem [OF that] j j'(1) by auto
  then have cross: "s1 = s2" if "k1 \<in> set (jr_jobs ?R s1)" "k2 \<in> set (jr_jobs ?R s2)" "num_of (bj_id k1) = num_of (bj_id k2)" for s1 s2 k1 k2
    using that D by metis
  have files: "fs (spill_file root s' i') = []" if "jr_next R < num_of i'" for s' i'
    using others [of s' i'] that n D by (cases "i' = i") auto
  show ?thesis
    unfolding jobs_inv_def
  proof (intro conjI allI ballI impI)
    fix s' show "distinct (map (\<lambda>j. num_of (bj_id j)) (jr_jobs ?R s'))" using D nums by simp
  next
    fix s' k assume k: "k \<in> set (jr_jobs ?R s')"
    show "bj_session k = s'" "num_of (bj_id k) \<le> jr_next ?R" "job_ok root full tr' (jr_files ?R) k"
      using mem [OF k] D j' n ok old by (auto simp: put_job_def)
  next
    fix s1 s2 k1 k2 assume "k1 \<in> set (jr_jobs ?R s1)" "k2 \<in> set (jr_jobs ?R s2)" "num_of (bj_id k1) = num_of (bj_id k2)"
    then show "s1 = s2" by (rule cross)
  next
    fix ob assume "ob \<in> set tr'" then show "num_of (obs_id ob) \<le> jr_next ?R" using obs D n by (auto simp: put_job_def)
  next
    fix s' i' assume "jr_next ?R < num_of i'"
    then show "jr_files ?R (spill_file root s' i') = []" using files by (simp add: put_job_def)
  qed
qed

text \<open>The three ways a job changes.\<close>

lemma drop_suffix:
  assumes "buf = drop (length D - length buf) D" and "length buf \<le> length D"
  shows "drop x (buf @ c) = drop (length (D @ c) - length (drop x (buf @ c))) (D @ c)"
proof -
  obtain pre where D: "D = pre @ buf" using assms(1) by (metis append_take_drop_id)
  have "drop x ys = drop (length (pre @ ys) - length (drop x ys)) (pre @ ys)" for ys :: "'a list"
    by (cases "x \<le> length ys") simp_all
  from this [of "buf @ c"] show ?thesis by (simp only: D append_assoc)
qed

lemma job_okI:
  assumes "printed (bj_session j) (bj_id j) tr = D" and "bj_produced j = length D" and "length (bj_buf j) \<le> OUTPUT_CAP"
    and "length (bj_buf j) \<le> length D" and "bj_buf j = drop (length D - length (bj_buf j)) D"
    and "laid_over D 0 (handed (bj_session j) (bj_id j) tr) = Some (bj_read_mark j)" and "bj_read_mark j \<le> length D"
    and "full \<longrightarrow> fs (spill_file root (bj_session j) (bj_id j)) @ bj_buf j = D"
    and "bj_spill j = None \<or> bj_spill j = Some (spill_file root (bj_session j) (bj_id j))"
  shows "job_ok root full tr fs j"
  unfolding job_ok_def Let_def assms(1) using assms(2-) by blast

lemma spill_bytes_spec:
  assumes "spill_bytes root d bytes j fs = (j', fs')" and "p = spill_file root (bj_session j) (bj_id j)"
    and "bj_spill j = None \<or> bj_spill j = Some p"
  shows "\<exists>sp. j' = j\<lparr>bj_spill := sp\<rparr> \<and> (sp = None \<or> sp = Some p) \<and> (\<forall>q. q \<noteq> p \<longrightarrow> fs' q = fs q)
    \<and> (\<forall>k. d = Wrote k \<and> length bytes \<le> k \<longrightarrow> fs' p = fs p @ bytes)"
proof (cases d)
  case NoDir
  then have "j' = j\<lparr>bj_spill := bj_spill j\<rparr>" "fs' = fs" using assms(1) by (simp_all add: spill_bytes_def)
  then show ?thesis using assms(3) NoDir by (intro exI [of _ "bj_spill j"]) simp
next
  case NoFile
  then have "j' = j\<lparr>bj_spill := Some p\<rparr>" "fs' = fs" using assms by (auto simp: spill_bytes_def Let_def)
  then show ?thesis using NoFile by (intro exI [of _ "Some p"]) simp
next
  case (Wrote k)
  then have "j' = j\<lparr>bj_spill := Some p\<rparr>" "fs' = fs(p := fs p @ take k bytes)"
    using assms by (auto simp: spill_bytes_def Let_def)
  then show ?thesis using Wrote by (intro exI [of _ "Some p"]) simp
qed

lemma job_ok_append:
  assumes ok: "job_ok root full tr fs j" and d: "full \<longrightarrow> (\<exists>k. d = Wrote k \<and> length c \<le> k)"
    and a: "job_append root d c j fs = (j', fs')"
  shows "job_ok root full (tr @ [Printed (bj_session j) (bj_id j) c]) fs' j' \<and> bj_session j' = bj_session j \<and> bj_id j' = bj_id j
    \<and> (\<forall>p. p \<noteq> spill_file root (bj_session j) (bj_id j) \<longrightarrow> fs' p = fs p)"
proof -
  let ?D = "printed (bj_session j) (bj_id j) tr" and ?p = "spill_file root (bj_session j) (bj_id j)"
  let ?buf = "bj_buf j @ c" let ?x = "length ?buf - OUTPUT_CAP"
  note D = ok [unfolded job_ok_def Let_def]
  have buf: "bj_buf j = drop (length ?D - length (bj_buf j)) ?D" using D by blast
  have cut: "drop ?x ?buf = drop (length (?D @ c) - length (drop ?x ?buf)) (?D @ c)"
    by (rule drop_suffix) (use D in blast)+
  have tail: "?buf = drop (length (?D @ c) - length ?buf) (?D @ c)"
    using drop_suffix [of "bj_buf j" ?D 0 c] D by simp
  have more: "laid_over (?D @ c) 0 (handed (bj_session j) (bj_id j) tr) = Some (bj_read_mark j)"
    using D by (intro laid_over_more) blast
  have prod: "bj_produced j = length ?D" and len: "length (bj_buf j) \<le> length ?D" and mark: "bj_read_mark j \<le> length ?D"
    and cap: "length (bj_buf j) \<le> OUTPUT_CAP" using D by blast+
  have x: "?x \<le> length c" using cap by simp
  have saved: "full \<longrightarrow> fs ?p @ bj_buf j = ?D" and sp0: "bj_spill j = None \<or> bj_spill j = Some ?p" using D by blast+
  let ?tr = "tr @ [Printed (bj_session j) (bj_id j) c]"
  show ?thesis
  proof (cases "length ?buf > OUTPUT_CAP")
    case False
    then have j': "j' = j\<lparr>bj_produced := bj_produced j + length c, bj_buf := ?buf\<rparr>" and fs: "fs' = fs"
      using a by (auto simp: job_append_def Let_def)
    have "job_ok root full ?tr fs j'"
      by (rule job_okI [where D = "?D @ c"]) (use more tail saved sp0 prod len mark False in \<open>simp_all add: j'\<close>)
    then show ?thesis by (simp add: j' fs)
  next
    case True
    let ?j1 = "j\<lparr>bj_produced := bj_produced j + length c, bj_buf := drop ?x ?buf\<rparr>"
    have sb: "spill_bytes root d (take ?x ?buf) ?j1 fs = (j', fs')" using a True by (simp add: job_append_def Let_def)
    obtain sp where j': "j' = ?j1\<lparr>bj_spill := sp\<rparr>" and sp: "sp = None \<or> sp = Some ?p"
      and other: "\<forall>p. p \<noteq> ?p \<longrightarrow> fs' p = fs p"
      and all: "\<forall>k. d = Wrote k \<and> length (take ?x ?buf) \<le> k \<longrightarrow> fs' ?p = fs ?p @ take ?x ?buf"
      using spill_bytes_spec [OF sb, of ?p] sp0 by auto
    have grown: "full \<longrightarrow> fs' ?p = fs ?p @ take ?x ?buf"
    proof
      assume full
      then obtain k where k: "d = Wrote k" "length c \<le> k" using d by blast
      have "length (take ?x ?buf) \<le> k" using x k(2) by simp
      then show "fs' ?p = fs ?p @ take ?x ?buf" using all k(1) by blast
    qed
    have "full \<longrightarrow> fs' ?p @ drop ?x ?buf = ?D @ c" using grown saved by (metis append.assoc append_take_drop_id)
    then have saved1: "full \<longrightarrow> fs' ?p @ bj_buf j' = ?D @ c" by (simp add: j')
    have fields: "bj_buf j' = drop ?x ?buf" "bj_session j' = bj_session j" "bj_id j' = bj_id j" "bj_read_mark j' = bj_read_mark j"
      "bj_produced j' = length (?D @ c)" "bj_spill j' = sp" by (simp_all add: j' prod)
    have "job_ok root full ?tr fs' j'"
    proof (rule job_okI [where D = "?D @ c"])
      show "bj_buf j' = drop (length (?D @ c) - length (bj_buf j')) (?D @ c)" unfolding fields(1) by (rule cut)
      show "length (bj_buf j') \<le> OUTPUT_CAP" "length (bj_buf j') \<le> length (?D @ c)" unfolding fields(1) using len True by simp_all
      show "laid_over (?D @ c) 0 (handed (bj_session j') (bj_id j') ?tr) = Some (bj_read_mark j')"
        unfolding fields(2-4) using more by simp
    qed (use saved1 sp mark in \<open>simp_all add: fields(2-6)\<close>)
    then show ?thesis using other by (simp add: j')
  qed
qed

lemma job_ok_read:
  assumes ok: "job_ok root full tr fs j"
  shows "job_ok root full (tr @ [Handed (bj_session j) (bj_id j) (lost_bytes j) (unread_bytes j)]) fs (j\<lparr>bj_read_mark := bj_produced j\<rparr>)"
proof -
  let ?D = "printed (bj_session j) (bj_id j) tr"
  let ?st = "length ?D - length (bj_buf j)"
  note D = ok [unfolded job_ok_def Let_def]
  have buf: "bj_buf j = drop ?st ?D" and p: "bj_produced j = length ?D" and m: "bj_read_mark j \<le> length ?D" using D by blast+
  have "unread_bytes j = drop (max (bj_read_mark j) ?st - ?st) (drop ?st ?D)"
    unfolding unread_bytes_def Let_def p using buf by simp
  moreover have "max (bj_read_mark j) ?st = bj_read_mark j + lost_bytes j" by (simp add: lost_bytes_def p)
  ultimately have raw: "unread_bytes j = drop (bj_read_mark j + lost_bytes j) ?D" by simp
  have "bj_read_mark j + lost_bytes j + length (unread_bytes j) = length ?D"
    using m unfolding raw by (simp add: lost_bytes_def p)
  then show ?thesis using D raw by (auto simp: job_ok_def Let_def laid_over_append)
qed

lemma job_ok_other: "job_ok root full tr fs (j\<lparr>bj_status := st\<rparr>) = job_ok root full tr fs j"
  "job_ok root full tr fs (j\<lparr>bj_cancelled := b\<rparr>) = job_ok root full tr fs j"
  by (simp_all add: job_ok_def Let_def)

lemma put_same: "put_job s i j (R\<lparr>jr_files := jr_files R\<rparr>) = put_job s i j R" by simp

lemma jobs_inv_same: "jr_jobs R' = jr_jobs R \<Longrightarrow> jr_next R' = jr_next R \<Longrightarrow> jr_files R' = jr_files R
  \<Longrightarrow> jobs_inv root full tr R' = jobs_inv root full tr R"
  by (simp add: jobs_inv_def)

lemma notify_same: "jr_jobs (notify_changed s R) = jr_jobs R" "jr_next (notify_changed s R) = jr_next R"
  "jr_files (notify_changed s R) = jr_files R"
  by (simp_all add: notify_changed_def)

lemma jobs_inv_start:
  assumes inv: "jobs_inv root full tr R" and st: "start_insert s knd c now R = (i, R')"
  shows "jobs_inv root full tr R'"
proof -
  note D = inv [unfolded jobs_inv_def]
  have i: "i = knd @ ''-'' @ dec (jr_next R + 1)" using st by (simp add: start_insert_def Let_def)
  have n: "num_of i = jr_next R + 1" unfolding i by (rule num_of_id)
  define j where "j = \<lparr>bj_id = i, bj_session = s, bj_kind = knd, bj_command = c, bj_status = Running, bj_buf = [],
    bj_produced = 0, bj_read_mark = 0, bj_cancelled = False, bj_started_at = now, bj_spill = None\<rparr>"
  have R': "R' = R\<lparr>jr_next := jr_next R + 1, jr_jobs := (jr_jobs R)(s := jr_jobs R s @ [j])\<rparr>"
    using st by (simp add: start_insert_def Let_def j_def i)
  have "printed s i tr = [] \<and> handed s i tr = []" using D n by (intro not_used) force
  then have ok: "job_ok root full tr (jr_files R) j" using D n by (auto simp: job_ok_def j_def)
  have mem: "k = j \<and> s' = s \<or> k \<in> set (jr_jobs R s')" if "k \<in> set (jr_jobs R' s')" for k s'
    using that by (auto simp: R' split: if_splits)
  have small: "num_of (bj_id k) \<le> jr_next R" if "k \<in> set (jr_jobs R s')" for k s' using D that by blast
  have jn: "num_of (bj_id j) = jr_next R + 1" using n by (simp add: j_def)
  show ?thesis
    unfolding jobs_inv_def
  proof (intro conjI allI ballI impI)
    fix s' show "distinct (map (\<lambda>j. num_of (bj_id j)) (jr_jobs R' s'))"
      using D small [of _ s] jn by (fastforce simp: R' image_iff)
  next
    fix s' k assume k: "k \<in> set (jr_jobs R' s')"
    have nx: "jr_next R' = jr_next R + 1" "jr_files R' = jr_files R" by (simp_all add: R')
    show "bj_session k = s'" "num_of (bj_id k) \<le> jr_next R'" "job_ok root full tr (jr_files R') k"
      using mem [OF k] D jn ok unfolding nx by (auto simp: j_def dest: small)
  next
    fix s1 s2 k1 k2 assume a: "k1 \<in> set (jr_jobs R' s1)" "k2 \<in> set (jr_jobs R' s2)" "num_of (bj_id k1) = num_of (bj_id k2)"
    show "s1 = s2" using mem [OF a(1)] mem [OF a(2)] small a(3) jn D by (metis Suc_eq_plus1 not_less_eq_eq order_refl)
  next
    fix ob assume "ob \<in> set tr" then show "num_of (obs_id ob) \<le> jr_next R'" using D by (auto simp: R')
  next
    fix s' i' assume "jr_next R' < num_of i'"
    then show "jr_files R' (spill_file root s' i') = []" using D by (simp add: R')
  qed
qed

lemma jobs_inv_clear: "jobs_inv root full tr R \<Longrightarrow> jobs_inv root full tr (clear_jobs s R)"
  by (auto simp: jobs_inv_def clear_jobs_def split: if_splits)

lemma jobs_inv_reach: "jobs_reach root full tr R \<Longrightarrow> jobs_inv root full tr R"
proof (induction rule: jobs_reach.induct)
  case Init
  show ?case by (simp add: jobs_inv_def registry_new_def)
next
  case (Attach tr R)
  then show ?case by (subst jobs_inv_same [where R = R]) (simp_all add: attach_notifier_def)
next
  case (Start tr R s knd c now)
  obtain i R' where st: "start_insert s knd c now R = (i, R')" by fastforce
  show ?case using jobs_inv_start [OF Start.IH st] st by (subst jobs_inv_same [where R = R']) (simp_all add: notify_same)
next
  case (Print tr R s i j d c)
  obtain j' fs where a: "job_append root d c j (jr_files R) = (j', fs)" by fastforce
  have j: "j \<in> set (jr_jobs R s)" "bj_id j = i" using find_jobD [OF Print.hyps(2)] by auto
  then have ok: "job_ok root full tr (jr_files R) j" and s: "bj_session j = s" using Print.IH by (auto simp: jobs_inv_def)
  note ap = job_ok_append [OF ok Print.hyps(3) a, unfolded s j(2)]
  have "jobs_inv root full (tr @ [Printed s i c]) (put_job s i j' (R\<lparr>jr_files := fs\<rparr>))"
  proof (rule jobs_inv_put [OF Print.IH Print.hyps(2)])
    fix s' i' assume ne: "s' \<noteq> s \<or> i' \<noteq> i"
    then have "spill_file root s' i' \<noteq> spill_file root s i" using spill_file_inject by blast
    then show "printed s' i' (tr @ [Printed s i c]) = printed s' i' tr \<and> handed s' i' (tr @ [Printed s i c]) = handed s' i' tr
      \<and> fs (spill_file root s' i') = jr_files R (spill_file root s' i')" using ap ne by auto
  qed (use ap in auto)
  then show ?case using Print.hyps(2) a by (simp add: append_output_def)
next
  case (Settle tr R s i st)
  show ?case
  proof (cases "find_job s i R")
    case (Some j)
    have j: "j \<in> set (jr_jobs R s)" "bj_id j = i" using find_jobD [OF Some] by auto
    have "jobs_inv root full tr (put_job s i (j\<lparr>bj_status := st\<rparr>) (R\<lparr>jr_files := jr_files R\<rparr>))"
      by (rule jobs_inv_put [OF Settle.IH Some]) (use Settle.IH j in \<open>auto simp: jobs_inv_def job_ok_other\<close>)
    then show ?thesis unfolding settle_job_def Some put_same option.case Let_def
      by (subst jobs_inv_same [where R = "put_job s i (j\<lparr>bj_status := st\<rparr>) R"]) (simp_all add: notify_same)
  qed (use Settle.IH in \<open>simp add: settle_job_def\<close>)
next
  case (Read tr R s i j)
  have j: "j \<in> set (jr_jobs R s)" "bj_id j = i" using find_jobD [OF Read.hyps(2)] by auto
  then have ok: "job_ok root full tr (jr_files R) j" and s: "bj_session j = s" using Read.IH by (auto simp: jobs_inv_def)
  have "jobs_inv root full (tr @ [Handed s i (lost_bytes j) (unread_bytes j)])
      (put_job s i (j\<lparr>bj_read_mark := bj_produced j\<rparr>) (R\<lparr>jr_files := jr_files R\<rparr>))"
    by (rule jobs_inv_put [OF Read.IH Read.hyps(2)]) (use job_ok_read [OF ok] s j(2) in auto)
  then show ?case using Read.hyps(2) by (simp add: job_read_def take_unread_def)
next
  case (Kill tr R s i)
  show ?case
  proof (cases "find_job s i R")
    case (Some j)
    have j: "j \<in> set (jr_jobs R s)" "bj_id j = i" using find_jobD [OF Some] by auto
    have "jobs_inv root full tr (put_job s i (j\<lparr>bj_cancelled := True\<rparr>) (R\<lparr>jr_files := jr_files R\<rparr>))"
      by (rule jobs_inv_put [OF Kill.IH Some]) (use Kill.IH j in \<open>auto simp: jobs_inv_def job_ok_other\<close>)
    then show ?thesis using Kill.IH by (simp add: job_kill_def Some)
  qed (use Kill.IH in \<open>simp add: job_kill_def\<close>)
next
  case (Clear tr R s)
  then show ?case by (simp add: jobs_inv_clear)
qed

section \<open>What holds\<close>


text \<open>One job of session 1, its output read once, then more of it.\<close>

definition demo_job_run :: JobRegistry where
  "demo_job_run =
     append_output ''r'' (Wrote 9) 1 ''cli-1'' ''c''
       (snd (job_read 1 ''cli-1'' (append_output ''r'' (Wrote 9) 1 ''cli-1'' ''ab''
          (notify_changed 1 (snd (start_insert 1 ''cli'' ''ls'' 0 registry_new))))))"

definition demo_trace :: "job_obs list" where
  "demo_trace = [Printed 1 ''cli-1'' ''ab'', Handed 1 ''cli-1'' 0 ''ab'', Printed 1 ''cli-1'' ''c'']"

lemma dec_one: "dec (Suc 0) = ''1''"
  by code_simp

lemmas job_steps = start_insert_def registry_new_def notify_changed_def append_output_def find_job_def job_append_def
  OUTPUT_CAP_def put_job_def job_read_def take_unread_def lost_bytes_def unread_bytes_def dec_one Let_def

lemma demo_job: "jobs_reach ''r'' True demo_trace demo_job_run \<and> (\<exists>j. find_job 1 ''cli-1'' demo_job_run = Some j)"
proof
  let ?R1 = "notify_changed 1 (snd (start_insert 1 ''cli'' ''ls'' 0 registry_new))"
  let ?R2 = "append_output ''r'' (Wrote 9) 1 ''cli-1'' ''ab'' ?R1"
  let ?R3 = "snd (job_read 1 ''cli-1'' ?R2)"
  have 1: "jobs_reach ''r'' True [] ?R1" by (intro jobs_reach.Start jobs_reach.Init)
  obtain j1 where j1: "find_job 1 ''cli-1'' ?R1 = Some j1" by (simp add: job_steps)
  have 2: "jobs_reach ''r'' True ([] @ [Printed 1 ''cli-1'' ''ab'']) ?R2" by (rule jobs_reach.Print [OF 1 j1]) simp
  obtain j2 where j2: "find_job 1 ''cli-1'' ?R2 = Some j2" "lost_bytes j2 = 0" "unread_bytes j2 = ''ab''"
    by (simp add: job_steps)
  note 3 = jobs_reach.Read [OF 2 j2(1), unfolded j2(2,3)]
  obtain j3 where j3: "find_job 1 ''cli-1'' ?R3 = Some j3" by (simp add: job_steps)
  have "jobs_reach ''r'' True (([] @ [Printed 1 ''cli-1'' ''ab'']) @ [Handed 1 ''cli-1'' 0 ''ab''] @ [Printed 1 ''cli-1'' ''c''])
    (append_output ''r'' (Wrote 9) 1 ''cli-1'' ''c'' ?R3)"
    using jobs_reach.Print [OF 3 j3, of "Wrote 9" "''c''"] by simp
  then show "jobs_reach ''r'' True demo_trace demo_job_run" by (simp add: demo_trace_def demo_job_run_def)
  show "\<exists>j. find_job 1 ''cli-1'' demo_job_run = Some j" by (simp add: demo_job_run_def job_steps)
qed


text \<open>
  A job belongs to the session that started it. In every state that can be reached, a job one session can see is
  one no other session can read, kill, add to or end: the calls are refused, or do nothing, and change nothing.
\<close>

theorem jobs_isolated:
  assumes "jobs_reach root full tr R" and "find_job s i R = Some j" and "s' \<noteq> s"
  shows "job_read s' i R = (None, R) \<and> job_kill s' i R = (Inl (no_job i), R) \<and> append_output root d s' i c R = R
    \<and> settle_job s' i st R = R \<and> find_job s i (clear_jobs s' R) = Some j"
proof -
  have "find_job s' i R = None"
  proof (rule ccontr)
    assume "find_job s' i R \<noteq> None"
    then obtain k where "find_job s' i R = Some k" by blast
    then show False using find_jobD [OF assms(2)] find_jobD [of s' i R k] jobs_inv_reach [OF assms(1)] assms(3)
      unfolding jobs_inv_def by metis
  qed
  then show ?thesis using assms(2,3)
    by (simp add: job_read_def job_kill_def append_output_def settle_job_def no_job_def find_job_def clear_jobs_def)
qed

theorem jobs_isolated_witness:
  "job_kill 2 ''cli-1'' demo_job_run = (Inl (no_job ''cli-1''), demo_job_run) \<and> fst (job_read 2 ''cli-1'' demo_job_run) = None"
proof -
  obtain j where r: "jobs_reach ''r'' True demo_trace demo_job_run" and j: "find_job 1 ''cli-1'' demo_job_run = Some j"
    using demo_job by blast
  from jobs_isolated [OF r j, of 2] show ?thesis by simp
qed

section \<open>What a reader does not see\<close>

lemma find_put: "find_job s i R = Some j \<Longrightarrow> bj_id j' = i \<Longrightarrow> find_job s i (put_job s i j' R) = Some j'"
proof -
  assume "find_job s i R = Some j" "bj_id j' = i"
  moreover have "find (\<lambda>j. bj_id j = i) js \<noteq> None \<Longrightarrow> bj_id j' = i \<Longrightarrow> find (\<lambda>j. bj_id j = i) (update_job i (\<lambda>_. j') js) = Some j'" for js
    by (induction js) auto
  ultimately show ?thesis by (simp add: find_job_def put_job_def)
qed

text \<open>
  A read of more than the cap shows its two ends with the bare word "output" between them, which stands where a notice
  of the omission should, and nothing stays for the next read.
\<close>

lemma long_read_loses_its_middle:
  assumes "length t > READ_CAP" and "length (bj_buf j) \<le> bj_produced j"
  shows "output_window t = (let h = utf8_head t 24576; l = utf8_tail t 8192
     in h @ (if h \<noteq> [] \<and> last h \<noteq> CHR 0x0A then [CHR 0x0A] else []) @ ''output'' @ (if l \<noteq> [] then CHR 0x0A # l else []))
    \<and> unread_bytes (snd (take_unread j)) = []"
proof -
  have "unread_bytes (snd (take_unread j)) = []" using assms(2) by (simp add: take_unread_def unread_bytes_def Let_def)
  moreover have "t \<noteq> []" using assms by auto
  ultimately show ?thesis
    using assms by (simp add: output_window_def head_tail_def render_def READ_CAP_def Let_def)
qed

text \<open>What a person reads with \<open>/job-output\<close> is gone for the model.\<close>

lemma person_reads_for_the_model:
  assumes "find_job s i R = Some j" and "trim i = i" and "i \<noteq> []" and "length (bj_buf j) \<le> bj_produced j"
  shows "fst (job_read s i (snd (command_job_output s i R))) = Some ([], 0, bj_status j, None)"
proof -
  let ?j = "j\<lparr>bj_read_mark := bj_produced j\<rparr>"
  have r: "job_read s i R = (Some (from_utf8_lossy (unread_bytes j), lost_bytes j, bj_status j, if lost_bytes j > 0 then bj_spill j else None),
      put_job s i ?j R)"
    by (simp add: job_read_def assms(1) take_unread_def)
  have "snd (command_job_output s i R) = put_job s i ?j R" by (simp add: command_job_output_def assms(2,3) r)
  moreover have "find_job s i (put_job s i ?j R) = Some ?j"
    using find_put [OF assms(1)] find_jobD [OF assms(1)] by simp
  moreover have "unread_bytes ?j = []" "lost_bytes ?j = 0" using assms(4) by (simp_all add: unread_bytes_def lost_bytes_def Let_def)
  ultimately show ?thesis by (simp add: job_read_def take_unread_def from_utf8_lossy.simps [of "[]"])
qed

end
