(* ===== verification/Delegated_Run.thy ===== *)
theory Delegated_Run
  imports Tool_Run Skill_Registry Call_Extract Harness_Controls Reminders Corrections
begin

text \<open>
  One delegated conversation, \<open>src/crates/agents/src/runner.rs\<close>: a system prompt, a transcript, a bounded loop of tool
  calls through the guarded pipeline, and one report. With a schema the result must arrive through the
  \<open>structured-output\<close> tool and conform to it. The two skills that delegate one task, \<open>src/crates/agents/src/delegate.rs\<close>,
  are here as well.

  The model's answers, the interrupt token, JSON reading and printing and the bodies of the skills are parameters
  (record \<open>runner_env\<close>), by the number of the request or of the call. Floating-point numbers are compared by their printed
  form. Counters of calls are natural numbers (\<open>max_hops\<close> is a \<open>u8\<close>, and bounds them).
\<close>

section \<open>What a run is asked for and what it reports\<close>

definition STRUCTURED_OUTPUT_NAME :: string where "STRUCTURED_OUTPUT_NAME = ''structured-output''"

definition STRUCTURED_REMINDER :: string where
  "STRUCTURED_REMINDER = ''That reply does not count as your result. Report your final answer by calling the `structured-output` tool with a single JSON argument matching the schema in its description '' @ em_dash @ '' nothing else is read. Call it now.''"

record RunSpec =
  sp_label :: string
  sp_system :: string
  sp_seed :: "ChatMessage list"
  sp_task :: string
  sp_max_hops :: nat
  sp_schema :: "json option"
  sp_call_seq_start :: nat

record CallRecord =
  cr_id :: string
  cr_skill :: string
  cr_ok :: bool

record Report =
  rep_text :: string
  rep_structured :: "json option"
  rep_tool_ok :: nat
  rep_tool_err :: nat
  rep_hops :: nat
  rep_calls :: "CallRecord list"

definition verified :: "bool \<Rightarrow> Report \<Rightarrow> bool" where
  "verified wanted_schema r \<longleftrightarrow> rep_tool_ok r > 0 \<and> (\<not> wanted_schema \<or> rep_structured r \<noteq> None)"

definition ok_ids :: "CallRecord list \<Rightarrow> string set" where
  "ok_ids calls = set (map cr_id (filter cr_ok calls))"

definition call_lines :: "Report \<Rightarrow> string list" where
  "call_lines r = map (\<lambda>c. cr_id c @ '' '' @ cr_skill c @ '' ('' @ (if cr_ok c then ''ok'' else ''error'') @ '')'') (rep_calls r)"

record 's runner_env =
  dg_json :: json_lib
  dg_pretty :: "json \<Rightarrow> string"
  dg_chat :: "nat \<Rightarrow> ChatMessage list \<Rightarrow> string option"
  dg_cancelled :: "nat \<Rightarrow> bool"
  dg_run :: "skill_info \<Rightarrow> nat \<Rightarrow> 's run_env"

section \<open>Schemas\<close>

fun join_with :: "string \<Rightarrow> string list \<Rightarrow> string" where
  "join_with sep [] = []"
| "join_with sep [x] = x"
| "join_with sep (x # xs) = x @ sep @ join_with sep xs"

fun type_matches :: "json \<Rightarrow> string \<Rightarrow> bool" where
  "type_matches v t =
     (if t = ''object'' then (case v of JObject _ \<Rightarrow> True | _ \<Rightarrow> False)
      else if t = ''array'' then (case v of JArray _ \<Rightarrow> True | _ \<Rightarrow> False)
      else if t = ''string'' then (case v of JString _ \<Rightarrow> True | _ \<Rightarrow> False)
      else if t = ''integer'' then (case v of JNumber (NumU64 _) \<Rightarrow> True | JNumber (NumI64 _) \<Rightarrow> True | _ \<Rightarrow> False)
      else if t = ''number'' then (case v of JNumber _ \<Rightarrow> True | _ \<Rightarrow> False)
      else if t = ''boolean'' then (case v of JBool _ \<Rightarrow> True | _ \<Rightarrow> False)
      else if t = ''null'' then v = JNull
      else True)"

declare type_matches.simps [simp del]

fun type_name :: "json \<Rightarrow> string" where
  "type_name JNull = ''null''"
| "type_name (JBool _) = ''boolean''"
| "type_name (JNumber _) = ''number''"
| "type_name (JString _) = ''string''"
| "type_name (JArray _) = ''array''"
| "type_name (JObject _) = ''object''"

text \<open>The parts of \<open>validate\<close> that look at one level only.\<close>

definition type_problem :: "(string \<times> json) list \<Rightarrow> json \<Rightarrow> string \<Rightarrow> string option" where
  "type_problem obj v path =
     (case Option.bind (map_of obj ''type'') as_str of
        Some expected \<Rightarrow>
          if type_matches v expected then None
          else Some (path @ '': expected '' @ expected @ '', got '' @ type_name v)
      | None \<Rightarrow> None)"

definition enum_problems :: "json_lib \<Rightarrow> (string \<times> json) list \<Rightarrow> json \<Rightarrow> string \<Rightarrow> string list" where
  "enum_problems jl obj v path =
     (case map_of obj ''enum'' of
        Some (JArray allowed) \<Rightarrow>
          if v \<in> set allowed then []
          else [path @ '': must be one of '' @ join_with '' | '' (map (jl_print jl) allowed)]
      | _ \<Rightarrow> [])"

definition required_problems :: "(string \<times> json) list \<Rightarrow> json \<Rightarrow> string \<Rightarrow> string list" where
  "required_problems obj v path =
     (case map_of obj ''required'' of
        Some (JArray keys) \<Rightarrow>
          map (\<lambda>k. path @ '': missing required field `'' @ k @ ''`'')
            (filter (\<lambda>k. json_get k v = None) (List.map_filter as_str keys))
      | _ \<Rightarrow> [])"

definition min_problems :: "(string \<times> json) list \<Rightarrow> json list \<Rightarrow> string \<Rightarrow> string list" where
  "min_problems obj arr path =
     (case Option.bind (map_of obj ''minItems'') json_as_u64 of
        Some least \<Rightarrow>
          if length arr < least
          then [path @ '': needs at least '' @ dec least @ '' item(s), got '' @ dec (length arr)] else []
      | None \<Rightarrow> [])"

lemma map_of_size: "map_of m k = Some v \<Longrightarrow> size v < size_list (size_prod (\<lambda>_. 0) size) m"
  by (induction m) (auto split: if_splits)

lemma member_size: "(k, v) \<in> set m \<Longrightarrow> size v < size_list (size_prod (\<lambda>_. 0) size) m"
  by (induction m) auto

lemma nested_size:
  assumes "map_of obj k = Some (JObject ps)" and "(a, sub) \<in> set ps"
  shows "size sub < Suc (size_list (size_prod (\<lambda>_. 0) size) obj)"
  using member_size [OF assms(2)] map_of_size [OF assms(1)] by simp

function validate :: "json_lib \<Rightarrow> json \<Rightarrow> json \<Rightarrow> string \<Rightarrow> string list" where
  "validate jl v (JObject obj) path =
     (case type_problem obj v path of
        Some p \<Rightarrow> [p]
      | None \<Rightarrow>
          enum_problems jl obj v path
          @ required_problems obj v path
          @ (case (map_of obj ''properties'', v) of
               (Some (JObject props), JObject m) \<Rightarrow>
                 concat (map (\<lambda>(key, sub). case map_of m key of
                     Some x \<Rightarrow> validate jl x sub (path @ ''.'' @ key)
                   | None \<Rightarrow> []) props)
             | _ \<Rightarrow> [])
          @ (case v of
               JArray arr \<Rightarrow>
                 min_problems obj arr path
                 @ (case map_of obj ''items'' of
                      Some items \<Rightarrow>
                        concat (map (\<lambda>(i, x). validate jl x items (path @ ''['' @ dec i @ '']'')) (List.enumerate 0 arr))
                    | None \<Rightarrow> [])
             | _ \<Rightarrow> []))"
| "validate jl v JNull path = []"
| "validate jl v (JBool b) path = []"
| "validate jl v (JNumber n) path = []"
| "validate jl v (JString s) path = []"
| "validate jl v (JArray a) path = []"
  by pat_completeness auto
termination
  by (relation "measure (\<lambda>(jl, v, s, path). size s)") 
    (auto dest: map_of_size nested_size [OF sym])

text \<open>
  What a value must satisfy, keyword by keyword, without a word on how it is reported.
\<close>

inductive conforms :: "json \<Rightarrow> json \<Rightarrow> bool" where
  NoSchema: "(\<nexists>obj. s = JObject obj) \<Longrightarrow> conforms v s"
| Schema:
    "\<lbrakk>\<And>t. map_of obj ''type'' = Some (JString t) \<Longrightarrow> type_matches v t;
      \<And>a. map_of obj ''enum'' = Some (JArray a) \<Longrightarrow> v \<in> set a;
      \<And>ks k. map_of obj ''required'' = Some (JArray ks) \<Longrightarrow> JString k \<in> set ks \<Longrightarrow> json_get k v \<noteq> None;
      \<And>ps k sub x. map_of obj ''properties'' = Some (JObject ps) \<Longrightarrow> (k, sub) \<in> set ps \<Longrightarrow> json_get k v = Some x
        \<Longrightarrow> conforms x sub;
      \<And>n arr. map_of obj ''minItems'' = Some (JNumber (NumU64 n)) \<Longrightarrow> v = JArray arr \<Longrightarrow> n \<le> length arr;
      \<And>items arr x. map_of obj ''items'' = Some items \<Longrightarrow> v = JArray arr \<Longrightarrow> x \<in> set arr \<Longrightarrow> conforms x items\<rbrakk>
     \<Longrightarrow> conforms v (JObject obj)"

inductive_simps conforms_Object: "conforms v (JObject obj)"

lemma as_str_Some: "as_str j = Some s \<longleftrightarrow> j = JString s"
  by (cases j) auto

lemma type_problem_None:
  "type_problem obj v p = None \<longleftrightarrow> (\<forall>t. map_of obj ''type'' = Some (JString t) \<longrightarrow> type_matches v t)"
  by (auto simp: type_problem_def as_str_Some split: option.splits bind_splits)

lemma enum_problems_Nil: "enum_problems jl obj v p = [] \<longleftrightarrow> (\<forall>a. map_of obj ''enum'' = Some (JArray a) \<longrightarrow> v \<in> set a)"
  by (auto simp: enum_problems_def split: option.splits json.splits)

lemma required_problems_Nil:
  "required_problems obj v p = [] \<longleftrightarrow>
     (\<forall>ks k. map_of obj ''required'' = Some (JArray ks) \<longrightarrow> JString k \<in> set ks \<longrightarrow> json_get k v \<noteq> None)"
  by (auto simp: required_problems_def map_filter_def as_str_Some filter_empty_conv simp del: not_None_eq split: option.splits json.splits)

lemma json_as_u64_Some: "json_as_u64 j = Some n \<longleftrightarrow> j = JNumber (NumU64 n)"
  by (cases j; simp add: json_as_u64_def) (metis as_u64.elims as_u64.simps(1) option.distinct(1) option.inject)

lemma json_as_u64_num: "json_as_u64 (JNumber (NumU64 n)) = Some n"
  by (simp add: json_as_u64_def)

lemma min_problems_Nil:
  "min_problems obj arr p = [] \<longleftrightarrow> (\<forall>n. map_of obj ''minItems'' = Some (JNumber (NumU64 n)) \<longrightarrow> n \<le> length arr)"
  by (cases "Option.bind (map_of obj ''minItems'') json_as_u64")
    (auto simp: min_problems_def json_as_u64_Some json_as_u64_num Option.bind_eq_Some_conv)

lemma conforms_plain [simp]:
  "conforms v JNull" "conforms v (JBool b)" "conforms v (JNumber n)" "conforms v (JString t)" "conforms v (JArray a)"
  by (auto intro: conforms.NoSchema)

lemma json_get_JObject: "json_get k v = Some x \<longleftrightarrow> (\<exists>m. v = JObject m \<and> map_of m k = Some x)"
  by (cases v) auto

lemma validate_Nil: "validate jl v s p = [] \<longleftrightarrow> conforms v s"
proof (induction jl v s p rule: validate.induct)
  case (1 jl v obj path)
  show ?case
  proof (cases "type_problem obj v path")
    case (Some e)
    then show ?thesis using type_problem_None [of obj v path] by (auto simp: conforms_Object)
  next
    case None
    let ?P = "case (map_of obj ''properties'', v) of
          (Some (JObject props), JObject m) \<Rightarrow>
            concat (map (\<lambda>(key, sub). case map_of m key of
                Some x \<Rightarrow> validate jl x sub (path @ ''.'' @ key) | None \<Rightarrow> []) props)
        | _ \<Rightarrow> []"
    let ?I = "case v of
          JArray arr \<Rightarrow> min_problems obj arr path
            @ (case map_of obj ''items'' of
                 Some items \<Rightarrow> concat (map (\<lambda>(i, x). validate jl x items (path @ ''['' @ dec i @ '']'')) (List.enumerate 0 arr))
               | None \<Rightarrow> [])
        | _ \<Rightarrow> []"
    have props: "?P = []
      \<longleftrightarrow> (\<forall>ps k sub x. map_of obj ''properties'' = Some (JObject ps) \<longrightarrow> (k, sub) \<in> set ps \<longrightarrow> json_get k v = Some x
             \<longrightarrow> conforms x sub)"
    proof (cases "\<exists>ps m. map_of obj ''properties'' = Some (JObject ps) \<and> v = JObject m")
      case True
      then obtain ps m where p: "map_of obj ''properties'' = Some (JObject ps)" and v: "v = JObject m" by blast
      have ih: "(k, sub) \<in> set ps \<Longrightarrow> map_of m k = Some x \<Longrightarrow> validate jl x sub (path @ ''.'' @ k) = [] \<longleftrightarrow> conforms x sub" for k sub x
        using 1(1) [OF None refl] p v by auto
      show ?thesis using ih by (force simp: p v split: option.splits)
    next
      case False
      then show ?thesis by (auto simp: json_get_JObject split: option.splits json.splits)
    qed
    have items: "?I = []
      \<longleftrightarrow> (\<forall>n arr. map_of obj ''minItems'' = Some (JNumber (NumU64 n)) \<longrightarrow> v = JArray arr \<longrightarrow> n \<le> length arr)
        \<and> (\<forall>items arr x. map_of obj ''items'' = Some items \<longrightarrow> v = JArray arr \<longrightarrow> x \<in> set arr \<longrightarrow> conforms x items)"
    proof (cases "\<exists>arr. v = JArray arr")
      case True
      then obtain arr where v: "v = JArray arr" by blast
      have ih: "map_of obj ''items'' = Some items \<Longrightarrow> (i, x) \<in> set (List.enumerate 0 arr)
          \<Longrightarrow> validate jl x items (path @ ''['' @ dec i @ '']'') = [] \<longleftrightarrow> conforms x items" for items i x
        using 1(2) [OF None v] by auto
      have "set arr = snd ` set (List.enumerate 0 arr)" by (simp flip: list.set_map)
      then have "(\<exists>i. (i, x) \<in> set (List.enumerate 0 arr)) \<longleftrightarrow> x \<in> set arr" for x by force
      then show ?thesis using ih by (force simp: v min_problems_Nil split: option.splits)
    next
      case False
      then show ?thesis by (auto split: json.splits)
    qed
    have "validate jl v (JObject obj) path = [] \<longleftrightarrow> enum_problems jl obj v path = [] \<and> required_problems obj v path = []
        \<and> ?P = [] \<and> ?I = []"
      by (simp only: validate.simps None option.case append_is_Nil_conv)
    also have "\<dots> \<longleftrightarrow> conforms v (JObject obj)"
      unfolding props items enum_problems_Nil required_problems_Nil conforms_Object
      using None type_problem_None [of obj v path] by blast
    finally show ?thesis .
  qed
qed simp_all

lemma level_at:
  "type_problem obj v p = Some m \<Longrightarrow> \<exists>r. m = p @ r"
  "m \<in> set (enum_problems jl obj v p) \<Longrightarrow> \<exists>r. m = p @ r"
  "m \<in> set (required_problems obj v p) \<Longrightarrow> \<exists>r. m = p @ r"
  "m \<in> set (min_problems obj arr p) \<Longrightarrow> \<exists>r. m = p @ r"
  by (auto simp: type_problem_def enum_problems_def required_problems_def min_problems_def
      split: option.splits json.splits if_splits)

lemma validate_at:
  "m \<in> set (validate jl v s p) \<Longrightarrow> \<exists>r. m = p @ r"
proof (induction jl v s p arbitrary: m rule: validate.induct)
  case (1 jl v obj path)
  note ih = 1(1,2) and m = 1(3)
  let ?props = "case (map_of obj ''properties'', v) of
          (Some (JObject props), JObject m) \<Rightarrow>
            concat (map (\<lambda>(key, sub). case map_of m key of
                Some x \<Rightarrow> validate jl x sub (path @ ''.'' @ key) | None \<Rightarrow> []) props)
        | _ \<Rightarrow> []"
  consider "\<exists>r. m = path @ r" | "type_problem obj v path = None" "m \<in> set ?props"
    | arr items where "type_problem obj v path = None" "map_of obj ''items'' = Some items" "v = JArray arr"
        "m \<in> set (concat (map (\<lambda>(i, x). validate jl x items (path @ ''['' @ dec i @ '']'')) (List.enumerate 0 arr)))"
  proof (cases "type_problem obj v path")
    case None
    let ?I = "case v of
          JArray arr \<Rightarrow> min_problems obj arr path
            @ (case map_of obj ''items'' of
                 Some items \<Rightarrow> concat (map (\<lambda>(i, x). validate jl x items (path @ ''['' @ dec i @ '']'')) (List.enumerate 0 arr))
               | None \<Rightarrow> [])
        | _ \<Rightarrow> []"
    have "m \<in> set (enum_problems jl obj v path @ required_problems obj v path @ ?props @ ?I)"
      using m by (simp only: validate.simps None option.case)
    then consider "m \<in> set (enum_problems jl obj v path)" | "m \<in> set (required_problems obj v path)" | "m \<in> set ?props" | "m \<in> set ?I"
      by (simp only: set_append Un_iff) blast
    then show thesis
    proof cases
      case 4
      then obtain arr where v: "v = JArray arr" by (cases v) auto
      show thesis
      proof (cases "m \<in> set (min_problems obj arr path)")
        case True
        then show thesis using that(1) level_at(4) by blast
      next
        case False
        then obtain items where "map_of obj ''items'' = Some items"
          "m \<in> set (concat (map (\<lambda>(i, x). validate jl x items (path @ ''['' @ dec i @ '']'')) (List.enumerate 0 arr)))"
          using 4 by (cases "map_of obj ''items''") (simp_all add: v)
        then show thesis using that(3) None v by blast
      qed
    qed (use that(1,2) level_at(2,3) None in blast)+
  next
    case (Some e)
    then show thesis using m that level_at(1) by simp
  qed
  then show ?case
  proof cases
    case 2
    then obtain ps o' where p: "map_of obj ''properties'' = Some (JObject ps)" and v: "v = JObject o'"
      by (cases "map_of obj ''properties''"; cases "the (map_of obj ''properties'')"; cases v) auto
    obtain k sub where "(k, sub) \<in> set ps"
        and "m \<in> set (case map_of o' k of Some x \<Rightarrow> validate jl x sub (path @ ''.'' @ k) | None \<Rightarrow> [])"
      using 2(2) by (auto simp: p v)
    moreover then obtain x where "map_of o' k = Some x" by (cases "map_of o' k") auto
    ultimately have "\<exists>r. m = (path @ ''.'' @ k) @ r" using ih(1) [OF 2(1) refl] p v by auto
    then show ?thesis by auto
  next
    case (3 arr items)
    then obtain i x where e: "(i, x) \<in> set (List.enumerate 0 arr)" "m \<in> set (validate jl x items (path @ ''['' @ dec i @ '']''))"
      by auto
    then have "\<exists>r. m = (path @ ''['' @ dec i @ '']'') @ r" using ih(2) [OF 3(1) 3(3) 3(2) e(1) refl] by auto
    then show ?thesis by auto
  qed
qed simp_all

text \<open>
  C37: A value is accepted exactly if it conforms to the schema: no problem is reported for a value that does, and one
  is for every value that does not, at every depth. Each problem names a place at or below the one it was asked about.
\<close>

theorem validation_exact:
  "(validate jl v s p = [] \<longleftrightarrow> conforms v s) \<and> list_all (\<lambda>m. \<exists>r. m = p @ r) (validate jl v s p)"
  using validate_Nil validate_at by (auto simp: list_all_iff)

section \<open>Reading a report\<close>

definition strip_json_fence :: "string \<Rightarrow> string" where
  "strip_json_fence s =
     (case strip_prefix ''```'' s of
        None \<Rightarrow> s
      | Some rest \<Rightarrow>
          (let r1 = (case strip_prefix ''json'' rest of Some r \<Rightarrow> r | None \<Rightarrow> rest);
               r2 = dropWhile (\<lambda>c. c = CHR 0x0D \<or> c = CHR 0x0A) r1
           in if ends_with ''```'' r2 then trim_end (take (length r2 - 3) r2) else r2))"

definition parse_structured :: "json_lib \<Rightarrow> string \<Rightarrow> json option \<Rightarrow> string + json" where
  "parse_structured jl raw schema =
     (case jl_from_str jl (strip_json_fence (trim raw)) of
        Inl e \<Rightarrow> Inl (''the argument is not valid JSON ('' @ je_text e @ '')'')
      | Inr v \<Rightarrow>
          (case schema of
             None \<Rightarrow> Inr v
           | Some s \<Rightarrow>
               (let problems = validate jl v s ''$''
                in if problems \<noteq> [] then Inl (join_with ''; '' problems) else Inr v)))"

section \<open>The opening of a conversation\<close>

definition nl :: string where "nl = [CHR 0x0A]"

definition structured_directive :: "(json \<Rightarrow> string) \<Rightarrow> json \<Rightarrow> string" where
  "structured_directive pretty schema =
     nl @ nl @ ''## Reporting your result'' @ nl
     @ ''When you have your final answer you MUST report it by calling the `'' @ STRUCTURED_OUTPUT_NAME
     @ ''` tool with one JSON argument matching this schema:'' @ nl @ nl @ ''```json'' @ nl @ pretty schema @ nl @ ''```'' @ nl @ nl
     @ ''Only that tool call counts as your result '' @ em_dash @ '' prose replies are discarded. Call it once, last.''"

definition seed_transcript :: "(json \<Rightarrow> string) \<Rightarrow> RunSpec \<Rightarrow> ChatMessage list" where
  "seed_transcript pretty spec =
     [chat_text ''system'' (sp_system spec @ (case sp_schema spec of Some s \<Rightarrow> structured_directive pretty s | None \<Rightarrow> []))]
     @ sp_seed spec @ [chat_text ''user'' (sp_task spec)]"

definition structured_skill :: "json_lib \<Rightarrow> json \<Rightarrow> skill_info" where
  "structured_skill jl schema =
     \<lparr>sk_name = STRUCTURED_OUTPUT_NAME,
      sk_description = ''Report this run's final result. Takes one JSON argument matching: '' @ jl_print jl schema,
      sk_positional = [''json''], sk_optional = [], sk_schema = None, sk_invocable = True, sk_trusted = False,
      sk_parallel = (\<lambda>_. False)\<rparr>"

definition structured_body :: SkillOutcome where
  "structured_body = \<lparr>so_ok = False, so_summary = ''`'' @ STRUCTURED_OUTPUT_NAME
     @ ''` is settled by the run itself, not by a skill body '' @ em_dash @ '' this call should never have been dispatched''\<rparr>"

definition run_registry :: "json_lib \<Rightarrow> registry option \<Rightarrow> json option \<Rightarrow> registry option" where
  "run_registry jl base schema =
     (case schema of
        None \<Rightarrow> None
      | Some s \<Rightarrow> Some (register (structured_skill jl s) (case base of Some r \<Rightarrow> r | None \<Rightarrow> [])))"

section \<open>The loop\<close>

definition llm_call :: "bool \<Rightarrow> bool \<Rightarrow> string option \<Rightarrow> string option" where
  "llm_call token cancelled res =
     (if token \<and> cancelled then None
      else case res of Some s \<Rightarrow> if trim s \<noteq> [] then Some s else None | None \<Rightarrow> None)"

text \<open>The locals of a run. \<open>co_asked\<close> counts its requests and picks the answers of the parameter.\<close>

record 's conv =
  co_transcript :: "ChatMessage list"
  co_hops :: nat
  co_ok :: nat
  co_err :: nat
  co_calls :: "CallRecord list"
  co_nudged :: bool
  co_reminded :: bool
  co_asked :: nat
  co_world :: "'s run_state"

datatype 's conv_step = Going "'s conv" | Settled "Report option" "'s conv"

definition say_user :: "string \<Rightarrow> 's conv \<Rightarrow> 's conv" where
  "say_user t L = L\<lparr>co_transcript := co_transcript L @ [chat_text ''user'' t]\<rparr>"

definition warn_log :: "string \<Rightarrow> 's conv \<Rightarrow> 's conv" where
  "warn_log m L = L\<lparr>co_world := emit [LogLine ''WARN'' m] (co_world L)\<rparr>"

definition report_of :: "'s conv \<Rightarrow> string \<Rightarrow> json option \<Rightarrow> Report" where
  "report_of L t v = \<lparr>rep_text = t, rep_structured = v, rep_tool_ok = co_ok L, rep_tool_err = co_err L,
     rep_hops = co_hops L, rep_calls = co_calls L\<rparr>"

definition ask_model :: "'s runner_env \<Rightarrow> 's SubAgent \<Rightarrow> 's conv \<Rightarrow> string option \<times> 's conv" where
  "ask_model E a L =
     (let n = co_asked L; L1 = L\<lparr>co_asked := Suc n\<rparr>
      in case llm_call (sa_cancel a) (dg_cancelled E n) (dg_chat E n (co_transcript L)) of
           None \<Rightarrow> (None, L1)
         | Some reply \<Rightarrow> (Some reply, L1\<lparr>co_transcript := co_transcript L @ [chat_text ''assistant'' reply]\<rparr>))"

definition call_in :: "'s runner_env \<Rightarrow> registry option \<Rightarrow> string \<Rightarrow> ToolCall option" where
  "call_in E reg reply = Option.bind reg (\<lambda>r. extract_for (dg_json E) (arity r) reply)"

text \<open>A reply without a call: one nudge for a botched call, one reminder of the owed report, then it is the report.\<close>

definition remind_step :: "RunSpec \<Rightarrow> string \<Rightarrow> 's conv \<Rightarrow> 's conv_step" where
  "remind_step spec reply L =
     (if sp_schema spec \<noteq> None \<and> \<not> co_reminded L \<and> co_hops L < sp_max_hops spec
      then Going (say_user STRUCTURED_REMINDER (warn_log
             (sp_label spec @ '': replied in prose but owes `'' @ STRUCTURED_OUTPUT_NAME @ ''` '' @ em_dash @ '' reminding once'')
             (L\<lparr>co_reminded := True\<rparr>)))
      else Settled (Some (report_of L reply None)) L)"

definition prose_step :: "'s runner_env \<Rightarrow> RunSpec \<Rightarrow> registry option \<Rightarrow> string \<Rightarrow> 's conv \<Rightarrow> 's conv_step" where
  "prose_step E spec reg reply L =
     (case Option.bind reg (\<lambda>r. rejected_attempt (dg_json E) (\<lambda>n. map_of r n \<noteq> None) reply) of
        None \<Rightarrow> remind_step spec reply L
      | Some why \<Rightarrow>
          (let retrying = (\<not> co_nudged L \<and> co_hops L < sp_max_hops spec);
               L1 = warn_log (sp_label spec @ '': emitted '' @ why @ '' '' @ em_dash @ '' ''
                      @ (if retrying then ''asking it to retry with the correct syntax''
                         else ''accepting its reply as an UNVERIFIED report'')) L
           in if retrying then Going (say_user (syntax_correction why) (L1\<lparr>co_nudged := True\<rparr>))
              else remind_step spec reply L1))"

definition first_raw :: "ToolCall \<Rightarrow> string" where
  "first_raw call = (case tc_raw_args call of [] \<Rightarrow> [] | r # _ \<Rightarrow> r)"

definition structured_step :: "'s runner_env \<Rightarrow> RunSpec \<Rightarrow> string \<Rightarrow> 's conv \<Rightarrow> 's conv_step" where
  "structured_step E spec raw L =
     (case parse_structured (dg_json E) raw (sp_schema spec) of
        Inr v \<Rightarrow> Settled (Some (report_of L raw (Some v))) L
      | Inl problem \<Rightarrow>
          if co_hops L < sp_max_hops spec
          then Going (say_user (''Tool result for `'' @ STRUCTURED_OUTPUT_NAME @ ''` (error):'' @ nl @ problem @ nl @ nl
                 @ ''Nothing was recorded. Call it again with a corrected JSON argument.'')
                 (L\<lparr>co_hops := Suc (co_hops L), co_err := Suc (co_err L)\<rparr>))
          else Settled (Some (report_of L (''invalid structured report: '' @ problem @ nl @ nl @ raw) None)) L)"

text \<open>The budget is spent: one more request, whose reply is the report.\<close>

definition budget_step :: "'s runner_env \<Rightarrow> 's SubAgent \<Rightarrow> RunSpec \<Rightarrow> registry option \<Rightarrow> 's conv \<Rightarrow> 's conv_step" where
  "budget_step E a spec reg L =
     (case ask_model E a (say_user (''Tool budget ('' @ dec (sp_max_hops spec) @ '') exhausted '' @ em_dash
              @ '' reply with your final '' @ (if sp_schema spec \<noteq> None then ''`'' @ STRUCTURED_OUTPUT_NAME @ ''` call'' else ''report'')
              @ '' now, using what you already have.'') L) of
        (None, L1) \<Rightarrow> Settled None L1
      | (Some last_reply, L1) \<Rightarrow>
          (case (if sp_schema spec \<noteq> None then call_in E reg last_reply else None) of
             Some c \<Rightarrow>
               if tc_skill c = STRUCTURED_OUTPUT_NAME
               then (case parse_structured (dg_json E) (first_raw c) (sp_schema spec) of
                       Inr v \<Rightarrow> Settled (Some (report_of L1 (first_raw c) (Some v))) L1
                     | Inl _ \<Rightarrow> Settled (Some (report_of L1 last_reply None)) L1)
               else Settled (Some (report_of L1 last_reply None)) L1
           | None \<Rightarrow> Settled (Some (report_of L1 last_reply None)) L1))"

definition result_text :: "CallRecord \<Rightarrow> string \<Rightarrow> string" where
  "result_text c summary = ''Tool result for `'' @ cr_skill c @ ''` ('' @ (if cr_ok c then ''ok'' else ''error'')
     @ '') [id: '' @ cr_id c @ '']:'' @ nl @ summary"

definition dispatch ::
  "'s runner_env \<Rightarrow> 's SubAgent \<Rightarrow> registry \<Rightarrow> ToolCall \<Rightarrow> 's conv \<Rightarrow> SkillOutcome \<times> 's run_state" where
  "dispatch E a reg call L =
     (case resolve_call reg call of
        Some (sk, args) \<Rightarrow>
          (case run_report a (dg_run E sk (length (co_calls L)))
                  \<lparr>iv_skill = sk_name sk, iv_args = args, iv_raw_args = tc_raw_args call, iv_expectation = tc_expectation call\<rparr>
                  (co_world L) of
             (report, w) \<Rightarrow> (rr_outcome report, w))
      | None \<Rightarrow> (\<lparr>so_ok = False, so_summary = ''unknown skill `'' @ tc_skill call @ ''`''\<rparr>, co_world L))"

definition tool_step ::
  "'s runner_env \<Rightarrow> 's SubAgent \<Rightarrow> RunSpec \<Rightarrow> registry \<Rightarrow> ToolCall \<Rightarrow> 's conv \<Rightarrow> 's conv" where
  "tool_step E a spec reg call L =
     (case dispatch E a reg call L of
        (out, w) \<Rightarrow>
          (let c = \<lparr>cr_id = ''call-'' @ dec (sp_call_seq_start spec + length (co_calls L) + 1), cr_skill = tc_skill call, cr_ok = so_ok out\<rparr>
           in say_user (result_text c (so_summary out))
                (L\<lparr>co_hops := Suc (co_hops L), co_world := w, co_ok := co_ok L + (if so_ok out then 1 else 0),
                   co_err := co_err L + (if so_ok out then 0 else 1), co_calls := co_calls L @ [c]\<rparr>)))"

definition conv_step :: "'s runner_env \<Rightarrow> 's SubAgent \<Rightarrow> RunSpec \<Rightarrow> registry option \<Rightarrow> 's conv \<Rightarrow> 's conv_step" where
  "conv_step E a spec reg L0 =
     (case ask_model E a L0 of
        (None, L) \<Rightarrow> Settled None L
      | (Some reply, L) \<Rightarrow>
          (case reg of
             None \<Rightarrow> prose_step E spec None reply L
           | Some r \<Rightarrow>
               (case call_in E reg reply of
                  None \<Rightarrow> prose_step E spec reg reply L
                | Some call \<Rightarrow>
                    if tc_skill call = STRUCTURED_OUTPUT_NAME then structured_step E spec (first_raw call) L
                    else if co_hops L \<ge> sp_max_hops spec then budget_step E a spec reg L
                    else Going (tool_step E a spec r call L))))"

text \<open>What a run may still spend: its hops, one nudge, one reminder. Every step that goes on spends one of them.\<close>

definition allowance :: "RunSpec \<Rightarrow> 's conv \<Rightarrow> nat" where
  "allowance spec L = (sp_max_hops spec - co_hops L) + (if co_nudged L then 0 else 1) + (if co_reminded L then 0 else 1)"

lemma allowance_simps [simp]:
  "allowance spec (say_user t L) = allowance spec L" "allowance spec (warn_log t L) = allowance spec L"
  "allowance spec (L\<lparr>co_asked := n\<rparr>) = allowance spec L"
  "allowance spec (L\<lparr>co_asked := n, co_transcript := ms\<rparr>) = allowance spec L"
  by (simp_all add: allowance_def say_user_def warn_log_def)

lemma step_locals [simp]:
  "co_hops (say_user t L) = co_hops L" "co_ok (say_user t L) = co_ok L" "co_err (say_user t L) = co_err L"
  "co_calls (say_user t L) = co_calls L" "co_nudged (say_user t L) = co_nudged L" "co_reminded (say_user t L) = co_reminded L"
  "co_asked (say_user t L) = co_asked L" "co_world (say_user t L) = co_world L"
  "co_transcript (say_user t L) = co_transcript L @ [chat_text ''user'' t]"
  "co_hops (warn_log t L) = co_hops L" "co_ok (warn_log t L) = co_ok L" "co_err (warn_log t L) = co_err L"
  "co_calls (warn_log t L) = co_calls L" "co_nudged (warn_log t L) = co_nudged L" "co_reminded (warn_log t L) = co_reminded L"
  "co_asked (warn_log t L) = co_asked L" "co_transcript (warn_log t L) = co_transcript L"
  by (simp_all add: say_user_def warn_log_def)

lemma ask_model_cases:
  assumes "ask_model E a L = (r, L')"
  shows "co_asked L' = Suc (co_asked L) \<and> co_hops L' = co_hops L \<and> co_ok L' = co_ok L \<and> co_err L' = co_err L
    \<and> co_calls L' = co_calls L \<and> co_nudged L' = co_nudged L \<and> co_reminded L' = co_reminded L \<and> co_world L' = co_world L
    \<and> co_transcript L' = co_transcript L @ (case r of Some reply \<Rightarrow> [chat_text ''assistant'' reply] | None \<Rightarrow> [])"
  using assms by (auto simp: ask_model_def Let_def split: option.splits)

lemma remind_going:
  "remind_step spec reply L = Going L' \<Longrightarrow> Suc (allowance spec L') = allowance spec L"
  by (auto simp: remind_step_def allowance_def split: if_splits)

lemma prose_going:
  "prose_step E spec reg reply L = Going L' \<Longrightarrow> Suc (allowance spec L') = allowance spec L"
  by (auto simp: prose_step_def Let_def dest: remind_going split: option.splits if_splits) (auto simp: allowance_def)

lemma structured_going:
  "structured_step E spec raw L = Going L' \<Longrightarrow> Suc (allowance spec L') = allowance spec L"
  by (auto simp: structured_step_def allowance_def split: sum.splits if_splits)

lemma tool_spends:
  "co_hops L < sp_max_hops spec \<Longrightarrow> Suc (allowance spec (tool_step E a spec reg call L)) = allowance spec L"
  by (auto simp: tool_step_def allowance_def Let_def split: prod.splits)

lemma budget_settles: "budget_step E a spec reg L \<noteq> Going L'"
  by (auto simp: budget_step_def split: prod.splits option.splits sum.splits if_splits)

lemma conv_going:
  assumes "conv_step E a spec reg L = Going L'"
  shows "Suc (allowance spec L') = allowance spec L"
proof -
  obtain r L1 where q: "ask_model E a L = (r, L1)" by force
  have same: "allowance spec L1 = allowance spec L" using ask_model_cases [OF q] by (simp add: allowance_def)
  show ?thesis
    using assms same
    by (auto simp: conv_step_def q budget_settles tool_spends dest: prose_going structured_going split: option.splits if_splits)
qed

function conv_loop :: "'s runner_env \<Rightarrow> 's SubAgent \<Rightarrow> RunSpec \<Rightarrow> registry option \<Rightarrow> 's conv \<Rightarrow> Report option \<times> 's conv" where
  "conv_loop E a spec reg L =
     (case conv_step E a spec reg L of
        Settled r L' \<Rightarrow> (r, L')
      | Going L' \<Rightarrow> conv_loop E a spec reg L')"
  by pat_completeness auto
termination
  by (relation "measure (\<lambda>(E, a, spec, reg, L). allowance spec L)") (auto dest!: conv_going)

declare conv_loop.simps [simp del]

definition conv_start :: "ChatMessage list \<Rightarrow> 's run_state \<Rightarrow> 's conv" where
  "conv_start ms w = \<lparr>co_transcript = ms, co_hops = 0, co_ok = 0, co_err = 0, co_calls = [], co_nudged = False,
     co_reminded = False, co_asked = 0, co_world = w\<rparr>"

definition run_conversation ::
  "'s runner_env \<Rightarrow> registry option \<Rightarrow> 's SubAgent \<Rightarrow> RunSpec \<Rightarrow> ChatMessage list \<Rightarrow> 's run_state \<Rightarrow> Report option \<times> 's conv" where
  "run_conversation E base a spec ms w =
     conv_loop E a spec (case run_registry (dg_json E) base (sp_schema spec) of Some r \<Rightarrow> Some r | None \<Rightarrow> base) (conv_start ms w)"

section \<open>One delegated task\<close>

text \<open>\<open>subagent\<close> (an empty conversation) and \<open>subagent-fork\<close> (the parent's completed turns). A registry that was
  never attached, or is gone, is None; so is a summarizer slot without a client.\<close>

definition SUBAGENT_NAME :: string where "SUBAGENT_NAME = ''subagent''"
definition SUBAGENT_FORK_NAME :: string where "SUBAGENT_FORK_NAME = ''subagent-fork''"
definition MAX_CHILD_HOPS :: nat where "MAX_CHILD_HOPS = 8"
definition MAX_REPORT_CHARS :: nat where "MAX_REPORT_CHARS = 6000"

definition failed :: "string \<Rightarrow> SkillOutcome" where
  "failed m = \<lparr>so_ok = False, so_summary = m\<rparr>"

definition child_registry :: "registry option \<Rightarrow> registry option" where
  "child_registry live = map_option (excluding CHILD_EXCLUDED) live"

definition child_catalogue :: "registry option \<Rightarrow> string option" where
  "child_catalogue reg =
     (case map_option (catalogue_markdown []) reg of Some c \<Rightarrow> if c = [] then None else Some c | None \<Rightarrow> None)"

definition child_system :: "bool \<Rightarrow> string option \<Rightarrow> string" where
  "child_system forked cat =
     ''You are a delegated agent inside the sica-rust desktop app, working on ONE task handed to you by the main agent. You cannot ask questions and nobody reads anything but your final report.'' @ nl @ nl
     @ (if forked then ''The conversation above is the parent session's completed turns, handed to you as context. Anything it shows a tool having done really happened; anything still pending did not reach you.'' @ nl @ nl else [])
     @ (case cat of
          Some c \<Rightarrow> ''You may use tools. To call one, reply with a SINGLE line of exactly this form and nothing else:'' @ nl @ nl
            @ ''<skill-name> '' @ [quote] @ ''<arg1>'' @ [quote] @ '' '' @ [quote] @ ''<arg2>'' @ [quote] @ '' > <what you want to learn>'' @ nl @ nl
            @ ''One tool call per reply, at most '' @ dec MAX_CHILD_HOPS @ '' in total. When you have what you need, reply with your final report as plain text containing no tool-call line.'' @ nl @ nl
            @ ''Available skills:'' @ nl @ c @ nl @ nl
        | None \<Rightarrow> [])
     @ ''Keep your final report concise and factual. Quote exact values (numbers, paths, errors) verbatim from tool output, and name the files you actually opened. Start directly with content '' @ em_dash @ '' no preamble.'' @ nl @ nl
     @ ''Grounding rule, and it is absolute: state a file's contents, a command's output, or whether a path exists ONLY if a tool result in this conversation shows it. You cannot see the disk otherwise. If you have not run the tool, write `unverified:` in front of the claim and name the call you would need '' @ em_dash @ '' never invent output, and never report a file as existing because the name sounds plausible.''"

definition UNVERIFIED_NOTE :: string where
  "UNVERIFIED_NOTE = ''**UNVERIFIED '' @ em_dash @ '' the child made no successful tool call, so nothing below was checked against the machine. Treat every claim about files, commands or output as its guess.**'' @ nl @ nl"

definition subagent_name :: "bool \<Rightarrow> string" where
  "subagent_name forked = (if forked then SUBAGENT_FORK_NAME else SUBAGENT_NAME)"

definition delegate_seed :: "bool \<Rightarrow> ChatMessage list option \<Rightarrow> ChatMessage list option" where
  "delegate_seed forked fork_seed =
     (if forked then (case fork_seed of Some ms \<Rightarrow> if ms \<noteq> [] then Some ms else None | None \<Rightarrow> None) else Some [])"

definition run_subagent ::
  "'s runner_env \<Rightarrow> bool \<Rightarrow> registry option \<Rightarrow> 's SubAgent \<Rightarrow> ChatMessage list option \<Rightarrow> json \<Rightarrow> 's run_state
   \<Rightarrow> SkillOutcome \<times> 's run_state" where
  "run_subagent E forked live a fork_seed args w =
     (case (case Option.bind (json_get ''task'' args) as_str of Some t \<Rightarrow> if trim t \<noteq> [] then Some (trim t) else None | None \<Rightarrow> None) of
        None \<Rightarrow> (failed (''missing or empty `task` arg '' @ em_dash @ '' say what the child should do''), w)
      | Some task \<Rightarrow>
          if \<not> sa_summarizer a
          then (failed (''delegation needs an LLM but none is attached to this call '' @ em_dash @ '' connect an LLM and retry''), w)
          else
            (let reg = child_registry live
             in case delegate_seed forked fork_seed of
                  None \<Rightarrow> (failed (''nothing to fork '' @ em_dash @ '' this conversation has no completed turn yet; use `subagent` with a self-contained task instead''), w)
                | Some seed \<Rightarrow>
                    (let spec = \<lparr>sp_label = subagent_name forked, sp_system = child_system forked (child_catalogue reg), sp_seed = seed,
                           sp_task = task, sp_max_hops = MAX_CHILD_HOPS, sp_schema = None, sp_call_seq_start = 0\<rparr>;
                         w1 = emit [LogLine ''INFO'' (subagent_name forked @ '': delegating '' @ em_dash @ '' '' @ truncate_chars task 120)] w
                     in case run_conversation E reg a spec (seed_transcript (dg_pretty E) spec) w1 of
                          (None, L) \<Rightarrow> (failed ''the delegated child produced nothing (every LLM call failed, or the turn was interrupted)'', co_world L)
                        | (Some rep, L) \<Rightarrow>
                            (\<lparr>so_ok = True, so_summary = (if verified False rep then [] else UNVERIFIED_NOTE)
                                @ trim_end (truncate_chars (trim (rep_text rep)) MAX_REPORT_CHARS)\<rparr>, co_world L))))"

section \<open>What a run spends\<close>

text \<open>The requests made and the allowance left never exceed what a run starts with; the last step makes at most two.\<close>

lemma remind_asks:
  "case remind_step spec reply L of Going L' \<Rightarrow> co_asked L' = co_asked L | Settled r L' \<Rightarrow> co_asked L' = co_asked L"
  by (simp add: remind_step_def)

lemma prose_asks:
  "case prose_step E spec reg reply L of Going L' \<Rightarrow> co_asked L' = co_asked L | Settled r L' \<Rightarrow> co_asked L' = co_asked L"
  using remind_asks [of L spec reply]
  by (auto simp: prose_step_def Let_def remind_step_def split: option.splits)

lemma structured_asks:
  "case structured_step E spec raw L of Going L' \<Rightarrow> co_asked L' = co_asked L | Settled r L' \<Rightarrow> co_asked L' = co_asked L"
  by (simp add: structured_step_def split: sum.splits)

lemma budget_asks:
  "case budget_step E a spec reg L of Going L' \<Rightarrow> False | Settled r L' \<Rightarrow> co_asked L' = Suc (co_asked L)"
  by (auto simp: budget_step_def dest: ask_model_cases split: prod.splits option.splits sum.splits if_splits)

lemma conv_step_asks:
  "case conv_step E a spec reg L of
     Going L' \<Rightarrow> co_asked L' = Suc (co_asked L) | Settled r L' \<Rightarrow> co_asked L' \<le> co_asked L + 2"
proof -
  obtain r L1 where q: "ask_model E a L = (r, L1)" by force
  have n: "co_asked L1 = Suc (co_asked L)" using ask_model_cases [OF q] by simp
  have t: "co_asked (tool_step E a spec g call L1) = co_asked L1" for g call
    by (simp add: tool_step_def Let_def split: prod.splits)
  show ?thesis
  proof (cases r)
    case None
    then show ?thesis by (simp add: conv_step_def q n)
  next
    case (Some reply)
    have p: "case prose_step E spec g reply L1 of
        Going L' \<Rightarrow> co_asked L' = Suc (co_asked L) | Settled r L' \<Rightarrow> co_asked L' \<le> co_asked L + 2" for g
      using prose_asks [where L = L1 and E = E and reg = g and spec = spec and reply = reply] n by (auto split: conv_step.splits)
    have st: "case structured_step E spec raw L1 of
        Going L' \<Rightarrow> co_asked L' = Suc (co_asked L) | Settled r L' \<Rightarrow> co_asked L' \<le> co_asked L + 2" for raw
      using structured_asks [where L = L1 and E = E and spec = spec and raw = raw] n by (auto split: conv_step.splits)
    have b: "case budget_step E a spec g L1 of
        Going L' \<Rightarrow> co_asked L' = Suc (co_asked L) | Settled r L' \<Rightarrow> co_asked L' \<le> co_asked L + 2" for g
      using budget_asks [where L = L1 and E = E and reg = g and spec = spec and a = a] n by (auto split: conv_step.splits)
    show ?thesis
      using p st b by (simp add: conv_step_def q Some n t split: option.splits)
  qed
qed

lemma conv_loop_asks:
  "co_asked (snd (conv_loop E a spec reg L)) \<le> co_asked L + allowance spec L + 2"
proof (induction E a spec reg L rule: conv_loop.induct)
  case (1 E a spec reg L)
  show ?case
  proof (cases "conv_step E a spec reg L")
    case (Going L')
    then show ?thesis using 1 [OF Going] conv_going [OF Going] conv_step_asks [where L = L and E = E and a = a and spec = spec and reg = reg]
      by (simp add: conv_loop.simps [of E a spec reg L])
  next
    case (Settled r L')
    then show ?thesis using conv_step_asks [where L = L and E = E and a = a and spec = spec and reg = reg] by (simp add: conv_loop.simps [of E a spec reg L])
  qed
qed

text \<open>
  What every state of a run keeps: the hops within the budget, the calls numbered on from the spec's start, the tallies
  equal to what the calls say, each call's result in the transcript, and the transcript an extension of the first.
\<close>

definition conv_inv :: "RunSpec \<Rightarrow> ChatMessage list \<Rightarrow> 's conv \<Rightarrow> bool" where
  "conv_inv spec ms L \<longleftrightarrow>
     co_hops L \<le> sp_max_hops spec \<and> length (co_calls L) \<le> co_hops L
     \<and> map cr_id (co_calls L) = map (\<lambda>i. ''call-'' @ dec (sp_call_seq_start spec + i + 1)) [0..<length (co_calls L)]
     \<and> co_ok L = length (filter cr_ok (co_calls L))
     \<and> (\<forall>c \<in> set (co_calls L). \<exists>summary. chat_text ''user'' (result_text c summary) \<in> set (co_transcript L))
     \<and> (\<exists>more. co_transcript L = ms @ more)"

lemma inv_say [simp]: "conv_inv spec ms L \<Longrightarrow> conv_inv spec ms (say_user t L)"
  by (auto simp: conv_inv_def)

lemma inv_warn [simp]: "conv_inv spec ms (warn_log t L) = conv_inv spec ms L"
  by (simp add: conv_inv_def)

lemma inv_flags [simp]:
  "conv_inv spec ms (L\<lparr>co_nudged := b\<rparr>) = conv_inv spec ms L" "conv_inv spec ms (L\<lparr>co_reminded := b\<rparr>) = conv_inv spec ms L"
  by (simp_all add: conv_inv_def)

lemma inv_ask: "conv_inv spec ms L \<Longrightarrow> ask_model E a L = (r, L') \<Longrightarrow> conv_inv spec ms L'"
  using ask_model_cases [of E a L r L'] by (auto simp: conv_inv_def split: option.splits)

lemma inv_hop:
  "conv_inv spec ms L \<Longrightarrow> co_hops L < sp_max_hops spec \<Longrightarrow> conv_inv spec ms (L\<lparr>co_hops := Suc (co_hops L), co_err := e\<rparr>)"
  by (auto simp: conv_inv_def)

lemma inv_tool:
  assumes "conv_inv spec ms L" and "co_hops L < sp_max_hops spec"
  shows "conv_inv spec ms (tool_step E a spec reg call L)"
proof -
  obtain out w where d: "dispatch E a reg call L = (out, w)" by force
  have "\<exists>t. chat_text ''user'' (result_text c t) \<in> set (co_transcript L) \<union> {chat_text ''user'' (result_text c' x)}"
    if "c \<in> set (co_calls L) \<or> c = c'" for c c' x
    using assms that by (auto simp: conv_inv_def)
  then show ?thesis using assms
    by (auto simp: conv_inv_def tool_step_def d Let_def)
qed

definition settled_from :: "RunSpec \<Rightarrow> ChatMessage list \<Rightarrow> 's runner_env \<Rightarrow> Report option \<Rightarrow> 's conv \<Rightarrow> bool" where
  "settled_from spec ms E r L \<longleftrightarrow> conv_inv spec ms L
     \<and> (\<forall>rep. r = Some rep \<longrightarrow> (\<exists>v. rep = report_of L (rep_text rep) v
          \<and> (\<forall>x. v = Some x \<longrightarrow> parse_structured (dg_json E) (rep_text rep) (sp_schema spec) = Inr x)))"

lemma settledI:
  "conv_inv spec ms L \<Longrightarrow> settled_from spec ms E None L"
  "conv_inv spec ms L \<Longrightarrow> settled_from spec ms E (Some (report_of L t None)) L"
  "conv_inv spec ms L \<Longrightarrow> parse_structured (dg_json E) t (sp_schema spec) = Inr v
     \<Longrightarrow> settled_from spec ms E (Some (report_of L t (Some v))) L"
  by (auto simp: settled_from_def report_of_def)

definition step_ok :: "RunSpec \<Rightarrow> ChatMessage list \<Rightarrow> 's runner_env \<Rightarrow> 's conv_step \<Rightarrow> bool" where
  "step_ok spec ms E st = (case st of Going L \<Rightarrow> conv_inv spec ms L | Settled r L \<Rightarrow> settled_from spec ms E r L)"

lemma step_ok_simps [simp]:
  "step_ok spec ms E (Going L) = conv_inv spec ms L" "step_ok spec ms E (Settled r L) = settled_from spec ms E r L"
  by (simp_all add: step_ok_def)

lemma remind_ok: "conv_inv spec ms L \<Longrightarrow> step_ok spec ms E (remind_step spec reply L)"
  by (simp add: remind_step_def settledI)

lemma prose_ok: "conv_inv spec ms L \<Longrightarrow> step_ok spec ms E (prose_step E spec reg reply L)"
  by (auto simp: prose_step_def Let_def remind_ok conv_inv_def split: option.splits)

lemma structured_ok: "conv_inv spec ms L \<Longrightarrow> step_ok spec ms E (structured_step E spec raw L)"
  by (auto simp: structured_step_def settledI intro!: inv_say inv_hop split: sum.splits)

lemma budget_ok:
  assumes "conv_inv spec ms L"
  shows "step_ok spec ms E (budget_step E a spec reg L)"
proof -
  have "conv_inv spec ms L1" if "ask_model E a (say_user t L) = (r, L1)" for t r L1
    using inv_ask [OF inv_say [OF assms] that] .
  then show ?thesis by (auto simp: budget_step_def settledI split: prod.splits option.splits sum.splits)
qed

lemma step_inv:
  assumes "conv_inv spec ms L"
  shows "step_ok spec ms E (conv_step E a spec reg L)"
proof -
  obtain r L1 where q: "ask_model E a L = (r, L1)" by force
  have "conv_inv spec ms L1" by (rule inv_ask [OF assms q])
  then show ?thesis
    by (auto simp: conv_step_def q settledI prose_ok structured_ok budget_ok inv_tool split: option.splits)
qed

lemma loop_inv:
  "conv_inv spec ms L \<Longrightarrow> settled_from spec ms E (fst (conv_loop E a spec reg L)) (snd (conv_loop E a spec reg L))"
proof (induction E a spec reg L rule: conv_loop.induct)
  case (1 E a spec reg L)
  show ?case
  proof (cases "conv_step E a spec reg L")
    case (Going L')
    then show ?thesis using 1(1) [OF Going] step_inv [OF 1(2), of E a reg] by (simp add: conv_loop.simps [of E a spec reg L])
  next
    case (Settled r L')
    then show ?thesis using step_inv [OF 1(2), of E a reg] by (simp add: conv_loop.simps [of E a spec reg L])
  qed
qed

lemma start_inv: "conv_inv spec ms (conv_start ms w)"
  by (simp add: conv_inv_def conv_start_def)

text \<open>
  C15: A delegated conversation always comes to an end: it makes at most four requests more than its budget of tool
  calls, whatever the model answers, and dispatches at most that budget.
\<close>

theorem delegated_run_ends:
  "co_asked (snd (run_conversation E base a spec ms w)) \<le> sp_max_hops spec + 4
   \<and> length (co_calls (snd (run_conversation E base a spec ms w))) \<le> sp_max_hops spec"
proof -
  have "conv_inv spec ms (snd (run_conversation E base a spec ms w))"
    unfolding run_conversation_def using loop_inv [OF start_inv] unfolding settled_from_def by blast
  moreover have "co_asked (snd (run_conversation E base a spec ms w)) \<le> 0 + allowance spec (conv_start ms w) + 2"
    unfolding run_conversation_def using conv_loop_asks [where L = "conv_start ms w"] by (simp add: conv_start_def)
  ultimately show ?thesis by (auto simp: conv_inv_def allowance_def conv_start_def)
qed

text \<open>
  C13: A report is grounded. The calls it lists are numbered on from where the caller said, without a gap; each is one the
  child was shown the result of, under that number and with that verdict; the tally of successes is the number of calls
  that succeeded, so a run counted as verified has one; and a structured result is the JSON of the report's text and,
  when a schema was set, conforms to it.
\<close>

theorem delegated_report_grounded:
  assumes "run_conversation E base a spec ms w = (Some rep, L)"
  shows "map cr_id (rep_calls rep) = map (\<lambda>i. ''call-'' @ dec (sp_call_seq_start spec + i + 1)) [0..<length (rep_calls rep)]
    \<and> (\<forall>c \<in> set (rep_calls rep). \<exists>summary. chat_text ''user'' (result_text c summary) \<in> set (co_transcript L))
    \<and> (verified wanted rep \<longrightarrow> (\<exists>c \<in> set (rep_calls rep). cr_ok c))
    \<and> (rep_structured rep = Some v \<longrightarrow> jl_from_str (dg_json E) (strip_json_fence (trim (rep_text rep))) = Inr v
           \<and> (\<forall>s. sp_schema spec = Some s \<longrightarrow> conforms v s))"
proof -
  have fin: "settled_from spec ms E (Some rep) L"
    using loop_inv [OF start_inv, of spec ms E a _ w] assms by (metis fst_conv run_conversation_def snd_conv)
  then obtain x where rep: "rep = report_of L (rep_text rep) x" and inv: "conv_inv spec ms L"
    and par: "\<forall>v. x = Some v \<longrightarrow> parse_structured (dg_json E) (rep_text rep) (sp_schema spec) = Inr v"
    unfolding settled_from_def by blast
  have c: "rep_calls rep = co_calls L" "rep_tool_ok rep = co_ok L" "rep_structured rep = x"
    by (subst rep, simp add: report_of_def)+
  have "x = Some v \<longrightarrow> jl_from_str (dg_json E) (strip_json_fence (trim (rep_text rep))) = Inr v
      \<and> (\<forall>s. sp_schema spec = Some s \<longrightarrow> conforms v s)"
    using par by (auto simp: parse_structured_def Let_def validate_Nil split: sum.splits option.splits if_splits)
  moreover have "verified wanted rep \<longrightarrow> (\<exists>c \<in> set (co_calls L). cr_ok c)"
    using inv by (auto simp: conv_inv_def verified_def c filter_empty_conv)
  ultimately show ?thesis using inv unfolding c conv_inv_def by blast
qed

definition demo_schema :: json where
  "demo_schema = JObject [(''type'', JString ''integer'')]"

definition demo_child :: "unit runner_env" where
  "demo_child = \<lparr>
     dg_json = \<lparr>jl_from_str = (\<lambda>t. if t = ''7'' then Inr (JNumber (NumU64 7)) else Inl \<lparr>je_line = 1, je_column = 0, je_text = []\<rparr>),
       jl_print = (\<lambda>_. []), jl_debug = id, jl_alnum = (\<lambda>_. False)\<rparr>,
     dg_pretty = (\<lambda>_. []),
     dg_chat = (\<lambda>n _. Some (if n = 0 then ''ls 'a' > x'' else ''structured-output '7' > y'')),
     dg_cancelled = (\<lambda>_. False),
     dg_run = (\<lambda>_ _. \<lparr>rv_cancelled = (\<lambda>_. False), rv_interrupted = False, rv_answer = (\<lambda>_. False),
       rv_body = (\<lambda>_ _ s. (Some \<lparr>so_ok = True, so_summary = ''b''\<rparr>, s)), rv_timeout = 120, rv_spill_write = (\<lambda>_. None),
       rv_focused = (\<lambda>_. None), rv_elapsed = 0, rv_print = (\<lambda>_. [])\<rparr>)\<rparr>"

definition demo_skills :: registry where
  "demo_skills = [(''ls'', \<lparr>sk_name = ''ls'', sk_description = [], sk_positional = [''path''], sk_optional = [], sk_schema = None,
     sk_invocable = True, sk_trusted = False, sk_parallel = (\<lambda>_. False)\<rparr>)]"

definition demo_spec :: RunSpec where
  "demo_spec = \<lparr>sp_label = ''child'', sp_system = [], sp_seed = [], sp_task = ''t'', sp_max_hops = 2, sp_schema = Some demo_schema,
     sp_call_seq_start = 0\<rparr>"

definition demo_world :: "unit run_state" where
  "demo_world = \<lparr>ru_state = (), ru_next_id = 0, ru_events = [], ru_failures = []\<rparr>"

lemma demo_arity: "arity (register (structured_skill jl s) demo_skills) = [''ls'' \<mapsto> 1, ''structured-output'' \<mapsto> 1]"
  by (rule ext)
    (simp add: arity_def register_def structured_skill_def demo_skills_def STRUCTURED_OUTPUT_NAME_def)

lemma demo_replies:
  "llm_call False False (Some ''ls 'a' > x'') = Some ''ls 'a' > x''"
  "llm_call False False (Some ''structured-output '7' > y'') = Some ''structured-output '7' > y''"
  by code_simp+

lemma demo_dispatch: "so_ok (rr_outcome (fst (run_report root_agent (dg_run demo_child sk n)
   \<lparr>iv_skill = ''ls'', iv_args = bind_positional [''path''] [] [''a''], iv_raw_args = [''a''], iv_expectation = ''x''\<rparr> demo_world)))"
  by (simp add: run_report_def root_agent_def demo_child_def demo_world_def call_view_def pre_decision_def run_allowed_def settle_def
      guarded_def first_guard_def body_outcome_def focus_def Tool_Run.spill_def finish_call_def Let_def SUMMARIZE_THRESHOLD_def
      SPILL_THRESHOLD_def post_chain.simps pre_chain.simps split: prod.splits option.splits)

lemma demo_answers:
  "dg_chat demo_child n ms = Some (if n = 0 then ''ls 'a' > x'' else ''structured-output '7' > y'')" "dg_cancelled demo_child n = False"
  by (simp_all add: demo_child_def)

lemma demo_tool:
  assumes "dg_run E = dg_run demo_child" and "co_world L = demo_world"
  shows "co_ok (tool_step E root_agent spec (register (structured_skill jl sc) demo_skills) (plain_call ''ls'' [''a''] ''x'') L) = Suc (co_ok L)"
proof -
  let ?reg = "register (structured_skill jl sc) demo_skills"
  have "resolve_call ?reg (plain_call ''ls'' [''a''] ''x'') = Some (snd (hd demo_skills), bind_positional [''path''] [] [''a''])"
    by (simp add: resolve_call_def skill_get_def register_def structured_skill_def STRUCTURED_OUTPUT_NAME_def demo_skills_def plain_call_def)
  then have "so_ok (fst (dispatch E root_agent ?reg (plain_call ''ls'' [''a''] ''x'') L))"
    using demo_dispatch [of "snd (hd demo_skills)" "length (co_calls L)"]
    by (auto simp: dispatch_def assms demo_skills_def plain_call_def split: prod.splits)
  then show ?thesis by (auto simp: tool_step_def Let_def split: prod.splits)
qed

text \<open>A child that lists a directory and then reports, whatever JSON its report is.\<close>

lemma demo_run:
  assumes E: "dg_run E = dg_run demo_child" "dg_chat E = dg_chat demo_child" "dg_cancelled E = dg_cancelled demo_child"
    and x1: "extract_for (dg_json E) [''ls'' \<mapsto> 1, ''structured-output'' \<mapsto> 1] ''ls 'a' > x'' = Some (plain_call ''ls'' [''a''] ''x'')"
    and x2: "extract_for (dg_json E) [''ls'' \<mapsto> 1, ''structured-output'' \<mapsto> 1] ''structured-output '7' > y''
       = Some (plain_call ''structured-output'' [''7''] ''y'')"
    and v: "parse_structured (dg_json E) ''7'' (sp_schema spec) = Inr v"
    and sc: "sp_schema spec = Some sc" and hops: "sp_max_hops spec > 0"
  shows "\<exists>rep L. run_conversation E (Some demo_skills) root_agent spec ms demo_world = (Some rep, L) \<and> rep_tool_ok rep = 1
    \<and> rep_structured rep = Some v \<and> length (rep_calls rep) = 1"
proof -
  let ?reg = "register (structured_skill (dg_json E) sc) demo_skills" and ?call = "plain_call ''ls'' [''a''] ''x''"
  let ?S = "conv_start ms demo_world"
  let ?A = "snd (ask_model E root_agent ?S)"
  let ?T = "tool_step E root_agent spec ?reg ?call ?A"
  have a: "co_world ?A = demo_world" "co_ok ?A = 0" "co_asked ?A = 1" "co_calls ?A = []"
    using ask_model_cases [of E root_agent ?S] by (metis conv.select_convs conv_start_def One_nat_def surjective_pairing)+
  have t: "co_ok ?T = 1" "co_asked ?T = 1" "length (co_calls ?T) = 1"
    using demo_tool [OF E(1) a(1)] a by (simp_all add: tool_step_def Let_def split: prod.splits)
  have first: "conv_step E root_agent spec (Some ?reg) ?S = Going ?T"
    using x1 demo_replies(1) hops
    by (simp add: conv_step_def ask_model_def root_agent_def call_in_def demo_arity plain_call_def STRUCTURED_OUTPUT_NAME_def E
        demo_answers conv_start_def)
  obtain L' where second: "conv_step E root_agent spec (Some ?reg) ?T = Settled (Some (report_of L' ''7'' (Some v))) L'"
    and l: "co_ok L' = co_ok ?T" "co_calls L' = co_calls ?T"
    using x2 demo_replies(2) v t(2)
    by (simp add: conv_step_def ask_model_def root_agent_def call_in_def demo_arity plain_call_def STRUCTURED_OUTPUT_NAME_def E
        demo_answers structured_step_def first_raw_def)
  have "run_conversation E (Some demo_skills) root_agent spec ms demo_world = conv_loop E root_agent spec (Some ?reg) ?S"
    by (simp add: run_conversation_def run_registry_def sc)
  also have "\<dots> = (Some (report_of L' ''7'' (Some v)), L')"
    by (simp add: conv_loop.simps [of E root_agent spec "Some ?reg" ?S] first conv_loop.simps [of E root_agent spec "Some ?reg" ?T] second)
  finally show ?thesis using l t by (simp add: report_of_def)
qed

lemma demo_json_calls:
  "extract_for (dg_json demo_child) [''ls'' \<mapsto> 1, ''structured-output'' \<mapsto> 1] ''ls 'a' > x'' = Some (plain_call ''ls'' [''a''] ''x'')"
  "extract_for (dg_json demo_child) [''ls'' \<mapsto> 1, ''structured-output'' \<mapsto> 1] ''structured-output '7' > y''
     = Some (plain_call ''structured-output'' [''7''] ''y'')"
  "parse_structured (dg_json demo_child) ''7'' (Some demo_schema) = Inr (JNumber (NumU64 7))"
  by code_simp+

theorem delegated_report_grounded_witness:
  "\<exists>rep L. run_conversation demo_child (Some demo_skills) root_agent demo_spec (seed_transcript (\<lambda>_. []) demo_spec) demo_world = (Some rep, L)
     \<and> (\<exists>c \<in> set (rep_calls rep). cr_ok c) \<and> conforms (JNumber (NumU64 7)) demo_schema"
proof -
  have s: "sp_schema demo_spec = Some demo_schema" "sp_max_hops demo_spec > 0" by (simp_all add: demo_spec_def)
  obtain rep L where r: "run_conversation demo_child (Some demo_skills) root_agent demo_spec (seed_transcript (\<lambda>_. []) demo_spec) demo_world
      = (Some rep, L)" "rep_tool_ok rep = 1" "rep_structured rep = Some (JNumber (NumU64 7))"
    using demo_run [OF refl refl refl demo_json_calls(1,2) _ s] demo_json_calls(3) s(1) by metis
  show ?thesis
    using r delegated_report_grounded [OF r(1)] s(1) by (auto simp: verified_def)
qed

end
