(* ===== verification/Ralph_Rounds.thy ===== *)
theory Ralph_Rounds
  imports Delegated_Run Event_Folds
begin

text \<open>
  Fresh-agent iteration, \<open>src/crates/agents/src/ralph.rs\<close>: rounds of new conversations against one objective, each handed
  only the previous round's validated report; and the rows an orchestrated run writes as it goes
  (\<open>ToolSubAgent::run_edge\<close>, \<open>WorkflowBridge\<close> in \<open>src/crates/backend/src/chat.rs\<close>). The conversations are those of
  \<open>Delegated_Run\<close>; the parameter \<open>E\<close> gives the environment of each round. A run's edges are kept in the order they are
  handed to the notifier.
\<close>

section \<open>The edges of a run\<close>

record RunEdge =
  ed_run_id :: nat
  ed_call_seq :: nat
  ed_phase :: "string option"
  ed_member :: "string option"
  ed_member_id :: "nat option"
  ed_state :: RunState

text \<open>\<open>or_next_run\<close> is the counter \<open>NEXT_RUN_ID\<close> of the process.\<close>

record 's orchestra =
  or_world :: "'s run_state"
  or_edges :: "(nat \<times> RunEdge) list"
  or_next_run :: nat

definition next_run_id :: "'s orchestra \<Rightarrow> nat \<times> 's orchestra" where
  "next_run_id W = (or_next_run W, W\<lparr>or_next_run := Suc (or_next_run W)\<rparr>)"

definition run_edge ::
  "bool \<Rightarrow> 's SubAgent \<Rightarrow> nat \<Rightarrow> string option \<Rightarrow> (nat \<times> string) option \<Rightarrow> RunState \<Rightarrow> 's orchestra \<Rightarrow> 's orchestra" where
  "run_edge runs a rid phase member st W =
     (case sa_session_id a of
        None \<Rightarrow> W
      | Some s \<Rightarrow>
          if \<not> runs then W
          else W\<lparr>or_edges := or_edges W @
            [(s, \<lparr>ed_run_id = rid,
                ed_call_seq = (case sa_run_seq a of Some n \<Rightarrow> n | None \<Rightarrow> (case sa_log_seq a of Some n \<Rightarrow> n | None \<Rightarrow> 0)),
                ed_phase = (case phase of Some p \<Rightarrow> if p = [] then None else Some p | None \<Rightarrow> None),
                ed_member = map_option snd member, ed_member_id = map_option fst member, ed_state = st\<rparr>)]\<rparr>)"

definition edge_row :: "RunEdge \<Rightarrow> EventKind" where
  "edge_row e = WorkflowRun (ed_run_id e) (ed_call_seq e) (ed_phase e) (ed_member e) (ed_member_id e) (ed_state e)"

definition orch_log :: "string \<Rightarrow> string \<Rightarrow> 's orchestra \<Rightarrow> 's orchestra" where
  "orch_log level m W = W\<lparr>or_world := emit [LogLine level m] (or_world W)\<rparr>"

section \<open>Reports\<close>

definition RALPH_NAME :: string where "RALPH_NAME = ''ralph''"
definition DEFAULT_ROUNDS :: nat where "DEFAULT_ROUNDS = 8"
definition RALPH_MAX_ROUNDS :: nat where "RALPH_MAX_ROUNDS = 64"
definition MAX_ROUND_HOPS :: nat where "MAX_ROUND_HOPS = 8"
definition MAX_HANDOFF_CHARS :: nat where "MAX_HANDOFF_CHARS = 16384"

definition typed :: "string \<Rightarrow> json" where
  "typed t = JObject [(''type'', JString t)]"

definition strings_schema :: json where
  "strings_schema = JObject [(''items'', typed ''string''), (''type'', JString ''array'')]"

definition report_schema :: json where
  "report_schema = JObject [
     (''properties'', JObject [
        (''blocker'', typed ''string''),
        (''evidence'', strings_schema),
        (''next_steps'', strings_schema),
        (''status'', JObject [(''enum'', JArray (map JString [''continue'', ''complete'', ''blocked''])), (''type'', JString ''string'')]),
        (''summary'', typed ''string'')]),
     (''required'', JArray (map JString [''status'', ''summary''])),
     (''type'', JString ''object'')]"

datatype Status = Continue | Complete | Blocked

fun round_label :: "Status \<Rightarrow> string" where
  "round_label Continue = ''continue''"
| "round_label Complete = ''complete''"
| "round_label Blocked = ''blocked''"

definition report_list :: "json \<Rightarrow> string \<Rightarrow> string list" where
  "report_list v k =
     (case json_get k v of
        Some (JArray a) \<Rightarrow> filter (\<lambda>s. s \<noteq> []) (map trim (List.map_filter as_str a))
      | _ \<Rightarrow> [])"

definition report_blocker :: "json \<Rightarrow> string option" where
  "report_blocker v =
     (case Option.bind (json_get ''blocker'' v) as_str of Some b \<Rightarrow> if trim b \<noteq> [] then Some (trim b) else None | None \<Rightarrow> None)"

definition check_report :: "json_lib \<Rightarrow> json \<Rightarrow> string + Status" where
  "check_report jl v =
     (let status = (case Option.bind (json_get ''status'' v) as_str of Some s \<Rightarrow> s | None \<Rightarrow> [])
      in if status = ''complete'' then
           (if report_list v ''evidence'' = []
            then Inl ''`complete` needs at least one `evidence` entry naming what you ran or read that shows the objective is met''
            else if report_list v ''next_steps'' \<noteq> []
            then Inl (''`complete` cannot list `next_steps` '' @ em_dash @ '' if work remains, the status is `continue`'')
            else Inr Complete)
         else if status = ''continue'' then
           (if report_list v ''next_steps'' = []
            then Inl (''`continue` needs at least one `next_steps` entry '' @ em_dash @ '' the next round starts from nothing else'')
            else if report_blocker v \<noteq> None
            then Inl (''`continue` cannot carry a `blocker` '' @ em_dash @ '' if you are blocked, the status is `blocked`'')
            else Inr Continue)
         else if status = ''blocked'' then
           (if report_blocker v \<noteq> None then Inr Blocked
            else Inl ''`blocked` needs a concrete `blocker` saying exactly what stopped you and what would unblock it'')
         else Inl (''`status` must be continue | complete | blocked, got '' @ jl_debug jl status))"

definition parse_rounds :: "json option \<Rightarrow> nat" where
  "parse_rounds v =
     (let n = (case v of
                 Some (JNumber k) \<Rightarrow> as_u64 k
               | Some (JString s) \<Rightarrow> parse_uint U64_MAX (trim s)
               | _ \<Rightarrow> None)
      in min RALPH_MAX_ROUNDS (max 1 (case n of Some k \<Rightarrow> k | None \<Rightarrow> DEFAULT_ROUNDS)))"

section \<open>Prompts and the closing text\<close>

definition round_system :: "string option \<Rightarrow> string" where
  "round_system cat =
     ''You are one round of a fresh-agent iteration inside the sica-rust desktop app. You have no memory of earlier rounds and no access to their conversations.'' @ nl @ nl
     @ ''The shared workspace '' @ em_dash @ '' its files and its current working tree '' @ em_dash @ '' is the long-term memory and the source of truth. Inspect it before acting. If you were handed a previous round's report, treat it strictly as a bounded handoff: a claim in it is a lead to confirm against the workspace, never a fact to build on.'' @ nl @ nl
     @ ''Make concrete progress this round and verify the result before you report it.'' @ nl @ nl
     @ (case cat of
          Some c \<Rightarrow> ''To call a tool, reply with a SINGLE line of exactly this form and nothing else:'' @ nl @ nl
            @ ''<skill-name> '' @ [quote] @ ''<arg1>'' @ [quote] @ '' '' @ [quote] @ ''<arg2>'' @ [quote] @ '' > <what you want to learn>'' @ nl @ nl
            @ ''One tool call per reply, at most '' @ dec MAX_ROUND_HOPS @ '' in this round.'' @ nl @ nl
            @ ''Available skills:'' @ nl @ c @ nl @ nl
        | None \<Rightarrow> [])
     @ ''Grounding rule, and it is absolute: state a file's contents, a command's output, or whether a path exists ONLY if a tool result in this conversation shows it. Before reporting `complete`, gather the evidence that shows it '' @ em_dash @ '' a command you ran, a file you read '' @ em_dash @ '' and name it. Never report work you did not do.''"

definition round_task :: "(json \<Rightarrow> string) \<Rightarrow> string \<Rightarrow> nat \<Rightarrow> nat \<Rightarrow> json option \<Rightarrow> string" where
  "round_task pretty goal n limit handoff =
     ''Objective (unchanged every round): '' @ goal @ nl @ nl @ ''Round '' @ dec n @ '' of '' @ dec limit @ ''.'' @ nl
     @ (case handoff of
          None \<Rightarrow> nl @ ''This is the first round '' @ em_dash @ '' nothing has been handed to you. Start by inspecting the workspace.'' @ nl
        | Some prev \<Rightarrow> nl @ ''The previous round reported this. It is a handoff, not evidence '' @ em_dash
            @ '' confirm anything you rely on:'' @ nl @ nl @ ''```json'' @ nl @ truncate_chars (pretty prev) MAX_HANDOFF_CHARS @ nl @ ''```'' @ nl)
     @ nl @ ''Work the objective forward now, then report with `structured-output`: `continue` (with next_steps) if work remains, `complete` (with evidence, no next_steps) if the objective is met, `blocked` (with a concrete blocker) if you cannot proceed.''"

definition round_log :: "string \<Rightarrow> nat \<Rightarrow> string list \<Rightarrow> string \<Rightarrow> string" where
  "round_log goal rounds history ending =
     ''# Ralph '' @ em_dash @ '' '' @ ending @ nl @ nl @ ''Objective: '' @ goal @ nl @ nl
     @ (if history = [] then ''No round completed.'' @ nl
        else ''Rounds run: '' @ dec rounds @ nl @ nl @ join_with nl history @ nl)
     @ nl @ ''The workspace holds the actual work '' @ em_dash @ '' this is only the round log. Inspect it before reporting the result onward.''"

definition ralph_fail :: "string \<Rightarrow> nat \<Rightarrow> string list \<Rightarrow> string \<Rightarrow> SkillOutcome" where
  "ralph_fail goal rounds history why = \<lparr>so_ok = False, so_summary = round_log goal rounds history why\<rparr>"

definition history_line :: "nat \<Rightarrow> Status \<Rightarrow> Report \<Rightarrow> json \<Rightarrow> string" where
  "history_line n status rep v =
     ''- round '' @ dec n @ '' ['' @ round_label status
     @ (if rep_tool_ok rep > 0 then [] else middle_dot @ ''UNVERIFIED, no successful tool call'') @ '']: ''
     @ truncate_chars (trim (case Option.bind (json_get ''summary'' v) as_str of Some s \<Rightarrow> s | None \<Rightarrow> [])) 400"

section \<open>The rounds\<close>

record ralph =
  ra_handoff :: "json option"
  ra_history :: "string list"
  ra_outcome :: Status
  ra_round :: nat

definition round_member :: "nat \<Rightarrow> nat \<Rightarrow> nat \<times> string" where
  "round_member n limit = (n, ''round '' @ dec n @ ''/'' @ dec limit)"

definition fail_run :: "bool \<Rightarrow> 's SubAgent \<Rightarrow> nat \<Rightarrow> nat \<Rightarrow> nat \<Rightarrow> 's orchestra \<Rightarrow> 's orchestra" where
  "fail_run runs a rid limit n W =
     run_edge runs a rid None None Failed
       (if n > 0 then run_edge runs a rid None (Some (round_member n limit)) Failed W else W)"

definition round_spec :: "(json \<Rightarrow> string) \<Rightarrow> string option \<Rightarrow> string \<Rightarrow> nat \<Rightarrow> nat \<Rightarrow> json option \<Rightarrow> RunSpec" where
  "round_spec pretty cat goal n limit handoff =
     \<lparr>sp_label = ''ralph round '' @ dec n @ ''/'' @ dec limit, sp_system = round_system cat, sp_seed = [],
      sp_task = round_task pretty goal n limit handoff, sp_max_hops = MAX_ROUND_HOPS, sp_schema = Some report_schema,
      sp_call_seq_start = 0\<rparr>"

text \<open>What a round amounts to: why it ends the run, or its status, its report and what the report says.\<close>

definition round_result :: "json_lib \<Rightarrow> Report option \<Rightarrow> string + Status \<times> json \<times> Report" where
  "round_result jl r =
     (case r of
        None \<Rightarrow> Inl ''a round produced no report (every LLM call failed, or the turn was interrupted)''
      | Some rep \<Rightarrow>
          (case rep_structured rep of
             None \<Rightarrow> Inl ''a round never reported through `structured-output`, so its work cannot be handed on''
           | Some v \<Rightarrow>
               (case check_report jl v of
                  Inl problem \<Rightarrow> Inl (''a round's report was self-contradictory: '' @ problem)
                | Inr status \<Rightarrow> Inr (status, v, rep))))"

definition ralph_round ::
  "'s runner_env \<Rightarrow> bool \<Rightarrow> 's SubAgent \<Rightarrow> registry option \<Rightarrow> string \<Rightarrow> nat \<Rightarrow> nat \<Rightarrow> ralph \<Rightarrow> 's orchestra
   \<Rightarrow> (SkillOutcome + ralph) \<times> 's orchestra" where
  "ralph_round E runs a reg goal limit rid R W0 =
     (let n = Suc (ra_round R);
          W1 = run_edge runs a rid None (Some (round_member n limit)) Started W0;
          spec = round_spec (dg_pretty E) (child_catalogue reg) goal n limit (ra_handoff R)
      in case run_conversation E reg a spec (seed_transcript (dg_pretty E) spec) (or_world W1) of
           (r, L) \<Rightarrow>
             (let W2 = W1\<lparr>or_world := co_world L\<rparr>
              in case round_result (dg_json E) r of
                   Inl why \<Rightarrow> (Inl (ralph_fail goal n (ra_history R) why), fail_run runs a rid limit n W2)
                 | Inr (status, v, rep) \<Rightarrow>
                     (Inr \<lparr>ra_handoff = Some v, ra_history = ra_history R @ [history_line n status rep v], ra_outcome = status, ra_round = n\<rparr>,
                      run_edge runs a rid None (Some (round_member n limit)) Done
                        (orch_log ''INFO'' (''ralph: round '' @ dec n @ ''/'' @ dec limit @ '' '' @ arrow @ '' '' @ round_label status
                           @ '' ('' @ dec (rep_tool_ok rep) @ '' tool call(s) ok)'') W2))))"

text \<open>The loop, by the rounds that are left. \<open>stops n\<close> is what the interrupt token says after \<open>n\<close> rounds.\<close>

fun ralph_rounds ::
  "(nat \<Rightarrow> 's runner_env) \<Rightarrow> (nat \<Rightarrow> bool) \<Rightarrow> bool \<Rightarrow> 's SubAgent \<Rightarrow> registry option \<Rightarrow> string \<Rightarrow> nat \<Rightarrow> nat \<Rightarrow> nat \<Rightarrow> ralph
   \<Rightarrow> 's orchestra \<Rightarrow> (SkillOutcome + ralph) \<times> 's orchestra" where
  "ralph_rounds E stops runs a reg goal limit rid 0 R W = (Inr R, W)"
| "ralph_rounds E stops runs a reg goal limit rid (Suc k) R W =
     (if sa_cancel a \<and> stops (ra_round R)
      then (Inl (ralph_fail goal (ra_round R) (ra_history R)
                   (''interrupted '' @ em_dash @ '' the workspace holds whatever the finished rounds left'')),
            fail_run runs a rid limit 0 W)
      else (case ralph_round (E (ra_round R)) runs a reg goal limit rid R W of
              (Inl out, W1) \<Rightarrow> (Inl out, W1)
            | (Inr R1, W1) \<Rightarrow>
                if ra_outcome R1 \<noteq> Continue then (Inr R1, W1)
                else ralph_rounds E stops runs a reg goal limit rid k R1 W1))"

definition closing_line :: "nat \<Rightarrow> ralph \<Rightarrow> string" where
  "closing_line limit R =
     (case ra_outcome R of
        Complete \<Rightarrow> ''objective reported complete''
      | Blocked \<Rightarrow> ''stopped: blocked '' @ em_dash @ '' ''
          @ (case Option.bind (Option.bind (ra_handoff R) (json_get ''blocker'')) as_str of Some b \<Rightarrow> b | None \<Rightarrow> ''see the last round'')
      | Continue \<Rightarrow> ''stopped at the round limit ('' @ dec limit @ '') with work still outstanding'')"

definition ralph_outcome :: "string \<Rightarrow> nat \<Rightarrow> ralph \<Rightarrow> SkillOutcome" where
  "ralph_outcome goal limit R =
     \<lparr>so_ok = (ra_outcome R \<noteq> Blocked), so_summary = round_log goal (ra_round R) (ra_history R) (closing_line limit R)\<rparr>"

definition ralph_start :: ralph where
  "ralph_start = \<lparr>ra_handoff = None, ra_history = [], ra_outcome = Continue, ra_round = 0\<rparr>"

definition ralph_run ::
  "(nat \<Rightarrow> 's runner_env) \<Rightarrow> (nat \<Rightarrow> bool) \<Rightarrow> bool \<Rightarrow> 's SubAgent \<Rightarrow> registry option \<Rightarrow> string \<Rightarrow> nat \<Rightarrow> 's orchestra
   \<Rightarrow> SkillOutcome \<times> 's orchestra" where
  "ralph_run E stops runs a reg goal limit W0 =
     (case next_run_id W0 of
        (rid, W1) \<Rightarrow>
          (case ralph_rounds E stops runs a reg goal limit rid limit ralph_start (run_edge runs a rid None None Started W1) of
             (Inl out, W2) \<Rightarrow> (out, W2)
           | (Inr R, W2) \<Rightarrow>
               (ralph_outcome goal limit R, run_edge runs a rid None None (if ra_outcome R = Blocked then Failed else Done) W2)))"

definition run_ralph ::
  "(nat \<Rightarrow> 's runner_env) \<Rightarrow> (nat \<Rightarrow> bool) \<Rightarrow> bool \<Rightarrow> 's SubAgent \<Rightarrow> registry option \<Rightarrow> json \<Rightarrow> 's orchestra
   \<Rightarrow> SkillOutcome \<times> 's orchestra" where
  "run_ralph E stops runs a live args W =
     (case (case Option.bind (json_get ''objective'' args) as_str of Some g \<Rightarrow> if trim g \<noteq> [] then Some (trim g) else None | None \<Rightarrow> None) of
        None \<Rightarrow> (failed (''missing or empty `objective` arg '' @ em_dash @ '' state the one fixed goal every round works toward''), W)
      | Some goal \<Rightarrow>
          if \<not> sa_summarizer a
          then (failed (''ralph needs an LLM but none is attached to this call '' @ em_dash @ '' connect an LLM and retry''), W)
          else
            (let limit = parse_rounds (json_get ''max_rounds'' args)
             in ralph_run E stops runs a (child_registry live) goal limit
                  (orch_log ''INFO'' (''ralph: up to '' @ dec limit @ '' fresh round(s) '' @ em_dash @ '' '' @ truncate_chars goal 120) W)))"

section \<open>What a finished loop claims\<close>

definition claim_backed :: "json \<Rightarrow> Status \<Rightarrow> bool" where
  "claim_backed v status \<longleftrightarrow> conforms v report_schema \<and>
     (case status of
        Complete \<Rightarrow> report_list v ''evidence'' \<noteq> [] \<and> report_list v ''next_steps'' = []
      | Continue \<Rightarrow> report_list v ''next_steps'' \<noteq> [] \<and> report_blocker v = None
      | Blocked \<Rightarrow> report_blocker v \<noteq> None)"

lemma check_report_Inr:
  "check_report jl v = Inr st \<Longrightarrow>
     (case st of
        Complete \<Rightarrow> report_list v ''evidence'' \<noteq> [] \<and> report_list v ''next_steps'' = []
      | Continue \<Rightarrow> report_list v ''next_steps'' \<noteq> [] \<and> report_blocker v = None
      | Blocked \<Rightarrow> report_blocker v \<noteq> None)"
  by (auto simp: check_report_def Let_def split: if_splits)

lemma run_structured:
  assumes "run_conversation E base a spec ms w = (Some rep, L)" and "rep_structured rep = Some v" and "sp_schema spec = Some sc"
  shows "conforms v sc"
proof -
  have "settled_from spec ms E (Some rep) L"
    using loop_inv [OF start_inv, of spec ms E a _ w] assms(1) by (metis fst_conv run_conversation_def snd_conv)
  then obtain x where x: "rep = report_of L (rep_text rep) x"
    "\<forall>v. x = Some v \<longrightarrow> parse_structured (dg_json E) (rep_text rep) (sp_schema spec) = Inr v" unfolding settled_from_def by blast
  have "x = Some v" using assms(2) by (subst (asm) x(1)) (simp add: report_of_def)
  then show ?thesis using x(2) assms(3)
    by (auto simp: parse_structured_def Let_def validate_Nil split: sum.splits if_splits)
qed

lemma ralph_round_Inr:
  assumes "ralph_round E runs a reg goal limit rid R W = (Inr R1, W1)"
  shows "ra_round R1 = Suc (ra_round R) \<and> length (ra_history R1) = Suc (length (ra_history R))
    \<and> (\<exists>v. ra_handoff R1 = Some v \<and> claim_backed v (ra_outcome R1))"
  using assms
  by (auto simp: ralph_round_def round_result_def Let_def claim_backed_def round_spec_def
      dest!: check_report_Inr dest: run_structured split: prod.splits sum.splits option.splits)

lemma ralph_rounds_Inr:
  assumes "ralph_rounds E stops runs a reg goal limit rid k R W = (Inr R', W')" and "ra_outcome R = Continue"
  shows "(k = 0 \<and> R' = R) \<or>
    (ra_round R < ra_round R' \<and> ra_round R' \<le> ra_round R + k \<and> (ra_outcome R' = Continue \<longrightarrow> ra_round R' = ra_round R + k)
     \<and> length (ra_history R') + ra_round R = length (ra_history R) + ra_round R'
     \<and> (\<exists>v. ra_handoff R' = Some v \<and> claim_backed v (ra_outcome R')))"
  using assms
proof (induction E stops runs a reg goal limit rid k R W rule: ralph_rounds.induct)
  case (2 E stops runs a reg goal limit rid k R W)
  then have go: "\<not> (sa_cancel a \<and> stops (ra_round R))" by auto
  obtain R1 W1 where r: "ralph_round (E (ra_round R)) runs a reg goal limit rid R W = (Inr R1, W1)"
    using 2(2) go by (auto split: prod.splits sum.splits)
  note one = ralph_round_Inr [OF r]
  show ?case
  proof (cases "ra_outcome R1 = Continue")
    case True
    then have "ralph_rounds E stops runs a reg goal limit rid k R1 W1 = (Inr R', W')" using 2(2) go r by simp
    from 2(1) [OF go r [symmetric] refl _ this True] True one show ?thesis by auto
  next
    case False
    then show ?thesis using 2(2) go r one by auto
  qed
qed auto


section \<open>The tree of a loop\<close>

text \<open>
  A run is folded from its own rows. \<open>run_fold\<close> is that fold on one run; \<open>rows_of\<close> says which rows of a log are those of
  a list of edges.
\<close>

definition run_fold :: "RunEdge list \<Rightarrow> Run \<Rightarrow> Run" where
  "run_fold es r = foldl (\<lambda>r e. run_row (ed_phase e) (ed_member e) (ed_member_id e) (ed_state e) r) r es"

definition rows_of :: "RunEdge list \<Rightarrow> SessionEvent list \<Rightarrow> bool" where
  "rows_of es rows \<longleftrightarrow> map kind rows = map edge_row es"

lemma run_fold_snoc [simp]:
  "run_fold (es @ [e]) r = run_row (ed_phase e) (ed_member e) (ed_member_id e) (ed_state e) (run_fold es r)"
  by (simp add: run_fold_def)

lemma run_row_keeps_id [simp]: "rn_run_id (run_row ph m i st r) = rn_run_id r"
  by (simp add: run_row_def Let_def split: option.splits prod.splits)

lemma run_fold_id [simp]: "rn_run_id (run_fold es r) = rn_run_id r"
  by (induction es arbitrary: r rule: rev_induct) (auto simp: run_fold_def)

lemma position_last: "(\<forall>x \<in> set xs. \<not> P x) \<Longrightarrow> P y \<Longrightarrow> position P (xs @ [y]) = Some (length xs)"
  by (induction xs) auto

lemma runs_fold:
  assumes "rows_of es rows" and "\<forall>e \<in> set es. ed_run_id e = rn_run_id r" and "\<forall>x \<in> set out. rn_run_id x \<noteq> rn_run_id r"
  shows "foldl runs_step (out @ [r]) rows = out @ [run_fold es r]"
  using assms(1,2)
proof (induction es arbitrary: rows rule: rev_induct)
  case Nil
  then show ?case by (simp add: rows_of_def run_fold_def)
next
  case (snoc e es)
  then obtain rows' ev where rows: "rows = rows' @ [ev]" and "rows_of es rows'" and k: "kind ev = edge_row e"
    by (cases rows rule: rev_cases) (auto simp: rows_of_def)
  then have "foldl runs_step (out @ [r]) rows' = out @ [run_fold es r]" using snoc by simp
  then have "foldl runs_step (out @ [r]) rows = runs_step (out @ [run_fold es r]) ev" by (simp add: rows)
  moreover have "position (\<lambda>x. rn_run_id x = rn_run_id r) (out @ [run_fold es r]) = Some (length out)"
    using assms(3) by (intro position_last) auto
  ultimately have "runs_step (out @ [run_fold es r]) ev = out @ [run_fold (es @ [e]) r]"
    using snoc.prems(2) by (simp add: runs_step_def k edge_row_def)
  then show ?case using \<open>foldl runs_step (out @ [r]) rows = _\<close> by metis
qed

definition finished :: "RunMember \<Rightarrow> bool" where
  "finished m \<longleftrightarrow> rm_state m \<noteq> Started"

definition resting :: "nat \<Rightarrow> Run \<Rightarrow> bool" where
  "resting n r \<longleftrightarrow> (rn_phases r = [] \<or> (\<exists>ms. rn_phases r = [\<lparr>ph_title = [], ph_members = ms\<rparr>] \<and> (\<forall>m \<in> set ms. rm_id m \<le> n \<and> finished m)))"

definition working :: "nat \<Rightarrow> Run \<Rightarrow> bool" where
  "working n r \<longleftrightarrow> (\<exists>ms l. rn_phases r = [\<lparr>ph_title = [], ph_members = ms @ [\<lparr>rm_id = n, rm_label = l, rm_state = Started\<rparr>]\<rparr>]
     \<and> (\<forall>m \<in> set ms. rm_id m < n \<and> finished m))"

definition closed_tree :: "Run \<Rightarrow> bool" where
  "closed_tree r \<longleftrightarrow> \<not> rn_open r \<and> (\<forall>p \<in> set (rn_phases r). \<forall>m \<in> set (ph_members p). finished m)"

lemma member_starts: "resting n r \<Longrightarrow> working (Suc n) (run_row None (Some l) (Some (Suc n)) Started r)"
  by (auto simp: resting_def working_def run_row_def ensure_phase_def member_row_def finished_def Let_def less_Suc_eq_le)

lemma member_ends:
  assumes "working n r" and "st \<noteq> Started"
  shows "resting n (run_row None (Some l) (Some n) st r)"
proof -
  obtain ms l' where r: "rn_phases r = [\<lparr>ph_title = [], ph_members = ms @ [\<lparr>rm_id = n, rm_label = l', rm_state = Started\<rparr>]\<rparr>]"
    "\<forall>m \<in> set ms. rm_id m < n \<and> finished m" using assms(1) by (auto simp: working_def)
  have "position (\<lambda>m. rm_id m = n) (ms @ [\<lparr>rm_id = n, rm_label = l', rm_state = Started\<rparr>]) = Some (length ms)"
    using r(2) by (intro position_last) auto
  then show ?thesis using r assms(2)
    by (auto simp: resting_def run_row_def ensure_phase_def member_row_def finished_def Let_def nth_append list_update_append)
qed

lemma run_ends: "resting n r \<Longrightarrow> st \<noteq> Started \<Longrightarrow> closed_tree (run_row None None None st r)"
  by (auto simp: resting_def closed_tree_def run_row_def)

text \<open>The edges a loop has handed out since \<open>base\<close>, and what they fold to.\<close>

definition tree :: "nat \<Rightarrow> nat \<Rightarrow> (nat \<times> RunEdge) list \<Rightarrow> Run \<Rightarrow> 's orchestra \<Rightarrow> (Run \<Rightarrow> bool) \<Rightarrow> bool" where
  "tree s rid base r W P \<longleftrightarrow> (\<exists>es. or_edges W = base @ map (Pair s) es \<and> (\<forall>e \<in> set es. ed_run_id e = rid) \<and> P (run_fold es r))"

lemma tree_edge:
  assumes "tree s rid base r W P" and "sa_session_id a = Some s" and "\<And>x. P x \<Longrightarrow> Q (run_row None (map_option snd m) (map_option fst m) st x)"
  shows "tree s rid base r (run_edge True a rid None m st W) Q"
proof -
  obtain es where es: "or_edges W = base @ map (Pair s) es" "\<forall>e \<in> set es. ed_run_id e = rid" "P (run_fold es r)"
    using assms(1) by (auto simp: tree_def)
  obtain e where e: "or_edges (run_edge True a rid None m st W) = or_edges W @ [(s, e)]" "ed_run_id e = rid"
    "ed_phase e = None" "ed_member e = map_option snd m" "ed_member_id e = map_option fst m" "ed_state e = st"
    by (simp add: run_edge_def assms(2))
  show ?thesis unfolding tree_def
    by (rule exI [of _ "es @ [e]"]) (use es e assms(3) in auto)
qed

lemma tree_world [simp]: "tree s rid base r (W\<lparr>or_world := w\<rparr>) P = tree s rid base r W P"
  by (simp add: tree_def)

lemma tree_log [simp]: "tree s rid base r (orch_log lv m W) P = tree s rid base r W P"
  by (simp add: tree_def orch_log_def)

lemma tree_fail:
  assumes "sa_session_id a = Some s" and "tree s rid base r W (if n = 0 then resting k else working n)"
  shows "tree s rid base r (fail_run True a rid limit n W) closed_tree"
proof (cases "n = 0")
  case True
  then show ?thesis using assms by (auto simp: fail_run_def intro!: tree_edge [where P = "resting k"] run_ends)
next
  case False
  have "tree s rid base r (run_edge True a rid None (Some (round_member n limit)) Failed W) (resting n)"
    using assms False by (intro tree_edge [where P = "working n"]) (auto simp: round_member_def member_ends)
  then show ?thesis using assms False by (auto simp: fail_run_def intro!: tree_edge [where P = "resting n"] run_ends)
qed

lemma ralph_round_tree:
  assumes s: "sa_session_id a = Some s" and t: "tree s rid base r W (resting (ra_round R))"
    and run: "ralph_round E True a reg goal limit rid R W = (res, W')"
  shows "case res of Inl out \<Rightarrow> tree s rid base r W' closed_tree | Inr R1 \<Rightarrow> tree s rid base r W' (resting (ra_round R1))"
proof -
  let ?n = "Suc (ra_round R)"
  let ?W1 = "run_edge True a rid None (Some (round_member ?n limit)) Started W"
  have w: "tree s rid base r ?W1 (working ?n)"
    using s t by (intro tree_edge [where P = "resting (ra_round R)"]) (auto simp: round_member_def member_starts)
  then have d: "tree s rid base r (run_edge True a rid None (Some (round_member ?n limit)) Done (orch_log lv m (?W1\<lparr>or_world := w\<rparr>))) (resting ?n)"
    for lv m w
    using s by (intro tree_edge [where P = "working ?n"]) (auto simp: round_member_def member_ends)
  have f: "tree s rid base r (fail_run True a rid limit ?n (?W1\<lparr>or_world := w\<rparr>)) closed_tree" for w
    using s w by (intro tree_fail) auto
  show ?thesis using run d f
    by (auto simp: ralph_round_def Let_def split: prod.splits sum.splits)
qed

lemma ralph_rounds_tree:
  assumes "sa_session_id a = Some s" and "tree s rid base r W (resting (ra_round R))"
    and "ralph_rounds E stops True a reg goal limit rid k R W = (res, W')"
  shows "case res of Inl out \<Rightarrow> tree s rid base r W' closed_tree | Inr R1 \<Rightarrow> tree s rid base r W' (resting (ra_round R1))"
  using assms
proof (induction k arbitrary: R W)
  case 0
  then show ?case by auto
next
  case (Suc k)
  show ?case
  proof (cases "sa_cancel a \<and> stops (ra_round R)")
    case True
    then show ?thesis using Suc.prems tree_fail [where n = 0 and k = "ra_round R"] by auto
  next
    case False
    obtain x W1 where x: "ralph_round (E (ra_round R)) True a reg goal limit rid R W = (x, W1)" by force
    note one = ralph_round_tree [OF Suc.prems(1,2) x]
    show ?thesis
    proof (cases x)
      case (Inl out)
      then show ?thesis using Suc.prems(3) False x one by auto
    next
      case (Inr R1)
      then have t: "tree s rid base r W1 (resting (ra_round R1))" using one by simp
      show ?thesis using Suc.prems(3) False x Inr t Suc.IH [OF Suc.prems(1) t] by (auto split: if_splits)
    qed
  qed
qed


text \<open>A round that reports completion in its first reply.\<close>

definition demo_report :: json where
  "demo_report = JObject [(''evidence'', JArray [JString ''e'']), (''status'', JString ''complete''), (''summary'', JString ''s'')]"

definition demo_round_env :: "unit runner_env" where
  "demo_round_env = demo_child\<lparr>
     dg_json := \<lparr>jl_from_str = (\<lambda>_. Inr demo_report), jl_print = (\<lambda>_. []), jl_debug = id, jl_alnum = (\<lambda>_. False)\<rparr>,
     dg_chat := (\<lambda>_ _. Some ''structured-output '7' > y'')\<rparr>"

lemma demo_report_ok:
  "parse_structured (dg_json demo_round_env) ''7'' (Some report_schema) = Inr demo_report"
  "check_report (dg_json demo_round_env) demo_report = Inr Complete"
  "extract_for (dg_json demo_round_env) [''structured-output'' \<mapsto> 1] ''structured-output '7' > y''
     = Some (plain_call ''structured-output'' [''7''] ''y'')"
  "llm_call False False (Some ''structured-output '7' > y'') = Some ''structured-output '7' > y''"
  by code_simp+

lemma demo_round_view: "arity (register (structured_skill jl s) []) = [''structured-output'' \<mapsto> 1]"
  by (rule ext) (simp add: arity_def register_def structured_skill_def STRUCTURED_OUTPUT_NAME_def)

lemma demo_conversation:
  assumes "sp_schema spec = Some report_schema"
  shows "\<exists>rep L. run_conversation demo_round_env None a spec ms w = (Some rep, L) \<and> rep_structured rep = Some demo_report"
proof -
  have 1: "dg_chat demo_round_env n ms = Some ''structured-output '7' > y''" "dg_cancelled demo_round_env n = False" for n ms
    by (simp_all add: demo_round_env_def demo_child_def)
  have "llm_call b False (Some ''structured-output '7' > y'') = Some ''structured-output '7' > y''" for b
    using demo_report_ok(4) by (simp add: llm_call_def)
  then show ?thesis
    using demo_report_ok(1,3) assms
    by (simp add: run_conversation_def run_registry_def conv_loop.simps conv_step_def ask_model_def 1 call_in_def demo_round_view
        plain_call_def STRUCTURED_OUTPUT_NAME_def structured_step_def first_raw_def report_of_def conv_start_def)
qed

definition demo_agent :: "unit SubAgent" where
  "demo_agent = root_agent\<lparr>sa_session_id := Some 1\<rparr>"

definition demo_orchestra :: "unit orchestra" where
  "demo_orchestra = \<lparr>or_world = demo_world, or_edges = [], or_next_run = 1\<rparr>"

lemma demo_ralph:
  "\<exists>R W'. ralph_rounds (\<lambda>_. demo_round_env) (\<lambda>_. False) runs demo_agent None ''g'' 2 rid 2 ralph_start W = (Inr R, W') \<and> ra_outcome R = Complete"
proof -
  let ?W1 = "run_edge runs demo_agent rid None (Some (round_member (Suc 0) 2)) Started W"
  let ?spec = "round_spec (dg_pretty demo_round_env) (child_catalogue None) ''g'' (Suc 0) 2 None"
  have sc: "sp_schema ?spec = Some report_schema" by (simp add: round_spec_def)
  obtain rep L where c: "run_conversation demo_round_env None demo_agent ?spec (seed_transcript (dg_pretty demo_round_env) ?spec) (or_world ?W1) = (Some rep, L)"
      "rep_structured rep = Some demo_report"
    using demo_conversation [OF sc] by blast
  have "\<exists>R1 W1. ralph_round demo_round_env runs demo_agent None ''g'' 2 rid ralph_start W = (Inr R1, W1) \<and> ra_outcome R1 = Complete"
    using c demo_report_ok(2) by (simp add: ralph_round_def ralph_start_def round_result_def Let_def)
  then show ?thesis by (auto simp: numeral_2_eq_2 demo_agent_def root_agent_def)
qed


definition demo_rows :: "'s orchestra \<Rightarrow> SessionEvent list" where
  "demo_rows W = map (\<lambda>e. \<lparr>seq = 0, ts = 0, kind = edge_row (snd e)\<rparr>) (or_edges W)"


section \<open>Where the tree is not what it should be\<close>

text \<open>The edges of one loop with one round, in order.\<close>

definition one_round :: "nat \<Rightarrow> string \<Rightarrow> RunEdge list" where
  "one_round cs l =
     (let e = (\<lambda>m st. \<lparr>ed_run_id = 1, ed_call_seq = cs, ed_phase = None, ed_member = m, ed_member_id = map_option (\<lambda>_. 1) m, ed_state = st\<rparr>)
      in [e None Started, e (Some l) Started, e (Some l) Done, e None Done])"

definition logged :: "RunEdge list \<Rightarrow> SessionEvent list" where
  "logged es = map (\<lambda>e. \<lparr>seq = 0, ts = 0, kind = edge_row e\<rparr>) es"

text \<open>
  The counter of run ids starts again with the process, the rows stay in the log: the first run of a new process folds
  into the first run of the old one, and its own round, done, is shown as still running.
\<close>

lemma restarted_ids_share_a_tree:
  "workflow_runs (logged (one_round 5 ''a'' @ one_round 9 ''b'')) =
     [\<lparr>rn_run_id = 1, rn_call_seq = 5, rn_state = Done, rn_open = False,
       rn_phases = [\<lparr>ph_title = [], ph_members = [\<lparr>rm_id = 1, rm_label = ''a'', rm_state = Done\<rparr>,
         \<lparr>rm_id = 1, rm_label = ''b'', rm_state = Started\<rparr>]\<rparr>]\<rparr>]"
  by code_simp

text \<open>Each row is appended by a task of its own. Two that land in the other order leave a finished round open.\<close>

lemma swapped_rows_stay_open:
  "workflow_runs (logged [one_round 5 ''a'' ! 0, one_round 5 ''a'' ! 2, one_round 5 ''a'' ! 1, one_round 5 ''a'' ! 3]) =
     [\<lparr>rn_run_id = 1, rn_call_seq = 5, rn_state = Done, rn_open = False,
       rn_phases = [\<lparr>ph_title = [], ph_members = [\<lparr>rm_id = 1, rm_label = ''a'', rm_state = Started\<rparr>]\<rparr>]\<rparr>]"
  by code_simp

text \<open>An interrupt writes the end row of the run.\<close>

lemma interrupted_loop_is_closed:
  assumes "sa_cancel a" and "stops 0" and "sa_session_id a = Some s"
  shows "\<exists>e. or_edges (snd (ralph_rounds E stops True a reg goal limit rid (Suc k) ralph_start W)) = or_edges W @ [(s, e)]
    \<and> ed_member e = None \<and> ed_state e = Failed"
  using assms by (simp add: ralph_start_def fail_run_def run_edge_def)

end
