(* ===== verification/Agent_Team.thy ===== *)
theory Agent_Team
  imports Ralph_Rounds Prompt_Assembly Turn_Context
begin

text \<open>
  A team of teammates on one goal, \<open>src/crates/agents/src/team.rs\<close>: the plan and its readings, the rounds with their
  shared board, the typed reports whose claims cite calls, the lead's synthesis and the text the caller sees.

  A round runs its conversations concurrently. They share only the world of the tool calls; here they run whole, one
  after the other, in an order that is a parameter of the round. Other parameters: the environment of each conversation,
  what the interrupt token says at each look, and the lead's answer.
\<close>

section \<open>Plans\<close>

definition AGENT_TEAM_NAME :: string where "AGENT_TEAM_NAME = ''agent-team''"
definition MAX_TEAMMATES :: nat where "MAX_TEAMMATES = 6"
definition TEAM_MAX_ROUNDS :: nat where "TEAM_MAX_ROUNDS = 3"
definition MAX_TEAMMATE_HOPS :: nat where "MAX_TEAMMATE_HOPS = 4"
definition TEAM_REPORT_CHARS :: nat where "TEAM_REPORT_CHARS = 6000"
definition BOARD_REPORT_CHARS :: nat where "BOARD_REPORT_CHARS = 1500"

record Teammate =
  mt_role :: string
  mt_task :: string

record TeamSpec =
  ts_teammates :: "Teammate list"
  ts_shared :: string
  ts_rounds :: nat

definition nonblank :: "string option \<Rightarrow> string option" where
  "nonblank s = (case s of Some t \<Rightarrow> if trim t \<noteq> [] then Some (trim t) else None | None \<Rightarrow> None)"

definition finish_spec :: "Teammate list \<Rightarrow> string \<Rightarrow> nat \<Rightarrow> string + TeamSpec" where
  "finish_spec mates shared rounds =
     (if mates = [] then Inl ''the team plan names no teammates''
      else Inr \<lparr>ts_teammates = take MAX_TEAMMATES mates, ts_shared = shared, ts_rounds = min TEAM_MAX_ROUNDS (max 1 rounds)\<rparr>)"

definition numbered_mate :: "nat \<Rightarrow> string" where
  "numbered_mate i = ''teammate-'' @ dec (i + 1)"

fun team_entries :: "nat \<Rightarrow> json list \<Rightarrow> string + Teammate list" where
  "team_entries i [] = Inr []"
| "team_entries i (e # es) =
     (case nonblank (Option.bind (json_get ''task'' e) as_str) of
        None \<Rightarrow> Inl (''team['' @ dec i @ ''] is missing a non-empty `task`'')
      | Some task \<Rightarrow>
          map_sum id (\<lambda>ms. \<lparr>mt_role = (case nonblank (Option.bind (json_get ''role'' e) as_str) of Some r \<Rightarrow> r | None \<Rightarrow> numbered_mate i),
              mt_task = task\<rparr> # ms) (team_entries (Suc i) es))"

definition spec_from_json :: "json \<Rightarrow> string + TeamSpec" where
  "spec_from_json obj =
     (case json_get ''team'' obj of
        Some (JArray team) \<Rightarrow>
          (case team_entries 0 team of
             Inl e \<Rightarrow> Inl e
           | Inr mates \<Rightarrow>
               finish_spec mates (case Option.bind (json_get ''shared'' obj) as_str of Some s \<Rightarrow> s | None \<Rightarrow> [])
                 (min 255 (case Option.bind (json_get ''rounds'' obj) json_as_u64 of Some n \<Rightarrow> n | None \<Rightarrow> 1)))
      | _ \<Rightarrow> Inl ''`team` must be an array of {role, task} objects'')"

text \<open>\<open>str::split("||")\<close>.\<close>

function split_bars :: "string \<Rightarrow> string list" where
  "split_bars s =
     (case str_find s ''||'' of
        None \<Rightarrow> [s]
      | Some i \<Rightarrow> take i s # split_bars (drop (i + 2) s))"
  by pat_completeness auto
termination by (relation "measure length") (auto dest: str_find_Some)

definition compact_mate :: "nat \<Rightarrow> string \<Rightarrow> Teammate" where
  "compact_mate i part =
     (case split_once CHR '':'' part of
        Some (r, t) \<Rightarrow>
          if trim r \<noteq> [] \<and> trim t \<noteq> [] then \<lparr>mt_role = trim r, mt_task = trim t\<rparr>
          else \<lparr>mt_role = numbered_mate i, mt_task = part\<rparr>
      | None \<Rightarrow> \<lparr>mt_role = numbered_mate i, mt_task = part\<rparr>)"

definition parse_spec :: "json_lib \<Rightarrow> json \<Rightarrow> string + TeamSpec" where
  "parse_spec jl args =
     (if json_get ''team'' args \<noteq> None then spec_from_json args
      else case nonblank (Option.bind (json_get ''plan'' args) as_str) of
        None \<Rightarrow> Inl (''missing `plan` arg '' @ em_dash @ '' pass `role: task || role: task` or a JSON object with a `team` array'')
      | Some pl \<Rightarrow>
          if hd pl = CHR ''{'' \<or> hd pl = CHR ''['' then
            (case jl_from_str jl pl of
               Inl e \<Rightarrow> Inl (''plan looks like JSON but does not parse: '' @ je_text e)
             | Inr (JArray a) \<Rightarrow> spec_from_json (JObject [(''team'', JArray a)])
             | Inr v \<Rightarrow> spec_from_json v)
          else
            finish_spec
              (map (\<lambda>(i, p). compact_mate i p)
                 (filter (\<lambda>(i, p). p \<noteq> []) (List.enumerate 0 (map trim (split_bars pl))))) [] 1)"

section \<open>Reports and their claims\<close>

definition claim_schema :: json where
  "claim_schema = JObject [
     (''properties'', JObject [(''evidence'', strings_schema), (''text'', typed ''string'')]),
     (''required'', JArray [JString ''text'', JString ''evidence'']),
     (''type'', JString ''object'')]"

definition teammate_schema :: json where
  "teammate_schema = JObject [
     (''properties'', JObject [
        (''claims'', JObject [(''items'', claim_schema), (''minItems'', JNumber (NumU64 1)), (''type'', JString ''array'')]),
        (''open_questions'', strings_schema)]),
     (''required'', JArray [JString ''claims'']),
     (''type'', JString ''object'')]"

definition id_char :: "char \<Rightarrow> bool" where
  "id_char c = (is_lower c \<or> is_upper c \<or> is_digit c \<or> c = CHR ''-'')"

definition citation_id :: "string \<Rightarrow> string" where
  "citation_id raw =
     (case split_ws raw of
        [] \<Rightarrow> []
      | w # _ \<Rightarrow> rev (dropWhile (\<lambda>c. \<not> id_char c) (rev (dropWhile (\<lambda>c. \<not> id_char c) w))))"

definition str_items :: "string \<Rightarrow> json \<Rightarrow> string list" where
  "str_items k v = (case json_get k v of Some (JArray a) \<Rightarrow> List.map_filter as_str a | _ \<Rightarrow> [])"

definition good_citations :: "string set \<Rightarrow> json \<Rightarrow> string list" where
  "good_citations ids claim = filter (\<lambda>e. citation_id e \<in> ids) (str_items ''evidence'' claim)"

definition claim_line :: "string set \<Rightarrow> json \<Rightarrow> string" where
  "claim_line ids claim =
     (let t = trim (case Option.bind (json_get ''text'' claim) as_str of Some t \<Rightarrow> t | None \<Rightarrow> []);
          evidence = str_items ''evidence'' claim; good = good_citations ids claim
      in if good = []
         then ''- unverified: '' @ t @ ''  ('' @ (if evidence = [] then ''no evidence cited''
                else ''cites '' @ join_with '', '' evidence @ '', which named no successful tool call'') @ '')'' @ nl
         else ''- '' @ t @ ''  ['' @ join_with '', '' good @ '']'' @ nl)"

definition render_claims :: "json \<Rightarrow> string set \<Rightarrow> string \<times> nat \<times> nat" where
  "render_claims structured ids =
     (let claims = (case json_get ''claims'' structured of Some (JArray a) \<Rightarrow> a | _ \<Rightarrow> []);
          questions = filter (\<lambda>q. trim q \<noteq> []) (str_items ''open_questions'' structured)
      in (concat (map (claim_line ids) claims)
            @ (if questions = [] then [] else nl @ ''Open questions:'' @ nl @ concat (map (\<lambda>q. ''- '' @ trim q @ nl) questions)),
          length claims, length (filter (\<lambda>c. good_citations ids c \<noteq> []) claims)))"

definition member_id :: "nat \<Rightarrow> nat \<Rightarrow> nat" where
  "member_id round_no i = round_no * 1000 + i"

record TeammateOutcome =
  to_report :: string
  to_tool_ok :: nat
  to_tool_err :: nat
  to_claims :: nat
  to_cited :: nat
  to_structured :: bool

definition grounded :: "TeammateOutcome \<Rightarrow> bool" where
  "grounded r = (if to_structured r then to_cited r > 0 else to_tool_ok r > 0)"

definition provenance :: "TeammateOutcome \<Rightarrow> string" where
  "provenance r =
     (if to_structured r then
        (if to_claims r = 0 then '' '' @ em_dash @ '' UNVERIFIED (reported no claims)''
         else if to_cited r = to_claims r then []
         else if to_cited r > 0
         then '' '' @ em_dash @ '' PARTLY VERIFIED ('' @ dec (to_cited r) @ ''/'' @ dec (to_claims r) @ '' claims cite a successful tool call)''
         else '' '' @ em_dash @ '' UNVERIFIED (no claim cites a successful tool call)'')
      else if to_tool_ok r > 0
      then '' '' @ em_dash @ '' UNSTRUCTURED ('' @ dec (to_tool_ok r) @ '' tool call(s) succeeded, but claims are not cited)''
      else if to_tool_err r > 0
      then '' '' @ em_dash @ '' UNVERIFIED (all '' @ dec (to_tool_err r) @ '' tool call(s) failed)''
      else '' '' @ em_dash @ '' UNVERIFIED (no tool call made)'')"

definition heading :: "TeammateOutcome option \<Rightarrow> string" where
  "heading r = (case r of Some x \<Rightarrow> provenance x | None \<Rightarrow> [])"

section \<open>Prompts, the board and the lead\<close>

definition roster_line :: "string \<Rightarrow> Teammate \<Rightarrow> string" where
  "roster_line me m = ''- '' @ mt_role m @ '': '' @ truncate_chars (mt_task m) 120 @ (if mt_role m = me then ''  (you)'' else []) @ nl"

definition teammate_charter :: "(json \<Rightarrow> string) \<Rightarrow> Teammate \<Rightarrow> TeamSpec \<Rightarrow> string option \<Rightarrow> string" where
  "teammate_charter pretty mate spec cat =
     ''You are `'' @ mt_role mate @ ''`, one teammate on a small agent team inside the sica-rust desktop app. Work ONLY on your own task; trust your teammates to handle theirs.'' @ nl @ nl @ ''Team roster:'' @ nl
     @ concat (map (roster_line (mt_role mate)) (ts_teammates spec))
     @ (if trim (ts_shared spec) \<noteq> [] then nl @ ''Shared briefing: '' @ trim (ts_shared spec) @ nl else [])
     @ (case cat of
          Some c \<Rightarrow> nl @ ''You may use tools. To call one, reply with a SINGLE line of exactly this form and nothing else:'' @ nl @ nl
            @ ''<skill-name> '' @ [quote] @ ''<arg1>'' @ [quote] @ '' '' @ [quote] @ ''<arg2>'' @ [quote] @ '' > <what you want to learn>'' @ nl @ nl
            @ ''One tool call per reply, at most '' @ dec MAX_TEAMMATE_HOPS @ '' per round. Every tool result you receive is labelled with an id like `[id: call-2]` '' @ em_dash @ '' quote those ids as the evidence for your claims.'' @ nl @ nl
            @ ''Available skills:'' @ nl @ c
        | None \<Rightarrow> [])
     @ nl @ ''Grounding rule, and it is absolute: state a file's contents, a command's output, or whether a path exists ONLY if a tool result in this conversation shows it. You cannot see the disk otherwise. A claim with no evidence id is reported to the team lead as unverified, and an evidence id that names no successful tool result is reported the same way '' @ em_dash @ '' inventing an id is worse than admitting you did not check. Quote exact values (numbers, paths, errors) verbatim from tool output.''
     @ structured_directive pretty teammate_schema
     @ nl @ nl @ ''One claim per finding, each with the ids of the tool results that back it (`\"evidence\": [\"call-1\", \"call-3\"]`). Put anything you could not check into `open_questions` instead of asserting it.''"

definition teammate_system :: "(json \<Rightarrow> string) \<Rightarrow> Teammate \<Rightarrow> TeamSpec \<Rightarrow> string option \<Rightarrow> string" where
  "teammate_system pretty mate spec cat =
     (let charter = teammate_charter pretty mate spec cat
      in case render_prompt \<lparr>as_sections = [\<lparr>sc_name = ''persona'', sc_order = MEMORY, sc_text = charter\<rparr>], as_contexts = [],
                as_vars = (\<lambda>_. None)\<rparr> of
           Inr r \<Rightarrow> rd_system r
         | Inl _ \<Rightarrow> charter)"

definition board_entry :: "Teammate \<times> TeammateOutcome option \<Rightarrow> string" where
  "board_entry mr =
     nl @ ''### '' @ mt_role (fst mr) @ heading (snd mr) @ nl
     @ (case snd mr of Some r \<Rightarrow> truncate_chars (trim (to_report r)) BOARD_REPORT_CHARS | None \<Rightarrow> ''(no report yet)'') @ nl"

definition render_board :: "nat \<Rightarrow> Teammate list \<Rightarrow> TeammateOutcome option list \<Rightarrow> string" where
  "render_board round_no mates reports =
     ''## Team board '' @ em_dash @ '' end of round '' @ dec round_no @ nl @ concat (map board_entry (zip mates reports))"

definition board_message :: "string \<Rightarrow> string" where
  "board_message board = board @ nl @ nl @ ''Above is what every teammate produced last round. Coordinate: avoid duplicating their work, resolve any conflicts with your own findings, and report again. You may make tool calls first. A line starting `unverified:` was not backed by any tool result '' @ em_dash @ '' treat it as a guess and check anything you intend to build on. The `[call-N]` ids in another teammate's report belong to its conversation, not yours: cite only ids from your own tool results.''"

definition lead_entry :: "Teammate \<times> TeammateOutcome option \<Rightarrow> string" where
  "lead_entry mr =
     ''## Report from `'' @ mt_role (fst mr) @ ''`'' @ heading (snd mr) @ '' (task: '' @ truncate_chars (mt_task (fst mr)) 200 @ '')'' @ nl
     @ (case snd mr of Some r \<Rightarrow> truncate_chars (trim (to_report r)) TEAM_REPORT_CHARS | None \<Rightarrow> ''(no report)'') @ nl @ nl"

definition LEAD_SYSTEM :: string where
  "LEAD_SYSTEM = ''You are the lead of a small agent team. Merge your teammates' reports into ONE coherent deliverable. Each report is a list of claims: a claim ending in a `[call-N]` citation was checked against a tool result that really ran, and a line starting `unverified:` was not. Keep every cited fact (numbers, paths, versions, errors) verbatim, drop duplication, and flag any point where two reports contradict each other instead of silently picking one. Never restate an unverified claim as established fact: either attribute it (\"`role` believes '' @ ellipsis @ '', unverified\") or leave it out. Carry open questions through as open questions. Output only the merged result '' @ em_dash @ '' no preamble.''"

text \<open>\<open>lead\<close> is what the interrupt token says while the lead is asked, and the lead's answer.\<close>

definition synthesize ::
  "bool \<Rightarrow> bool \<times> (ChatMessage list \<Rightarrow> string option) \<Rightarrow> TeamSpec \<Rightarrow> TeammateOutcome option list \<Rightarrow> string option" where
  "synthesize token lead spec reports =
     llm_call token (fst lead) (snd lead
       [chat_text ''system'' LEAD_SYSTEM,
        chat_text ''user'' ((if trim (ts_shared spec) \<noteq> [] then ''Team briefing: '' @ trim (ts_shared spec) @ nl @ nl else [])
          @ concat (map lead_entry (zip (ts_teammates spec) reports)))])"

section \<open>Rounds\<close>

record mate =
  ma_transcript :: "ChatMessage list"
  ma_trail :: "CallRecord list"
  ma_report :: "TeammateOutcome option"

definition mate_spec :: "Teammate \<Rightarrow> CallRecord list \<Rightarrow> RunSpec" where
  "mate_spec m trail = \<lparr>sp_label = ''agent-team `'' @ mt_role m @ ''`'', sp_system = [], sp_seed = [], sp_task = [],
     sp_max_hops = MAX_TEAMMATE_HOPS, sp_schema = Some teammate_schema, sp_call_seq_start = length trail\<rparr>"

definition mate_outcome :: "CallRecord list \<Rightarrow> Report \<Rightarrow> TeammateOutcome" where
  "mate_outcome trail rep =
     (let ok = length (filter cr_ok trail); bad = length trail - ok
      in case rep_structured rep of
           Some v \<Rightarrow>
             (case render_claims v (ok_ids trail) of
                (rendered, claims, cited) \<Rightarrow>
                  \<lparr>to_report = rendered, to_tool_ok = ok, to_tool_err = bad, to_claims = claims, to_cited = cited, to_structured = True\<rparr>)
         | None \<Rightarrow>
             \<lparr>to_report = rep_text rep, to_tool_ok = ok, to_tool_err = bad, to_claims = 0, to_cited = 0, to_structured = False\<rparr>)"

text \<open>Whether the round brought a report, the teammate afterwards (an earlier report stands if it did not), the world.\<close>

definition run_teammate ::
  "'s runner_env \<Rightarrow> registry option \<Rightarrow> 's SubAgent \<Rightarrow> Teammate \<Rightarrow> mate \<Rightarrow> 's run_state \<Rightarrow> bool \<times> mate \<times> 's run_state" where
  "run_teammate E reg a m st w =
     (case run_conversation E reg a (mate_spec m (ma_trail st)) (ma_transcript st) w of
        (None, L) \<Rightarrow> (False, st\<lparr>ma_transcript := co_transcript L\<rparr>, co_world L)
      | (Some rep, L) \<Rightarrow>
          (let trail = ma_trail st @ rep_calls rep
           in (True, \<lparr>ma_transcript = co_transcript L, ma_trail = trail, ma_report = Some (mate_outcome trail rep)\<rparr>, co_world L)))"

text \<open>The conversations of a round, in some order of the teammates. Each index is run once.\<close>

fun run_mates ::
  "(nat \<Rightarrow> 's runner_env) \<Rightarrow> registry option \<Rightarrow> 's SubAgent \<Rightarrow> Teammate list \<Rightarrow> nat list \<Rightarrow> bool list \<times> mate list \<times> 's run_state
   \<Rightarrow> bool list \<times> mate list \<times> 's run_state" where
  "run_mates E reg a ms [] st = st"
| "run_mates E reg a ms (i # is') (oks, mates, w) =
     (case run_teammate (E i) reg a (ms ! i) (mates ! i) w of
        (ok, m', w') \<Rightarrow> run_mates E reg a ms is' (oks[i := ok], mates[i := m'], w'))"

definition round_name :: "nat \<Rightarrow> string" where
  "round_name r = ''round '' @ dec r"

definition mate_edges ::
  "bool \<Rightarrow> 's SubAgent \<Rightarrow> nat \<Rightarrow> nat \<Rightarrow> (Teammate \<times> RunState) list \<Rightarrow> 's orchestra \<Rightarrow> 's orchestra" where
  "mate_edges runs a rid r ms W =
     fold (\<lambda>(i, m, st) V. run_edge runs a rid (Some (round_name r)) (Some (member_id r i, mt_role m)) st V) (List.enumerate 0 ms) W"

definition push_board :: "string \<Rightarrow> mate \<Rightarrow> mate" where
  "push_board board m = m\<lparr>ma_transcript := ma_transcript m @ [chat_text ''user'' (board_message board)]\<rparr>"

definition team_round ::
  "(nat \<Rightarrow> 's runner_env) \<Rightarrow> nat list \<Rightarrow> bool \<Rightarrow> registry option \<Rightarrow> 's SubAgent \<Rightarrow> TeamSpec \<Rightarrow> nat \<Rightarrow> nat \<Rightarrow> mate list \<times> 's orchestra
   \<Rightarrow> mate list \<times> 's orchestra" where
  "team_round E order runs reg a spec rid r st =
     (let ms = ts_teammates spec; n = length ms;
          mates = (if r > 1 then map (push_board (render_board (r - 1) ms (map ma_report (fst st)))) (fst st) else fst st);
          W1 = mate_edges runs a rid r (map (\<lambda>m. (m, Started)) ms) (snd st)
      in case run_mates E reg a ms order (replicate n False, mates, or_world W1) of
           (oks, mates', w) \<Rightarrow>
             (let W2 = mate_edges runs a rid r (map (\<lambda>(m, ok). (m, if ok then Done else Failed)) (zip ms oks)) (W1\<lparr>or_world := w\<rparr>);
                  reports = map ma_report mates'
              in (mates', orch_log ''INFO'' (''agent-team: round '' @ dec r @ ''/'' @ dec (ts_rounds spec) @ '' done '' @ em_dash @ '' ''
                    @ dec (length (filter (\<lambda>x. x \<noteq> None) reports)) @ ''/'' @ dec (length reports) @ '' report(s) in, ''
                    @ dec (length (filter grounded (List.map_filter id reports))) @ '' backed by tool output'') W2)))"

text \<open>The loop over the rounds that are left. \<open>stops r\<close> is what the interrupt token says before round \<open>r\<close>.\<close>

fun team_rounds ::
  "(nat \<Rightarrow> nat \<Rightarrow> 's runner_env) \<Rightarrow> (nat \<Rightarrow> nat list) \<Rightarrow> (nat \<Rightarrow> bool) \<Rightarrow> bool \<Rightarrow> registry option \<Rightarrow> 's SubAgent \<Rightarrow> TeamSpec \<Rightarrow> nat
   \<Rightarrow> nat list \<Rightarrow> mate list \<times> 's orchestra \<Rightarrow> mate list \<times> 's orchestra" where
  "team_rounds E order stops runs reg a spec rid [] st = st"
| "team_rounds E order stops runs reg a spec rid (r # rs) st =
     (if sa_cancel a \<and> stops r then st
      else team_rounds E order stops runs reg a spec rid rs (team_round (E r) (order r) runs reg a spec rid r st))"

definition team_start :: "(json \<Rightarrow> string) \<Rightarrow> TeamSpec \<Rightarrow> string option \<Rightarrow> mate list" where
  "team_start pretty spec cat =
     map (\<lambda>m. \<lparr>ma_transcript = [chat_text ''system'' (teammate_system pretty m spec cat), chat_text ''user'' (''Your task: '' @ mt_task m)],
                ma_trail = [], ma_report = None\<rparr>) (ts_teammates spec)"

section \<open>What the caller sees\<close>

definition TEAM_WARNING :: string where
  "TEAM_WARNING = ''**Warning: not one claim below cites a tool result that ran successfully '' @ em_dash @ '' nothing here was checked against the machine. Treat every statement about files, commands or output as unverified.**'' @ nl @ nl"

definition report_entry :: "bool \<Rightarrow> Teammate \<times> TeammateOutcome option \<Rightarrow> string" where
  "report_entry headed mr =
     (if headed then nl @ ''### '' @ mt_role (fst mr) @ heading (snd mr) @ nl @ nl else [])
     @ (case snd mr of Some r \<Rightarrow> trim_end (truncate_chars (trim (to_report r)) TEAM_REPORT_CHARS)
        | None \<Rightarrow> ''(no report '' @ em_dash @ '' LLM calls failed)'') @ nl"

definition team_text :: "Teammate list \<Rightarrow> TeammateOutcome option list \<Rightarrow> string option \<Rightarrow> string" where
  "team_text ms reports synthesis =
     trim ((if list_all (\<lambda>r. \<not> grounded r) (List.map_filter id reports) then TEAM_WARNING else [])
       @ (case synthesis of
            Some s \<Rightarrow> ''## Team result'' @ nl @ nl @ trim s @ nl @ nl @ ''## Teammate reports'' @ nl
          | None \<Rightarrow>
              if length ms > 1 then ''(lead synthesis unavailable '' @ em_dash @ '' individual reports below)'' @ nl @ nl @ ''## Teammate reports'' @ nl
              else [])
       @ concat (map (report_entry (length ms > 1 \<or> synthesis \<noteq> None)) (zip ms reports)))"

definition run_team ::
  "(nat \<Rightarrow> nat \<Rightarrow> 's runner_env) \<Rightarrow> json_lib \<Rightarrow> (json \<Rightarrow> string) \<Rightarrow> (nat \<Rightarrow> nat list) \<Rightarrow> (nat \<Rightarrow> bool)
   \<Rightarrow> bool \<times> (ChatMessage list \<Rightarrow> string option) \<Rightarrow> bool \<Rightarrow> 's SubAgent \<Rightarrow> registry option \<Rightarrow> json \<Rightarrow> 's orchestra
   \<Rightarrow> SkillOutcome \<times> 's orchestra" where
  "run_team E jl pretty order stops lead runs a live args W0 =
     (case parse_spec jl args of
        Inl e \<Rightarrow> (failed e, W0)
      | Inr spec \<Rightarrow>
          if \<not> sa_summarizer a
          then (failed (''agent-team needs an LLM but none is attached to this call '' @ em_dash @ '' connect an LLM and retry''), W0)
          else
            (let ms = ts_teammates spec; reg = child_registry live;
                 cat = (case map_option (catalogue_markdown CHILD_EXCLUDED) reg of Some c \<Rightarrow> if c = [] then None else Some c | None \<Rightarrow> None);
                 W1 = orch_log ''INFO'' (''agent-team: '' @ dec (length ms) @ '' teammate(s) ['' @ join_with '', '' (map mt_role ms) @ ''], ''
                        @ dec (ts_rounds spec) @ '' round(s)'') W0
             in case next_run_id W1 of
                  (rid, W2) \<Rightarrow>
                    (case team_rounds E order stops runs reg a spec rid [1..<Suc (ts_rounds spec)]
                            (team_start pretty spec cat, run_edge runs a rid None None Started W2) of
                       (mates, W3) \<Rightarrow>
                         (let reports = map ma_report mates
                          in if sa_cancel a \<and> stops (Suc (ts_rounds spec)) then (failed ''agent-team interrupted'', W3)
                             else if list_all (\<lambda>r. r = None) reports
                             then (failed ''agent-team: no teammate produced a report (every LLM call failed or returned nothing)'',
                                   run_edge runs a rid None None Failed W3)
                             else (\<lparr>so_ok = True, so_summary = team_text ms reports
                                      (if length ms > 1 then synthesize (sa_cancel a) lead spec reports else None)\<rparr>,
                                   run_edge runs a rid None None Done W3)))))"

section \<open>What a report rests on\<close>

definition shown :: "CallRecord \<Rightarrow> ChatMessage list \<Rightarrow> bool" where
  "shown c ms \<longleftrightarrow> (\<exists>s. chat_text ''user'' (result_text c s) \<in> set ms)"

definition backed :: "TeammateOutcome \<Rightarrow> CallRecord \<Rightarrow> bool" where
  "backed r c \<longleftrightarrow> cr_ok c \<and> (to_structured r \<longrightarrow> (\<exists>pre e post. to_report r = pre @ e @ post \<and> citation_id e = cr_id c))"

definition mate_ok :: "mate \<Rightarrow> bool" where
  "mate_ok m \<longleftrightarrow>
     map cr_id (ma_trail m) = map (\<lambda>i. ''call-'' @ dec (i + 1)) [0..<length (ma_trail m)]
     \<and> (\<forall>c \<in> set (ma_trail m). shown c (ma_transcript m))
     \<and> (\<forall>r. ma_report m = Some r \<longrightarrow> grounded r \<longrightarrow> (\<exists>c \<in> set (ma_trail m). backed r c))"

lemma map_upt_shift: "map (\<lambda>i. f (k + i)) [0..<n] = map f [k..<k + n]"
  by (induction n) auto

lemma conversation_settled:
  assumes "run_conversation E base a spec ms w = (r, L)"
  shows "settled_from spec ms E r L"
  using loop_inv [OF start_inv, of spec ms E a _ w] assms by (metis fst_conv run_conversation_def snd_conv)

lemma join_with_part: "e \<in> set xs \<Longrightarrow> \<exists>pre post. join_with sep xs = pre @ e @ post"
proof (induction sep xs rule: join_with.induct)
  case (3 sep x y xs)
  show ?case
  proof (cases "e = x")
    case True
    then have "join_with sep (x # y # xs) = [] @ e @ (sep @ join_with sep (y # xs))" by simp
    then show ?thesis by blast
  next
    case False
    then obtain pre post where "join_with sep (y # xs) = pre @ e @ post" using 3 by auto
    then have "join_with sep (x # y # xs) = (x @ sep @ pre) @ e @ post" by simp
    then show ?thesis by blast
  qed
next
  case (2 sep x)
  then show ?case by (intro exI [of _ "[]"]) simp
qed simp

lemma claim_line_part:
  assumes "e \<in> set (good_citations ids c)"
  shows "\<exists>pre post. claim_line ids c = pre @ e @ post"
proof -
  obtain pre post where j: "join_with '', '' (good_citations ids c) = pre @ e @ post" using join_with_part [OF assms] by blast
  have "good_citations ids c \<noteq> []" using assms by auto
  then obtain t where "claim_line ids c = (''- '' @ t @ ''  ['' @ pre) @ e @ (post @ '']'' @ nl)"
    by (auto simp: claim_line_def Let_def j)
  then show ?thesis by blast
qed

lemma concat_part: "x \<in> set xs \<Longrightarrow> \<exists>pre post. concat (map f xs) = pre @ f x @ post"
  by (metis append.assoc concat.simps(2) concat_append list.map(2) map_append split_list)

lemma rendered_citation:
  assumes "render_claims v ids = (t, n, k)" and "k > 0"
  shows "\<exists>pre e post. t = pre @ e @ post \<and> citation_id e \<in> ids"
proof -
  let ?claims = "case json_get ''claims'' v of Some (JArray a) \<Rightarrow> a | _ \<Rightarrow> []"
  obtain qs where t: "t = concat (map (claim_line ids) ?claims) @ qs" using assms(1) by (auto simp: render_claims_def Let_def)
  have "filter (\<lambda>c. good_citations ids c \<noteq> []) ?claims \<noteq> []" using assms by (auto simp: render_claims_def Let_def)
  then obtain c where c: "c \<in> set ?claims" "good_citations ids c \<noteq> []" by (auto simp: filter_empty_conv)
  then obtain e where e: "e \<in> set (good_citations ids c)" by (cases "good_citations ids c") auto
  obtain p1 q1 where 1: "concat (map (claim_line ids) ?claims) = p1 @ claim_line ids c @ q1" using concat_part [OF c(1)] by blast
  obtain p2 q2 where 2: "claim_line ids c = p2 @ e @ q2" using claim_line_part [OF e] by blast
  have "t = (p1 @ p2) @ e @ (q2 @ q1 @ qs)" by (simp add: t 1 2)
  moreover have "citation_id e \<in> ids" using e by (simp add: good_citations_def)
  ultimately show ?thesis by blast
qed

lemma mate_outcome_backed:
  assumes "grounded (mate_outcome trail rep)"
  shows "\<exists>c \<in> set trail. backed (mate_outcome trail rep) c"
proof (cases "rep_structured rep")
  case None
  then show ?thesis using assms by (auto simp: grounded_def mate_outcome_def Let_def backed_def filter_empty_conv)
next
  case (Some v)
  obtain t n k where r: "render_claims v (ok_ids trail) = (t, n, k)" by (cases "render_claims v (ok_ids trail)")
  have "k > 0" using assms by (simp add: grounded_def mate_outcome_def Let_def Some r)
  from rendered_citation [OF r this] obtain pre e post c where "t = pre @ e @ post" "c \<in> set trail" "cr_ok c" "citation_id e = cr_id c"
    by (auto simp: ok_ids_def)
  moreover have "to_report (mate_outcome trail rep) = t" by (simp add: mate_outcome_def Let_def Some r)
  ultimately show ?thesis unfolding backed_def by blast
qed

lemma shown_append: "shown c ms \<Longrightarrow> shown c (ms @ ext)"
  by (auto simp: shown_def)

lemma run_teammate_ok:
  assumes "mate_ok st" and "run_teammate E reg a m st w = (ok, st', w')"
  shows "mate_ok st'"
proof -
  obtain r L where c: "run_conversation E reg a (mate_spec m (ma_trail st)) (ma_transcript st) w = (r, L)" by force
  note s = conversation_settled [OF c]
  have inv: "conv_inv (mate_spec m (ma_trail st)) (ma_transcript st) L" using s by (simp add: settled_from_def)
  then obtain ext where more: "co_transcript L = ma_transcript st @ ext" by (auto simp: conv_inv_def)
  show ?thesis
  proof (cases r)
    case None
    then show ?thesis using assms c by (auto simp: run_teammate_def mate_ok_def shown_append more)
  next
    case (Some rep)
    then have calls: "rep_calls rep = co_calls L" using s by (metis Report.select_convs(6) report_of_def settled_from_def)
    have "map cr_id (ma_trail st @ co_calls L) = map (\<lambda>i. ''call-'' @ dec (i + 1)) [0..<length (ma_trail st @ co_calls L)]"
    proof -
      have "map cr_id (co_calls L) = map (\<lambda>i. ''call-'' @ dec (i + 1)) [length (ma_trail st)..<length (ma_trail st) + length (co_calls L)]"
        using inv map_upt_shift [of "\<lambda>i. ''call-'' @ dec (i + 1)" "length (ma_trail st)" "length (co_calls L)"]
        by (simp add: conv_inv_def mate_spec_def)
      then show ?thesis using assms(1) by (simp add: mate_ok_def upt_add_eq_append [of 0 "length (ma_trail st)" "length (co_calls L)"])
    qed
    moreover have "\<forall>c \<in> set (ma_trail st @ co_calls L). shown c (co_transcript L)"
    proof -
      have "shown c (co_transcript L)" if "c \<in> set (ma_trail st)" for c
        using that assms(1) by (simp add: mate_ok_def shown_append more)
      moreover have "shown c (co_transcript L)" if "c \<in> set (co_calls L)" for c
        using that inv unfolding conv_inv_def shown_def by blast
      ultimately show ?thesis by auto
    qed
    ultimately show ?thesis using assms(2) c Some mate_outcome_backed [of "ma_trail st @ co_calls L" rep]
      by (auto simp: run_teammate_def Let_def calls mate_ok_def)
  qed
qed

lemma run_mates_ok:
  assumes "list_all mate_ok mates" and "run_mates E reg a ms is' (oks, mates, w) = (oks', mates', w')" and "set is' \<subseteq> {..<length mates}"
  shows "list_all mate_ok mates' \<and> length mates' = length mates"
  using assms
proof (induction is' arbitrary: oks mates w)
  case (Cons i is')
  obtain ok m' w1 where r: "run_teammate (E i) reg a (ms ! i) (mates ! i) w = (ok, m', w1)" by (cases "run_teammate (E i) reg a (ms ! i) (mates ! i) w")
  have "mate_ok (mates ! i)" using Cons.prems by (auto simp: list_all_length)
  then have "mate_ok m'" by (rule run_teammate_ok [OF _ r])
  then have "list_all mate_ok (mates[i := m'])" using Cons.prems(1) set_update_subset_insert [of mates i m']
    by (auto simp: list_all_iff)
  then show ?case using Cons.IH [of "mates[i := m']"] Cons.prems r by auto
qed simp

lemma team_round_ok:
  assumes "list_all mate_ok (fst st)" and "set order \<subseteq> {..<length (fst st)}"
  shows "list_all mate_ok (fst (team_round E order runs reg a spec rid r st)) \<and> length (fst (team_round E order runs reg a spec rid r st)) = length (fst st)"
proof -
  have p: "mate_ok m \<Longrightarrow> mate_ok (push_board b m)" for b m
    by (auto simp: mate_ok_def push_board_def shown_def)
  let ?mates = "if r > 1 then map (push_board (render_board (r - 1) (ts_teammates spec) (map ma_report (fst st)))) (fst st) else fst st"
  have "list_all mate_ok ?mates" "length ?mates = length (fst st)" using assms(1) p by (auto simp: list_all_iff)
  moreover obtain oks mates' w where "run_mates E reg a (ts_teammates spec) order
      (replicate (length (ts_teammates spec)) False, ?mates,
       or_world (mate_edges runs a rid r (map (\<lambda>m. (m, Started)) (ts_teammates spec)) (snd st))) = (oks, mates', w)"
    by (metis surj_pair)
  ultimately show ?thesis using assms(2) run_mates_ok [of ?mates]
    by (simp add: team_round_def Let_def)
qed

lemma team_rounds_ok:
  assumes "list_all mate_ok (fst st)" and "\<And>r. set (order r) \<subseteq> {..<length (fst st)}"
  shows "list_all mate_ok (fst (team_rounds E order stops runs reg a spec rid rs st))"
  using assms
proof (induction rs arbitrary: st)
  case (Cons r rs)
  note one = team_round_ok [OF Cons.prems, where E = "E r" and runs = runs and reg = reg and a = a and spec = spec and rid = rid and r = r]
  show ?case using Cons.prems Cons.IH [of "team_round (E r) (order r) runs reg a spec rid r st"] one by simp
qed simp

lemma team_start_ok: "list_all mate_ok (team_start pretty spec cat)"
  by (auto simp: team_start_def mate_ok_def list_all_iff)

text \<open>
  C29: In a team's result, every report that is not headed as unverified rests on a tool result. Whatever the teammates
  answer and however many rounds run or fail, such a teammate made a call that succeeded, was shown its result under the
  call's id and, if its report is typed, cites that very id.
\<close>

theorem team_reports_grounded:
  assumes "fst (team_rounds E order stops runs reg a spec rid rs (team_start pretty spec cat, W)) = mates"
    and "\<And>r. set (order r) \<subseteq> {..<length (ts_teammates spec)}"
    and "i < length mates" and "ma_report (mates ! i) = Some r" and "grounded r"
  shows "\<exists>c \<in> set (ma_trail (mates ! i)). backed r c \<and> shown c (ma_transcript (mates ! i))"
proof -
  have "list_all mate_ok mates"
    using team_rounds_ok [of "(team_start pretty spec cat, W)" order] team_start_ok assms(1,2) by (auto simp: team_start_def)
  then have "mate_ok (mates ! i)" using assms(3) by (simp add: list_all_length)
  then show ?thesis using assms(4,5) by (auto simp: mate_ok_def)
qed

text \<open>A teammate that makes one call and reports one claim citing it.\<close>

definition demo_claims :: json where
  "demo_claims = JObject [(''claims'', JArray [JObject [(''evidence'', JArray [JString ''call-1'']), (''text'', JString ''b is there'')]])]"

definition demo_mate_env :: "unit runner_env" where
  "demo_mate_env = demo_child\<lparr>dg_json := \<lparr>jl_from_str = (\<lambda>_. Inr demo_claims), jl_print = (\<lambda>_. []), jl_debug = id, jl_alnum = (\<lambda>_. False)\<rparr>\<rparr>"

definition demo_team :: TeamSpec where
  "demo_team = \<lparr>ts_teammates = [\<lparr>mt_role = ''r'', mt_task = ''t''\<rparr>], ts_shared = [], ts_rounds = 1\<rparr>"

lemma demo_mate_calls:
  "extract_for (dg_json demo_mate_env) [''ls'' \<mapsto> 1, ''structured-output'' \<mapsto> 1] ''ls 'a' > x'' = Some (plain_call ''ls'' [''a''] ''x'')"
  "extract_for (dg_json demo_mate_env) [''ls'' \<mapsto> 1, ''structured-output'' \<mapsto> 1] ''structured-output '7' > y''
     = Some (plain_call ''structured-output'' [''7''] ''y'')"
  "parse_structured (dg_json demo_mate_env) ''7'' (Some teammate_schema) = Inr demo_claims"
  "snd (render_claims demo_claims {''call-1''}) = (1, 1)"
  by code_simp+

lemma dec_first: "dec (Suc 0) = ''1''"
  by code_simp

lemma demo_mate:
  "\<exists>m' w' r. run_teammate demo_mate_env (Some demo_skills) root_agent \<lparr>mt_role = ''r'', mt_task = ''t''\<rparr>
     \<lparr>ma_transcript = ms, ma_trail = [], ma_report = None\<rparr> demo_world = (True, m', w') \<and> ma_report m' = Some r \<and> grounded r"
proof -
  let ?spec = "mate_spec \<lparr>mt_role = ''r'', mt_task = ''t''\<rparr> []"
  have E: "dg_run demo_mate_env = dg_run demo_child" "dg_chat demo_mate_env = dg_chat demo_child" "dg_cancelled demo_mate_env = dg_cancelled demo_child"
    by (simp_all add: demo_mate_env_def)
  have sc: "sp_schema ?spec = Some teammate_schema" "sp_max_hops ?spec > 0" by (simp_all add: mate_spec_def MAX_TEAMMATE_HOPS_def)
  obtain rep L where r: "run_conversation demo_mate_env (Some demo_skills) root_agent ?spec ms demo_world = (Some rep, L)"
      "rep_tool_ok rep = 1" "rep_structured rep = Some demo_claims" "length (rep_calls rep) = 1"
    using demo_run [OF E demo_mate_calls(1,2) _ sc, of demo_claims ms] demo_mate_calls(3) sc(1) by auto
  obtain c where c: "rep_calls rep = [c]" using r(4) by (cases "rep_calls rep") auto
  have s: "settled_from ?spec ms demo_mate_env (Some rep) L" by (rule conversation_settled [OF r(1)])
  then have "co_calls L = [c]" "co_ok L = 1"
    using c r(2) by (metis Report.select_convs(3,6) report_of_def settled_from_def)+
  moreover have "map cr_id (co_calls L) = map (\<lambda>i. ''call-'' @ dec (0 + i + 1)) [0..<length (co_calls L)]"
      "co_ok L = length (filter cr_ok (co_calls L))"
    using s by (simp_all add: settled_from_def conv_inv_def mate_spec_def)
  ultimately have "cr_id c = ''call-1''" "cr_ok c"
    by (simp_all add: dec_first split: if_splits)
  then have ids: "ok_ids [c] = {''call-1''}" by (simp add: ok_ids_def)
  obtain t where "render_claims demo_claims {''call-1''} = (t, 1, 1)" using demo_mate_calls(4) by (metis prod.collapse)
  then have "grounded (mate_outcome [c] rep)" by (simp add: grounded_def mate_outcome_def Let_def r(3) ids)
  then show ?thesis using r(1) by (simp add: run_teammate_def Let_def c)
qed

theorem team_reports_grounded_witness:
  "\<exists>m. fst (team_rounds (\<lambda>_ _. demo_mate_env) (\<lambda>_. [0]) (\<lambda>_. False) True (Some demo_skills) root_agent demo_team 1 [1]
       (team_start (\<lambda>_. []) demo_team None, \<lparr>or_world = demo_world, or_edges = [], or_next_run = 1\<rparr>)) = [m]
     \<and> (\<exists>c \<in> set (ma_trail m). cr_ok c \<and> shown c (ma_transcript m))"
proof -
  let ?ms = "[chat_text ''system'' (teammate_system (\<lambda>_. []) \<lparr>mt_role = ''r'', mt_task = ''t''\<rparr> demo_team None), chat_text ''user'' (''Your task: '' @ ''t'')]"
  let ?E = "(\<lambda>_ _. demo_mate_env) :: nat \<Rightarrow> nat \<Rightarrow> unit runner_env"
  let ?W = "\<lparr>or_world = demo_world, or_edges = [], or_next_run = 1\<rparr>"
  obtain m' w' r where m: "run_teammate demo_mate_env (Some demo_skills) root_agent \<lparr>mt_role = ''r'', mt_task = ''t''\<rparr>
     \<lparr>ma_transcript = ?ms, ma_trail = [], ma_report = None\<rparr> demo_world = (True, m', w')" "ma_report m' = Some r" "grounded r"
    using demo_mate by metis
  have one: "fst (team_rounds ?E (\<lambda>_. [0]) (\<lambda>_. False) True (Some demo_skills) root_agent demo_team 1 [1] (team_start (\<lambda>_. []) demo_team None, ?W)) = [m']"
    using m(1) by (simp add: team_round_def Let_def mate_edges_def run_edge_def root_agent_def demo_team_def team_start_def)
  have "\<exists>c \<in> set (ma_trail m'). backed r c \<and> shown c (ma_transcript m')"
    using team_reports_grounded [OF one, of 0 r] m(2,3) by (simp add: demo_team_def)
  then show ?thesis using one unfolding backed_def by blast
qed

section \<open>Where the ids fail\<close>

text \<open>
  A round that fails after a call leaves the trail as it was, so the next round numbers its calls from the same place: the
  transcript then shows two results under one id.
\<close>

lemma failed_round_repeats_ids:
  assumes "run_conversation E reg a (mate_spec m (ma_trail st)) (ma_transcript st) w = (None, L)" and "co_calls L \<noteq> []"
  shows "\<exists>st'. run_teammate E reg a m st w = (False, st', co_world L)
    \<and> (\<exists>c. shown c (ma_transcript st') \<and> cr_id c = ''call-'' @ dec (sp_call_seq_start (mate_spec m (ma_trail st')) + 1))"
proof -
  have inv: "conv_inv (mate_spec m (ma_trail st)) (ma_transcript st) L"
    using conversation_settled [OF assms(1)] by (simp add: settled_from_def)
  have h: "hd (co_calls L) \<in> set (co_calls L)" using assms(2) by simp
  have ids: "map cr_id (co_calls L) = map (\<lambda>i. ''call-'' @ dec (length (ma_trail st) + i + 1)) [0..<length (co_calls L)]"
    using inv by (simp add: conv_inv_def mate_spec_def)
  have "cr_id (hd (co_calls L)) = map cr_id (co_calls L) ! 0" using assms(2) by (simp add: hd_conv_nth)
  also have "\<dots> = ''call-'' @ dec (length (ma_trail st) + 1)" by (subst ids) (simp add: assms(2))
  finally have "cr_id (hd (co_calls L)) = ''call-'' @ dec (length (ma_trail st) + 1)" .
  moreover have "shown (hd (co_calls L)) (co_transcript L)" using inv h unfolding conv_inv_def shown_def by blast
  moreover have "run_teammate E reg a m st w = (False, st\<lparr>ma_transcript := co_transcript L\<rparr>, co_world L)"
    by (simp add: run_teammate_def assms(1))
  moreover have "sp_call_seq_start (mate_spec m (ma_trail (st\<lparr>ma_transcript := co_transcript L\<rparr>))) = length (ma_trail st)"
    by (simp add: mate_spec_def)
  ultimately show ?thesis by (metis mate.select_convs(1) mate.surjective mate.update_convs(1))
qed

text \<open>A claim that cites one call that ran and one that never did is rendered as cited.\<close>

lemma mixed_claim_passes:
  "claim_line {''call-1''} (JObject [(''evidence'', JArray [JString ''call-1'', JString ''call-9'']), (''text'', JString ''b'')])
     = ''- b  [call-1]'' @ nl"
  by code_simp

end
