(* ===== verification/Spec2Isabelle.thy ===== *)
theory Spec2Isabelle
  imports Compaction_Correct Project_Folds Reminders Goals Inbox_Queue Retry_Policy Harness_Controls
    Log_Invariants Loop_Guard Turn_Slots Call_Extract Pipeline_Safety Approval_Broker Hook_Policy Long_Term
    Workspace_Registry Reply_Stream Completion_Check Session_Memory Skill_Registry Control_Dispatch Native_Batch
    Prompt_Assembly Turn_Loop Background_Jobs Ralph_Rounds Agent_Team
begin

text \<open>
  A verification development for SICA, a coding agent with a Rust backend. Sources are under
  \<open>src/crates\<close>; \<open>sica-core\<close> holds the event log, \<open>agents\<close> the agent's policies and skills, \<open>backend\<close> the hub
  that runs sessions, \<open>llm\<close> the client of the model server.

  \<^bold>\<open>The program and its parts.\<close> A session is an append-only log of events. What the model sees is a fold of
  the log; so are the goal, the reminders and the statistics. A turn starts from a message (or a goal round,
  a reminder, a queued message), records it with durable context snapshots, sends the trimmed history to the
  model, extracts a tool call from the reply, runs it through a chain of policies, approvals and hooks, appends
  the result, and repeats. When the history is too long it is compacted: old rows are replaced by a summary.
  At the end of a turn the hub decides whether a queued message or a goal round runs next.

  \<^bold>\<open>Theories.\<close>
  \<^item> \<open>Sica_Prelude\<close>: strings as UTF-8 byte lists, machine integers with their wrap-around written out, JSON
    values, list operations of the Rust library, and the simplification collections the other theories use.
  \<^item> \<open>Retain\<close>: byte-budgeted cuts of texts (\<open>retain.rs\<close>). \<open>Protocol_Types\<close>, \<open>Session_Event\<close>: the enumerations,
    messages and events (\<open>protocol\<close>, \<open>message.rs\<close>, \<open>event.rs\<close>), the fold \<open>derive_surface\<close> and the migration of
    old logs. \<open>Surface_Theory\<close>: what that fold shows, in closed form. \<open>Session_Log\<close>: the log, forking and the
    flush to its file (\<open>sessions_store.rs\<close>).
  \<^item> \<open>Context_Budget\<close>: the wire form of a history, the trimmer and the token meter. \<open>Compaction\<close> and
    \<open>Compaction_Correct\<close>: the split, pruning, the summarizer's request and attempts, \<open>compact_session\<close> and the
    rewind of an edited prompt, with the refinement to a splice of the history.
  \<^item> \<open>Project_Folds\<close>, \<open>Event_Folds\<close>: the projections of \<open>project.rs\<close>. \<open>Log_Invariants\<close>: the checks the backend
    runs on its own log.
  \<^item> \<open>Goals\<close>: the goal state machine, its skills and command, the decision at the end of a turn. \<open>Reminders\<close>:
    parsing, storing and delivering reminders. \<open>Inbox_Queue\<close>: the queue of messages, with a queue interface as
    a locale. \<open>Harness_Controls\<close>: the control skills. \<open>Retry_Policy\<close>: failures of the model server.
  \<^item> \<open>Turn_Context\<close>, \<open>Workspace_Instructions\<close>: the context snapshots recorded at the start of a turn.
    \<open>Turn_Slots\<close>: the slot of a session as a transition system over sends, steers, starts, hops and ends.
  \<^item> \<open>Call_Line\<close>, \<open>Call_Extract\<close>: the tool-call parser (\<open>parse_tool_call.rs\<close>), all its formats. \<open>Work_Paths\<close>: how
    a path argument is resolved. \<open>Tool_Policies\<close>: permission modes, plan mode, read-before-edit and the
    repeat reminder (\<open>pipeline.rs\<close>). \<open>Loop_Guard\<close>: the tracker of identical calls. \<open>Approval_Broker\<close>: approvals
    and questions. \<open>Hook_Policy\<close>: the user's hooks. \<open>Tool_Run\<close>: one tool run through all of them
    (\<open>subagent.rs\<close>, \<open>spill.rs\<close>), with the policy interface as a locale. \<open>Pipeline_Safety\<close>: what that run
    guarantees.
  \<^item> \<open>Reply_Stream\<close>: reading one reply of the model server (\<open>streaming.rs\<close>, \<open>turn.rs\<close>). \<open>Completion_Check\<close>: the
    audit of a finished turn and its automatic continuations (\<open>verdict.rs\<close>).
  \<^item> \<open>Long_Term\<close>: the long-term memory store and the memory skills. \<open>Workspace_Registry\<close>: the registry of
    folders and its projection onto sessions. \<open>Session_Memory\<close>: the memory of one session, its writers and the
    keeper that updates it when the session is idle (\<open>session_memory.rs\<close>, \<open>memory_keeper.rs\<close>).
  \<^item> \<open>Skill_Registry\<close>: skills, their catalogue and the binding of arguments (\<open>registry.rs\<close>, \<open>ptc.rs\<close>).
    \<open>Prompt_Assembly\<close>: the system prompt, tool modes and agent presets (\<open>prompt.rs\<close>, \<open>preset.rs\<close>).
    \<open>Control_Dispatch\<close>: the dispatch of every control over the state of a session. \<open>Native_Batch\<close>: a batch of
    native tool calls. \<open>Turn_Loop\<close>: the loop of a turn, which composes all of the above (\<open>chat.rs\<close>).
  \<^item> \<open>Background_Jobs\<close>: the background jobs of a session, their output windows and their watchers (\<open>jobs.rs\<close>).
  \<^item> \<open>Delegated_Run\<close>: the conversation of a delegated child and its schema check (\<open>runner.rs\<close>, \<open>delegate.rs\<close>), with
    \<open>Corrections\<close>, the texts that ask for another reply. \<open>Ralph_Rounds\<close>: the rounds of \<open>ralph.rs\<close> and the rows of an
    orchestrated run. \<open>Agent_Team\<close>: teams of such conversations (\<open>team.rs\<close>).

  \<^bold>\<open>Modelling conventions.\<close> Strings are lists of bytes, so lengths and cuts are those of Rust; functions that
  count characters say so. Integers whose overflow matters carry \<open>wrap_u32\<close> or \<open>wrap_i64\<close>; others are naturals
  or integers. An error is the left side of a sum, a panic or an endless loop is \<open>None\<close>. Asynchronous code holds
  a lock for each step that is one function here; where a lock is released in between, the other side is a
  parameter or a step of a transition system. The clock, the file system, hashes, JSON reading and printing,
  regular expressions, calendar arithmetic, the Unicode tables beyond ASCII and the model server are
  parameters, fields of an environment record.

  \<^bold>\<open>Fuel and termination.\<close> Loops are structural recursions or carry a measure (the eviction of memories, the
  trimmer, the call scanner); the search for a free memory id is a partial function with a lemma that gives the
  condition under which it returns. The loop of a turn terminates by a credit of hops, nudges and retries; the
  credit of a fresh turn is 143, so it sends at most 144 requests; a delegated conversation sends four more than its
  budget of calls. Pruning and the repair of JSON are iterated at most once, and a property
  states that a second run changes nothing.

  \<^bold>\<open>What is shown.\<close> The derived history is what the log's own rules describe, compaction is a splice of it,
  forks keep it, and files follow the log. A goal runs a bounded number of rounds and only a person can widen
  its authority. Every queued message is run, in order. No mutating tool runs in read-only or plan mode, a
  write stays in the workspace, an approval needs an explicit allow, a started call is closed in the log. A
  rendered call is read back. A batch of calls is answered call by call, the state in memory is the one a restart
  reads from the log, and every turn ends with its end row. A
  delegated conversation ends, and what it, a Ralph loop or a team reports as verified rests on a tool result it was
  shown. Memories a person chose are kept, and the sidebar is a partition of the sessions.
  Lemmas that end in a counterexample to a comment or an intention of the source are listed as findings.

  \<^bold>\<open>Not modelled.\<close> The connection to the model server, the dispatch of requests, the bodies of the
  built-in skills that are file or process I/O, workflow scripts (the semantics of their engine is not in the
  repository), the model evaluator, the idealist
  ticket service, platform code and the frontend.
\<close>

end
